(* ===== verification/Prelude.thy ===== *)
theory Prelude
  imports Main "HOL-Library.Word" "HOL-Library.Monad_Syntax"
begin

text \<open>
  Shared vocabulary of the development: bytes, bounded arrays, little- and big-endian reads of a
  memory image and C strings.

  A memory image (an \<open>mmap\<close>ed file, a message, a property) is a list of bytes. A read
  outside it is undefined behaviour in C and is the value \<open>None\<close> here: a theorem that a
  function returns \<open>Some\<close> therefore also says that it reads inside the image. The machine
  is little-endian, as all targets of the tools are.
\<close>

unbundle bit_operations_syntax

type_synonym byte = "8 word"
type_synonym mem = "byte list"

named_theorems mem_simps \<open>reads and writes inside a memory image or an array\<close>

section \<open>Fixed-size C arrays\<close>

text \<open>An array \<open>T a[n]\<close> is a function with its length beside it; an access at or past the
  length is \<open>None\<close>.\<close>

definition arr_get :: "nat \<Rightarrow> (nat \<Rightarrow> 'a) \<Rightarrow> nat \<Rightarrow> 'a option" where
  "arr_get n a i = (if i < n then Some (a i) else None)"

definition arr_set :: "nat \<Rightarrow> (nat \<Rightarrow> 'a) \<Rightarrow> nat \<Rightarrow> 'a \<Rightarrow> (nat \<Rightarrow> 'a) option" where
  "arr_set n a i v = (if i < n then Some (a(i := v)) else None)"

lemma arr_get_in [mem_simps, simp]: "i < n \<Longrightarrow> arr_get n a i = Some (a i)"
  by (simp add: arr_get_def)

lemma arr_set_in [mem_simps, simp]: "i < n \<Longrightarrow> arr_set n a i v = Some (a(i := v))"
  by (simp add: arr_set_def)

lemma arr_get_Some_iff: "arr_get n a i = Some v \<longleftrightarrow> i < n \<and> v = a i"
  by (auto simp: arr_get_def)

lemma arr_get_out: "n \<le> i \<Longrightarrow> arr_get n a i = None"
  by (simp add: arr_get_def)

section \<open>Arithmetic of power-of-two masks\<close>

lemma nat_and_mask: "(x::nat) AND (2 ^ k - 1) = x mod 2 ^ k"
  by (simp only: mask_eq_exp_minus_1 [symmetric] take_bit_eq_mask [symmetric] take_bit_eq_mod)

lemma nat_or_shift:
  assumes "(x::nat) < 2 ^ k"
  shows "push_bit k y OR x = y * 2 ^ k + x"
proof -
  have "x = take_bit k x" using assms by (simp add: take_bit_nat_eq_self)
  then have "push_bit k y AND x = push_bit k y AND take_bit k x" by simp
  also have "\<dots> = 0" by (rule bit_eqI) (simp add: bit_simps)
  finally show ?thesis by (simp add: disjunctive_add_eq_or [symmetric] push_bit_eq_mult)
qed

lemma bit_less_exp: "(x::nat) < 2 ^ k \<Longrightarrow> bit x n \<Longrightarrow> n < k"
  by (metis bit_take_bit_iff take_bit_nat_eq_self)

section \<open>Reading memory\<close>

definition rd8 :: "mem \<Rightarrow> nat \<Rightarrow> byte option" where
  "rd8 m i = (if i < length m then Some (m ! i) else None)"

text \<open>\<open>n\<close> bytes at offset \<open>i\<close>, the least (or the most) significant first.\<close>

fun le_val :: "mem \<Rightarrow> nat" where
  "le_val [] = 0"
| "le_val (b # bs) = unat b + 256 * le_val bs"

definition be_val :: "mem \<Rightarrow> nat" where
  "be_val bs = le_val (rev bs)"

definition slice :: "mem \<Rightarrow> nat \<Rightarrow> nat \<Rightarrow> mem option" where
  "slice m i n = (if i + n \<le> length m then Some (take n (drop i m)) else None)"

definition rd_le :: "nat \<Rightarrow> mem \<Rightarrow> nat \<Rightarrow> nat option" where
  "rd_le n m i = map_option le_val (slice m i n)"

definition rd_be :: "nat \<Rightarrow> mem \<Rightarrow> nat \<Rightarrow> nat option" where
  "rd_be n m i = map_option be_val (slice m i n)"

text \<open>A C string: the bytes up to the terminator, which has to be inside the image; and the
  bounded form of \<open>strncpy\<close>/\<open>strndup\<close>, which stops after \<open>n\<close> bytes.\<close>

fun cstr_of :: "mem \<Rightarrow> mem option" where
  "cstr_of [] = None"
| "cstr_of (b # bs) = (if b = 0 then Some [] else map_option (Cons b) (cstr_of bs))"

fun cstrn_of :: "nat \<Rightarrow> mem \<Rightarrow> mem option" where
  "cstrn_of 0 bs = Some []"
| "cstrn_of (Suc n) [] = None"
| "cstrn_of (Suc n) (b # bs) = (if b = 0 then Some [] else map_option (Cons b) (cstrn_of n bs))"

definition cstr_at :: "mem \<Rightarrow> nat \<Rightarrow> mem option" where
  "cstr_at m i = cstr_of (drop i m)"

definition cstrn_at :: "mem \<Rightarrow> nat \<Rightarrow> nat \<Rightarrow> mem option" where
  "cstrn_at m i n = cstrn_of n (drop i m)"

text \<open>String literals.\<close>

definition str :: "string \<Rightarrow> mem" where
  "str s = map of_char s"

text \<open>\<open>memmem\<close> (and \<open>strstr\<close> on strings): offset of the first occurrence.\<close>

fun prefix_of :: "'a list \<Rightarrow> 'a list \<Rightarrow> bool" where
  "prefix_of [] h = True"
| "prefix_of (n # ns) [] = False"
| "prefix_of (n # ns) (h # hs) = (n = h \<and> prefix_of ns hs)"

fun memmem :: "'a list \<Rightarrow> 'a list \<Rightarrow> nat option" where
  "memmem [] needle = (if needle = [] then Some 0 else None)"
| "memmem (h # hs) needle =
     (if prefix_of needle (h # hs) then Some 0 else map_option Suc (memmem hs needle))"

definition strstr :: "'a list \<Rightarrow> 'a list \<Rightarrow> bool" where
  "strstr hay needle \<longleftrightarrow> memmem hay needle \<noteq> None"

lemma slice_Some_iff: "slice m i n = Some xs \<longleftrightarrow> i + n \<le> length m \<and> xs = take n (drop i m)"
  by (auto simp: slice_def)

lemma slice_in [mem_simps]: "i + n \<le> length m \<Longrightarrow> slice m i n = Some (take n (drop i m))"
  by (simp add: slice_def)

lemma slice_window:
  "slice m p n = Some w \<Longrightarrow> j + k \<le> n \<Longrightarrow> take k (drop j w) = take k (drop (p + j) m)"
  by (auto simp: slice_def drop_take min_def add.commute split: if_splits)

lemma rd8_in [mem_simps]: "i < length m \<Longrightarrow> rd8 m i = Some (m ! i)"
  by (simp add: rd8_def)

lemma rd8_drop: "drop i m = b # t \<Longrightarrow> rd8 m i = Some b"
  unfolding rd8_def by (metis drop_eq_Nil2 linorder_not_le list.discI nth_via_drop)

lemma rd_le_in [mem_simps]: "i + n \<le> length m \<Longrightarrow> rd_le n m i = Some (le_val (take n (drop i m)))"
  by (simp add: rd_le_def slice_in)

lemma rd_be_in [mem_simps]: "i + n \<le> length m \<Longrightarrow> rd_be n m i = Some (be_val (take n (drop i m)))"
  by (simp add: rd_be_def slice_in)

lemma rd_out: "length m < i + n \<Longrightarrow> rd_le n m i = None" "length m < i + n \<Longrightarrow> rd_be n m i = None"
  by (simp_all add: rd_le_def rd_be_def slice_def)

lemma le_val_bound: "le_val bs < 256 ^ length bs"
proof (induction bs)
  case (Cons b bs)
  have "unat b \<le> 255" using unsigned_less [of b, where 'a = nat] by simp
  then show ?case using Cons by simp
qed simp

lemma rd_le_bound: "rd_le n m i = Some v \<Longrightarrow> v < 256 ^ n"
  using le_val_bound [of "take n (drop i m)"] by (auto simp: rd_le_def slice_def split: if_splits)

lemma rd_be_bound: "rd_be n m i = Some v \<Longrightarrow> v < 256 ^ n"
  using le_val_bound [of "rev (take n (drop i m))"]
  by (auto simp: rd_be_def be_val_def slice_def split: if_splits)

lemma rd_SomeD:
  "rd_le n m i = Some v \<Longrightarrow> i + n \<le> length m" "rd_be n m i = Some v \<Longrightarrow> i + n \<le> length m"
  "rd8 m i = Some b \<Longrightarrow> i < length m"
  by (auto simp: rd_le_def rd_be_def slice_def rd8_def split: if_splits)

text \<open>Writing an integer of \<open>n\<close> bytes, for the inputs of theorems.\<close>

fun le_bytes :: "nat \<Rightarrow> nat \<Rightarrow> mem" where
  "le_bytes 0 v = []"
| "le_bytes (Suc n) v = of_nat (v mod 256) # le_bytes n (v div 256)"

lemma length_le_bytes [simp]: "length (le_bytes n v) = n"
  by (induction n arbitrary: v) auto

lemma le_val_le_bytes: "v < 256 ^ n \<Longrightarrow> le_val (le_bytes n v) = v"
proof (induction n arbitrary: v)
  case (Suc n)
  have "unat (of_nat (v mod 256) :: byte) = v mod 256" by (simp add: unat_of_nat take_bit_eq_mod)
  moreover have "v div 256 < 256 ^ n" using Suc.prems by (simp add: less_mult_imp_div_less mult.commute)
  ultimately show ?case using Suc.IH [of "v div 256"] by simp
qed simp

lemma le_bytes_le_val: "length xs = n \<Longrightarrow> le_bytes n (le_val xs) = xs"
proof (induction xs arbitrary: n)
  case (Cons a xs)
  have "unat a < 256" using unsigned_less [of a, where ?'a = nat] by simp
  then show ?case using Cons by auto
qed simp

lemma le_bytes_mod: "le_bytes n (v mod 256 ^ n) = le_bytes n v"
proof (induction n arbitrary: v)
  case (Suc n)
  have "v mod 256 ^ Suc n div 256 = v div 256 mod 256 ^ n" by (simp add: mod_mult2_eq div_add)
  moreover have "v mod 256 ^ Suc n mod 256 = v mod 256" by (simp add: mod_mod_cancel)
  ultimately show ?case using Suc [of "v div 256"] by simp
qed simp

lemma le_val_0_end: "le_val (xs @ [0]) = le_val xs"
  by (induction xs) auto

lemma rd_le_bytes: "v < 256 ^ n \<Longrightarrow> length pre = k \<Longrightarrow> rd_le n (pre @ le_bytes n v @ post) k = Some v"
  by (auto simp: rd_le_def slice_def le_val_le_bytes)

lemma rd_le_bytes_end: "v < 256 ^ n \<Longrightarrow> length pre = k \<Longrightarrow> rd_le n (pre @ le_bytes n v) k = Some v"
  using rd_le_bytes [of v n pre k "[]"] by simp

lemma rd_le_drop: "0 < n \<Longrightarrow> rd_le n (drop a m) k = rd_le n m (a + k)"
  by (auto simp: rd_le_def slice_def add.commute)

lemma prefix_of_iff: "prefix_of n h \<longleftrightarrow> take (length n) h = n"
  by (induction n h rule: prefix_of.induct) auto

lemma memmem_Some:
  "memmem h n = Some k \<Longrightarrow> k + length n \<le> length h \<and> take (length n) (drop k h) = n \<and>
     (\<forall>j < k. take (length n) (drop j h) \<noteq> n)"
proof (induction h n arbitrary: k rule: memmem.induct)
  case (2 h hs n)
  show ?case
  proof (cases "prefix_of n (h # hs)")
    case True
    then have "length n \<le> length (h # hs)"
      unfolding prefix_of_iff by (metis length_take min.cobounded1)
    then show ?thesis using 2 True by (auto simp: prefix_of_iff)
  next
    case False
    then obtain k' where k': "k = Suc k'" "memmem hs n = Some k'" using 2 by auto
    have "take (length n) (drop j (h # hs)) \<noteq> n" if "j < k" for j
      using that 2(1) [OF False k'(2)] False k' by (cases j) (auto simp: prefix_of_iff)
    then show ?thesis using 2(1) [OF False k'(2)] k' by auto
  qed
qed (auto split: if_splits)

lemma memmem_None: "memmem h n = None \<Longrightarrow> take (length n) (drop k h) \<noteq> n"
proof (induction h n arbitrary: k rule: memmem.induct)
  case (2 h hs n)
  then show ?case by (cases k) (auto simp: prefix_of_iff split: if_splits)
qed (auto split: if_splits)

lemma strstr_append: "strstr (pre @ n @ post) n"
  using memmem_None [of "pre @ n @ post" n "length pre"] by (auto simp: strstr_def)

lemma strstr_iff: "strstr h n \<longleftrightarrow> (\<exists>pre post. h = pre @ n @ post)"
proof
  assume "strstr h n"
  then obtain k where "memmem h n = Some k" by (auto simp: strstr_def)
  then have "take (length n) (drop k h) = n" by (auto dest: memmem_Some)
  then have "h = take k h @ n @ drop (length n) (drop k h)" by (metis append_take_drop_id)
  then show "\<exists>pre post. h = pre @ n @ post" by blast
qed (auto simp: strstr_append)

section \<open>Formatted text\<close>

text \<open>Decimal \<open>%d\<close>/\<open>%u\<close> and field widths: \<open>%6d\<close> pads on the left, \<open>%-16s\<close> on the right.\<close>

definition hex_digit :: "nat \<Rightarrow> char" where
  "hex_digit d = (if d < 10 then char_of (48 + d) else char_of (87 + d))"

definition digit_char :: "nat \<Rightarrow> char" where
  "digit_char d = char_of (48 + d)"

fun show_nat :: "nat \<Rightarrow> string" where
  "show_nat n = (if n < 10 then [digit_char n] else show_nat (n div 10) @ [digit_char (n mod 10)])"

declare show_nat.simps [simp del]

fun show_hex :: "nat \<Rightarrow> string" where
  "show_hex n = (if n < 16 then [hex_digit n] else show_hex (n div 16) @ [hex_digit (n mod 16)])"

declare show_hex.simps [simp del]

text \<open>\<open>%08lx\<close> and the like.\<close>

definition show_hex_pad :: "nat \<Rightarrow> nat \<Rightarrow> string" where
  "show_hex_pad k n = replicate (k - length (show_hex n)) CHR ''0'' @ show_hex n"

definition show_int :: "int \<Rightarrow> string" where
  "show_int i = (if i < 0 then CHR ''-'' # show_nat (nat (- i)) else show_nat (nat i))"

definition pad_left :: "nat \<Rightarrow> string \<Rightarrow> string" where
  "pad_left n s = replicate (n - length s) CHR '' '' @ s"

definition pad_right :: "nat \<Rightarrow> string \<Rightarrow> string" where
  "pad_right n s = s @ replicate (n - length s) CHR '' ''"

lemma length_pad [simp]:
  "length (pad_left n s) = max n (length s)" "length (pad_right n s) = max n (length s)"
  by (auto simp: pad_left_def pad_right_def)

lemma show_nat_length: "0 < k \<Longrightarrow> n < 10 ^ k \<Longrightarrow> length (show_nat n) \<le> k"
proof (induction n arbitrary: k rule: show_nat.induct)
  case (1 n)
  show ?case
  proof (cases "n < 10")
    case False
    then obtain j where k: "k = Suc j" "0 < j" using 1(2,3) by (cases k; cases "k - 1") auto
    then have "n div 10 < 10 ^ j" using 1(3) by (simp add: less_mult_imp_div_less)
    then show ?thesis using 1(1) [OF False k(2)] False k by (simp add: show_nat.simps [of n])
  qed (use 1 in \<open>simp add: show_nat.simps\<close>)
qed

lemma show_nat_digits: "c \<in> set (show_nat n) \<Longrightarrow> \<exists>d < 10. c = digit_char d"
proof (induction n rule: show_nat.induct)
  case (1 n)
  show ?case
  proof (cases "n < 10")
    case False
    then show ?thesis using 1 by (auto simp: show_nat.simps [of n] intro: exI [of _ "n mod 10"])
  qed (use 1 in \<open>auto simp: show_nat.simps\<close>)
qed

text \<open>\<open>%lld\<close> of an unsigned 64-bit counter, \<open>%d\<close> of an unsigned 32-bit one.\<close>

definition lld :: "nat \<Rightarrow> string" where
  "lld n = show_int (sint (of_nat n :: 64 word))"

definition int32 :: "nat \<Rightarrow> string" where
  "int32 n = show_int (sint (of_nat n :: 32 word))"

fun digits_value :: "int \<Rightarrow> string \<Rightarrow> int" where
  "digits_value n [] = n"
| "digits_value n (c # cs) =
     (let d = of_char c - 48 :: int in if 0 \<le> d \<and> d < 10 then digits_value (10 * n + d) cs else n)"

text \<open>\<open>atoi\<close> for numbers in range.\<close>

definition is_blank :: "char \<Rightarrow> bool" where
  "is_blank c \<longleftrightarrow> c = CHR '' '' \<or> (9 \<le> (of_char c :: int) \<and> (of_char c :: int) \<le> 13)"

definition atoi :: "string \<Rightarrow> int" where
  "atoi s =
     (case dropWhile is_blank s of
        [] \<Rightarrow> 0
      | c # cs \<Rightarrow> if c = CHR ''-'' then - digits_value 0 cs
                 else if c = CHR ''+'' then digits_value 0 cs else digits_value 0 (c # cs))"

section \<open>Loops\<close>

text \<open>A \<open>while\<close> loop over explicit state: the body either continues, leaves with a result, or
  is undefined; \<open>None\<close> also when the fuel runs out.\<close>

fun loop :: "nat \<Rightarrow> ('s \<Rightarrow> ('s + 'r) option) \<Rightarrow> 's \<Rightarrow> 'r option" where
  "loop 0 body s = None"
| "loop (Suc n) body s =
     (case body s of
        None \<Rightarrow> None
      | Some (Inl s') \<Rightarrow> loop n body s'
      | Some (Inr r) \<Rightarrow> Some r)"

text \<open>The same loop without fuel: it comes to an end, in a result or where its body is undefined. A loop that goes on forever
  has no derivation.\<close>

inductive ends :: "('s \<Rightarrow> ('s + 'r) option) \<Rightarrow> 's \<Rightarrow> 'r option \<Rightarrow> bool" for body where
  undefined_round: "body s = None \<Longrightarrow> ends body s None"
| last_round: "body s = Some (Inr r) \<Longrightarrow> ends body s (Some r)"
| next_round: "body s = Some (Inl s') \<Longrightarrow> ends body s' res \<Longrightarrow> ends body s res"

text \<open>A loop that makes progress: every continuing iteration keeps the invariant and decreases
  the measure. Then fuel above the measure is enough, i.e. the result does not depend on it.\<close>

locale progress_loop =
  fixes inv :: "'s \<Rightarrow> bool" and meas :: "'s \<Rightarrow> nat"
    and body :: "'s \<Rightarrow> ('s + 'r) option" and post :: "'r \<Rightarrow> bool"
  assumes continue_law: "inv s \<Longrightarrow> body s = Some (Inl s') \<Longrightarrow> inv s' \<and> meas s' < meas s"
    and exit_law: "inv s \<Longrightarrow> body s = Some (Inr r) \<Longrightarrow> post r"
begin

lemma fuel_irrelevant:
  assumes "inv s" "meas s < n" "meas s < k"
  shows "loop n body s = loop k body s"
  using assms
proof (induction n arbitrary: s k)
  case (Suc n)
  obtain k' where k: "k = Suc k'" using Suc.prems(3) by (cases k) auto
  show ?case
  proof (cases "body s")
    case (Some x)
    then show ?thesis
    proof (cases x)
      case (Inl s')
      then have "inv s'" "meas s' < meas s" using continue_law [OF Suc.prems(1)] Some by auto
      then show ?thesis using Suc.IH [of s' k'] Suc.prems k Some Inl by simp
    qed (use k in simp)
  qed (use k in simp)
qed simp

lemma loop_ends: "inv s \<Longrightarrow> meas s < n \<Longrightarrow> ends body s (loop n body s)"
proof (induction n arbitrary: s)
  case (Suc n)
  show ?case
  proof (cases "body s")
    case (Some x)
    then show ?thesis
    proof (cases x)
      case (Inl s')
      then have "inv s'" "meas s' < meas s" using continue_law [OF Suc.prems(1)] Some by auto
      then have "ends body s' (loop n body s')" using Suc by simp
      then show ?thesis using Some Inl by (auto intro: next_round)
    qed (auto intro: last_round)
  qed (auto intro: undefined_round)
qed simp

lemma result_post: "loop n body s = Some r \<Longrightarrow> inv s \<Longrightarrow> post r"
proof (induction n arbitrary: s)
  case (Suc n)
  then show ?case
    using continue_law [of s] exit_law [of s] by (auto split: option.splits sum.splits)
qed simp

end

end
