(* ===== verification/Lzss_Adler.thy ===== *)
theory Lzss_Adler
  imports Prelude
begin

text \<open>
  The checksum of \<open>src/src/lzss.c\<close>: \<open>lzadler32\<close> postpones the two reductions modulo
  65521 to the end of each block of \<open>NMAX\<close> bytes, and unrolls the block 16 bytes at a time.
  The reference is the textbook Adler-32, which reduces after every byte. The sums are kept in
  words, so the proof includes that a block of 5000 bytes never wraps.
\<close>

definition BASE :: nat where "BASE = 65521"
definition NMAX :: nat where "NMAX = 5000"

text \<open>\<open>unsigned long\<close> is 32 bits on the 32-bit builds of the tool and 64 bits elsewhere: the
  width is the type variable.\<close>

definition DO1 :: "'w::len word \<times> 'w word \<Rightarrow> byte \<Rightarrow> 'w word \<times> 'w word" where
  "DO1 s b = (let s1 = fst s + ucast b; s2 = snd s + s1 in (s1, s2))"

definition DO2 :: "'w::len word \<times> 'w word \<Rightarrow> mem \<Rightarrow> nat \<Rightarrow> 'w word \<times> 'w word" where
  "DO2 s buf i = DO1 (DO1 s (buf ! i)) (buf ! (i + 1))"

definition DO4 :: "'w::len word \<times> 'w word \<Rightarrow> mem \<Rightarrow> nat \<Rightarrow> 'w word \<times> 'w word" where
  "DO4 s buf i = DO2 (DO2 s buf i) buf (i + 2)"

definition DO8 :: "'w::len word \<times> 'w word \<Rightarrow> mem \<Rightarrow> nat \<Rightarrow> 'w word \<times> 'w word" where
  "DO8 s buf i = DO4 (DO4 s buf i) buf (i + 4)"

definition DO16 :: "'w::len word \<times> 'w word \<Rightarrow> mem \<Rightarrow> 'w word \<times> 'w word" where
  "DO16 s buf = DO8 (DO8 s buf 0) buf 8"

text \<open>The inner loops on one block of \<open>k\<close> bytes: whole groups of 16, then the tail. The buffer
  is the list of the bytes still to read; a read past its end is \<open>None\<close>.\<close>

fun adler_tail :: "nat \<Rightarrow> mem \<Rightarrow> 'w::len word \<times> 'w word \<Rightarrow> (mem \<times> ('w word \<times> 'w word)) option" where
  "adler_tail 0 buf s = Some (buf, s)"
| "adler_tail (Suc k) [] s = None"
| "adler_tail (Suc k) (b # buf) s = adler_tail k buf (DO1 s b)"

function adler_block :: "nat \<Rightarrow> mem \<Rightarrow> 'w::len word \<times> 'w word \<Rightarrow> (mem \<times> ('w word \<times> 'w word)) option" where
  "adler_block k buf s =
     (if k \<ge> 16
      then if length buf < 16 then None
           else adler_block (k - 16) (drop 16 buf) (DO16 s buf)
      else if k \<noteq> 0 then adler_tail k buf s
      else Some (buf, s))"
  by pat_completeness auto
termination by (relation "measure (\<lambda>(k, _, _). k)") auto

declare adler_block.simps [simp del]

function adler_loop :: "int \<Rightarrow> mem \<Rightarrow> 'w::len word \<times> 'w word \<Rightarrow> ('w word \<times> 'w word) option" where
  "adler_loop len buf s =
     (if len > 0
      then (let k = (if len < int NMAX then nat len else NMAX)
            in case adler_block k buf s of
                 None \<Rightarrow> None
               | Some (buf', (s1, s2)) \<Rightarrow>
                   adler_loop (len - int k) buf' (s1 mod of_nat BASE, s2 mod of_nat BASE))
      else Some s)"
  by pat_completeness auto
termination
  by (relation "measure (\<lambda>(len, _, _). nat len)") (auto simp: NMAX_def split: if_splits)

declare adler_loop.simps [simp del]

definition lzadler32 :: "'w::len itself \<Rightarrow> mem \<Rightarrow> int \<Rightarrow> 32 word option" where
  "lzadler32 w buf len =
     map_option (\<lambda>(s1 :: 'w word, s2). ucast (push_bit 16 s2 OR s1)) (adler_loop len buf (1, 0))"

text \<open>Adler-32 as RFC 1950 states it: two sums reduced after every byte.\<close>

definition adler_step :: "nat \<times> nat \<Rightarrow> byte \<Rightarrow> nat \<times> nat" where
  "adler_step s b = (let a = (fst s + unat b) mod BASE in (a, (snd s + a) mod BASE))"

definition adler32_spec :: "mem \<Rightarrow> nat" where
  "adler32_spec buf = (case foldl adler_step (1, 0) buf of (a, b) \<Rightarrow> b * 65536 + a)"

section \<open>Unrolling\<close>

lemma list16:
  assumes "16 \<le> length xs"
  shows "take 16 xs = [xs ! 0, xs ! 1, xs ! 2, xs ! 3, xs ! 4, xs ! 5, xs ! 6, xs ! 7,
                       xs ! 8, xs ! 9, xs ! 10, xs ! 11, xs ! 12, xs ! 13, xs ! 14, xs ! 15]"
  using assms by (intro nth_equalityI) (auto simp: less_Suc_eq numeral_eq_Suc nth_Cons)

lemma DO16_fold: "16 \<le> length buf \<Longrightarrow> DO16 s buf = foldl DO1 s (take 16 buf)"
  by (simp add: list16 DO16_def DO8_def DO4_def DO2_def numeral_2_eq_2 numeral_3_eq_3)

lemma adler_tail_fold:
  "adler_tail k buf s = (if k \<le> length buf then Some (drop k buf, foldl DO1 s (take k buf)) else None)"
  by (induction k buf s rule: adler_tail.induct) auto

lemma adler_block_fold:
  "adler_block k buf s = (if k \<le> length buf then Some (drop k buf, foldl DO1 s (take k buf)) else None)"
proof (induction k buf s rule: adler_block.induct)
  case (1 k buf s)
  show ?case
  proof (cases "16 \<le> k \<and> 16 \<le> length buf")
    case True
    have "take k buf = take 16 buf @ take (k - 16) (drop 16 buf)"
      using True by (metis le_add_diff_inverse take_add)
    then show ?thesis
      using 1 True by (subst adler_block.simps) (auto simp: DO16_fold simp flip: foldl_append)
  next
    case False
    then show ?thesis by (subst adler_block.simps) (auto simp: adler_tail_fold)
  qed
qed

section \<open>No overflow in a block\<close>

text \<open>The unreduced sums over the naturals.\<close>

definition nstep :: "nat \<times> nat \<Rightarrow> byte \<Rightarrow> nat \<times> nat" where
  "nstep s b = (fst s + unat b, snd s + (fst s + unat b))"

lemma nstep_simps [simp]:
  "fst (nstep s b) = fst s + unat b" "snd (nstep s b) = snd s + (fst s + unat b)"
  by (simp_all add: nstep_def)

definition pair_unat :: "'w::len word \<times> 'w word \<Rightarrow> nat \<times> nat" where
  "pair_unat s = (unat (fst s), unat (snd s))"

lemma unat_byte_le: "unat (b::byte) \<le> 255"
  using unsigned_less [of b, where 'a = nat] by simp

lemma nstep_bound:
  "fst (foldl nstep s buf) \<le> fst s + 255 * length buf \<and>
   2 * snd (foldl nstep s buf)
     \<le> 2 * snd s + 2 * length buf * fst s + 255 * length buf * (length buf + 1)"
proof (induction buf rule: rev_induct)
  case (snoc b buf)
  let ?t = "foldl nstep s buf"
  have "fst ?t + unat b \<le> fst s + 255 * Suc (length buf)"
    using snoc.IH unat_byte_le [of b] by simp
  then show ?case using snoc.IH by (auto simp: algebra_simps)
qed simp

lemma DO1_unat:
  assumes "LENGTH('w::len) \<ge> 32" "snd (nstep (pair_unat s) b) < 2 ^ 32"
  shows "pair_unat (DO1 (s :: 'w word \<times> 'w word) b) = nstep (pair_unat s) b"
proof -
  have big: "(2::nat) ^ 32 \<le> 2 ^ LENGTH('w)"
    using assms(1) by (intro power_increasing) auto
  have ub: "unat (ucast b :: 'w word) = unat b"
    using assms(1) by (simp add: unsigned_ucast_eq take_bit_nat_eq_self_iff)
      (rule order.strict_trans2 [OF unsigned_less power_increasing], auto)
  have add: "unat (fst s + ucast b :: 'w word) = unat (fst s) + unat b"
    using assms(2) big unat_add_lem [of "fst s" "ucast b :: 'w word"]
    by (simp add: ub pair_unat_def)
  then show ?thesis
    using assms(2) big unat_add_lem [of "snd s" "fst s + ucast b :: 'w word"]
    by (simp add: DO1_def Let_def nstep_def pair_unat_def)
qed

lemma foldl_DO1_unat:
  assumes "LENGTH('w::len) \<ge> 32" "snd (foldl nstep (pair_unat s) buf) < 2 ^ 32"
  shows "pair_unat (foldl DO1 (s :: 'w word \<times> 'w word) buf) = foldl nstep (pair_unat s) buf"
  using assms(2)
proof (induction buf rule: rev_induct)
  case (snoc b buf)
  have "snd (foldl nstep (pair_unat s) buf) < 2 ^ 32"
    using snoc.prems by simp
  with snoc have "pair_unat (foldl DO1 s buf) = foldl nstep (pair_unat s) buf" by simp
  then show ?case using DO1_unat [OF assms(1)] snoc.prems by simp
qed simp

lemma block_no_overflow:
  assumes "fst s < BASE" "snd s < BASE" "length buf \<le> NMAX"
  shows "snd (foldl nstep s buf) < 2 ^ 32"
proof -
  have "2 * snd (foldl nstep s buf)
      \<le> 2 * snd s + 2 * length buf * fst s + 255 * length buf * (length buf + 1)"
    using nstep_bound by blast
  also have "\<dots> \<le> 2 * 65520 + 2 * 5000 * 65520 + 255 * 5000 * (5000 + 1)"
    using assms by (intro add_mono mult_mono) (auto simp: BASE_def NMAX_def)
  finally show ?thesis by simp
qed

section \<open>Equivalence with the reference\<close>

definition reduce :: "nat \<times> nat \<Rightarrow> nat \<times> nat" where
  "reduce s = (fst s mod BASE, snd s mod BASE)"

lemma adler_step_reduce: "adler_step (reduce s) b = reduce (nstep s b)"
proof -
  have "(y mod BASE + (x mod BASE + z) mod BASE) mod BASE = (y + (x + z)) mod BASE" for x y z
    by (metis mod_add_eq mod_add_left_eq)
  then show ?thesis by (simp add: adler_step_def reduce_def Let_def mod_add_left_eq)
qed

lemma foldl_adler_step: "foldl adler_step (reduce s) buf = reduce (foldl nstep s buf)"
  by (induction buf arbitrary: s) (simp_all add: adler_step_reduce)

lemma adler_loop_ref:
  fixes s :: "'w::len word \<times> 'w word"
  assumes w: "LENGTH('w) \<ge> 32"
  shows "len \<ge> 0 \<Longrightarrow> nat len \<le> length buf \<Longrightarrow> reduce (pair_unat s) = pair_unat s \<Longrightarrow>
    \<exists>t. adler_loop len buf s = Some t \<and>
        pair_unat t = foldl adler_step (pair_unat s) (take (nat len) buf)"
proof (induction len buf s rule: adler_loop.induct)
  case (1 len buf s)
  show ?case
  proof (cases "len > 0")
    case False
    then show ?thesis using 1 by (subst adler_loop.simps) simp
  next
    case True
    define k where "k = (if len < int NMAX then nat len else NMAX)"
    define u where "u = foldl DO1 s (take k buf)"
    define t where "t = (fst u mod of_nat BASE, snd u mod of_nat BASE)"
    have k: "k \<le> length buf" "k \<le> NMAX" "int k \<le> len"
      using True "1.prems" by (auto simp: k_def)
    have s: "fst (pair_unat s) < BASE" "snd (pair_unat s) < BASE"
      using "1.prems"(3) by (auto simp: reduce_def prod_eq_iff BASE_def mod_eq_self_iff_div_eq_0 div_eq_0_iff)
    have u: "pair_unat u = foldl nstep (pair_unat s) (take k buf)"
      unfolding u_def using s k by (intro foldl_DO1_unat w block_no_overflow) auto
    have base: "unat (of_nat BASE :: 'w word) = BASE"
    proof -
      have "(2::nat) ^ 32 \<le> 2 ^ LENGTH('w)" using w by (intro power_increasing) auto
      then show ?thesis by (simp add: unat_of_nat BASE_def take_bit_nat_eq_self_iff)
    qed
    have t: "pair_unat t = reduce (pair_unat u)"
      using base by (simp add: t_def pair_unat_def reduce_def unat_mod_distrib)
    have t_ref: "pair_unat t = foldl adler_step (pair_unat s) (take k buf)"
      using "1.prems"(3) foldl_adler_step [of "pair_unat s" "take k buf"] by (simp add: t u)
    have loop: "adler_loop len buf s = adler_loop (len - int k) (drop k buf) t"
      using True k(1) by (subst adler_loop.simps)
        (simp add: adler_block_fold Let_def k_def [symmetric] u_def [symmetric] t_def split_beta)
    have "\<exists>v. adler_loop (len - int k) (drop k buf) t = Some v \<and>
        pair_unat v = foldl adler_step (pair_unat t) (take (nat (len - int k)) (drop k buf))"
      using k "1.prems" True
      by (intro "1.IH" [OF True k_def, of "(drop k buf, u)" "drop k buf" u
            "fst u" "snd u", folded t_def])
        (auto simp: adler_block_fold u_def t reduce_def)
    moreover have "take (nat len) buf = take k buf @ take (nat (len - int k)) (drop k buf)"
    proof -
      have "nat len = k + nat (len - int k)" using k True by auto
      then show ?thesis by (metis take_add)
    qed
    ultimately show ?thesis by (simp add: loop t_ref)
  qed
qed

lemma adler_fold_less:
  assumes "reduce s = s"
  shows "fst (foldl adler_step s buf) < BASE \<and> snd (foldl adler_step s buf) < BASE"
proof -
  have "foldl adler_step s buf = reduce (foldl nstep s buf)"
    using foldl_adler_step [of s buf] assms by simp
  then show ?thesis by (simp add: reduce_def BASE_def)
qed

lemma pack_sums:
  assumes "LENGTH('w::len) \<ge> 32" "unat s1 < BASE" "unat s2 < BASE"
  shows "unat (ucast (push_bit 16 s2 OR s1 :: 'w word) :: 32 word) = unat s2 * 65536 + unat s1"
proof -
  have b: "unat s1 < 2 ^ 16" "unat s2 < 2 ^ 16" using assms by (auto simp: BASE_def)
  have c: "push_bit 16 (unat s2) OR unat s1 = unat s2 * 65536 + unat s1"
    using nat_or_shift [OF b(1), of "unat s2"] by simp
  have small: "unat s2 * 65536 + unat s1 < 2 ^ 32" using b by simp
  have pow: "(2::nat) ^ 32 \<le> 2 ^ LENGTH('w)" using assms(1) by (intro power_increasing) auto
  have "unat (push_bit 16 s2) = push_bit 16 (unat s2)"
    using b small pow
    by (simp only: unsigned_push_bit_eq) (simp add: take_bit_nat_eq_self push_bit_eq_mult)
  then have "unat (push_bit 16 s2 OR s1) = unat s2 * 65536 + unat s1"
    using c by (simp add: unsigned_or_eq)
  then show ?thesis using small by (simp add: unsigned_ucast_eq take_bit_nat_eq_self)
qed

text \<open>C5: for every buffer and every length inside it, \<open>lzadler32\<close> reads inside the
  buffer, terminates, and returns the Adler-32 checksum of the first \<open>len\<close> bytes: neither the
  delayed reductions nor the 32-bit (or wider) accumulators change the result.\<close>

theorem lzadler32_correct:
  assumes "LENGTH('w::len) \<ge> 32" "0 \<le> len" "nat len \<le> length buf"
  shows "\<exists>sum. lzadler32 TYPE('w) buf len = Some sum \<and>
           unat sum = adler32_spec (take (nat len) buf)"
proof -
  have one: "reduce (1, 0) = (1, 0)" "pair_unat (1 :: 'w word, 0) = (1, 0)"
    by (simp_all add: reduce_def BASE_def pair_unat_def)
  obtain t where t: "adler_loop len buf (1 :: 'w word, 0) = Some t"
      "pair_unat t = foldl adler_step (1, 0) (take (nat len) buf)"
    using adler_loop_ref [OF assms(1), of len buf "(1, 0)"] assms one by auto
  have "unat (fst t) < BASE" "unat (snd t) < BASE"
    using adler_fold_less [OF one(1), of "take (nat len) buf"] t(2) [symmetric]
    by (simp_all add: pair_unat_def)
  from pack_sums [OF assms(1) this] show ?thesis
    using t(2) [symmetric]
    by (simp add: lzadler32_def t(1) adler32_spec_def pair_unat_def split_beta)
qed

lemma lzadler32_correct_witness:
  "\<exists>sum. lzadler32 TYPE(32) [97, 98, 99] 3 = Some sum \<and> unat sum = 0x024d0127"
  using lzadler32_correct [where 'w = 32, of 3 "[97, 98, 99]"]
  by (simp add: adler32_spec_def adler_step_def BASE_def)

lemma nmax_not_largest:
  "255 * n * (n + 1) div 2 + (n + 1) * (BASE - 1) \<le> 2 ^ 32 - 1" if "n = NMAX + 552"
  using that by (simp add: BASE_def NMAX_def)

end
