(* ===== verification/Lzss_Decode.thy ===== *)
theory Lzss_Decode
  imports Prelude
begin

text \<open>
  The decoder of \<open>src/src/lzss.c\<close> (\<open>decompress_lzss\<close>): a ring buffer of \<open>N\<close> bytes, a flag
  byte for every eight units, a unit being a literal byte or a reference of two bytes into the
  ring. The last section describes the format itself (a list of units and its packing into
  bytes) and shows that the loop on bytes computes the effect of the units.
\<close>

abbreviation ring_N :: nat where "ring_N \<equiv> 4096"
abbreviation max_F :: nat where "max_F \<equiv> 18"
abbreviation THRESHOLD :: nat where "THRESHOLD \<equiv> 2"
abbreviation NIL :: nat where "NIL \<equiv> ring_N"

text \<open>\<open>text_buf[N + F - 1]\<close>, the ring index \<open>r\<close> and the bytes stored through \<open>dst\<close> so far.\<close>

record dec_state =
  d_buf :: "nat \<Rightarrow> byte"
  d_r :: nat
  d_out :: mem

text \<open>\<open>*dst++ = c; text_buf[r++] = c; r &= (N - 1);\<close>\<close>

definition dec_emit :: "byte \<Rightarrow> dec_state \<Rightarrow> dec_state option" where
  "dec_emit c st = do {
     buf \<leftarrow> arr_set (ring_N + max_F - 1) (d_buf st) (d_r st) c;
     Some \<lparr>d_buf = buf, d_r = (d_r st + 1) AND (ring_N - 1), d_out = d_out st @ [c]\<rparr>
   }"

text \<open>\<open>for (k = 0; k <= j; k++)\<close>: \<open>n\<close> iterations from \<open>k\<close> on.\<close>

fun dec_copy :: "nat \<Rightarrow> nat \<Rightarrow> nat \<Rightarrow> dec_state \<Rightarrow> dec_state option" where
  "dec_copy i k 0 st = Some st"
| "dec_copy i k (Suc n) st = do {
     c \<leftarrow> arr_get (ring_N + max_F - 1) (d_buf st) ((i + k) AND (ring_N - 1));
     st' \<leftarrow> dec_emit c st;
     dec_copy i (k + 1) n st'
   }"

text \<open>\<open>if (((flags >>= 1) & 0x100) == 0)\<close>: the flags of the next unit and the source after
  them, or \<open>None\<close> when the source ends (\<open>break\<close>).\<close>

definition next_flags :: "32 word \<Rightarrow> mem \<Rightarrow> (32 word \<times> mem) option" where
  "next_flags flags src =
     (let flags' = drop_bit 1 flags in
      if flags' AND 0x100 = 0
      then (case src of [] \<Rightarrow> None | c # src' \<Rightarrow> Some (ucast c OR 0xFF00, src'))
      else Some (flags', src))"

lemma next_flags_length: "next_flags flags src = Some (fl, src') \<Longrightarrow> length src' \<le> length src"
  by (auto simp: next_flags_def Let_def split: if_splits list.splits)

text \<open>\<open>i |= ((j & 0xF0) << 4)\<close> and \<open>j = (j & 0x0F) + THRESHOLD\<close>.\<close>

definition ref_pos :: "byte \<Rightarrow> byte \<Rightarrow> nat" where
  "ref_pos i j = unat i OR push_bit 4 (unat j AND 0xF0)"

definition ref_last :: "byte \<Rightarrow> nat" where
  "ref_last j = (unat j AND 0x0F) + THRESHOLD"

text \<open>The \<open>for ( ; ; )\<close> loop; every \<open>break\<close> is the result \<open>Some st\<close>.\<close>

function dec_loop :: "32 word \<Rightarrow> mem \<Rightarrow> dec_state \<Rightarrow> dec_state option" where
  "dec_loop flags src st =
     (case next_flags flags src of
        None \<Rightarrow> Some st
      | Some (fl, src1) \<Rightarrow>
          if fl AND 1 \<noteq> 0
          then (case src1 of
                  [] \<Rightarrow> Some st
                | c # src2 \<Rightarrow>
                    (case dec_emit c st of None \<Rightarrow> None | Some st' \<Rightarrow> dec_loop fl src2 st'))
          else (case src1 of
                  i # j # src2 \<Rightarrow>
                    (case dec_copy (ref_pos i j) 0 (ref_last j + 1) st of
                       None \<Rightarrow> None | Some st' \<Rightarrow> dec_loop fl src2 st')
                | _ \<Rightarrow> Some st))"
  by pat_completeness auto
termination
  by (relation "measure (\<lambda>(_, src, _). length src)") (auto dest!: next_flags_length)

declare dec_loop.simps [simp del]

text \<open>The bytes above \<open>N - F\<close> of the ring are not initialised by the C code: \<open>garbage\<close>. The
  result is the list of the bytes written; the C function returns its length.\<close>

definition decompress_lzss :: "(nat \<Rightarrow> byte) \<Rightarrow> mem \<Rightarrow> mem option" where
  "decompress_lzss garbage src =
     map_option d_out
       (dec_loop 0 src
          \<lparr>d_buf = (\<lambda>i. if i < ring_N - max_F then 32 else garbage i),
           d_r = ring_N - max_F, d_out = []\<rparr>)"

section \<open>Memory safety and the size of the output\<close>

lemma and_ring: "(x::nat) AND 4095 = x mod 4096"
  using nat_and_mask [of x 12] by simp

definition dec_ok :: "dec_state \<Rightarrow> bool" where
  "dec_ok st \<longleftrightarrow> d_r st < ring_N"

definition emit1 :: "byte \<Rightarrow> dec_state \<Rightarrow> dec_state" where
  "emit1 c st = \<lparr>d_buf = (d_buf st)(d_r st := c), d_r = (d_r st + 1) mod ring_N,
                 d_out = d_out st @ [c]\<rparr>"

lemma dec_emit_eq: "dec_ok st \<Longrightarrow> dec_emit c st = Some (emit1 c st)"
  by (simp add: dec_emit_def dec_ok_def emit1_def and_ring)

lemma dec_ok_emit1 [simp]: "dec_ok (emit1 c st)"
  by (simp add: dec_ok_def emit1_def)

lemma d_out_emit1 [simp]: "d_out (emit1 c st) = d_out st @ [c]"
  by (simp add: emit1_def)

fun copy1 :: "nat \<Rightarrow> nat \<Rightarrow> nat \<Rightarrow> dec_state \<Rightarrow> dec_state" where
  "copy1 i k 0 st = st"
| "copy1 i k (Suc n) st = copy1 i (k + 1) n (emit1 (d_buf st ((i + k) mod ring_N)) st)"

lemma dec_copy_eq: "dec_ok st \<Longrightarrow> dec_copy i k n st = Some (copy1 i k n st)"
proof (induction n arbitrary: k st)
  case (Suc n)
  have "(i + k) mod ring_N < ring_N + max_F - 1"
    by (rule less_le_trans [of _ ring_N]) auto
  then show ?case using Suc by (simp add: and_ring dec_emit_eq)
qed simp

lemma dec_ok_copy1 [simp]: "dec_ok st \<Longrightarrow> dec_ok (copy1 i k n st)"
  by (induction n arbitrary: k st) auto

lemma d_out_copy1: "length (d_out (copy1 i k n st)) = length (d_out st) + n"
  by (induction n arbitrary: k st) auto

lemma ref_last_le: "ref_last j \<le> 17"
  using nat_and_mask [of "unat j" 4] by (simp add: ref_last_def)

text \<open>One unfolding of the loop over the total operations.\<close>

lemma dec_loop_unfold:
  assumes "dec_ok st"
  shows "dec_loop flags src st =
     (case next_flags flags src of
        None \<Rightarrow> Some st
      | Some (fl, src1) \<Rightarrow>
          if fl AND 1 \<noteq> 0
          then (case src1 of [] \<Rightarrow> Some st | c # src2 \<Rightarrow> dec_loop fl src2 (emit1 c st))
          else (case src1 of
                  i # j # src2 \<Rightarrow> dec_loop fl src2 (copy1 (ref_pos i j) 0 (ref_last j + 1) st)
                | _ \<Rightarrow> Some st))"
  using assms
  by (subst dec_loop.simps)
    (simp add: dec_emit_eq dec_copy_eq del: dec_copy.simps copy1.simps
      split: option.splits prod.splits list.splits)

lemma dec_loop_bound:
  "dec_ok st \<Longrightarrow> \<exists>st'. dec_loop flags src st = Some st' \<and>
     length (d_out st') \<le> length (d_out st) + 9 * length src"
proof (induction flags src st rule: dec_loop.induct)
  case (1 flags src st)
  show ?case
  proof (cases "next_flags flags src")
    case None
    then show ?thesis using 1 by (simp add: dec_loop_unfold)
  next
    case (Some p)
    obtain fl src1 where p: "p = (fl, src1)" by (cases p)
    have len: "length src1 \<le> length src" using Some p next_flags_length by simp
    consider (stop) "dec_loop flags src st = Some st"
      | (lit) c src2 where "fl AND 1 \<noteq> 0" "src1 = c # src2"
      | (ref) i j src2 where "fl AND 1 = 0" "src1 = i # j # src2"
      using Some p "1.prems"
      by (cases "fl AND 1 = 0"; cases src1; cases "tl src1") (auto simp: dec_loop_unfold)
    then show ?thesis
    proof cases
      case stop
      then show ?thesis by simp
    next
      case lit
      then show ?thesis
        using "1.IH"(1) [OF Some p [symmetric] lit dec_emit_eq [OF "1.prems"]] Some p len "1.prems"
        by (fastforce simp: dec_loop_unfold)
    next
      case ref
      have "dec_copy (ref_pos i j) 0 (ref_last j + 1) st
          = Some (copy1 (ref_pos i j) 0 (ref_last j + 1) st)"
        using "1.prems" by (rule dec_copy_eq)
      then show ?thesis
        using "1.IH"(2) [OF Some p [symmetric] _ ref(2) refl] ref Some p len "1.prems" ref_last_le [of j]
        by (fastforce simp: dec_loop_unfold d_out_copy1 simp del: copy1.simps)
    qed
  qed
qed

text \<open>C4: on every input, well formed or not, \<open>decompress_lzss\<close> terminates, never indexes
  outside its ring buffer, and writes at most nine bytes for each byte it reads, which is the
  destination size a caller has to provide.\<close>

theorem decompress_lzss_total:
  "\<exists>out. decompress_lzss garbage src = Some out \<and> length out \<le> 9 * length src"
  using dec_loop_bound [of "\<lparr>d_buf = (\<lambda>i. if i < ring_N - max_F then 32 else garbage i),
           d_r = ring_N - max_F, d_out = []\<rparr>" 0 src]
  by (auto simp: decompress_lzss_def dec_ok_def)

section \<open>The format: units and their packing\<close>

datatype lz_unit = Lit byte | Ref nat nat

text \<open>A reference has a ring position and a length between 3 and 18.\<close>

fun unit_ok :: "lz_unit \<Rightarrow> bool" where
  "unit_ok (Lit c) = True"
| "unit_ok (Ref p n) = (p < ring_N \<and> 3 \<le> n \<and> n \<le> max_F)"

fun is_lit :: "lz_unit \<Rightarrow> bool" where
  "is_lit (Lit c) = True"
| "is_lit (Ref p n) = False"

fun unit_bytes :: "lz_unit \<Rightarrow> mem" where
  "unit_bytes (Lit c) = [c]"
| "unit_bytes (Ref p n) = [of_nat p, of_nat ((drop_bit 4 p AND 0xF0) OR (n - 3))]"

abbreviation units_bytes :: "lz_unit list \<Rightarrow> mem" where
  "units_bytes us \<equiv> concat (map unit_bytes us)"

fun flag_bits :: "lz_unit list \<Rightarrow> byte" where
  "flag_bits [] = 0"
| "flag_bits (u # us) = (if is_lit u then 1 else 0) + 2 * flag_bits us"

definition pack_group :: "lz_unit list \<Rightarrow> mem" where
  "pack_group us = flag_bits us # units_bytes us"

function pack :: "lz_unit list \<Rightarrow> mem" where
  "pack us = (if us = [] then [] else pack_group (take 8 us) @ pack (drop 8 us))"
  by pat_completeness auto
termination by (relation "measure length") auto

declare pack.simps [simp del]

fun dec_unit :: "lz_unit \<Rightarrow> dec_state \<Rightarrow> dec_state" where
  "dec_unit (Lit c) st = emit1 c st"
| "dec_unit (Ref p n) st = copy1 p 0 n st"

lemma dec_ok_dec_unit [simp]: "dec_ok st \<Longrightarrow> dec_ok (dec_unit u st)"
  by (cases u) auto

lemma dec_ok_fold_unit [simp]: "dec_ok st \<Longrightarrow> dec_ok (fold dec_unit us st)"
  by (induction us arbitrary: st) auto

section \<open>Decoding a packed sequence\<close>

text \<open>The flag word after the \<open>i\<close>-th unit of a group with flag byte \<open>c\<close>.\<close>

definition flag_word :: "byte \<Rightarrow> nat \<Rightarrow> 32 word" where
  "flag_word c i = drop_bit i (ucast c OR 0xFF00)"

lemma bit_flag_word: "bit (flag_word c i) n \<longleftrightarrow> bit c (i + n) \<or> (8 \<le> i + n \<and> i + n < 16)"
proof -
  have fw: "flag_word c i = drop_bit i (ucast c OR push_bit 8 (mask 8))"
    by (simp add: flag_word_def mask_eq_exp_minus_1)
  show ?thesis
    unfolding fw by (auto simp: bit_simps dest: bit_imp_le_length)
qed

lemma flag_word_shift: "drop_bit (Suc 0) (flag_word c i) = flag_word c (Suc i)"
  by (simp add: flag_word_def)

lemma and_0x100: "(x :: 32 word) AND 0x100 = 0 \<longleftrightarrow> \<not> bit x 8"
  using and_exp_eq_0_iff_not_bit [of x 8] by simp

lemma and_1: "(x :: 32 word) AND 1 = 0 \<longleftrightarrow> \<not> bit x 0"
  using and_exp_eq_0_iff_not_bit [of x 0] by simp

lemma next_flags_in_group:
  "i < 7 \<Longrightarrow> next_flags (flag_word c i) src = Some (flag_word c (Suc i), src)"
  by (simp add: next_flags_def Let_def flag_word_shift and_0x100 bit_flag_word)

definition needs_flag :: "32 word \<Rightarrow> bool" where
  "needs_flag fl \<longleftrightarrow> \<not> bit fl 9"

lemma needs_flag_intros [simp]: "needs_flag 0" "needs_flag (flag_word c 7)"
  by (auto simp: needs_flag_def bit_flag_word dest: bit_imp_le_length)

lemma next_flags_new: "needs_flag fl \<Longrightarrow> next_flags fl (c # src) = Some (flag_word c 0, src)"
  by (simp add: next_flags_def Let_def and_0x100 bit_simps needs_flag_def flag_word_def)

lemma bit_flag_bits: "j < 8 \<Longrightarrow> bit (flag_bits us) j \<longleftrightarrow> j < length us \<and> is_lit (us ! j)"
proof (induction us arbitrary: j)
  case (Cons u us)
  have "(if is_lit u then 1 else 0) AND (2 * flag_bits us) = (0 :: byte)"
    by (rule bit_eqI) (auto simp: bit_simps)
  then have "flag_bits (u # us) = (if is_lit u then 1 else 0) OR (2 * flag_bits us)"
    by (simp add: disjunctive_add_eq_or)
  with Cons show ?case
    by (cases j) (auto simp: bit_simps)
qed simp

lemma ref_codec:
  assumes "p < 4096" "3 \<le> n" "n \<le> 18"
  defines "j \<equiv> of_nat ((drop_bit 4 p AND 0xF0) OR (n - 3)) :: byte"
  shows "ref_pos (of_nat p) j = p" "ref_last j + 1 = n"
proof -
  have f0: "(0xF0 :: nat) = push_bit 4 (mask 4)" and f: "(0x0F :: nat) = mask 4"
    by (simp_all add: mask_eq_exp_minus_1 push_bit_eq_mult)
  have p: "bit p k \<Longrightarrow> k < 12" and n: "bit (n - 3) k \<Longrightarrow> k < 4" for k
    using assms bit_less_exp [of p 12 k] bit_less_exp [of "n - 3" 4 k] by auto
  have ub: "unat (of_nat x :: byte) = take_bit 8 x" for x
    by (simp add: unsigned_of_nat)
  have uj: "unat j = take_bit 8 ((drop_bit 4 p AND 0xF0) OR (n - 3))"
    by (simp only: j_def ub)
  have "bit (unat j AND 0x0F) k = bit (n - 3) k" for k
    unfolding uj f f0 using n [of k] by (auto simp: bit_simps)
  then have "unat j AND 0x0F = n - 3" by (intro bit_eqI) simp
  then show "ref_last j + 1 = n" using assms by (simp add: ref_last_def)
  have "bit (ref_pos (of_nat p) j) k = bit p k" for k
    unfolding ref_pos_def uj f0 ub using p [of k] n [of "k - 4"]
    by (auto simp: bit_simps)
  then show "ref_pos (of_nat p) j = p" by (intro bit_eqI) simp
qed

lemma dec_unit_step:
  assumes "dec_ok st" "unit_ok u" "next_flags flags src = Some (fl, unit_bytes u @ rest)"
    "bit fl 0 \<longleftrightarrow> is_lit u"
  shows "dec_loop flags src st = dec_loop fl rest (dec_unit u st)"
  using assms ref_codec
  by (cases u) (subst dec_loop_unfold; simp add: and_1 ref_codec del: copy1.simps)+

lemma dec_rest_of_group:
  assumes "dec_ok st" "i + length us \<le> 7" "list_all unit_ok us"
    "\<forall>j < length us. bit c (Suc (i + j)) \<longleftrightarrow> is_lit (us ! j)"
  shows "dec_loop (flag_word c i) (units_bytes us @ rest) st
     = dec_loop (flag_word c (i + length us)) rest (fold dec_unit us st)"
  using assms
proof (induction us arbitrary: i st)
  case (Cons u us)
  have u: "bit c (Suc i) \<longleftrightarrow> is_lit u" using Cons.prems(4) by fastforce
  have us: "\<forall>j < length us. bit c (Suc (Suc i + j)) \<longleftrightarrow> is_lit (us ! j)"
    using Cons.prems(4) by fastforce
  have "dec_loop (flag_word c i) (units_bytes (u # us) @ rest) st
      = dec_loop (flag_word c (Suc i)) (units_bytes us @ rest) (dec_unit u st)"
    using Cons.prems u
    by (intro dec_unit_step) (auto simp: next_flags_in_group bit_flag_word)
  also have "\<dots> = dec_loop (flag_word c (Suc i + length us)) rest (fold dec_unit us (dec_unit u st))"
    using Cons.prems us by (intro Cons.IH) auto
  finally show ?case by simp
qed simp

lemma dec_group:
  assumes "dec_ok st" "us \<noteq> []" "length us \<le> 8" "list_all unit_ok us" "needs_flag fl"
  shows "dec_loop fl (pack_group us @ rest) st
     = dec_loop (flag_word (flag_bits us) (length us - 1)) rest (fold dec_unit us st)"
proof -
  obtain u vs where us: "us = u # vs" using assms(2) by (cases us) auto
  let ?c = "flag_bits us"
  have bits: "j < length us \<Longrightarrow> bit ?c j \<longleftrightarrow> is_lit (us ! j)" for j
    using assms(3) by (subst bit_flag_bits) auto
  have "dec_loop fl (pack_group us @ rest) st
      = dec_loop (flag_word ?c 0) (units_bytes vs @ rest) (dec_unit u st)"
    using assms bits [of 0]
    by (intro dec_unit_step) (auto simp: us pack_group_def next_flags_new bit_flag_word)
  also have "\<dots> = dec_loop (flag_word ?c (0 + length vs)) rest (fold dec_unit vs (dec_unit u st))"
    using assms bits [of "Suc _"] by (intro dec_rest_of_group) (auto simp: us simp del: flag_bits.simps)
  finally show ?thesis by (simp add: us del: flag_bits.simps)
qed

lemma dec_loop_end: "dec_loop fl [] st = Some st"
  by (subst dec_loop.simps) (simp add: next_flags_def Let_def split: option.splits)

lemma dec_pack:
  assumes "dec_ok st" "list_all unit_ok us" "needs_flag fl"
  shows "dec_loop fl (pack us) st = Some (fold dec_unit us st)"
  using assms
proof (induction us arbitrary: st fl rule: pack.induct)
  case (1 us)
  show ?case
  proof (cases "us = []")
    case True
    then show ?thesis by (simp add: pack.simps dec_loop_end)
  next
    case False
    let ?g = "take 8 us"
    have ok: "list_all unit_ok ?g" "list_all unit_ok (drop 8 us)"
      using "1.prems" by (auto simp: list_all_iff dest: in_set_takeD in_set_dropD)
    have "dec_loop fl (pack us) st
        = dec_loop (flag_word (flag_bits ?g) (length ?g - 1)) (pack (drop 8 us)) (fold dec_unit ?g st)"
      using False ok "1.prems" by (subst pack.simps) (simp add: dec_group)
    also have "\<dots> = Some (fold dec_unit (drop 8 us) (fold dec_unit ?g st))"
    proof (cases "length us \<le> 8")
      case True
      then show ?thesis by (simp add: pack.simps dec_loop_end)
    next
      case l: False
      then show ?thesis using False ok "1.prems" by (intro "1.IH") auto
    qed
    also have "\<dots> = Some (fold dec_unit us st)"
      by (metis append_take_drop_id comp_apply fold_append)
    finally show ?thesis .
  qed
qed

end
