(* ===== verification/Lzss_Links.thy ===== *)
theory Lzss_Links
  imports Lzss_Decode
begin

text \<open>
  The shape of the search trees of the LZSS encoder, as three index arrays: left child, right
  child, parent. This theory is about the arrays alone: the well-formedness predicate and the
  three surgeries the C code composes (hang a new leaf, splice out a node with at most one
  child, put one node in the place of another), each of which preserves it.
\<close>

text \<open>A ring position is in a tree when its parent is not \<open>NIL\<close>; the indices
  \<open>N + 1 .. N + 256\<close> of \<open>rchild\<close> are the roots.\<close>

definition live :: "(nat \<Rightarrow> nat) \<Rightarrow> nat \<Rightarrow> bool" where
  "live p i \<longleftrightarrow> i < ring_N \<and> p i \<noteq> NIL"

definition is_root :: "nat \<Rightarrow> bool" where
  "is_root q \<longleftrightarrow> ring_N < q \<and> q \<le> ring_N + 256"

definition vertex :: "(nat \<Rightarrow> nat) \<Rightarrow> nat \<Rightarrow> bool" where
  "vertex p q \<longleftrightarrow> live p q \<or> is_root q"

text \<open>\<open>col\<close> gives the tree a node belongs to, \<open>rk\<close> grows along every edge (so there is no
  cycle and every descent ends).\<close>

definition tinv :: "(nat \<Rightarrow> nat) \<Rightarrow> (nat \<Rightarrow> nat) \<Rightarrow> (nat \<Rightarrow> nat) \<Rightarrow> (nat \<Rightarrow> nat) \<Rightarrow> (nat \<Rightarrow> nat) \<Rightarrow> bool"
  where "tinv l r p col rk \<longleftrightarrow>
    (\<forall>i. live p i \<longrightarrow> vertex p (p i) \<and> rk (p i) < rk i \<and> col (p i) = col i \<and>
         (r (p i) = i \<or> (p i < ring_N \<and> l (p i) = i))) \<and>
    (\<forall>q. vertex p q \<longrightarrow> r q \<noteq> NIL \<longrightarrow> live p (r q) \<and> p (r q) = q) \<and>
    (\<forall>q. live p q \<longrightarrow> l q \<noteq> NIL \<longrightarrow> live p (l q) \<and> p (l q) = q \<and> l q \<noteq> r q)"

lemma tinvI:
  assumes "\<And>i. live p i \<Longrightarrow> vertex p (p i) \<and> rk (p i) < rk i \<and> col (p i) = col i \<and>
         (r (p i) = i \<or> (p i < ring_N \<and> l (p i) = i))"
    and "\<And>q. vertex p q \<Longrightarrow> r q \<noteq> NIL \<Longrightarrow> live p (r q) \<and> p (r q) = q"
    and "\<And>q. live p q \<Longrightarrow> l q \<noteq> NIL \<Longrightarrow> live p (l q) \<and> p (l q) = q \<and> l q \<noteq> r q"
  shows "tinv l r p col rk"
  using assms unfolding tinv_def by blast

lemma tinv_up:
  assumes "tinv l r p col rk" "live p i"
  shows "vertex p (p i)" "rk (p i) < rk i" "col (p i) = col i"
    "r (p i) = i \<or> (p i < ring_N \<and> l (p i) = i)"
  using assms unfolding tinv_def by blast+

lemma tinv_right:
  assumes "tinv l r p col rk" "vertex p q" "r q \<noteq> NIL"
  shows "live p (r q)" "p (r q) = q"
  using assms unfolding tinv_def by blast+

lemma tinv_left:
  assumes "tinv l r p col rk" "live p q" "l q \<noteq> NIL"
  shows "live p (l q)" "p (l q) = q" "l q \<noteq> r q"
  using assms unfolding tinv_def by blast+

lemma live_vertex: "live p q \<Longrightarrow> vertex p q"
  by (simp add: vertex_def)

lemma live_less: "live p i \<Longrightarrow> i < 4096"
  by (simp add: live_def)

lemma live_not_root: "live p i \<Longrightarrow> \<not> is_root i"
  by (simp add: live_def is_root_def)

lemma live_neq_NIL: "live p i \<Longrightarrow> i \<noteq> 4096"
  by (simp add: live_def)

lemma vertex_neq_NIL: "vertex p q \<Longrightarrow> q \<noteq> 4096"
  by (auto simp: vertex_def live_def is_root_def)

lemma vertex_less_live: "vertex p q \<Longrightarrow> q < 4096 \<Longrightarrow> live p q"
  by (auto simp: vertex_def is_root_def)

lemma vertex_bound: "vertex p q \<Longrightarrow> q < 4353"
  by (auto simp: vertex_def live_def is_root_def)

text \<open>The predicate only looks at live nodes and roots.\<close>

lemma tinv_cong:
  assumes "tinv l r p col rk"
    "\<And>i. i < ring_N \<Longrightarrow> p' i = p i"
    "\<And>i. live p i \<Longrightarrow> l' i = l i"
    "\<And>i. vertex p i \<Longrightarrow> r' i = r i"
    "\<And>i. vertex p i \<Longrightarrow> col' i = col i"
  shows "tinv l' r' p' col' rk"
proof -
  have lv: "live p' i = live p i" for i using assms(2) by (auto simp: live_def)
  have vx: "vertex p' i = vertex p i" for i by (simp add: vertex_def lv)
  have pl: "live p i \<Longrightarrow> p' i = p i" for i using assms(2) by (simp add: live_def)
  note up = tinv_up [OF assms(1)] and rt = tinv_right [OF assms(1)] and lf = tinv_left [OF assms(1)]
  show ?thesis
  proof (rule tinvI)
    fix i assume "live p' i"
    then show "vertex p' (p' i) \<and> rk (p' i) < rk i \<and> col' (p' i) = col' i \<and>
        (r' (p' i) = i \<or> p' i < ring_N \<and> l' (p' i) = i)"
      using up [of i] assms(3) [of "p i"] assms(4) [of "p i"] assms(5) [of "p i"] assms(5) [of i]
        vertex_less_live [of p "p i"] live_vertex [of p i]
      by (auto simp: lv vx pl)
  next
    fix q assume "vertex p' q" "r' q \<noteq> NIL"
    then show "live p' (r' q) \<and> p' (r' q) = q"
      using rt [of q] assms(4) [of q] by (auto simp: lv vx pl)
  next
    fix q assume "live p' q" "l' q \<noteq> NIL"
    then show "live p' (l' q) \<and> p' (l' q) = q \<and> l' q \<noteq> r' q"
      using lf [of q] assms(3) [of q] assms(4) [of q] live_vertex [of p q] by (auto simp: lv vx pl)
  qed
qed

lemma tinv_child_of_dead:
  assumes "tinv l r p col rk" "\<not> vertex p x"
  shows "live p i \<Longrightarrow> p i \<noteq> x"
  using tinv_up(1) [OF assms(1)] assms(2) by blast

section \<open>Hanging a leaf\<close>

lemma tinv_attach_right:
  assumes inv: "tinv l r p col rk" and v: "vertex p v" "r v = NIL"
    and x: "x < ring_N" "\<not> live p x" "col x = col v"
  shows "tinv (l(x := NIL)) ((r(x := NIL))(v := x)) (p(x := v)) col (rk(x := Suc (rk v)))"
proof -
  have xv: "x \<noteq> v" using v x by (auto simp: vertex_def is_root_def)
  have lv: "live (p(x := v)) i \<longleftrightarrow> live p i \<or> i = x" for i
    using v(1) x(1) vertex_neq_NIL by (auto simp: live_def)
  have vx: "vertex (p(x := v)) i \<longleftrightarrow> vertex p i \<or> i = x" for i
    using lv by (auto simp: vertex_def)
  have nx: "\<not> vertex p x" using x by (auto simp: vertex_def is_root_def)
  note par = tinv_child_of_dead [OF inv nx]
  show ?thesis
  proof (rule tinvI)
    fix i assume "live (p(x := v)) i"
    then show "vertex (p(x := v)) ((p(x := v)) i) \<and>
        (rk(x := Suc (rk v))) ((p(x := v)) i) < (rk(x := Suc (rk v))) i \<and>
        col ((p(x := v)) i) = col i \<and>
        (((r(x := NIL))(v := x)) ((p(x := v)) i) = i \<or>
         ((p(x := v)) i < ring_N \<and> (l(x := NIL)) ((p(x := v)) i) = i))"
      using tinv_up [OF inv, of i] par [of i] xv x v live_neq_NIL [of p i] by (auto simp: lv vx)
  next
    fix q assume "vertex (p(x := v)) q" "((r(x := NIL))(v := x)) q \<noteq> NIL"
    then show "live (p(x := v)) (((r(x := NIL))(v := x)) q) \<and>
        (p(x := v)) (((r(x := NIL))(v := x)) q) = q"
      using tinv_right [OF inv, of q] x v xv by (auto simp: lv vx split: if_splits)
  next
    fix q assume "live (p(x := v)) q" "(l(x := NIL)) q \<noteq> NIL"
    then show "live (p(x := v)) ((l(x := NIL)) q) \<and> (p(x := v)) ((l(x := NIL)) q) = q \<and>
        (l(x := NIL)) q \<noteq> ((r(x := NIL))(v := x)) q"
      using tinv_left [OF inv, of q] x v xv by (auto simp: lv vx split: if_splits)
  qed
qed

lemma tinv_attach_left:
  assumes inv: "tinv l r p col rk" and v: "live p v" "l v = NIL"
    and x: "x < ring_N" "\<not> live p x" "col x = col v"
  shows "tinv ((l(x := NIL))(v := x)) (r(x := NIL)) (p(x := v)) col (rk(x := Suc (rk v)))"
proof -
  have xv: "x \<noteq> v" using v x by auto
  have lv: "live (p(x := v)) i \<longleftrightarrow> live p i \<or> i = x" for i
    using v(1) x(1) by (auto simp: live_def)
  have vx: "vertex (p(x := v)) i \<longleftrightarrow> vertex p i \<or> i = x" for i
    using lv by (auto simp: vertex_def)
  have nx: "\<not> vertex p x" using x by (auto simp: vertex_def is_root_def)
  note par = tinv_child_of_dead [OF inv nx]
  show ?thesis
  proof (rule tinvI)
    fix i assume "live (p(x := v)) i"
    then show "vertex (p(x := v)) ((p(x := v)) i) \<and>
        (rk(x := Suc (rk v))) ((p(x := v)) i) < (rk(x := Suc (rk v))) i \<and>
        col ((p(x := v)) i) = col i \<and>
        ((r(x := NIL)) ((p(x := v)) i) = i \<or>
         ((p(x := v)) i < ring_N \<and> ((l(x := NIL))(v := x)) ((p(x := v)) i) = i))"
      using tinv_up [OF inv, of i] par [of i] xv x v live_neq_NIL [of p i]
        live_vertex [OF v(1)] live_less [OF v(1)] by (auto simp: lv vx)
  next
    fix q assume "vertex (p(x := v)) q" "(r(x := NIL)) q \<noteq> NIL"
    then show "live (p(x := v)) ((r(x := NIL)) q) \<and> (p(x := v)) ((r(x := NIL)) q) = q"
      using tinv_right [OF inv, of q] x v xv by (auto simp: lv vx split: if_splits)
  next
    fix q assume "live (p(x := v)) q" "((l(x := NIL))(v := x)) q \<noteq> NIL"
    then show "live (p(x := v)) (((l(x := NIL))(v := x)) q) \<and>
        (p(x := v)) (((l(x := NIL))(v := x)) q) = q \<and>
        ((l(x := NIL))(v := x)) q \<noteq> (r(x := NIL)) q"
      using tinv_left [OF inv, of q] tinv_right [OF inv, of q] x v xv live_vertex [OF v(1)]
      by (auto simp: lv vx split: if_splits)
  qed
qed

section \<open>Splicing out a node with at most one child\<close>

lemma tinv_splice:
  assumes inv: "tinv l r p col rk" and q: "live p q"
    and x: "x = (if r q = NIL then l q else r q)" "r q = NIL \<or> l q = NIL"
  defines "p' \<equiv> (p(x := p q))(q := NIL)"
    and "r' \<equiv> (if r (p q) = q then r(p q := x) else r)"
    and "l' \<equiv> (if r (p q) = q then l else l(p q := x))"
  shows "tinv l' r' p' col rk"
proof -
  note up = tinv_up [OF inv] and rt = tinv_right [OF inv] and lf = tinv_left [OF inv]
  have pq: "vertex p (p q)" "p q \<noteq> q" "p q \<noteq> NIL" "q \<noteq> NIL"
    using up [OF q] vertex_neq_NIL q by (auto simp: live_def)
  have x1: "live p x \<and> p x = q" if "x \<noteq> NIL"
    using rt [OF live_vertex [OF q]] lf [OF q] x that by (cases "r q = NIL") auto
  have xc: "live p x \<and> p x = q \<and> x \<noteq> q \<and> x \<noteq> p q" if "x \<noteq> NIL"
    using x1 [OF that] up(2) [of x] up(2) [OF q] by auto
  have lv: "live p' i \<longleftrightarrow> live p i \<and> i \<noteq> q" for i
  proof (cases "i = x")
    case True
    then show ?thesis using pq xc by (cases "x = NIL") (auto simp: p'_def live_def)
  qed (auto simp: p'_def live_def)
  have vx: "vertex p' i \<longleftrightarrow> vertex p i \<and> i \<noteq> q" for i
    using live_not_root [OF q] by (auto simp: vertex_def lv)
  have p'i: "live p i \<Longrightarrow> i \<noteq> q \<Longrightarrow> p' i = (if p i = q then p q else p i) \<and> (p i = q \<longrightarrow> i = x)" for i
    using xc up(4) [of i] x by (auto simp: p'_def live_def split: if_splits)
  show ?thesis
  proof (rule tinvI)
    fix i assume i: "live p' i"
    then have i': "live p i" "i \<noteq> q" by (auto simp: lv)
    show "vertex p' (p' i) \<and> rk (p' i) < rk i \<and> col (p' i) = col i \<and>
         (r' (p' i) = i \<or> (p' i < ring_N \<and> l' (p' i) = i))"
    proof (cases "p i = q")
      case True
      then have "p' i = p q" "i = x" using p'i i' by auto
      then show ?thesis using up [OF i'(1)] up [OF q] True pq
        by (auto simp: vx r'_def l'_def)
    next
      case False
      then have "p' i = p i" using p'i i' by auto
      then show ?thesis using up [OF i'(1)] up [OF q] False pq i'
        by (auto simp: vx r'_def l'_def)
    qed
  next
    fix v assume v: "vertex p' v" "r' v \<noteq> NIL"
    then have v': "vertex p v" "v \<noteq> q" by (auto simp: vx)
    show "live p' (r' v) \<and> p' (r' v) = v"
    proof (cases "r (p q) = q \<and> v = p q")
      case True
      then show ?thesis using v xc p'i [of x] by (auto simp: lv r'_def)
    next
      case False
      then have rv: "r' v = r v" by (auto simp: r'_def)
      then have "r v \<noteq> q" using rt [OF v'(1)] v False by auto
      then show ?thesis using rv v v' rt [OF v'(1)] p'i [of "r v"] by (auto simp: lv)
    qed
  next
    fix v assume v: "live p' v" "l' v \<noteq> NIL"
    then have v': "live p v" "v \<noteq> q" by (auto simp: lv)
    show "live p' (l' v) \<and> p' (l' v) = v \<and> l' v \<noteq> r' v"
    proof (cases "v = p q")
      case True
      show ?thesis
      proof (cases "r (p q) = q")
        case r: True
        then show ?thesis using v v' True lf [OF v'(1)] p'i [of "l v"] xc
          by (auto simp: lv r'_def l'_def)
      next
        case r: False
        then show ?thesis using v v' True lf [OF v'(1)] rt [OF pq(1)] p'i [of x] xc
          by (auto simp: lv r'_def l'_def)
      qed
    next
      case False
      then have rl: "r' v = r v" "l' v = l v" by (auto simp: r'_def l'_def)
      then have "l v \<noteq> q" using lf [OF v'(1)] v False by auto
      then show ?thesis using rl v v' lf [OF v'(1)] p'i [of "l v"] by (auto simp: lv)
    qed
  qed
qed

section \<open>Putting a node in the place of another\<close>

lemma tinv_replace:
  assumes inv: "tinv l r p col rk" and q: "live p q"
    and x: "x < ring_N" "\<not> live p x" "col x = col q"
  defines "p' \<equiv> (((p(x := p q))(l q := x))(r q := x))(q := NIL)"
    and "r' \<equiv> (if r (p q) = q then (r(x := r q))(p q := x) else r(x := r q))"
    and "l' \<equiv> (if r (p q) = q then l(x := l q) else (l(x := l q))(p q := x))"
  shows "tinv l' r' p' col (rk(x := rk q))"
proof -
  note up = tinv_up [OF inv] and rt = tinv_right [OF inv] and lf = tinv_left [OF inv]
  note rq = rt [OF live_vertex [OF q]] and lq = lf [OF q]
  have nx: "\<not> vertex p x" using x by (auto simp: vertex_def is_root_def)
  have pq: "vertex p (p q)" "p q \<noteq> q" "p q \<noteq> NIL" "q \<noteq> NIL" "p q \<noteq> x" "x \<noteq> q"
    using up [OF q] vertex_neq_NIL q x nx by (auto simp: live_def)
  have cq: "r q \<noteq> NIL \<Longrightarrow> r q \<noteq> q \<and> r q \<noteq> p q \<and> r q \<noteq> x"
    "l q \<noteq> NIL \<Longrightarrow> l q \<noteq> q \<and> l q \<noteq> p q \<and> l q \<noteq> x"
    using rq lq up(2) [of "r q"] up(2) [of "l q"] up(2) [OF q] x by auto
  have lv: "live p' i \<longleftrightarrow> (live p i \<and> i \<noteq> q) \<or> i = x" for i
  proof (cases "i < ring_N \<and> i \<noteq> q \<and> i \<noteq> x")
    case True
    have "i = l q \<or> i = r q \<Longrightarrow> live p i" using True rq lq by auto
    then show ?thesis using True x by (auto simp: p'_def live_def)
  next
    case False
    then show ?thesis using x pq cq by (auto simp: p'_def live_def)
  qed
  have vx: "vertex p' i \<longleftrightarrow> (vertex p i \<and> i \<noteq> q) \<or> i = x" for i
    using live_not_root [OF q] by (auto simp: vertex_def lv)
  have p'x: "p' x = p q" using pq cq x by (auto simp: p'_def)
  have p'i: "live p i \<Longrightarrow> i \<noteq> q \<Longrightarrow> p' i = (if p i = q then x else p i) \<and>
      (p i = q \<longrightarrow> i = r q \<or> i = l q) \<and> i \<noteq> x" for i
    using rq lq up(4) [of i] x by (auto simp: p'_def live_def split: if_splits)
  show ?thesis
  proof (rule tinvI)
    fix i assume i: "live p' i"
    show "vertex p' (p' i) \<and> (rk(x := rk q)) (p' i) < (rk(x := rk q)) i \<and> col (p' i) = col i \<and>
         (r' (p' i) = i \<or> (p' i < ring_N \<and> l' (p' i) = i))"
    proof (cases "i = x")
      case True
      then show ?thesis using p'x up [OF q] pq x by (auto simp: vx r'_def l'_def)
    next
      case False
      then have i': "live p i" "i \<noteq> q" using i by (auto simp: lv)
      then show ?thesis
        using p'i [OF i'] up [OF i'(1)] up [OF q] pq x False nx
        by (cases "p i = q") (auto simp: vx r'_def l'_def)
    qed
  next
    fix v assume v: "vertex p' v" "r' v \<noteq> NIL"
    show "live p' (r' v) \<and> p' (r' v) = v"
    proof (cases "v = x")
      case True
      then have "r' v = r q" using pq by (simp add: r'_def)
      then show ?thesis using True v rq cq pq p'i [of "r q"] by (auto simp: lv)
    next
      case False
      then have v': "vertex p v" "v \<noteq> q" using v by (auto simp: vx)
      show ?thesis
      proof (cases "v = p q \<and> r (p q) = q")
        case True
        then show ?thesis using p'x by (simp add: lv r'_def)
      next
        case False
        have rv: "r' v = r v" using False \<open>v \<noteq> x\<close> by (auto simp: r'_def)
        then have lrv: "live p (r v)" "p (r v) = v" using rt [OF v'(1)] v by auto
        then have "r v \<noteq> q" using False by auto
        then show ?thesis using rv lrv p'i [of "r v"] v'(2) by (simp add: lv)
      qed
    qed
  next
    fix v assume v: "live p' v" "l' v \<noteq> NIL"
    show "live p' (l' v) \<and> p' (l' v) = v \<and> l' v \<noteq> r' v"
    proof (cases "v = x")
      case True
      then have "r' v = r q" "l' v = l q" using pq by (auto simp: r'_def l'_def)
      then show ?thesis using True v lq cq pq p'i [of "l q"] by (auto simp: lv)
    next
      case False
      then have v': "live p v" "v \<noteq> q" using v by (auto simp: lv)
      note l_ne = lf [OF v'(1)] and vxv = live_vertex [OF v'(1)]
      consider (r) "v = p q" "r (p q) = q" | (l) "v = p q" "r (p q) \<noteq> q" | (other) "v \<noteq> p q"
        by blast
      then show ?thesis
      proof cases
        case r
        then have lv': "l' v = l v" "r' v = x" using False by (auto simp: r'_def l'_def)
        then have lc: "live p (l v)" "p (l v) = v" "l v \<noteq> q" using l_ne v r by auto
        then show ?thesis using lv' p'i [of "l v"] v'(2) by (simp add: lv)
      next
        case l
        then have "l' v = x" "r' v = r v" using False by (auto simp: r'_def l'_def)
        moreover have "r v \<noteq> x" using rt(1) [OF vxv] x by auto
        ultimately show ?thesis using p'x l by (auto simp: lv)
      next
        case other
        then have lv': "l' v = l v" "r' v = r v" using False by (auto simp: r'_def l'_def)
        then have lc: "live p (l v)" "p (l v) = v" "l v \<noteq> r v" using l_ne v by auto
        then have "l v \<noteq> q" using other by auto
        then show ?thesis using lv' lc p'i [of "l v"] v'(2) by (simp add: lv)
      qed
    qed
  qed
qed

section \<open>Deleting a node with two children\<close>

lemma splice_live:
  assumes inv: "tinv l r p col rk" and q: "live p q"
    and x: "x = (if r q = NIL then l q else r q)"
  shows "live ((p(x := p q))(q := NIL)) i \<longleftrightarrow> live p i \<and> i \<noteq> q"
proof (cases "i = x")
  case True
  have "p q \<noteq> NIL" using q by (simp add: live_def)
  moreover have "x < ring_N \<Longrightarrow> live p x"
    using tinv_left(1) [OF inv q] tinv_right(1) [OF inv live_vertex [OF q]] x by auto
  ultimately show ?thesis using True by (auto simp: live_def)
qed (auto simp: live_def)

lemma replace_live:
  assumes inv: "tinv l r p col rk" and q: "live p q" and x: "x < ring_N" "\<not> live p x"
  shows "live ((((p(x := p q))(l q := x))(r q := x))(q := NIL)) i \<longleftrightarrow> live p i \<and> i \<noteq> q \<or> i = x"
proof -
  have c: "l q < ring_N \<Longrightarrow> live p (l q)" "r q < ring_N \<Longrightarrow> live p (r q)"
    using tinv_left(1) [OF inv q] tinv_right(1) [OF inv live_vertex [OF q]] by auto
  have pq: "p q \<noteq> NIL" "x \<noteq> q" using q x by (auto simp: live_def)
  show ?thesis
  proof (cases "i = q \<or> i = x")
    case True
    then show ?thesis using pq x by (auto simp: live_def)
  next
    case False
    then show ?thesis using c x by (auto simp: live_def)
  qed
qed

text \<open>\<open>q\<close> is the rightmost node of the left subtree of \<open>d\<close>, below its parent's right link.\<close>

lemma tinv_delete_deep:
  assumes inv: "tinv l r p col rk" and d: "live p d" "l d \<noteq> NIL" "r d \<noteq> NIL"
    and q: "live p q" "r q = NIL" "r (p q) = q" "rk d < rk (p q)" "col q = col d"
  defines "p' \<equiv> ((((p(l q := p q))(l d := q))(r d := q))(q := p d))(d := NIL)"
    and "r' \<equiv> (if r (p d) = d then ((r(p q := l q))(q := r d))(p d := q) else (r(p q := l q))(q := r d))"
    and "l' \<equiv> (if r (p d) = d then l(q := l d) else (l(q := l d))(p d := q))"
  shows "tinv l' r' p' col (rk(q := rk d))" "live p' i \<longleftrightarrow> live p i \<and> i \<noteq> d"
proof -
  note up = tinv_up [OF inv] and ld = tinv_left [OF inv d(1,2)]
    and rd = tinv_right [OF inv live_vertex [OF d(1)] d(3)]
  have ne: "q \<noteq> d" "p q \<noteq> d" "p d \<noteq> p q" "p d \<noteq> q" "p d \<noteq> d" "p q \<noteq> q"
    using up(2) [OF d(1)] up(2) [OF q(1)] q(4) by auto
  have qc: "q \<noteq> l d" "q \<noteq> r d" using ld rd ne by auto
  have lqd: "l q \<noteq> d" "l q \<noteq> NIL \<Longrightarrow> l q \<noteq> p q \<and> l q \<noteq> q"
    using tinv_left(1,2) [OF inv q(1)] up(2) [of "l q"] up(2) [OF q(1)] q(4) live_neq_NIL [OF d(1)]
    by (cases "l q = NIL"; auto)+
  let ?p1 = "(p(l q := p q))(q := NIL)" and ?r1 = "r(p q := l q)"
  have inv1: "tinv l ?r1 ?p1 col rk"
    using tinv_splice [OF inv q(1) refl] q by simp
  have live1: "live ?p1 i \<longleftrightarrow> live p i \<and> i \<noteq> q" for i
    using splice_live [OF inv q(1) refl, of i] q by simp
  have d1: "live ?p1 d" "\<not> live ?p1 q" "q < ring_N"
    using live1 d q ne live_less [OF q(1)] by (auto simp: live1)
  have at_d: "?p1 d = p d" "?r1 d = r d" "?r1 (p d) = r (p d)"
    using ne lqd by auto
  have eqs: "(((?p1(q := ?p1 d))(l d := q))(?r1 d := q))(d := NIL) = p'"
    unfolding p'_def at_d using qc ne by (auto simp: fun_eq_iff)
  show "live p' i \<longleftrightarrow> live p i \<and> i \<noteq> d"
    using replace_live [OF inv1 d1(1) d1(3) d1(2), of i] q(1) ne unfolding eqs live1 by auto
  have "(if ?r1 (?p1 d) = d then l(q := l d) else (l(q := l d))(?p1 d := q)) = l'"
    "(if ?r1 (?p1 d) = d then (?r1(q := ?r1 d))(?p1 d := q) else ?r1(q := ?r1 d)) = r'"
    unfolding l'_def r'_def at_d by simp_all
  then show "tinv l' r' p' col (rk(q := rk d))"
    using tinv_replace [OF inv1 d1(1) d1(3) d1(2) q(5)] unfolding eqs by simp
qed

text \<open>The left child \<open>q\<close> of \<open>d\<close> has no right child and takes its place.\<close>

lemma tinv_delete_shallow:
  assumes inv: "tinv l r p col rk" and d: "live p d" "l d \<noteq> NIL" "r d \<noteq> NIL"
    and q: "q = l d" "r q = NIL"
  defines "p' \<equiv> ((p(r d := q))(q := p d))(d := NIL)"
    and "r' \<equiv> (if r (p d) = d then (r(q := r d))(p d := q) else r(q := r d))"
    and "l' \<equiv> (if r (p d) = d then l else l(p d := q))"
  shows "tinv l' r' p' col (rk(q := rk d))" "live p' i \<longleftrightarrow> live p i \<and> i \<noteq> d"
proof -
  note up = tinv_up [OF inv] and ld = tinv_left [OF inv d(1,2), folded q(1)]
    and rd = tinv_right [OF inv live_vertex [OF d(1)] d(3)]
  have ne: "q \<noteq> d" "p d \<noteq> q" "p d \<noteq> d" "r d \<noteq> d" "r d \<noteq> q"
    using up(2) [OF d(1)] up(2) [OF ld(1)] up(2) [OF rd(1)] ld rd by auto
  have lq: "l q \<noteq> NIL \<Longrightarrow> live p (l q) \<and> p (l q) = q \<and> l q \<noteq> d \<and> l q \<noteq> q \<and> l q \<noteq> r d"
    using tinv_left(1,2) [OF inv ld(1)] up(2) [of "l q"] up(2) [OF ld(1)] ld rd ne by auto
  let ?p1 = "(p(l q := d))(q := NIL)" and ?l1 = "l(d := l q)"
  have inv1: "tinv ?l1 r ?p1 col rk"
    using tinv_splice [OF inv ld(1) refl] ld q by auto
  have live1: "live ?p1 i \<longleftrightarrow> live p i \<and> i \<noteq> q" for i
    using splice_live [OF inv ld(1) refl, of i] q ld by simp
  have d1: "live ?p1 d" "\<not> live ?p1 q" "q < ring_N" "col q = col d"
    using d ne live_less [OF ld(1)] up(3) [OF ld(1)] ld by (auto simp: live1)
  have ldn: "l q \<noteq> d" using lq live_neq_NIL [OF d(1)] by (cases "l q = NIL") auto
  have at_d: "?p1 d = p d" "?l1 d = l q"
    using ne ldn by auto
  let ?p2 = "(((?p1(q := ?p1 d))(?l1 d := q))(r d := q))(d := NIL)"
  have pe: "p' i = ?p2 i" if "i < ring_N" for i
    unfolding p'_def at_d using lq that ne by (cases "l q = NIL") auto
  have lv: "live p' i = live ?p2 i" for i using pe by (auto simp: live_def)
  have live2: "live ?p2 i \<longleftrightarrow> live p i \<and> i \<noteq> d" for i
    using replace_live [OF inv1 d1(1) d1(3) d1(2), of i] ld ne by (auto simp: live1)
  show "live p' i \<longleftrightarrow> live p i \<and> i \<noteq> d" using lv live2 by blast
  let ?l2 = "if r (?p1 d) = d then ?l1(q := ?l1 d) else (?l1(q := ?l1 d))(?p1 d := q)"
  let ?r2 = "if r (?p1 d) = d then (r(q := r d))(?p1 d := q) else r(q := r d)"
  have inv2: "tinv ?l2 ?r2 ?p2 col (rk(q := rk d))"
    by (rule tinv_replace [OF inv1 d1(1) d1(3) d1(2) d1(4)])
  show "tinv l' r' p' col (rk(q := rk d))"
  proof (rule tinv_cong [OF inv2])
    fix i assume "live ?p2 i"
    then have "i \<noteq> d" using live2 [of i] by blast
    then show "l' i = ?l2 i" unfolding l'_def at_d by auto
  next
    fix i show "r' i = ?r2 i" unfolding r'_def at_d by simp
  next
    fix i assume "i < ring_N"
    then show "p' i = ?p2 i" by (rule pe)
  qed (rule refl)
qed

end
