(* ===== verification/Lzss_Tree.thy ===== *)
theory Lzss_Tree
  imports Lzss_Links
begin

text \<open>
  The encoder state of \<open>src/src/lzss.c\<close> and its three operations: \<open>init_state\<close>,
  \<open>insert_node\<close> and \<open>delete_node\<close>. Every array access is bounds-checked, the descent of
  \<open>insert_node\<close> has fuel. The lemmas show that on a well-formed state the operations return
  (so no access is out of bounds and the fuel suffices), keep the state well formed, change the
  set of the registered positions as documented, and that the match reported by \<open>insert_node\<close>
  is a real one.
\<close>

section \<open>The state and its arrays\<close>

record encode_state =
  lchild :: "nat \<Rightarrow> nat"
  rchild :: "nat \<Rightarrow> nat"
  parent :: "nat \<Rightarrow> nat"
  text_buf :: "nat \<Rightarrow> byte"
  match_position :: nat
  match_length :: nat

definition get_l :: "encode_state \<Rightarrow> nat \<Rightarrow> nat option" where
  "get_l sp i = arr_get (ring_N + 1) (lchild sp) i"

definition get_r :: "encode_state \<Rightarrow> nat \<Rightarrow> nat option" where
  "get_r sp i = arr_get (ring_N + 257) (rchild sp) i"

definition get_p :: "encode_state \<Rightarrow> nat \<Rightarrow> nat option" where
  "get_p sp i = arr_get (ring_N + 1) (parent sp) i"

definition get_text :: "encode_state \<Rightarrow> nat \<Rightarrow> byte option" where
  "get_text sp i = arr_get (ring_N + max_F - 1) (text_buf sp) i"

definition set_l :: "encode_state \<Rightarrow> nat \<Rightarrow> nat \<Rightarrow> encode_state option" where
  "set_l sp i v = map_option (\<lambda>a. sp\<lparr>lchild := a\<rparr>) (arr_set (ring_N + 1) (lchild sp) i v)"

definition set_r :: "encode_state \<Rightarrow> nat \<Rightarrow> nat \<Rightarrow> encode_state option" where
  "set_r sp i v = map_option (\<lambda>a. sp\<lparr>rchild := a\<rparr>) (arr_set (ring_N + 257) (rchild sp) i v)"

definition set_p :: "encode_state \<Rightarrow> nat \<Rightarrow> nat \<Rightarrow> encode_state option" where
  "set_p sp i v = map_option (\<lambda>a. sp\<lparr>parent := a\<rparr>) (arr_set (ring_N + 1) (parent sp) i v)"

definition set_text :: "encode_state \<Rightarrow> nat \<Rightarrow> byte \<Rightarrow> encode_state option" where
  "set_text sp i c =
     map_option (\<lambda>a. sp\<lparr>text_buf := a\<rparr>) (arr_set (ring_N + max_F - 1) (text_buf sp) i c)"

lemma get_simps [simp]:
  "i < 4097 \<Longrightarrow> get_l sp i = Some (lchild sp i)"
  "i < 4353 \<Longrightarrow> get_r sp i = Some (rchild sp i)"
  "i < 4097 \<Longrightarrow> get_p sp i = Some (parent sp i)"
  "i < 4113 \<Longrightarrow> get_text sp i = Some (text_buf sp i)"
  by (simp_all add: get_l_def get_r_def get_p_def get_text_def)

lemma set_simps [simp]:
  "i < 4097 \<Longrightarrow> set_l sp i v = Some (sp\<lparr>lchild := (lchild sp)(i := v)\<rparr>)"
  "i < 4353 \<Longrightarrow> set_r sp i v = Some (sp\<lparr>rchild := (rchild sp)(i := v)\<rparr>)"
  "i < 4097 \<Longrightarrow> set_p sp i v = Some (sp\<lparr>parent := (parent sp)(i := v)\<rparr>)"
  "i < 4113 \<Longrightarrow> set_text sp i c = Some (sp\<lparr>text_buf := (text_buf sp)(i := c)\<rparr>)"
  by (simp_all add: set_l_def set_r_def set_p_def set_text_def)

section \<open>The operations\<close>

text \<open>\<open>memset(sp, 0, sizeof(*sp))\<close> and the three loops.\<close>

definition init_state :: encode_state where
  "init_state =
     \<lparr>lchild = (\<lambda>_. 0),
      rchild = (\<lambda>i. if ring_N + 1 \<le> i \<and> i \<le> ring_N + 256 then NIL else 0),
      parent = (\<lambda>i. if i < ring_N then NIL else 0),
      text_buf = (\<lambda>i. if i < ring_N - max_F then 32 else 0),
      match_position = 0, match_length = 0\<rparr>"

text \<open>\<open>for (i = 1; i < F; i++) if ((cmp = key[i] - text_buf[p + i]) != 0) break;\<close> with \<open>n\<close>
  iterations left; \<open>key\<close> is \<open>&text_buf[r]\<close>.\<close>

fun key_cmp :: "encode_state \<Rightarrow> nat \<Rightarrow> nat \<Rightarrow> nat \<Rightarrow> nat \<Rightarrow> (nat \<times> int) option" where
  "key_cmp sp r p i 0 = Some (i, 0)"
| "key_cmp sp r p i (Suc n) = do {
     a \<leftarrow> get_text sp (r + i);
     b \<leftarrow> get_text sp (p + i);
     let cmp = int (unat a) - int (unat b);
     if cmp \<noteq> 0 then Some (i, cmp) else key_cmp sp r p (i + 1) n
   }"

text \<open>The \<open>for ( ; ; )\<close> loop: \<open>Some (sp, None)\<close> is the \<open>return\<close> after hanging \<open>r\<close> as a leaf,
  \<open>Some (sp, Some p)\<close> the \<open>break\<close> on a full match with \<open>p\<close>.\<close>

fun insert_loop :: "nat \<Rightarrow> encode_state \<Rightarrow> nat \<Rightarrow> int \<Rightarrow> nat \<Rightarrow> (encode_state \<times> nat option) option" where
  "insert_loop 0 sp r cmp p = None"
| "insert_loop (Suc fuel) sp r cmp p = do {
     q \<leftarrow> (if cmp \<ge> 0 then get_r sp p else get_l sp p);
     if q = NIL then do {
       sp1 \<leftarrow> (if cmp \<ge> 0 then set_r sp p r else set_l sp p r);
       sp2 \<leftarrow> set_p sp1 r p;
       Some (sp2, None)
     } else do {
       ic \<leftarrow> key_cmp sp r q 1 (max_F - 1);
       let i = fst ic;
       if i > match_length sp then
         (let sp1 = sp\<lparr>match_position := q, match_length := i\<rparr> in
          if i \<ge> max_F then Some (sp1, Some q) else insert_loop fuel sp1 r (snd ic) q)
       else insert_loop fuel sp r (snd ic) q
     }
   }"

text \<open>The statements after the loop: \<open>r\<close> takes the place of \<open>p\<close>.\<close>

definition insert_replace :: "encode_state \<Rightarrow> nat \<Rightarrow> nat \<Rightarrow> encode_state option" where
  "insert_replace sp r p = do {
     a \<leftarrow> get_p sp p;
     sp \<leftarrow> set_p sp r a;
     b \<leftarrow> get_l sp p;
     sp \<leftarrow> set_l sp r b;
     c \<leftarrow> get_r sp p;
     sp \<leftarrow> set_r sp r c;
     b \<leftarrow> get_l sp p;
     sp \<leftarrow> set_p sp b r;
     c \<leftarrow> get_r sp p;
     sp \<leftarrow> set_p sp c r;
     a \<leftarrow> get_p sp p;
     d \<leftarrow> get_r sp a;
     sp \<leftarrow> (if d = p then set_r sp a r else set_l sp a r);
     set_p sp p NIL
   }"

definition insert_node :: "encode_state \<Rightarrow> nat \<Rightarrow> encode_state option" where
  "insert_node sp r = do {
     k \<leftarrow> get_text sp r;
     let p = ring_N + 1 + unat k;
     sp \<leftarrow> set_l sp r NIL;
     sp \<leftarrow> set_r sp r NIL;
     let sp = sp\<lparr>match_length := 0\<rparr>;
     res \<leftarrow> insert_loop (ring_N + 2) sp r 1 p;
     case snd res of
       None \<Rightarrow> Some (fst res)
     | Some p \<Rightarrow> insert_replace (fst res) r p
   }"

text \<open>\<open>do q = rchild[q]; while (rchild[q] != NIL);\<close>\<close>

fun rightmost :: "nat \<Rightarrow> encode_state \<Rightarrow> nat \<Rightarrow> nat option" where
  "rightmost 0 sp q = None"
| "rightmost (Suc fuel) sp q = do {
     q' \<leftarrow> get_r sp q;
     d \<leftarrow> get_r sp q';
     if d \<noteq> NIL then rightmost fuel sp q' else Some q'
   }"

text \<open>The two-children branch of \<open>delete_node\<close>: the new state and \<open>q\<close>.\<close>

definition delete_two :: "encode_state \<Rightarrow> nat \<Rightarrow> (encode_state \<times> nat) option" where
  "delete_two sp p = do {
     q0 \<leftarrow> get_l sp p;
     d \<leftarrow> get_r sp q0;
     sq \<leftarrow> (if d \<noteq> NIL then do {
              q \<leftarrow> rightmost (ring_N + 2) sp q0;
              a \<leftarrow> get_p sp q;
              b \<leftarrow> get_l sp q;
              sp \<leftarrow> set_r sp a b;
              b \<leftarrow> get_l sp q;
              a \<leftarrow> get_p sp q;
              sp \<leftarrow> set_p sp b a;
              b \<leftarrow> get_l sp p;
              sp \<leftarrow> set_l sp q b;
              b \<leftarrow> get_l sp p;
              sp \<leftarrow> set_p sp b q;
              Some (sp, q)
            } else Some (sp, q0));
     let (sp, q) = sq;
     c \<leftarrow> get_r sp p;
     sp \<leftarrow> set_r sp q c;
     c \<leftarrow> get_r sp p;
     sp \<leftarrow> set_p sp c q;
     Some (sp, q)
   }"

definition delete_node :: "encode_state \<Rightarrow> nat \<Rightarrow> encode_state option" where
  "delete_node sp p = do {
     a \<leftarrow> get_p sp p;
     if a = NIL then Some sp
     else do {
       c \<leftarrow> get_r sp p;
       b \<leftarrow> get_l sp p;
       sq \<leftarrow> (if c = NIL then Some (sp, b)
              else if b = NIL then Some (sp, c)
              else delete_two sp p);
       let (sp, q) = sq;
       a \<leftarrow> get_p sp p;
       sp \<leftarrow> set_p sp q a;
       d \<leftarrow> get_r sp a;
       sp \<leftarrow> (if d = p then set_r sp a q else set_l sp a q);
       set_p sp p NIL
     }
   }"

section \<open>Well-formed encoder states\<close>

text \<open>The tree a node belongs to is the root of its first byte.\<close>

definition colour :: "encode_state \<Rightarrow> nat \<Rightarrow> nat" where
  "colour sp q = (if q < ring_N then ring_N + 1 + unat (text_buf sp q) else q)"

lemma colour_upd [simp]:
  "colour (sp\<lparr>lchild := a\<rparr>) = colour sp" "colour (sp\<lparr>rchild := a\<rparr>) = colour sp"
  "colour (sp\<lparr>parent := a\<rparr>) = colour sp" "colour (sp\<lparr>match_position := i\<rparr>) = colour sp"
  "colour (sp\<lparr>match_length := i\<rparr>) = colour sp"
  by (simp_all add: colour_def fun_eq_iff)

definition tree_rank :: "encode_state \<Rightarrow> (nat \<Rightarrow> nat) \<Rightarrow> bool" where
  "tree_rank sp rk \<longleftrightarrow> tinv (lchild sp) (rchild sp) (parent sp) (colour sp) rk"

definition tree_ok :: "encode_state \<Rightarrow> bool" where
  "tree_ok sp \<longleftrightarrow> (\<exists>rk. tree_rank sp rk)"

lemma tree_okI: "tinv (lchild sp) (rchild sp) (parent sp) (colour sp) rk \<Longrightarrow> tree_ok sp"
  by (auto simp: tree_ok_def tree_rank_def)

definition in_tree :: "encode_state \<Rightarrow> nat set" where
  "in_tree sp = {i. live (parent sp) i}"

lemma in_tree_cong: "parent sp' = parent sp \<Longrightarrow> in_tree sp' = in_tree sp"
  by (simp add: in_tree_def)

lemma colour_cong: "text_buf sp' = text_buf sp \<Longrightarrow> colour sp' = colour sp"
  by (simp add: colour_def fun_eq_iff)

lemma in_treeI: "live (parent sp) i \<Longrightarrow> i \<in> in_tree sp"
  by (simp add: in_tree_def)

lemma in_tree_finite [simp]: "finite (in_tree sp)" and card_in_tree: "card (in_tree sp) \<le> ring_N"
proof -
  have "in_tree sp \<subseteq> {..<ring_N}" by (auto simp: in_tree_def live_def)
  then show "finite (in_tree sp)" "card (in_tree sp) \<le> ring_N"
    using finite_subset card_mono [of "{..<ring_N}" "in_tree sp"] by auto
qed

lemma init_tree_ok: "tree_ok init_state" and init_in_tree: "in_tree init_state = {}"
  by (auto simp: tree_ok_def tree_rank_def tinv_def init_state_def in_tree_def live_def
      vertex_def is_root_def)

text \<open>What the match fields claim about position \<open>r\<close>, for candidates in \<open>L\<close>.\<close>

definition match_ok :: "encode_state \<Rightarrow> nat set \<Rightarrow> nat \<Rightarrow> bool" where
  "match_ok sp L r \<longleftrightarrow> match_length sp \<le> max_F \<and>
     (match_length sp = 0 \<or>
      match_position sp \<in> L \<and>
      (\<forall>j < match_length sp. text_buf sp (match_position sp + j) = text_buf sp (r + j)))"

section \<open>Comparing keys\<close>

lemma key_cmp_spec:
  assumes "r < ring_N" "p < ring_N" "i + n = max_F"
  shows "\<exists>k c. key_cmp sp r p i n = Some (k, c) \<and> i \<le> k \<and> k \<le> max_F \<and>
           (\<forall>j. i \<le> j \<longrightarrow> j < k \<longrightarrow> text_buf sp (p + j) = text_buf sp (r + j))"
  using assms
proof (induction n arbitrary: i)
  case (Suc n)
  show ?case
  proof (cases "text_buf sp (r + i) = text_buf sp (p + i)")
    case True
    obtain k c where "key_cmp sp r p (i + 1) n = Some (k, c)" "i + 1 \<le> k" "k \<le> max_F"
      "\<forall>j. i + 1 \<le> j \<longrightarrow> j < k \<longrightarrow> text_buf sp (p + j) = text_buf sp (r + j)"
      using Suc.IH [of "i + 1"] Suc.prems by auto
    moreover have "text_buf sp (p + j) = text_buf sp (r + j)" if "i \<le> j" "j < k" for j
      using calculation(4) True that by (cases "j = i") auto
    ultimately show ?thesis
      using Suc.prems True by (intro exI [of _ k] exI [of _ c]) auto
  next
    case False
    then have "uint (text_buf sp (r + i)) \<noteq> uint (text_buf sp (p + i))"
      by (metis unsigned_word_eqI)
    then show ?thesis using Suc.prems by auto
  qed
qed auto

section \<open>Descending and inserting\<close>

definition deeper :: "encode_state \<Rightarrow> (nat \<Rightarrow> nat) \<Rightarrow> nat \<Rightarrow> nat set" where
  "deeper sp rk p = {i \<in> in_tree sp. rk p < rk i}"

lemma deeper_step:
  assumes "q \<in> in_tree sp" "rk p < rk q"
  shows "card (deeper sp rk q) < card (deeper sp rk p)"
  using assms by (intro psubset_card_mono) (auto simp: deeper_def)

lemma card_deeper: "card (deeper sp rk p) \<le> ring_N"
  using card_mono [of "in_tree sp" "deeper sp rk p"] card_in_tree [of sp]
  by (auto simp: deeper_def)

text \<open>The descent stays among vertices of the colour of \<open>r\<close>; a root is left to the right.\<close>

definition descent_ok :: "encode_state \<Rightarrow> nat \<Rightarrow> int \<Rightarrow> nat \<Rightarrow> bool" where
  "descent_ok sp r cmp p \<longleftrightarrow> r < ring_N \<and> r \<notin> in_tree sp \<and> vertex (parent sp) p \<and>
     colour sp p = colour sp r \<and> (is_root p \<longrightarrow> cmp \<ge> 0) \<and>
     lchild sp r = NIL \<and> rchild sp r = NIL \<and> match_ok sp (in_tree sp) r"

definition insert_loop_post :: "encode_state \<Rightarrow> nat \<Rightarrow> encode_state \<Rightarrow> nat option \<Rightarrow> bool" where
  "insert_loop_post sp r sp' res \<longleftrightarrow> text_buf sp' = text_buf sp \<and> match_ok sp' (in_tree sp) r \<and>
     (case res of
        None \<Rightarrow> tree_ok sp' \<and> in_tree sp' = insert r (in_tree sp)
      | Some q \<Rightarrow> q \<in> in_tree sp \<and> colour sp q = colour sp r \<and>
          lchild sp' = lchild sp \<and> rchild sp' = rchild sp \<and> parent sp' = parent sp)"

lemma next_child:
  assumes "tree_rank sp rk" "vertex (parent sp) p" "is_root p \<longrightarrow> cmp \<ge> 0"
  shows "\<exists>q. (if cmp \<ge> (0::int) then get_r sp p else get_l sp p) = Some q \<and>
    q = (if cmp \<ge> 0 then rchild sp p else lchild sp p) \<and>
    (q \<noteq> NIL \<longrightarrow> live (parent sp) q \<and> rk p < rk q \<and> colour sp q = colour sp p)"
proof -
  have p: "p < 4353" using assms(2) vertex_bound by blast
  have pl: "\<not> cmp \<ge> 0 \<Longrightarrow> live (parent sp) p" using assms(2,3) by (auto simp: vertex_def)
  note inv = assms(1) [unfolded tree_rank_def]
  show ?thesis
  proof (cases "cmp \<ge> 0")
    case True
    then show ?thesis
      using p tinv_right [OF inv assms(2)] tinv_up(2,3) [OF inv, of "rchild sp p"] by auto
  next
    case False
    then show ?thesis
      using p pl live_less [OF pl] tinv_left [OF inv, of p] tinv_up(2,3) [OF inv, of "lchild sp p"]
      by auto
  qed
qed

lemma insert_leaf:
  assumes rk: "tree_rank sp rk" and d: "descent_ok sp r cmp p"
    and nil: "(if cmp \<ge> 0 then rchild sp p else lchild sp p) = NIL"
  shows "\<exists>sp'. (do { sp1 \<leftarrow> (if cmp \<ge> 0 then set_r sp p r else set_l sp p r); set_p sp1 r p }) = Some sp'
    \<and> insert_loop_post sp r sp' None"
proof -
  note inv = rk [unfolded tree_rank_def]
  have p: "p < 4353" "vertex (parent sp) p" and r: "r < 4096" "\<not> live (parent sp) r"
    and col: "colour sp r = colour sp p"
    using d vertex_bound by (auto simp: descent_ok_def in_tree_def)
  have lr: "(lchild sp)(r := NIL) = lchild sp" "(rchild sp)(r := NIL) = rchild sp"
    using d by (auto simp: descent_ok_def fun_eq_iff)
  have it: "in_tree s' = insert r (in_tree sp)" if "parent s' = (parent sp)(r := p)" for s'
    using that r p vertex_neq_NIL by (auto simp: in_tree_def live_def)
  have mok: "match_ok sp (in_tree sp) r" using d by (simp add: descent_ok_def)
  show ?thesis
  proof (cases "cmp \<ge> 0")
    case True
    let ?s = "sp\<lparr>rchild := (rchild sp)(p := r), parent := (parent sp)(r := p)\<rparr>"
    have "tinv (lchild sp) ((rchild sp)(p := r)) ((parent sp)(r := p)) (colour sp) (rk(r := Suc (rk p)))"
      using tinv_attach_right [OF inv p(2) _ r col] nil True lr by simp
    then have "tree_ok ?s" by (intro tree_okI [where rk = "rk(r := Suc (rk p))"]) simp
    then show ?thesis
      using True p(1) r(1) mok it [of ?s] by (simp add: insert_loop_post_def match_ok_def)
  next
    case False
    then have pl: "live (parent sp) p" using d by (auto simp: descent_ok_def vertex_def)
    let ?s = "sp\<lparr>lchild := (lchild sp)(p := r), parent := (parent sp)(r := p)\<rparr>"
    have "tinv ((lchild sp)(p := r)) (rchild sp) ((parent sp)(r := p)) (colour sp) (rk(r := Suc (rk p)))"
      using tinv_attach_left [OF inv pl _ r col] nil False lr by simp
    then have "tree_ok ?s" by (intro tree_okI [where rk = "rk(r := Suc (rk p))"]) simp
    then show ?thesis
      using False r(1) mok it [of ?s] live_less [OF pl]
      by (simp add: insert_loop_post_def match_ok_def)
  qed
qed

lemma insert_loop_spec:
  assumes "tree_rank sp rk" "descent_ok sp r cmp p" "card (deeper sp rk p) < fuel"
  shows "\<exists>sp' res. insert_loop fuel sp r cmp p = Some (sp', res) \<and> insert_loop_post sp r sp' res"
  using assms
proof (induction fuel arbitrary: sp cmp p)
  case (Suc fuel)
  note d = Suc.prems(2)
  have v: "vertex (parent sp) p" "is_root p \<longrightarrow> cmp \<ge> 0" and r: "r < ring_N" "r \<notin> in_tree sp"
    and mok: "match_ok sp (in_tree sp) r"
    using d by (auto simp: descent_ok_def)
  obtain q where q: "(if cmp \<ge> 0 then get_r sp p else get_l sp p) = Some q"
      "q = (if cmp \<ge> 0 then rchild sp p else lchild sp p)"
      "q \<noteq> NIL \<Longrightarrow> live (parent sp) q \<and> rk p < rk q \<and> colour sp q = colour sp p"
    using next_child [OF Suc.prems(1) v] by auto
  show ?case
  proof (cases "q = NIL")
    case True
    then obtain sp' where sp': "(do { sp1 \<leftarrow> (if cmp \<ge> 0 then set_r sp p r else set_l sp p r); set_p sp1 r p }) = Some sp'"
        "insert_loop_post sp r sp' None"
      using insert_leaf [OF Suc.prems(1) d] q(2) by auto
    then show ?thesis using True q(1) by (auto split: bind_splits if_splits)
  next
    case False
    then have ql: "live (parent sp) q" "rk p < rk q" "colour sp q = colour sp p" using q(3) by auto
    then have qt: "q \<in> in_tree sp" "q < 4096" by (auto simp: in_tree_def live_def)
    obtain k c where kc: "key_cmp sp r q 1 (max_F - 1) = Some (k, c)" "1 \<le> k" "k \<le> max_F"
        "\<forall>j. 1 \<le> j \<longrightarrow> j < k \<longrightarrow> text_buf sp (q + j) = text_buf sp (r + j)"
      using key_cmp_spec [of r q 1 "max_F - 1" sp] r qt by auto
    have first: "text_buf sp q = text_buf sp r"
      using ql(3) d qt r by (intro unsigned_word_eqI) (simp add: descent_ok_def colour_def)
    have eq: "\<forall>j < k. text_buf sp (q + j) = text_buf sp (r + j)"
      using kc(4) first by (metis One_nat_def Suc_leI add.right_neutral neq0_conv)
    define sp1 where "sp1 = (if k > match_length sp
       then sp\<lparr>match_position := q, match_length := k\<rparr> else sp)"
    have same: "text_buf sp1 = text_buf sp" "lchild sp1 = lchild sp" "rchild sp1 = rchild sp"
        "parent sp1 = parent sp" "colour sp1 = colour sp" "in_tree sp1 = in_tree sp"
      by (auto simp: sp1_def colour_def in_tree_def fun_eq_iff)
    have mok1: "match_ok sp1 (in_tree sp) r"
      using mok eq qt kc(3) by (auto simp: sp1_def match_ok_def)
    have rk1: "tree_rank sp1 rk" using Suc.prems(1) by (simp add: tree_rank_def same)
    show ?thesis
    proof (cases "k > match_length sp \<and> k \<ge> max_F")
      case True
      then have "insert_loop (Suc fuel) sp r cmp p = Some (sp1, Some q)"
        using False kc(1) by (simp add: q(1) sp1_def)
      moreover have "insert_loop_post sp r sp1 (Some q)"
        using mok1 qt ql d by (simp add: insert_loop_post_def same descent_ok_def)
      ultimately show ?thesis by blast
    next
      case k: False
      have eq: "insert_loop (Suc fuel) sp r cmp p = insert_loop fuel sp1 r c q"
        using k False kc(1) by (auto simp: q(1) sp1_def)
      have d1: "descent_ok sp1 r c q"
        using d ql qt mok1 live_not_root [OF ql(1)] live_vertex [OF ql(1)]
        by (simp add: descent_ok_def same)
      have "card (deeper sp1 rk q) < fuel"
        using deeper_step [OF qt(1) ql(2)] Suc.prems(3) by (simp add: deeper_def same)
      with Suc.IH [OF rk1 d1] obtain sp' res where "insert_loop fuel sp1 r c q = Some (sp', res)"
          "insert_loop_post sp1 r sp' res"
        by blast
      then show ?thesis using eq by (simp add: insert_loop_post_def same split: option.splits)
    qed
  qed
qed simp

section \<open>Replacing a node and inserting\<close>

text \<open>Node \<open>p\<close> with its neighbours: all of them are inside the arrays and distinct.\<close>

lemma node_facts:
  assumes "tree_rank sp rk" "live (parent sp) p"
  shows "p < 4096" "parent sp p < 4353" "lchild sp p \<le> 4096" "rchild sp p \<le> 4096"
    "parent sp p \<noteq> p" "lchild sp p \<noteq> p" "rchild sp p \<noteq> p" "parent sp p \<noteq> 4096"
    "rchild sp (parent sp p) \<noteq> p \<Longrightarrow> parent sp p < 4096"
    "lchild sp p \<noteq> 4096 \<Longrightarrow> lchild sp p \<noteq> parent sp p"
    "rchild sp p \<noteq> 4096 \<Longrightarrow> rchild sp p \<noteq> parent sp p"
proof -
  note inv = assms(1) [unfolded tree_rank_def]
  note up = tinv_up [OF inv] and l = tinv_left [OF inv assms(2)]
    and r = tinv_right [OF inv live_vertex [OF assms(2)]]
  show "p < 4096" "parent sp p < 4353" "parent sp p \<noteq> p" "parent sp p \<noteq> 4096"
    using assms(2) up [OF assms(2)] vertex_bound vertex_neq_NIL by (auto simp: live_def)
  show "rchild sp (parent sp p) \<noteq> p \<Longrightarrow> parent sp p < 4096" using up(4) [OF assms(2)] by auto
  show "lchild sp p \<le> 4096" "lchild sp p \<noteq> p" "lchild sp p \<noteq> 4096 \<Longrightarrow> lchild sp p \<noteq> parent sp p"
    using l live_less [OF l(1)] up(2) [OF l(1)] up(2) [OF assms(2)] assms(2)
    by (cases "lchild sp p = 4096"; force simp: live_def)+
  show "rchild sp p \<le> 4096" "rchild sp p \<noteq> p" "rchild sp p \<noteq> 4096 \<Longrightarrow> rchild sp p \<noteq> parent sp p"
    using r live_less [OF r(1)] up(2) [OF r(1)] up(2) [OF assms(2)] assms(2)
    by (cases "rchild sp p = 4096"; force simp: live_def)+
qed

lemma insert_replace_eq:
  assumes rk: "tree_rank sp rk" and p: "live (parent sp) p"
    and r: "r < 4096" "\<not> live (parent sp) r"
  shows "\<exists>sp'. insert_replace sp r p = Some sp' \<and>
    lchild sp' = (if rchild sp (parent sp p) = p then (lchild sp)(r := lchild sp p)
                  else ((lchild sp)(r := lchild sp p))(parent sp p := r)) \<and>
    rchild sp' = (if rchild sp (parent sp p) = p then ((rchild sp)(r := rchild sp p))(parent sp p := r)
                  else (rchild sp)(r := rchild sp p)) \<and>
    parent sp' = ((((parent sp)(r := parent sp p))(lchild sp p := r))(rchild sp p := r))(p := NIL) \<and>
    text_buf sp' = text_buf sp \<and> match_position sp' = match_position sp \<and>
    match_length sp' = match_length sp"
proof -
  note nf = node_facts [OF rk p]
  have "p \<noteq> r" "parent sp p \<noteq> r"
    using p r tinv_up(1) [OF rk [unfolded tree_rank_def] p] by (auto simp: vertex_def is_root_def)
  then show ?thesis
    using r nf(1-9)
    by (cases "rchild sp (parent sp p) = p") (simp_all add: insert_replace_def Let_def)
qed

lemma insert_replace_ok:
  assumes rk: "tree_rank sp rk" and p: "p \<in> in_tree sp" and r: "r < ring_N" "r \<notin> in_tree sp"
    and col: "colour sp r = colour sp p"
  shows "\<exists>sp'. insert_replace sp r p = Some sp' \<and> tree_rank sp' (rk(r := rk p)) \<and>
    in_tree sp' = insert r (in_tree sp - {p}) \<and> text_buf sp' = text_buf sp \<and>
    match_position sp' = match_position sp \<and> match_length sp' = match_length sp"
proof -
  have pl: "live (parent sp) p" and rl: "\<not> live (parent sp) r" using p r by (auto simp: in_tree_def)
  note inv = rk [unfolded tree_rank_def]
  obtain sp' where sp': "insert_replace sp r p = Some sp'"
      "lchild sp' = (if rchild sp (parent sp p) = p then (lchild sp)(r := lchild sp p)
                  else ((lchild sp)(r := lchild sp p))(parent sp p := r))"
      "rchild sp' = (if rchild sp (parent sp p) = p then ((rchild sp)(r := rchild sp p))(parent sp p := r)
                  else (rchild sp)(r := rchild sp p))"
      "parent sp' = ((((parent sp)(r := parent sp p))(lchild sp p := r))(rchild sp p := r))(p := NIL)"
      "text_buf sp' = text_buf sp" "match_position sp' = match_position sp"
      "match_length sp' = match_length sp"
    using insert_replace_eq [OF rk pl r(1) rl] by blast
  have "colour sp' = colour sp" using sp'(5) by (simp add: colour_def fun_eq_iff)
  then have "tree_rank sp' (rk(r := rk p))"
    using tinv_replace [OF inv pl r(1) rl col] sp'(2-4) by (simp add: tree_rank_def)
  moreover have "i \<in> in_tree sp' \<longleftrightarrow> i \<in> insert r (in_tree sp - {p})" for i
  proof -
    have ch: "live (parent sp) i" if "i = lchild sp p \<or> i = rchild sp p" "i < 4096"
      using that tinv_left(1) [OF inv pl] tinv_right(1) [OF inv live_vertex [OF pl]] by auto
    have rp: "r \<noteq> p" "parent sp p \<noteq> NIL" using rl pl by (auto simp: live_def)
    have lr: "lchild sp p \<noteq> r" "rchild sp p \<noteq> r"
      using ch r rl tinv_left(1) [OF inv pl] tinv_right(1) [OF inv live_vertex [OF pl]] by force+
    show ?thesis
      using ch rp r lr by (auto simp: in_tree_def live_def sp'(4))
  qed
  ultimately show ?thesis using sp' by blast
qed

lemma match_ok_cong:
  assumes "match_ok sp L r" "text_buf sp' = text_buf sp" "match_position sp' = match_position sp"
    "match_length sp' = match_length sp"
  shows "match_ok sp' L r"
  using assms by (simp add: match_ok_def)

lemma colour_root: "colour sp (4097 + unat k) = 4097 + unat (k::byte)"
  by (simp add: colour_def)

lemma root_of_byte: "is_root (4097 + unat (k::byte))"
  using unsigned_less [of k, where 'a = nat] by (simp add: is_root_def)

lemma insert_node_ok:
  assumes ok: "tree_ok sp" and r: "r < ring_N" "r \<notin> in_tree sp"
  shows "\<exists>sp' D. insert_node sp r = Some sp' \<and> tree_ok sp' \<and>
    in_tree sp' = insert r (in_tree sp - D) \<and> D \<subseteq> in_tree sp \<and>
    text_buf sp' = text_buf sp \<and> match_ok sp' (in_tree sp) r"
proof -
  obtain rk where rk: "tree_rank sp rk" using ok by (auto simp: tree_ok_def)
  define k where "k = text_buf sp r"
  define s where "s = sp\<lparr>lchild := (lchild sp)(r := NIL), rchild := (rchild sp)(r := NIL), match_length := 0\<rparr>"
  define p where "p = ring_N + 1 + unat k"
  have sf: "parent s = parent sp" "text_buf s = text_buf sp" "colour s = colour sp" "in_tree s = in_tree sp"
    by (auto simp: s_def in_tree_def)
  have rl: "\<not> live (parent sp) r" "\<not> is_root r" using r by (auto simp: in_tree_def is_root_def)
  have rks: "tree_rank s rk"
    unfolding tree_rank_def
    by (rule tinv_cong [OF rk [unfolded tree_rank_def]])
       (use rl in \<open>auto simp: s_def vertex_def\<close>)
  have d: "descent_ok s r 1 p"
    using r root_of_byte [of k] colour_root [of s k] 
    by (simp add: descent_ok_def sf p_def vertex_def match_ok_def)
       (simp add: s_def k_def colour_def)
  have node: "insert_node sp r = do {
      res \<leftarrow> insert_loop (ring_N + 2) s r 1 p;
      case snd res of None \<Rightarrow> Some (fst res) | Some p \<Rightarrow> insert_replace (fst res) r p }"
    using r by (simp add: insert_node_def Let_def s_def p_def k_def)
  have "card (deeper s rk p) < ring_N + 2" using card_deeper [of s rk p] by simp
  then obtain s1 res where loop: "insert_loop (ring_N + 2) s r 1 p = Some (s1, res)"
      and post: "insert_loop_post s r s1 res"
    using insert_loop_spec [OF rks d] by blast
  show ?thesis
  proof (cases res)
    case None
    then show ?thesis
      using loop post node
      by (intro exI [of _ s1] exI [of _ "{}"]) (simp add: insert_loop_post_def sf)
  next
    case (Some q)
    have q: "q \<in> in_tree sp" "colour sp q = colour sp r" "match_ok s1 (in_tree sp) r"
        "text_buf s1 = text_buf sp"
      and s1: "lchild s1 = lchild s" "rchild s1 = rchild s" "parent s1 = parent s"
      using post Some by (auto simp: insert_loop_post_def sf)
    have c1: "colour s1 = colour sp" "in_tree s1 = in_tree sp"
      using in_tree_cong [of s1 sp] colour_cong [of s1 sp] q s1 sf by auto
    have "tree_rank s1 rk" using rks by (simp add: tree_rank_def s1 c1 sf)
    then obtain sp' where sp': "insert_replace s1 r q = Some sp'" "tree_rank sp' (rk(r := rk q))"
        "in_tree sp' = insert r (in_tree s1 - {q})" "text_buf sp' = text_buf s1"
        "match_position sp' = match_position s1" "match_length sp' = match_length s1"
      using insert_replace_ok [of s1 rk q r] q r c1 by auto
    then show ?thesis
      using loop node Some q c1 match_ok_cong [of s1 "in_tree sp" r sp']
      by (intro exI [of _ sp'] exI [of _ "{q}"]) (auto simp: tree_ok_def)
  qed
qed

section \<open>Deleting\<close>

lemma rightmost_spec:
  assumes rk: "tree_rank sp rk" and q0: "live (parent sp) q0" "rchild sp q0 \<noteq> NIL"
    and fuel: "card (deeper sp rk q0) < fuel"
  shows "\<exists>q. rightmost fuel sp q0 = Some q \<and> live (parent sp) q \<and> rchild sp q = NIL \<and>
    rchild sp (parent sp q) = q \<and> rk q0 \<le> rk (parent sp q) \<and> colour sp q = colour sp q0"
  using q0 fuel
proof (induction fuel arbitrary: q0)
  case (Suc fuel)
  note inv = rk [unfolded tree_rank_def]
  let ?q = "rchild sp q0"
  have q: "live (parent sp) ?q" "parent sp ?q = q0"
    using tinv_right [OF inv live_vertex [OF Suc.prems(1)] Suc.prems(2)] by auto
  have qr: "rk q0 < rk ?q" "colour sp q0 = colour sp ?q"
    using tinv_up(2,3) [OF inv q(1)] q(2) by auto
  have b: "q0 < 4353" "?q < 4353"
    using live_less [OF Suc.prems(1)] live_less [OF q(1)] by auto
  show ?case
  proof (cases "rchild sp ?q = NIL")
    case True
    then show ?thesis using b q qr by simp
  next
    case False
    have "card (deeper sp rk ?q) < fuel"
      using deeper_step [of ?q sp rk q0] q(1) qr Suc.prems(3) by (simp add: in_treeI)
    from Suc.IH [OF q(1) False this] show ?thesis using b qr False by auto
  qed
qed simp

text \<open>What every branch of \<open>delete_node\<close> establishes.\<close>

definition deleted :: "encode_state \<Rightarrow> nat \<Rightarrow> encode_state \<Rightarrow> bool" where
  "deleted sp p sp' \<longleftrightarrow> tree_ok sp' \<and> in_tree sp' = in_tree sp - {p} \<and> text_buf sp' = text_buf sp"

lemma deletedI:
  assumes "tinv (lchild sp') (rchild sp') (parent sp') (colour sp) rk'"
    "\<And>i. live (parent sp') i \<longleftrightarrow> live (parent sp) i \<and> i \<noteq> p" "text_buf sp' = text_buf sp"
  shows "deleted sp p sp'"
proof -
  have "tree_ok sp'"
    using assms(1) colour_cong [OF assms(3)] by (intro tree_okI [where rk = rk']) simp
  moreover have "in_tree sp' = in_tree sp - {p}"
    unfolding in_tree_def assms(2) by blast
  ultimately show ?thesis using assms(3) by (simp add: deleted_def)
qed

text \<open>The statements after the case distinction link \<open>q\<close> to the parent of \<open>p\<close>.\<close>

definition relink :: "encode_state \<Rightarrow> nat \<Rightarrow> nat \<Rightarrow> encode_state option" where
  "relink sp p q = do {
     a \<leftarrow> get_p sp p;
     sp \<leftarrow> set_p sp q a;
     d \<leftarrow> get_r sp a;
     sp \<leftarrow> (if d = p then set_r sp a q else set_l sp a q);
     set_p sp p NIL
   }"

lemma relink_eq:
  assumes "p < 4096" "q < 4097" "parent sp p < 4353"
    "rchild sp (parent sp p) \<noteq> p \<Longrightarrow> parent sp p < 4097"
  shows "\<exists>sp'. relink sp p q = Some sp' \<and>
    lchild sp' = (if rchild sp (parent sp p) = p then lchild sp else (lchild sp)(parent sp p := q)) \<and>
    rchild sp' = (if rchild sp (parent sp p) = p then (rchild sp)(parent sp p := q) else rchild sp) \<and>
    parent sp' = ((parent sp)(q := parent sp p))(p := NIL) \<and> text_buf sp' = text_buf sp"
  using assms by (cases "rchild sp (parent sp p) = p") (simp_all add: relink_def)

lemma delete_node_eq:
  assumes "p < 4096" "parent sp p \<noteq> NIL"
  shows "delete_node sp p = do {
    sq \<leftarrow> (if rchild sp p = NIL then Some (sp, lchild sp p)
           else if lchild sp p = NIL then Some (sp, rchild sp p)
           else delete_two sp p);
    relink (fst sq) p (snd sq) }"
  using assms by (simp add: delete_node_def relink_def split_beta)

lemma delete_one:
  assumes rk: "tree_rank sp rk" and p: "live (parent sp) p"
    and q: "q = (if rchild sp p = NIL then lchild sp p else rchild sp p)"
      "rchild sp p = NIL \<or> lchild sp p = NIL"
  shows "\<exists>sp'. relink sp p q = Some sp' \<and> deleted sp p sp'"
proof -
  note inv = rk [unfolded tree_rank_def] and nf = node_facts [OF rk p]
  have b: "q < 4097" unfolding q(1) using nf(3,4) by simp
  have b2: "rchild sp (parent sp p) \<noteq> p \<Longrightarrow> parent sp p < 4097" using nf(9) by simp
  from relink_eq [OF nf(1) b nf(2) b2] obtain sp' where sp': "relink sp p q = Some sp'"
    "lchild sp' = (if rchild sp (parent sp p) = p then lchild sp else (lchild sp)(parent sp p := q))"
    "rchild sp' = (if rchild sp (parent sp p) = p then (rchild sp)(parent sp p := q) else rchild sp)"
    "parent sp' = ((parent sp)(q := parent sp p))(p := NIL)" "text_buf sp' = text_buf sp"
    by blast
  have "deleted sp p sp'"
    using tinv_splice [OF inv p q] splice_live [OF inv p q(1)]
    by (cases "rchild sp (parent sp p) = p"; intro deletedI [where rk' = rk]; simp add: sp'(2-5))
  then show ?thesis using sp'(1) by blast
qed

lemma delete_two_shallow:
  assumes rk: "tree_rank sp rk" and p: "live (parent sp) p"
    and c: "rchild sp p \<noteq> NIL" "lchild sp p \<noteq> NIL" "rchild sp (lchild sp p) = NIL"
  shows "\<exists>sp1 q sp'. delete_two sp p = Some (sp1, q) \<and> relink sp1 p q = Some sp' \<and> deleted sp p sp'"
proof -
  note inv = rk [unfolded tree_rank_def] and nf = node_facts [OF rk p]
  let ?q = "lchild sp p"
  define sp1 where "sp1 = sp\<lparr>rchild := (rchild sp)(?q := rchild sp p),
    parent := (parent sp)(rchild sp p := ?q)\<rparr>"
  have two: "delete_two sp p = Some (sp1, ?q)"
    using nf c by (simp add: delete_two_def sp1_def)
  have at_p: "parent sp1 p = parent sp p" "rchild sp1 (parent sp p) = rchild sp (parent sp p)"
    using nf c by (auto simp: sp1_def)
  have b: "?q < 4097" "rchild sp (parent sp p) \<noteq> p \<Longrightarrow> parent sp p < 4097"
    using nf(3,9) by auto
  from relink_eq [of p ?q sp1, unfolded at_p, OF nf(1) b(1) nf(2) b(2)]
  obtain sp' where sp': "relink sp1 p ?q = Some sp'"
    "lchild sp' = (if rchild sp (parent sp p) = p then lchild sp1 else (lchild sp1)(parent sp p := ?q))"
    "rchild sp' = (if rchild sp (parent sp p) = p then (rchild sp1)(parent sp p := ?q) else rchild sp1)"
    "parent sp' = ((parent sp1)(?q := parent sp p))(p := NIL)" "text_buf sp' = text_buf sp1"
    by blast
  have f: "lchild sp1 = lchild sp" "rchild sp1 = (rchild sp)(?q := rchild sp p)"
    "parent sp1 = (parent sp)(rchild sp p := ?q)" "text_buf sp1 = text_buf sp"
    by (simp_all add: sp1_def)
  have "deleted sp p sp'"
    using tinv_delete_shallow [OF inv p c(2,1) refl c(3)]
    by (cases "rchild sp (parent sp p) = p"; intro deletedI [where rk' = "rk(?q := rk p)"];
        simp add: sp'(2-5) f)
  then show ?thesis using two sp'(1) by blast
qed

lemma delete_two_deep:
  assumes rk: "tree_rank sp rk" and p: "live (parent sp) p"
    and c: "rchild sp p \<noteq> NIL" "lchild sp p \<noteq> NIL" "rchild sp (lchild sp p) \<noteq> NIL"
  shows "\<exists>sp1 q sp'. delete_two sp p = Some (sp1, q) \<and> relink sp1 p q = Some sp' \<and> deleted sp p sp'"
proof -
  note inv = rk [unfolded tree_rank_def] and nf = node_facts [OF rk p]
  let ?q0 = "lchild sp p"
  have q0: "live (parent sp) ?q0" "parent sp ?q0 = p" using tinv_left [OF inv p c(2)] by auto
  have rk0: "rk p < rk ?q0" "colour sp p = colour sp ?q0" using tinv_up(2,3) [OF inv q0(1)] q0(2) by auto
  obtain q where q: "rightmost (ring_N + 2) sp ?q0 = Some q" "live (parent sp) q" "rchild sp q = NIL"
      "rchild sp (parent sp q) = q" "rk ?q0 \<le> rk (parent sp q)" "colour sp q = colour sp p"
    using rightmost_spec [OF rk q0(1) c(3), of "ring_N + 2"] card_deeper [of sp rk ?q0] rk0 by auto
  note nq = node_facts [OF rk q(2)]
  let ?u = "parent sp q"
  have up: "rk (parent sp p) < rk p" "rk ?u < rk q" using tinv_up(2) [OF inv] p q(2) by auto
  have ne: "q \<noteq> p" "?u \<noteq> p" "parent sp p \<noteq> ?u" "parent sp p \<noteq> q"
    using up rk0 q(5) by auto
  have lq: "lchild sp q \<noteq> p"
    using tinv_left(2) [OF inv q(2)] tinv_up(2) [OF inv tinv_left(1) [OF inv q(2)]] up rk0 q(5)
      live_neq_NIL [OF p] by (cases "lchild sp q = NIL") auto
  have lq2: "lchild sp q \<noteq> q" using nq by simp
  define sp1 where "sp1 = sp\<lparr>rchild := ((rchild sp)(?u := lchild sp q))(q := rchild sp p),
    parent := (((parent sp)(lchild sp q := ?u))(?q0 := q))(rchild sp p := q),
    lchild := (lchild sp)(q := ?q0)\<rparr>"
  have two: "delete_two sp p = Some (sp1, q)"
    using nf nq c ne lq lq2 q(1) by (simp add: delete_two_def sp1_def)
  have at_p: "parent sp1 p = parent sp p" "rchild sp1 (parent sp p) = rchild sp (parent sp p)"
    using nf ne lq by (auto simp: sp1_def)
  have b: "q < 4097" "rchild sp (parent sp p) \<noteq> p \<Longrightarrow> parent sp p < 4097"
    using nf(9) nq(1) by auto
  from relink_eq [of p q sp1, unfolded at_p, OF nf(1) b(1) nf(2) b(2)]
  obtain sp' where sp': "relink sp1 p q = Some sp'"
    "lchild sp' = (if rchild sp (parent sp p) = p then lchild sp1 else (lchild sp1)(parent sp p := q))"
    "rchild sp' = (if rchild sp (parent sp p) = p then (rchild sp1)(parent sp p := q) else rchild sp1)"
    "parent sp' = ((parent sp1)(q := parent sp p))(p := NIL)" "text_buf sp' = text_buf sp1"
    by blast
  have f: "lchild sp1 = (lchild sp)(q := ?q0)"
    "rchild sp1 = ((rchild sp)(?u := lchild sp q))(q := rchild sp p)"
    "parent sp1 = (((parent sp)(lchild sp q := ?u))(?q0 := q))(rchild sp p := q)"
    "text_buf sp1 = text_buf sp"
    by (simp_all add: sp1_def)
  have "rk p < rk ?u" using rk0 q(5) by simp
  note deep = tinv_delete_deep [OF inv p c(2,1) q(2-4) this q(6)]
  have "deleted sp p sp'"
    using deep
    by (cases "rchild sp (parent sp p) = p"; intro deletedI [where rk' = "rk(q := rk p)"];
        simp add: sp'(2-5) f)
  then show ?thesis using two sp'(1) by blast
qed

lemma delete_node_ok:
  assumes ok: "tree_ok sp" and p: "p < ring_N"
  shows "\<exists>sp'. delete_node sp p = Some sp' \<and> deleted sp p sp'"
proof (cases "parent sp p = NIL")
  case True
  then show ?thesis
    using ok p by (auto simp: delete_node_def deleted_def in_tree_def live_def)
next
  case False
  obtain rk where rk: "tree_rank sp rk" using ok by (auto simp: tree_ok_def)
  have pl: "live (parent sp) p" using p False by (simp add: live_def)
  note eq = delete_node_eq [OF p False]
  show ?thesis
  proof (cases "rchild sp p = NIL \<or> lchild sp p = NIL")
    case True
    then show ?thesis using delete_one [OF rk pl refl True] unfolding eq by auto
  next
    case two: False
    then obtain sp1 q sp' where "delete_two sp p = Some (sp1, q)" "relink sp1 p q = Some sp'"
        "deleted sp p sp'"
      using delete_two_shallow [OF rk pl] delete_two_deep [OF rk pl] by blast
    then show ?thesis using two unfolding eq by simp
  qed
qed

end
