(* ===== verification/Lzss_Window.thy ===== *)
theory Lzss_Window
  imports Lzss_Tree
begin

text \<open>
  The interface between the compressor and its dictionary. The compressor only deletes the
  oldest position, stores a byte at a position that is not registered and registers the newest
  position, and relies on the promises of the locale \<open>match_finder\<close>; the search trees of
  \<open>lzss.c\<close> are its interpretation. Inside the locale, the sliding-window lemmas: positions
  are counted from the start of the text, the ring position is the count modulo \<open>N\<close>.
\<close>

section \<open>The text seen by the ring buffer\<close>

text \<open>Absolute position \<open>a\<close>: \<open>N - F\<close> blanks and then the text.\<close>

definition src_at :: "mem \<Rightarrow> nat \<Rightarrow> byte" where
  "src_at X a = (if a < ring_N - max_F then 32 else X ! (a - (ring_N - max_F)))"

text \<open>The ring holds the positions \<open>n .. hi - 1\<close>, with the first \<open>F - 1\<close> bytes of the ring
  repeated behind its end; only positions between the oldest and the current one are registered.\<close>

definition window_text :: "mem \<Rightarrow> nat \<Rightarrow> nat \<Rightarrow> (nat \<Rightarrow> byte) \<Rightarrow> bool" where
  "window_text X n hi content \<longleftrightarrow>
     (\<forall>a. n \<le> a \<longrightarrow> a < hi \<longrightarrow> content (a mod ring_N) = src_at X a \<and>
        (ring_N \<le> a \<longrightarrow> a mod ring_N < max_F - 1 \<longrightarrow> content (ring_N + a mod ring_N) = src_at X a))"

definition window_reg :: "nat \<Rightarrow> nat \<Rightarrow> nat set \<Rightarrow> bool" where
  "window_reg n hi R \<longleftrightarrow> (\<forall>i\<in>R. \<exists>a. n \<le> a \<and> a < hi \<and> i = a mod ring_N)"

text \<open>A match of length \<open>ml\<close> at ring position \<open>mp\<close> for the text at \<open>n\<close>, of which \<open>len\<close> bytes
  are in the ring.\<close>

definition match_at :: "mem \<Rightarrow> nat \<Rightarrow> nat \<Rightarrow> nat \<Rightarrow> nat \<Rightarrow> bool" where
  "match_at X n len mp ml \<longleftrightarrow> ml \<le> max_F \<and>
     (ml = 0 \<or> (\<exists>a. n \<le> a \<and> a < n + (ring_N - max_F) \<and> a mod ring_N = mp \<and>
        (\<forall>j < min ml len. src_at X (a + j) = src_at X (n + (ring_N - max_F) + j))))"

lemma mod_neq:
  assumes "a < b" "b < a + ring_N"
  shows "a mod ring_N \<noteq> b mod ring_N"
proof
  assume "a mod ring_N = b mod ring_N"
  then have "ring_N dvd b - a" using assms(1) by (metis less_imp_le mod_eq_dvd_iff_nat)
  then show False using assms by (auto dest!: dvd_imp_le)
qed

lemma window_text_mono: "window_text X n hi t \<Longrightarrow> n \<le> n' \<Longrightarrow> hi' \<le> hi \<Longrightarrow> window_text X n' hi' t"
  by (auto simp: window_text_def)

lemma window_reg_mono: "window_reg n hi R \<Longrightarrow> S \<subseteq> R \<Longrightarrow> hi \<le> hi' \<Longrightarrow> window_reg n hi' S"
  unfolding window_reg_def by (meson less_le_trans subsetD)

lemma window_reg_insert:
  "window_reg n hi R \<Longrightarrow> n \<le> hi \<Longrightarrow> window_reg n (Suc hi) (insert (hi mod ring_N) R)"
  unfolding window_reg_def by (auto intro: less_SucI)

text \<open>Without the oldest position the window starts one later, and the next position is free.\<close>

lemma window_reg_drop:
  assumes "window_reg n hi R" "hi \<le> n + ring_N"
  shows "window_reg (Suc n) hi (R - {n mod ring_N})"
  unfolding window_reg_def
proof
  fix i assume i: "i \<in> R - {n mod ring_N}"
  then obtain a where a: "n \<le> a" "a < hi" "i = a mod ring_N"
    using assms(1) by (auto simp: window_reg_def)
  then have "a \<noteq> n" using i by auto
  then show "\<exists>a. Suc n \<le> a \<and> a < hi \<and> i = a mod ring_N" using a by (intro exI [of _ a]) auto
qed

lemma window_reg_free:
  assumes "window_reg n hi R" "hi < n + ring_N"
  shows "hi mod ring_N \<notin> R"
proof
  assume "hi mod ring_N \<in> R"
  then obtain a where "n \<le> a" "a < hi" "hi mod ring_N = a mod ring_N"
    using assms(1) by (auto simp: window_reg_def)
  then show False using mod_neq [of a hi] assms(2) by auto
qed

text \<open>Text comparisons inside the ring are comparisons of the text.\<close>

lemma window_text_at:
  assumes "window_text X n hi t" "n \<le> a" "a + j < hi" "j < max_F"
    "ring_N \<le> a + j \<or> a mod ring_N + j < ring_N"
  shows "t (a mod ring_N + j) = src_at X (a + j)"
proof -
  have spec: "t ((a + j) mod ring_N) = src_at X (a + j)"
    "ring_N \<le> a + j \<Longrightarrow> (a + j) mod ring_N < max_F - 1 \<Longrightarrow>
      t (ring_N + (a + j) mod ring_N) = src_at X (a + j)"
    using assms(1-3) by (auto simp: window_text_def)
  show ?thesis
  proof (cases "a mod ring_N + j < ring_N")
    case True
    then have "(a + j) mod ring_N = a mod ring_N + j"
      by (metis mod_add_left_eq mod_less)
    then show ?thesis using spec(1) by simp
  next
    case False
    have lt: "a mod ring_N < ring_N" by simp
    have m: "(a + j) mod ring_N = a mod ring_N + j - ring_N"
    proof -
      have "(a + j) mod ring_N = (a mod ring_N + j) mod ring_N" by (simp add: mod_add_left_eq)
      also have "\<dots> = a mod ring_N + j - ring_N"
        using False assms(4) lt by (subst le_mod_geq) (linarith, simp)
      finally show ?thesis .
    qed
    have "ring_N + (a + j) mod ring_N = a mod ring_N + j" unfolding m using False by linarith
    moreover have "(a + j) mod ring_N < max_F - 1" unfolding m using assms(4) lt False by linarith
    ultimately show ?thesis using spec(2) assms(5) False by metis
  qed
qed

lemma wrapped_past_end: "a mod ring_N + j < ring_N \<or> ring_N \<le> a + j"
  using mod_less_eq_dividend [of a ring_N] by linarith

lemma match_at_window:
  assumes t: "window_text X n (n + (ring_N - max_F) + len) t" and len: "len \<le> max_F"
    and R: "window_reg n (n + (ring_N - max_F)) R"
    and m: "ml \<le> max_F" "ml = 0 \<or> mp \<in> R \<and> (\<forall>j < ml. t (mp + j) = t ((n + (ring_N - max_F)) mod ring_N + j))"
  shows "match_at X n len mp ml"
proof (cases "ml = 0")
  case False
  then obtain a where a: "n \<le> a" "a < n + (ring_N - max_F)" "mp = a mod ring_N"
    using R m by (auto simp: window_reg_def)
  have "src_at X (a + j) = src_at X (n + (ring_N - max_F) + j)" if j: "j < min ml len" for j
  proof -
    have "src_at X (a + j) = t (a mod ring_N + j)"
      using j a m(1) wrapped_past_end [of a j]
      by (intro window_text_at [OF t, symmetric]) auto
    also have "\<dots> = t ((n + (ring_N - max_F)) mod ring_N + j)" using m False a j by auto
    also have "\<dots> = src_at X (n + (ring_N - max_F) + j)"
      using j m(1) wrapped_past_end [of "n + (ring_N - max_F)" j]
      by (intro window_text_at [OF t]) auto
    finally show ?thesis .
  qed
  then show ?thesis using a m by (auto simp: match_at_def)
qed (simp add: match_at_def)

text \<open>Storing the next byte in the place of the oldest one, and its mirror image.\<close>

lemma window_text_store:
  assumes t: "window_text X n (n + ring_N) t" and c: "c = src_at X (n + ring_N)"
  defines "s \<equiv> n mod ring_N"
  shows "window_text X (Suc n) (Suc n + ring_N)
    (if s < max_F - 1 then (t(s := c))(s + ring_N := c) else t(s := c))"
  unfolding window_text_def
proof (intro allI impI)
  fix a assume a: "Suc n \<le> a" "a < Suc n + ring_N"
  let ?t = "if s < max_F - 1 then (t(s := c))(s + ring_N := c) else t(s := c)"
  have lt: "x mod ring_N < ring_N" for x by simp
  show "?t (a mod ring_N) = src_at X a \<and> (ring_N \<le> a \<longrightarrow> a mod ring_N < max_F - 1 \<longrightarrow>
      ?t (ring_N + a mod ring_N) = src_at X a)"
  proof (cases "a = n + ring_N")
    case True
    then have "a mod ring_N = s" by (simp add: s_def)
    then show ?thesis using True c lt [of n] by (auto simp: s_def)
  next
    case False
    then have "a mod ring_N \<noteq> s" using mod_neq [of n a] a by (auto simp: s_def)
    moreover have "n \<le> a" "a < n + ring_N" using a False by auto
    ultimately show ?thesis
      using t lt [of a] lt [of n] unfolding window_text_def by (auto simp: s_def)
  qed
qed

section \<open>The dictionary interface\<close>

locale match_finder =
  fixes inv :: "'s \<Rightarrow> bool"
    and reg :: "'s \<Rightarrow> nat set"
    and content :: "'s \<Rightarrow> nat \<Rightarrow> byte"
    and mpos :: "'s \<Rightarrow> nat"
    and mlen :: "'s \<Rightarrow> nat"
    and ins :: "'s \<Rightarrow> nat \<Rightarrow> 's option"
    and del :: "'s \<Rightarrow> nat \<Rightarrow> 's option"
    and put :: "'s \<Rightarrow> nat \<Rightarrow> byte \<Rightarrow> 's option"
  assumes ins_law: "inv st \<Longrightarrow> r < ring_N \<Longrightarrow> r \<notin> reg st \<Longrightarrow>
      \<exists>st'. ins st r = Some st' \<and> inv st' \<and> reg st' \<subseteq> insert r (reg st) \<and> content st' = content st \<and>
        mlen st' \<le> max_F \<and>
        (mlen st' = 0 \<or> mpos st' \<in> reg st \<and>
           (\<forall>j < mlen st'. content st (mpos st' + j) = content st (r + j)))"
    and del_law: "inv st \<Longrightarrow> p < ring_N \<Longrightarrow>
      \<exists>st'. del st p = Some st' \<and> inv st' \<and> reg st' \<subseteq> reg st - {p} \<and> content st' = content st"
    and put_law: "inv st \<Longrightarrow> i < ring_N + max_F - 1 \<Longrightarrow> i \<notin> reg st \<Longrightarrow>
      \<exists>st'. put st i c = Some st' \<and> inv st' \<and> reg st' = reg st \<and> content st' = (content st)(i := c)"
    and reg_law: "inv st \<Longrightarrow> reg st \<subseteq> {..<ring_N}"
begin

text \<open>State of the dictionary when the text at \<open>n\<close> is the current string and \<open>len\<close> of its
  bytes have been read.\<close>

definition ring_ok :: "mem \<Rightarrow> nat \<Rightarrow> nat \<Rightarrow> 's \<Rightarrow> bool" where
  "ring_ok X n len st \<longleftrightarrow> inv st \<and> len \<le> max_F \<and>
     window_text X n (n + (ring_N - max_F) + len) (content st) \<and>
     window_reg n (Suc (n + (ring_N - max_F))) (reg st)"

definition dict :: "mem \<Rightarrow> nat \<Rightarrow> nat \<Rightarrow> 's \<Rightarrow> bool" where
  "dict X n len st \<longleftrightarrow> ring_ok X n len st \<and> match_at X n len (mpos st) (mlen st)"

text \<open>The same before the current position is registered.\<close>

definition dict_pre :: "mem \<Rightarrow> nat \<Rightarrow> nat \<Rightarrow> 's \<Rightarrow> bool" where
  "dict_pre X n len st \<longleftrightarrow> inv st \<and> len \<le> max_F \<and>
     window_text X n (n + (ring_N - max_F) + len) (content st) \<and>
     window_reg n (n + (ring_N - max_F)) (reg st)"

lemma register:
  assumes "dict_pre X n len st"
  shows "\<exists>st'. ins st ((n + (ring_N - max_F)) mod ring_N) = Some st' \<and> dict X n len st'"
proof -
  let ?hi = "n + (ring_N - max_F)"
  have d: "inv st" "len \<le> max_F" "window_text X n (?hi + len) (content st)" "window_reg n ?hi (reg st)"
    using assms by (auto simp: dict_pre_def)
  have free: "?hi mod ring_N \<notin> reg st" by (rule window_reg_free [OF d(4)]) simp
  obtain st' where st': "ins st (?hi mod ring_N) = Some st'" "inv st'"
      "reg st' \<subseteq> insert (?hi mod ring_N) (reg st)" "content st' = content st" "mlen st' \<le> max_F"
      "mlen st' = 0 \<or> mpos st' \<in> reg st \<and>
           (\<forall>j < mlen st'. content st (mpos st' + j) = content st (?hi mod ring_N + j))"
    using ins_law [OF d(1) _ free] by auto
  have "window_reg n (Suc ?hi) (reg st')"
    using window_reg_mono [OF window_reg_insert [OF d(4)] st'(3)] by simp
  then show ?thesis
    using st' d match_at_window [OF d(3,2,4) st'(5,6)] by (auto simp: dict_def ring_ok_def)
qed

lemma forget:
  assumes "ring_ok X n len st"
  shows "\<exists>st'. del st (n mod ring_N) = Some st' \<and> inv st' \<and>
    window_text X n (n + (ring_N - max_F) + len) (content st') \<and>
    window_reg (Suc n) (Suc (n + (ring_N - max_F))) (reg st') \<and> n mod ring_N \<notin> reg st'"
proof -
  let ?hi = "n + (ring_N - max_F)"
  have d: "inv st" "window_text X n (?hi + len) (content st)" "window_reg n (Suc ?hi) (reg st)"
    using assms by (auto simp: ring_ok_def)
  obtain st' where st': "del st (n mod ring_N) = Some st'" "inv st'"
      "reg st' \<subseteq> reg st - {n mod ring_N}" "content st' = content st"
    using del_law [OF d(1), of "n mod ring_N"] by auto
  have "window_reg (Suc n) (Suc ?hi) (reg st')"
    using window_reg_mono [OF window_reg_drop [OF d(3)] st'(3)] by simp
  then show ?thesis using st' d by auto
qed

text \<open>One byte read: forget the oldest position, store the byte (twice near the start of the
  ring), register the next position.\<close>

lemma slide_read:
  assumes d: "ring_ok X n max_F st" and c: "c = src_at X (n + ring_N)"
  shows "\<exists>st'. (do {
      st \<leftarrow> del st (n mod ring_N);
      st \<leftarrow> put st (n mod ring_N) c;
      st \<leftarrow> (if n mod ring_N < max_F - 1 then put st (n mod ring_N + ring_N) c else Some st);
      ins st ((Suc n + (ring_N - max_F)) mod ring_N)
    }) = Some st' \<and> dict X (Suc n) max_F st'"
proof -
  let ?s = "n mod ring_N" and ?r = "(Suc n + (ring_N - max_F)) mod ring_N"
  have s: "?s < ring_N" by simp
  have full: "n + (ring_N - max_F) + max_F = n + ring_N" by simp
  obtain st1 where st1: "del st ?s = Some st1" "inv st1" "window_text X n (n + ring_N) (content st1)"
      "window_reg (Suc n) (Suc (n + (ring_N - max_F))) (reg st1)" "?s \<notin> reg st1"
    using forget [OF d] unfolding full by auto
  obtain st2 where st2: "put st1 ?s c = Some st2" "inv st2" "reg st2 = reg st1"
      "content st2 = (content st1)(?s := c)"
    using put_law [OF st1(2) _ st1(5), of c] s by auto
  have "?s + ring_N \<notin> reg st2" using reg_law [OF st2(2)] by auto
  then obtain st3 where st3:
      "(if ?s < max_F - 1 then put st2 (?s + ring_N) c else Some st2) = Some st3" "inv st3"
      "reg st3 = reg st1"
      "content st3 = (if ?s < max_F - 1 then ((content st1)(?s := c))(?s + ring_N := c) else (content st1)(?s := c))"
    using put_law [OF st2(2), of "?s + ring_N" c] st2 by (cases "?s < max_F - 1") auto
  have "dict_pre X (Suc n) max_F st3"
    using st3 st1 window_text_store [OF st1(3) c] by (simp add: dict_pre_def)
  then obtain st4 where "ins st3 ?r = Some st4" "dict X (Suc n) max_F st4"
    using register by blast
  then show ?thesis using st1(1) st2(1) st3(1) by simp
qed

text \<open>No byte left to read: the window only shrinks.\<close>

lemma slide_drop:
  assumes d: "ring_ok X n len st" and len: "0 < len"
  shows "\<exists>st1. del st (n mod ring_N) = Some st1 \<and> inv st1 \<and>
    (\<exists>st2. ins st1 ((Suc n + (ring_N - max_F)) mod ring_N) = Some st2 \<and> dict X (Suc n) (len - 1) st2)"
proof -
  obtain st1 where st1: "del st (n mod ring_N) = Some st1" "inv st1"
      "window_text X n (n + (ring_N - max_F) + len) (content st1)"
      "window_reg (Suc n) (Suc (n + (ring_N - max_F))) (reg st1)"
    using forget [OF d] by auto
  have "len \<le> max_F" using d by (simp add: ring_ok_def)
  then have "dict_pre X (Suc n) (len - 1) st1"
    using st1 len window_text_mono [OF st1(3), of "Suc n"] by (auto simp: dict_pre_def)
  then show ?thesis using st1(1,2) register by blast
qed

end

section \<open>The search trees implement the interface\<close>

lemma set_text_ok:
  assumes ok: "tree_ok sp" and i: "i < ring_N + max_F - 1" "i \<notin> in_tree sp"
  shows "\<exists>sp'. set_text sp i c = Some sp' \<and> tree_ok sp' \<and> in_tree sp' = in_tree sp \<and>
    text_buf sp' = (text_buf sp)(i := c)"
proof -
  let ?sp = "sp\<lparr>text_buf := (text_buf sp)(i := c)\<rparr>"
  obtain rk where "tree_rank sp rk" using ok by (auto simp: tree_ok_def)
  then have "tinv (lchild sp) (rchild sp) (parent sp) (colour ?sp) rk"
    unfolding tree_rank_def
  proof (rule tinv_cong)
    fix q assume "vertex (parent sp) q"
    then show "colour ?sp q = colour sp q"
      using i by (auto simp: colour_def vertex_def is_root_def in_tree_def)
  qed auto
  then have "tree_ok ?sp" by (intro tree_okI [where rk = rk]) simp
  moreover have "in_tree ?sp = in_tree sp" by (simp add: in_tree_def)
  ultimately show ?thesis using i by simp
qed

interpretation lzss_trees: match_finder tree_ok in_tree text_buf match_position match_length
    insert_node delete_node set_text
proof
  fix st :: encode_state and r
  assume "tree_ok st" "r < ring_N" "r \<notin> in_tree st"
  then show "\<exists>st'. insert_node st r = Some st' \<and> tree_ok st' \<and> in_tree st' \<subseteq> insert r (in_tree st) \<and>
      text_buf st' = text_buf st \<and> match_length st' \<le> max_F \<and>
      (match_length st' = 0 \<or> match_position st' \<in> in_tree st \<and>
        (\<forall>j < match_length st'. text_buf st (match_position st' + j) = text_buf st (r + j)))"
    using insert_node_ok [of st r] by (fastforce simp: match_ok_def)
next
  fix st :: encode_state and p
  assume "tree_ok st" "p < ring_N"
  then show "\<exists>st'. delete_node st p = Some st' \<and> tree_ok st' \<and> in_tree st' \<subseteq> in_tree st - {p} \<and>
      text_buf st' = text_buf st"
    using delete_node_ok [of st p] by (auto simp: deleted_def)
next
  fix st :: encode_state and i c
  assume "tree_ok st" "i < ring_N + max_F - 1" "i \<notin> in_tree st"
  then show "\<exists>st'. set_text st i c = Some st' \<and> tree_ok st' \<and> in_tree st' = in_tree st \<and>
      text_buf st' = (text_buf st)(i := c)"
    by (rule set_text_ok)
qed (auto simp: in_tree_def live_def)

end
