(* ===== verification/Lzss_Encode.thy ===== *)
theory Lzss_Encode
  imports Lzss_Window
begin

text \<open>
  \<open>compress_lzss\<close> of \<open>src/src/lzss.c\<close> and its proof: it terminates without an access out of
  bounds for every input, and the bytes it writes decode to the input. The outer option is
  undefined behaviour or lack of fuel, the inner one the C result \<open>NULL\<close>.
\<close>

section \<open>The compressor\<close>

text \<open>The locals of \<open>compress_lzss\<close>: the tree, the source still to read, \<open>len\<close>, \<open>r\<close>, \<open>s\<close>,
  \<open>code_buf\<close>, \<open>code_buf_ptr\<close>, \<open>mask\<close> and the bytes stored through \<open>dst\<close>.\<close>

record comp_state =
  c_sp :: encode_state
  c_src :: mem
  c_len :: nat
  c_r :: nat
  c_s :: nat
  c_buf :: "nat \<Rightarrow> byte"
  c_ptr :: nat
  c_mask :: byte
  c_dst :: mem

text \<open>\<open>for (len = 0; len < F && src < srcend; len++) text_buf[r + len] = *src++;\<close> with \<open>n\<close>
  iterations left.\<close>

fun fill_first :: "nat \<Rightarrow> nat \<Rightarrow> nat \<Rightarrow> encode_state \<Rightarrow> mem \<Rightarrow> (encode_state \<times> nat \<times> mem) option" where
  "fill_first 0 r len sp src = Some (sp, len, src)"
| "fill_first (Suc n) r len sp [] = Some (sp, len, [])"
| "fill_first (Suc n) r len sp (c # src) = do {
     sp \<leftarrow> set_text sp (r + len) c;
     fill_first n r (len + 1) sp src
   }"

text \<open>\<open>for (i = 1; i <= F; i++) insert_node(sp, r - i);\<close>\<close>

fun insert_first :: "nat \<Rightarrow> nat \<Rightarrow> nat \<Rightarrow> encode_state \<Rightarrow> encode_state option" where
  "insert_first 0 r i sp = Some sp"
| "insert_first (Suc n) r i sp = do {
     sp \<leftarrow> insert_node sp (r - i);
     insert_first n r (i + 1) sp
   }"

text \<open>\<open>for (i = 0; i < code_buf_ptr; i++) if (dst < dstend) *dst++ = code_buf[i]; else return 0;\<close>\<close>

fun write_code :: "nat \<Rightarrow> (nat \<Rightarrow> byte) \<Rightarrow> nat \<Rightarrow> nat \<Rightarrow> mem \<Rightarrow> mem option option" where
  "write_code dstlen buf i 0 dst = Some (Some dst)"
| "write_code dstlen buf i (Suc n) dst =
     (if length dst < dstlen then do {
        c \<leftarrow> arr_get 17 buf i;
        write_code dstlen buf (i + 1) n (dst @ [c])
      } else Some None)"

text \<open>The two branches that add a unit to \<open>code_buf\<close>.\<close>

definition emit_unit :: "comp_state \<Rightarrow> comp_state option" where
  "emit_unit st = (
     let sp = c_sp st;
         sp = (if match_length sp > c_len st then sp\<lparr>match_length := c_len st\<rparr> else sp)
     in if match_length sp \<le> THRESHOLD then do {
          let sp = sp\<lparr>match_length := 1\<rparr>;
          f \<leftarrow> arr_get 17 (c_buf st) 0;
          buf \<leftarrow> arr_set 17 (c_buf st) 0 (f OR c_mask st);
          c \<leftarrow> get_text sp (c_r st);
          buf \<leftarrow> arr_set 17 buf (c_ptr st) c;
          Some (st\<lparr>c_sp := sp, c_buf := buf, c_ptr := c_ptr st + 1\<rparr>)
        } else do {
          buf \<leftarrow> arr_set 17 (c_buf st) (c_ptr st) (of_nat (match_position sp));
          buf \<leftarrow> arr_set 17 buf (c_ptr st + 1)
                 (of_nat ((drop_bit 4 (match_position sp) AND 0xF0)
                          OR (match_length sp - (THRESHOLD + 1))));
          Some (st\<lparr>c_sp := sp, c_buf := buf, c_ptr := c_ptr st + 2\<rparr>)
        })"

text \<open>\<open>if ((mask <<= 1) == 0) { ... }\<close>\<close>

definition flush_code :: "nat \<Rightarrow> comp_state \<Rightarrow> comp_state option option" where
  "flush_code dstlen st = (
     let st = st\<lparr>c_mask := push_bit 1 (c_mask st)\<rparr>
     in if c_mask st = 0 then do {
          w \<leftarrow> write_code dstlen (c_buf st) 0 (c_ptr st) (c_dst st);
          case w of
            None \<Rightarrow> Some None
          | Some dst \<Rightarrow> do {
              buf \<leftarrow> arr_set 17 (c_buf st) 0 0;
              Some (Some (st\<lparr>c_dst := dst, c_buf := buf, c_ptr := 1, c_mask := 1\<rparr>))
            }
        } else Some (Some st))"

text \<open>The body of the \<open>for\<close> loop that reads one byte.\<close>

definition read_step :: "comp_state \<Rightarrow> byte \<Rightarrow> mem \<Rightarrow> comp_state option" where
  "read_step st c src' = do {
     let s = c_s st;
     sp \<leftarrow> delete_node (c_sp st) s;
     sp \<leftarrow> set_text sp s c;
     sp \<leftarrow> (if s < max_F - 1 then set_text sp (s + ring_N) c else Some sp);
     let s = (s + 1) AND (ring_N - 1);
     let r = (c_r st + 1) AND (ring_N - 1);
     sp \<leftarrow> insert_node sp r;
     Some (st\<lparr>c_sp := sp, c_src := src', c_s := s, c_r := r\<rparr>)
   }"

text \<open>\<open>for (i = 0; i < last_match_length && src < srcend; i++)\<close>: also the number of iterations
  that were left when the source ended.\<close>

fun read_loop :: "nat \<Rightarrow> comp_state \<Rightarrow> (nat \<times> comp_state) option" where
  "read_loop 0 st = Some (0, st)"
| "read_loop (Suc n) st =
     (case c_src st of
        [] \<Rightarrow> Some (Suc n, st)
      | c # src' \<Rightarrow> do { st \<leftarrow> read_step st c src'; read_loop n st })"

text \<open>\<open>while (i++ < last_match_length)\<close>\<close>

definition drain_step :: "comp_state \<Rightarrow> comp_state option" where
  "drain_step st = do {
     sp \<leftarrow> delete_node (c_sp st) (c_s st);
     let s = (c_s st + 1) AND (ring_N - 1);
     let r = (c_r st + 1) AND (ring_N - 1);
     let len = c_len st - 1;
     sp \<leftarrow> (if len \<noteq> 0 then insert_node sp r else Some sp);
     Some (st\<lparr>c_sp := sp, c_s := s, c_r := r, c_len := len\<rparr>)
   }"

fun drain_loop :: "nat \<Rightarrow> comp_state \<Rightarrow> comp_state option" where
  "drain_loop 0 st = Some st"
| "drain_loop (Suc n) st = do { st \<leftarrow> drain_step st; drain_loop n st }"

text \<open>The body of the \<open>do ... while (len > 0)\<close> loop.\<close>

definition compress_body :: "nat \<Rightarrow> comp_state \<Rightarrow> comp_state option option" where
  "compress_body dstlen st = do {
     st \<leftarrow> emit_unit st;
     f \<leftarrow> flush_code dstlen st;
     case f of
       None \<Rightarrow> Some None
     | Some st \<Rightarrow> do {
         let last_match_length = match_length (c_sp st);
         nst \<leftarrow> read_loop last_match_length st;
         st \<leftarrow> drain_loop (fst nst) (snd nst);
         Some (Some st)
       }
   }"

fun compress_loop :: "nat \<Rightarrow> nat \<Rightarrow> comp_state \<Rightarrow> comp_state option option" where
  "compress_loop 0 dstlen st = None"
| "compress_loop (Suc fuel) dstlen st = do {
     f \<leftarrow> compress_body dstlen st;
     case f of
       None \<Rightarrow> Some None
     | Some st \<Rightarrow> if c_len st > 0 then compress_loop fuel dstlen st else Some (Some st)
   }"

definition compress_lzss :: "nat \<Rightarrow> mem \<Rightarrow> mem option option" where
  "compress_lzss dstlen src = do {
     let r = ring_N - max_F;
     first \<leftarrow> fill_first max_F r 0 init_state src;
     let (sp, len, src') = first;
     if len = 0 then Some None
     else do {
       sp \<leftarrow> insert_first max_F r 1 sp;
       sp \<leftarrow> insert_node sp r;
       f \<leftarrow> compress_loop (length src + 1) dstlen
             \<lparr>c_sp = sp, c_src = src', c_len = len, c_r = r, c_s = 0,
              c_buf = (\<lambda>_. 0), c_ptr = 1, c_mask = 1, c_dst = []\<rparr>;
       case f of
         None \<Rightarrow> Some None
       | Some st \<Rightarrow>
           if c_ptr st > 1 then write_code dstlen (c_buf st) 0 (c_ptr st) (c_dst st)
           else Some (Some (c_dst st))
     }
   }"

section \<open>The code buffer holds a group of units\<close>

lemma pack_append_group:
  assumes "8 dvd length us" "length g \<le> 8" "g \<noteq> []"
  shows "pack (us @ g) = pack us @ pack_group g"
  using assms(1)
proof (induction us rule: pack.induct)
  case (1 us)
  show ?case
  proof (cases "us = []")
    case True
    then show ?thesis using assms by (simp add: pack.simps)
  next
    case False
    then have "8 \<le> length us" using "1.prems" by (auto dest: dvd_imp_le)
    moreover have "pack (drop 8 us @ g) = pack (drop 8 us) @ pack_group g"
      using "1.IH" False "1.prems" by (simp add: dvd_diff_nat)
    ultimately show ?thesis
      using False by (subst (1 2) pack.simps) simp
  qed
qed

definition code_inv :: "lz_unit list \<Rightarrow> comp_state \<Rightarrow> bool" where
  "code_inv us st \<longleftrightarrow> list_all unit_ok us \<and>
     (\<exists>prev pend. us = prev @ pend \<and> 8 dvd length prev \<and> length pend < 8 \<and>
        c_dst st = pack prev \<and> c_mask st = 2 ^ length pend \<and>
        c_buf st 0 = flag_bits pend \<and> c_ptr st = 1 + length (units_bytes pend) \<and>
        (\<forall>i < length (units_bytes pend). c_buf st (1 + i) = units_bytes pend ! i))"

text \<open>Between adding a unit and shifting the mask.\<close>

definition code_open :: "lz_unit list \<Rightarrow> comp_state \<Rightarrow> bool" where
  "code_open us st \<longleftrightarrow> list_all unit_ok us \<and>
     (\<exists>prev pend. us = prev @ pend \<and> 8 dvd length prev \<and> pend \<noteq> [] \<and> length pend \<le> 8 \<and>
        c_dst st = pack prev \<and> c_mask st = 2 ^ (length pend - 1) \<and>
        c_buf st 0 = flag_bits pend \<and> c_ptr st = 1 + length (units_bytes pend) \<and>
        (\<forall>i < length (units_bytes pend). c_buf st (1 + i) = units_bytes pend ! i))"

lemma unit_bytes_length: "length (unit_bytes u) = (if is_lit u then 1 else 2)"
  by (cases u) auto

lemma units_bytes_le: "length (units_bytes us) \<le> 2 * length us"
  by (induction us) (auto simp: unit_bytes_length)

lemma flag_bits_snoc:
  "flag_bits (us @ [u]) = flag_bits us + (if is_lit u then 2 ^ length us else 0)"
  by (induction us) (auto simp: algebra_simps)

lemma flag_bits_or:
  assumes "length us < 8"
  shows "flag_bits us OR 2 ^ length us = flag_bits us + 2 ^ length us"
proof -
  have "flag_bits us AND 2 ^ length us = 0"
    using assms by (simp add: and_exp_eq_0_iff_not_bit bit_flag_bits)
  then show ?thesis by (simp add: disjunctive_add_eq_or)
qed

lemma mask_pow_zero: "(2 :: byte) ^ n = 0 \<longleftrightarrow> 8 \<le> n"
  by (simp add: exp_eq_zero_iff)

lemma write_code_spec:
  assumes "i + n \<le> 17"
  shows "write_code dstlen buf i n dst =
    Some (if length dst + n \<le> dstlen \<or> n = 0 then Some (dst @ map buf [i..<i + n]) else None)"
  using assms
proof (induction n arbitrary: i dst)
  case (Suc n)
  then show ?case
    by (cases "length dst < dstlen") (auto simp: upt_rec [of i] less_Suc_eq_le)
qed simp

lemma code_group:
  assumes "c_buf st 0 = flag_bits g" "c_ptr st = 1 + length (units_bytes g)"
    "\<forall>i < length (units_bytes g). c_buf st (1 + i) = units_bytes g ! i"
  shows "map (c_buf st) [0..<0 + c_ptr st] = pack_group g"
  using assms by (intro nth_equalityI) (auto simp: pack_group_def nth_Cons simp del: upt_Suc split: nat.splits)

lemma code_open_snoc:
  assumes inv: "code_inv us st" and u: "unit_ok u"
    and f: "c_dst st' = c_dst st" "c_mask st' = c_mask st"
      "c_buf st' 0 = (if is_lit u then c_buf st 0 OR c_mask st else c_buf st 0)"
      "c_ptr st' = c_ptr st + length (unit_bytes u)"
      "\<And>i. 0 < i \<Longrightarrow> i < c_ptr st \<Longrightarrow> c_buf st' i = c_buf st i"
      "\<And>i. i < length (unit_bytes u) \<Longrightarrow> c_buf st' (c_ptr st + i) = unit_bytes u ! i"
  shows "code_open (us @ [u]) st'"
proof -
  obtain prev pend where d: "us = prev @ pend" "8 dvd length prev" "length pend < 8"
      "c_dst st = pack prev" "c_mask st = 2 ^ length pend" "c_buf st 0 = flag_bits pend"
      "c_ptr st = 1 + length (units_bytes pend)"
      "\<forall>i < length (units_bytes pend). c_buf st (1 + i) = units_bytes pend ! i"
    and ok: "list_all unit_ok us"
    using inv by (auto simp: code_inv_def)
  have "c_buf st' (1 + i) = units_bytes (pend @ [u]) ! i"
    if "i < length (units_bytes (pend @ [u]))" for i
    using that d(7,8) f(5) [of "Suc i"] f(6) [of "i - length (units_bytes pend)"]
    by (cases "i < length (units_bytes pend)") (auto simp: nth_append)
  moreover have "c_buf st' 0 = flag_bits (pend @ [u])"
    using f(3) d flag_bits_or [OF d(3)] by (simp add: flag_bits_snoc)
  ultimately show ?thesis
    unfolding code_open_def using d ok u f(1,2,4)
    by (intro conjI exI [of _ prev] exI [of _ "pend @ [u]"]) auto
qed

lemma flush_code_spec:
  assumes inv: "code_open us st"
  shows "\<exists>res. flush_code dstlen st = Some res \<and>
    (case res of
       None \<Rightarrow> dstlen < length (pack us)
     | Some st' \<Rightarrow> code_inv us st' \<and> c_sp st' = c_sp st \<and> c_src st' = c_src st \<and>
         c_len st' = c_len st \<and> c_r st' = c_r st \<and> c_s st' = c_s st)"
proof -
  obtain prev pend where d: "us = prev @ pend" "8 dvd length prev" "pend \<noteq> []" "length pend \<le> 8"
      "c_dst st = pack prev" "c_mask st = 2 ^ (length pend - 1)" "c_buf st 0 = flag_bits pend"
      "c_ptr st = 1 + length (units_bytes pend)"
      "\<forall>i < length (units_bytes pend). c_buf st (1 + i) = units_bytes pend ! i"
    and ok: "list_all unit_ok us"
    using inv by (auto simp: code_open_def)
  have mask: "push_bit 1 (c_mask st) = 2 ^ length pend"
    using d(3,6) by (cases pend) (simp_all add: push_bit_eq_mult)
  show ?thesis
  proof (cases "length pend = 8")
    case True
    let ?st = "st\<lparr>c_mask := push_bit 1 (c_mask st)\<rparr>"
    have grp: "map (c_buf st) [0..<0 + c_ptr st] = pack_group pend" using d by (intro code_group) auto
    have pk: "pack us = pack prev @ pack_group pend"
      using pack_append_group [OF d(2,4,3)] d(1) by simp
    have lg: "length (pack_group pend) = c_ptr st" using d by (simp add: pack_group_def)
    have p17: "0 + c_ptr st \<le> 17" using d(8) units_bytes_le [of pend] True by simp
    have z: "push_bit 1 (c_mask st) = 0" using mask True by (simp add: mask_pow_zero)
    have w: "write_code dstlen (c_buf st) 0 (c_ptr st) (c_dst st) =
        Some (if length (pack us) \<le> dstlen then Some (pack us) else None)"
      using write_code_spec [OF p17, of dstlen "c_buf st" "c_dst st"] grp pk lg d(5,8) by simp
    show ?thesis
    proof (cases "length (pack us) \<le> dstlen")
      case le: True
      have "code_inv us (?st\<lparr>c_dst := pack us, c_buf := (c_buf st)(0 := 0), c_ptr := 1, c_mask := 1\<rparr>)"
        unfolding code_inv_def using ok d True
        by (intro conjI exI [of _ us] exI [of _ "[]"]) auto
      then show ?thesis using w z le by (simp add: flush_code_def)
    next
      case False
      then show ?thesis using w z by (simp add: flush_code_def)
    qed
  next
    case False
    then have "2 ^ length pend \<noteq> (0 :: byte)" using d(4) mask_pow_zero by simp
    moreover have "code_inv us (st\<lparr>c_mask := push_bit 1 (c_mask st)\<rparr>)"
      unfolding code_inv_def using ok d False mask
      by (intro conjI exI [of _ prev] exI [of _ pend]) auto
    ultimately show ?thesis using mask by (simp add: flush_code_def)
  qed
qed

section \<open>The decoder follows the encoder\<close>

definition dec_init :: "(nat \<Rightarrow> byte) \<Rightarrow> dec_state" where
  "dec_init garbage = \<lparr>d_buf = (\<lambda>i. if i < ring_N - max_F then 32 else garbage i),
           d_r = ring_N - max_F, d_out = []\<rparr>"

definition dec_sync :: "mem \<Rightarrow> nat \<Rightarrow> dec_state \<Rightarrow> bool" where
  "dec_sync X n D \<longleftrightarrow> n \<le> length X \<and> d_out D = take n X \<and> d_r D = (n + (ring_N - max_F)) mod ring_N \<and>
     (\<forall>a. n \<le> a \<longrightarrow> a < n + (ring_N - max_F) \<longrightarrow> d_buf D (a mod ring_N) = src_at X a)"

lemma dec_sync_init: "dec_sync X 0 (dec_init garbage)"
  by (auto simp: dec_sync_def dec_init_def src_at_def)

lemma src_at_text: "src_at X (n + (ring_N - max_F)) = X ! n"
  by (simp add: src_at_def)

lemma dec_sync_emit:
  assumes s: "dec_sync X n D" and n: "n < length X"
  shows "dec_sync X (Suc n) (emit1 (X ! n) D)"
proof -
  have "d_buf (emit1 (X ! n) D) (a mod ring_N) = src_at X a"
    if a: "Suc n \<le> a" "a < Suc n + (ring_N - max_F)" for a
  proof (cases "a = n + (ring_N - max_F)")
    case True
    then show ?thesis using s src_at_text [of X n] by (simp add: dec_sync_def emit1_def)
  next
    case False
    then have "a mod ring_N \<noteq> (n + (ring_N - max_F)) mod ring_N"
      using mod_neq [of a "n + (ring_N - max_F)"] a by simp
    then show ?thesis using s a False by (simp add: dec_sync_def emit1_def)
  qed
  moreover have "Suc ((n + 4078) mod 4096) mod 4096 = Suc (n + 4078) mod (4096 :: nat)"
    by (rule mod_Suc_eq)
  ultimately show ?thesis
    using s n by (simp add: dec_sync_def emit1_def take_Suc_conv_app_nth)
qed

lemma dec_sync_copy:
  assumes "dec_sync X (n + k) D" "n + k + m \<le> length X" "n \<le> a" "a < n + (ring_N - max_F)"
    "\<forall>j < k + m. src_at X (a + j) = src_at X (n + (ring_N - max_F) + j)"
  shows "dec_sync X (n + k + m) (copy1 (a mod ring_N) k m D)"
  using assms
proof (induction m arbitrary: k D)
  case (Suc m)
  have "d_buf D ((a mod ring_N + k) mod ring_N) = d_buf D ((a + k) mod ring_N)"
    by (simp add: mod_add_left_eq)
  also have "\<dots> = src_at X (a + k)" using Suc.prems(1,3,4) by (simp add: dec_sync_def)
  also have "\<dots> = src_at X (n + (ring_N - max_F) + k)" using Suc.prems(5) by simp
  also have "\<dots> = X ! (n + k)" by (simp add: src_at_def)
  finally have c: "d_buf D ((a mod ring_N + k) mod ring_N) = X ! (n + k)" .
  have "dec_sync X (n + (k + 1)) (emit1 (X ! (n + k)) D)"
    using dec_sync_emit [OF Suc.prems(1)] Suc.prems(2) by simp
  from Suc.IH [OF this] show ?case using Suc.prems c by simp
qed simp

section \<open>One round of the main loop\<close>

abbreviation ring_ok where "ring_ok \<equiv> lzss_trees.ring_ok"
abbreviation dict where "dict \<equiv> lzss_trees.dict"

lemmas ring_defs = lzss_trees.ring_ok_def lzss_trees.dict_def

lemma code_inv_ptr: "code_inv us st \<Longrightarrow> 0 < c_ptr st \<and> c_ptr st \<le> 15"
proof -
  assume "code_inv us st"
  then obtain pend where "length pend < 8" "c_ptr st = 1 + length (units_bytes pend)"
    by (auto simp: code_inv_def)
  then show ?thesis using units_bytes_le [of pend] by simp
qed

lemma match_fields [simp]:
  "tree_ok (sp\<lparr>match_length := m\<rparr>) = tree_ok sp" "in_tree (sp\<lparr>match_length := m\<rparr>) = in_tree sp"
  by (simp_all add: tree_ok_def tree_rank_def in_tree_def)

lemma ring_ok_match [simp]: "ring_ok X n len (sp\<lparr>match_length := m\<rparr>) = ring_ok X n len sp"
  by (simp add: ring_defs)

lemma emit_literal:
  assumes code: "code_inv us st" and r: "c_r st < ring_N" and c: "text_buf (c_sp st) (c_r st) = c"
    and short: "min (match_length (c_sp st)) (c_len st) \<le> THRESHOLD"
  shows "\<exists>st1. emit_unit st = Some st1 \<and> code_open (us @ [Lit c]) st1 \<and>
    c_sp st1 = (c_sp st)\<lparr>match_length := 1\<rparr> \<and> c_src st1 = c_src st \<and>
    c_len st1 = c_len st \<and> c_r st1 = c_r st \<and> c_s st1 = c_s st"
proof -
  let ?st1 = "st\<lparr>c_sp := (c_sp st)\<lparr>match_length := 1\<rparr>,
    c_buf := ((c_buf st)(0 := c_buf st 0 OR c_mask st))(c_ptr st := c), c_ptr := c_ptr st + 1\<rparr>"
  have "emit_unit st = Some ?st1"
    using code_inv_ptr [OF code] r c short
    by (cases "match_length (c_sp st) > c_len st") (simp_all add: emit_unit_def Let_def)
  moreover have "code_open (us @ [Lit c]) ?st1"
    using code_inv_ptr [OF code] by (intro code_open_snoc [OF code]) auto
  ultimately show ?thesis by simp
qed

lemma emit_reference:
  assumes code: "code_inv us st" and mp: "match_position (c_sp st) < ring_N"
    and m: "m = min (match_length (c_sp st)) (c_len st)" "THRESHOLD < m" "m \<le> max_F"
  shows "\<exists>st1. emit_unit st = Some st1 \<and> code_open (us @ [Ref (match_position (c_sp st)) m]) st1 \<and>
    c_sp st1 = (c_sp st)\<lparr>match_length := m\<rparr> \<and> c_src st1 = c_src st \<and>
    c_len st1 = c_len st \<and> c_r st1 = c_r st \<and> c_s st1 = c_s st"
proof -
  let ?u = "Ref (match_position (c_sp st)) m"
  let ?st1 = "st\<lparr>c_sp := (c_sp st)\<lparr>match_length := m\<rparr>,
    c_buf := ((c_buf st)(c_ptr st := unit_bytes ?u ! 0))(c_ptr st + 1 := unit_bytes ?u ! 1),
    c_ptr := c_ptr st + 2\<rparr>"
  have "emit_unit st = Some ?st1"
  proof (cases "match_length (c_sp st) > c_len st")
    case True
    then show ?thesis using code_inv_ptr [OF code] m by (simp add: emit_unit_def Let_def)
  next
    case False
    then have "(c_sp st)\<lparr>match_length := m\<rparr> = c_sp st" using m(1) by simp
    then show ?thesis using False code_inv_ptr [OF code] m
      by (simp add: emit_unit_def Let_def)
  qed
  moreover have "code_open (us @ [?u]) ?st1"
    using code_inv_ptr [OF code] mp m
    by (intro code_open_snoc [OF code]) (auto simp: less_Suc_eq)
  ultimately show ?thesis by simp
qed

lemma emit_unit_spec:
  assumes code: "code_inv us st" and d: "dict X n (c_len st) (c_sp st)"
    and len: "0 < c_len st" "n + c_len st \<le> length X"
    and r: "c_r st = (n + (ring_N - max_F)) mod ring_N"
  shows "\<exists>u m st1. emit_unit st = Some st1 \<and> code_open (us @ [u]) st1 \<and>
    match_length (c_sp st1) = m \<and> 1 \<le> m \<and> m \<le> c_len st \<and> length (unit_bytes u) \<le> m \<and>
    ring_ok X n (c_len st) (c_sp st1) \<and> c_src st1 = c_src st \<and> c_len st1 = c_len st \<and>
    c_r st1 = c_r st \<and> c_s st1 = c_s st \<and>
    (\<forall>D. dec_sync X n D \<longrightarrow> dec_sync X (n + m) (dec_unit u D))"
proof -
  let ?m = "min (match_length (c_sp st)) (c_len st)"
  have ring: "ring_ok X n (c_len st) (c_sp st)"
    and m: "match_at X n (c_len st) (match_position (c_sp st)) (match_length (c_sp st))"
    using d by (auto simp: lzss_trees.dict_def)
  show ?thesis
  proof (cases "?m \<le> THRESHOLD")
    case True
    have "text_buf (c_sp st) (c_r st) = src_at X (n + (ring_N - max_F))"
      using ring len(1) unfolding r ring_defs window_text_def by auto
    then have c: "text_buf (c_sp st) (c_r st) = X ! n" by (simp only: src_at_text)
    have rl: "c_r st < ring_N" by (simp add: r)
    obtain st1 where st1: "emit_unit st = Some st1" "code_open (us @ [Lit (X ! n)]) st1"
        "c_sp st1 = (c_sp st)\<lparr>match_length := 1\<rparr>" "c_src st1 = c_src st"
        "c_len st1 = c_len st" "c_r st1 = c_r st" "c_s st1 = c_s st"
      using emit_literal [OF code rl c True] by blast
    have "dec_sync X n D \<Longrightarrow> dec_sync X (n + 1) (dec_unit (Lit (X ! n)) D)" for D
      using dec_sync_emit [of X n D] len by simp
    then show ?thesis
      using st1 ring len(1) by (intro exI [of _ "Lit (X ! n)"] exI [of _ 1] exI [of _ st1]) simp
  next
    case False
    then obtain a where a: "n \<le> a" "a < n + (ring_N - max_F)" "a mod ring_N = match_position (c_sp st)"
        "\<forall>j < ?m. src_at X (a + j) = src_at X (n + (ring_N - max_F) + j)"
      using m by (auto simp: match_at_def)
    have b: "match_position (c_sp st) < ring_N" "?m \<le> max_F"
      using a(3) m by (auto simp: match_at_def)
    obtain st1 where st1: "emit_unit st = Some st1"
        "code_open (us @ [Ref (match_position (c_sp st)) ?m]) st1"
        "c_sp st1 = (c_sp st)\<lparr>match_length := ?m\<rparr>" "c_src st1 = c_src st"
        "c_len st1 = c_len st" "c_r st1 = c_r st" "c_s st1 = c_s st"
      using emit_reference [OF code b(1) refl _ b(2)] False unfolding not_le by blast
    have "dec_sync X (n + ?m) (dec_unit (Ref (match_position (c_sp st)) ?m) D)" if "dec_sync X n D" for D
      using dec_sync_copy [of X n 0 D ?m a] that a len(2) by simp
    then show ?thesis
      using st1 ring False
      by (intro exI [of _ "Ref (match_position (c_sp st)) ?m"] exI [of _ ?m] exI [of _ st1]) auto
  qed
qed

text \<open>The window part of the loop invariant; \<open>n\<close> bytes of the text are already coded.\<close>

definition slide_inv :: "mem \<Rightarrow> nat \<Rightarrow> comp_state \<Rightarrow> bool" where
  "slide_inv X n st \<longleftrightarrow> n + c_len st + length (c_src st) = length X \<and>
     c_src st = drop (n + c_len st) X \<and> (c_src st \<noteq> [] \<longrightarrow> c_len st = max_F) \<and>
     c_s st = n mod ring_N \<and> c_r st = (n + (ring_N - max_F)) mod ring_N \<and>
     (0 < c_len st \<longrightarrow> ring_ok X n (c_len st) (c_sp st))"

text \<open>The state has a fresh match for the current string.\<close>

definition matched :: "mem \<Rightarrow> nat \<Rightarrow> comp_state \<Rightarrow> bool" where
  "matched X n st \<longleftrightarrow> slide_inv X n st \<and> (0 < c_len st \<longrightarrow> dict X n (c_len st) (c_sp st))"

lemma matched_slide: "matched X n st \<Longrightarrow> slide_inv X n st"
  by (simp add: matched_def)

lemma slide_bound: "slide_inv X n st \<Longrightarrow> n + c_len st \<le> length X"
  unfolding slide_inv_def by linarith

lemma slide_inv_cong:
  assumes "slide_inv X n st" "c_src st' = c_src st" "c_len st' = c_len st" "c_r st' = c_r st"
    "c_s st' = c_s st" "ring_ok X n (c_len st') (c_sp st')"
  shows "slide_inv X n st'"
  using assms(1,6) unfolding slide_inv_def assms(2-5) by blast

lemma matched_dict: "matched X n st \<Longrightarrow> 0 < c_len st \<Longrightarrow> dict X n (c_len st) (c_sp st)"
  by (simp add: matched_def)

definition same_code :: "comp_state \<Rightarrow> comp_state \<Rightarrow> bool" where
  "same_code st st' \<longleftrightarrow> c_buf st' = c_buf st \<and> c_ptr st' = c_ptr st \<and> c_mask st' = c_mask st \<and>
     c_dst st' = c_dst st"

lemma same_code_inv: "same_code st st' \<Longrightarrow> code_inv us st' = code_inv us st"
  by (simp add: same_code_def code_inv_def)

lemma same_code_refl [simp]: "same_code st st" and
  same_code_trans: "same_code st st' \<Longrightarrow> same_code st' st'' \<Longrightarrow> same_code st st''"
  by (simp_all add: same_code_def)

lemma dict_ring: "dict X n len sp \<Longrightarrow> ring_ok X n len sp"
  by (simp add: lzss_trees.dict_def)

lemma step_mod: "((n mod ring_N + 1) AND (ring_N - 1)) = Suc n mod ring_N"
  using nat_and_mask [of "n mod ring_N + 1" 12] by (simp add: mod_Suc_eq)

lemma read_step_spec:
  assumes inv: "slide_inv X n st" and src: "c_src st = c # src'"
  shows "\<exists>st'. read_step st c src' = Some st' \<and> matched X (Suc n) st' \<and> same_code st st' \<and>
    c_len st' = c_len st"
proof -
  have i: "c_len st = max_F" "ring_ok X n max_F (c_sp st)" "c_s st = n mod ring_N"
      "c_r st = (n + (ring_N - max_F)) mod ring_N" "n + max_F + length (c # src') = length X"
      "c # src' = drop (n + max_F) X"
    using inv src by (auto simp: slide_inv_def)
  have c: "c = src_at X (n + ring_N)" "src' = drop (Suc n + max_F) X"
  proof -
    show "c = src_at X (n + ring_N)"
      using nth_via_drop [OF i(6) [symmetric]] by (simp add: src_at_def add.commute)
    show "src' = drop (Suc n + max_F) X"
      using arg_cong [OF i(6), of tl] by (simp only: add_Suc drop_Suc tl_drop list.sel)
  qed
  obtain sp' where sp': "(do {
      sp \<leftarrow> delete_node (c_sp st) (n mod ring_N);
      sp \<leftarrow> set_text sp (n mod ring_N) c;
      sp \<leftarrow> (if n mod ring_N < max_F - 1 then set_text sp (n mod ring_N + ring_N) c else Some sp);
      insert_node sp ((Suc n + (ring_N - max_F)) mod ring_N)
    }) = Some sp'" "dict X (Suc n) max_F sp'"
    using lzss_trees.slide_read [OF i(2) c(1)] by auto
  have r: "(c_r st + 1) AND (ring_N - 1) = (Suc n + (ring_N - max_F)) mod ring_N"
    using step_mod [of "n + (ring_N - max_F)"] i(4) by simp
  let ?st = "st\<lparr>c_sp := sp', c_src := src', c_s := Suc n mod ring_N,
    c_r := (Suc n + (ring_N - max_F)) mod ring_N\<rparr>"
  have "read_step st c src' = Some ?st"
  proof -
    have "read_step st c src' = (do {
        sp \<leftarrow> delete_node (c_sp st) (n mod ring_N);
        sp \<leftarrow> set_text sp (n mod ring_N) c;
        sp \<leftarrow> (if n mod ring_N < max_F - 1 then set_text sp (n mod ring_N + ring_N) c else Some sp);
        insert_node sp ((Suc n + (ring_N - max_F)) mod ring_N)
      }) \<bind> (\<lambda>sp. Some (st\<lparr>c_sp := sp, c_src := src', c_s := Suc n mod ring_N,
        c_r := (Suc n + (ring_N - max_F)) mod ring_N\<rparr>))"
      unfolding read_step_def i(3) Let_def r step_mod Option.bind_assoc ..
    then show ?thesis unfolding sp'(1) by simp
  qed
  moreover have "matched X (Suc n) ?st"
    using i sp'(2) c(2) dict_ring [OF sp'(2)] by (simp add: matched_def slide_inv_def)
  ultimately show ?thesis by (simp add: same_code_def)
qed

lemma read_loop_spec:
  assumes "slide_inv X n st" "0 < k \<or> matched X n st"
  shows "\<exists>rem st'. read_loop k st = Some (rem, st') \<and> rem \<le> k \<and> slide_inv X (n + (k - rem)) st' \<and>
    same_code st st' \<and> c_len st' = c_len st \<and> (0 < rem \<longrightarrow> c_src st' = []) \<and>
    (rem = 0 \<longrightarrow> matched X (n + k) st')"
  using assms
proof (induction k arbitrary: n st)
  case (Suc k)
  show ?case
  proof (cases "c_src st")
    case Nil
    then show ?thesis using Suc.prems by simp
  next
    case (Cons c src')
    obtain st1 where st1: "read_step st c src' = Some st1" "matched X (Suc n) st1" "same_code st st1"
        "c_len st1 = c_len st"
      using read_step_spec [OF Suc.prems(1) Cons] by blast
    then obtain rem st' where st': "read_loop k st1 = Some (rem, st')" "rem \<le> k"
        "slide_inv X (Suc n + (k - rem)) st'" "same_code st1 st'" "c_len st' = c_len st1"
        "0 < rem \<longrightarrow> c_src st' = []" "rem = 0 \<longrightarrow> matched X (Suc n + k) st'"
      using Suc.IH [of "Suc n" st1] by (auto simp: matched_def)
    then show ?thesis using Cons st1 same_code_trans [OF st1(3) st'(4)]
      by (simp add: Suc_diff_le)
  qed
qed simp

lemma drain_step_spec:
  assumes inv: "slide_inv X n st" and src: "c_src st = []" and len: "0 < c_len st"
  shows "\<exists>st'. drain_step st = Some st' \<and> matched X (Suc n) st' \<and> same_code st st' \<and>
    c_len st' = c_len st - 1 \<and> c_src st' = []"
proof -
  have i: "ring_ok X n (c_len st) (c_sp st)" "c_s st = n mod ring_N"
      "c_r st = (n + (ring_N - max_F)) mod ring_N" "n + c_len st = length X"
    using inv src len by (auto simp: slide_inv_def)
  obtain sp1 sp2 where sp: "delete_node (c_sp st) (n mod ring_N) = Some sp1"
      "insert_node sp1 ((Suc n + (ring_N - max_F)) mod ring_N) = Some sp2"
      "dict X (Suc n) (c_len st - 1) sp2"
    using lzss_trees.slide_drop [OF i(1) len] by auto
  have r: "(c_r st + 1) AND (ring_N - 1) = (Suc n + (ring_N - max_F)) mod ring_N"
    using step_mod [of "n + (ring_N - max_F)"] i(3) by simp
  let ?sp = "if c_len st - 1 \<noteq> 0 then sp2 else sp1"
  let ?st = "st\<lparr>c_sp := ?sp, c_s := Suc n mod ring_N,
    c_r := (Suc n + (ring_N - max_F)) mod ring_N, c_len := c_len st - 1\<rparr>"
  have "drain_step st = Some ?st"
    using sp(1,2) unfolding drain_step_def i(2) Let_def r step_mod
    by (cases "c_len st - 1 \<noteq> 0") simp_all
  moreover have "matched X (Suc n) ?st"
    using i sp(3) src len dict_ring [OF sp(3)] by (simp add: matched_def slide_inv_def)
  ultimately show ?thesis using src by (simp add: same_code_def)
qed

lemma drain_loop_spec:
  assumes "slide_inv X n st" "k \<le> c_len st" "k = 0 \<longrightarrow> matched X n st" "0 < k \<longrightarrow> c_src st = []"
  shows "\<exists>st'. drain_loop k st = Some st' \<and> matched X (n + k) st' \<and> same_code st st' \<and>
    c_len st' = c_len st - k"
  using assms
proof (induction k arbitrary: n st)
  case (Suc k)
  obtain st1 where st1: "drain_step st = Some st1" "matched X (Suc n) st1" "same_code st st1"
      "c_len st1 = c_len st - 1" "c_src st1 = []"
    using drain_step_spec [OF Suc.prems(1)] Suc.prems(2,4) by auto
  have k: "k \<le> c_len st1" using Suc.prems(2) st1(4) by simp
  then obtain st' where "drain_loop k st1 = Some st'" "matched X (Suc n + k) st'" "same_code st1 st'"
      "c_len st' = c_len st1 - k"
    using Suc.IH [OF matched_slide [OF st1(2)] k] st1(2,4,5) by auto
  then show ?case using st1 same_code_trans [OF st1(3)] by simp
qed simp

definition loop_inv :: "(nat \<Rightarrow> byte) \<Rightarrow> mem \<Rightarrow> nat \<Rightarrow> lz_unit list \<Rightarrow> comp_state \<Rightarrow> bool" where
  "loop_inv garbage X n us st \<longleftrightarrow> matched X n st \<and> code_inv us st \<and>
     dec_sync X n (fold dec_unit us (dec_init garbage)) \<and>
     length (units_bytes us) \<le> n \<and> length us \<le> n"

lemma loop_invD:
  assumes "loop_inv garbage X n us st"
  shows "matched X n st" "code_inv us st" "dec_sync X n (fold dec_unit us (dec_init garbage))"
    "length (units_bytes us) \<le> n" "length us \<le> n"
  using assms unfolding loop_inv_def by blast+

lemma pack_length: "length (pack us) = length (units_bytes us) + (length us + 7) div 8"
proof (induction us rule: pack.induct)
  case (1 us)
  show ?case
  proof (cases "us = []")
    case False
    have l: "length (units_bytes us) = length (units_bytes (take 8 us)) + length (units_bytes (drop 8 us))"
      by (metis append_take_drop_id concat_append length_append map_append)
    have "Suc ((length us - 8 + 7) div 8) = (length us + 7) div 8"
    proof (cases "8 \<le> length us")
      case True
      then have "length us + 7 = length us - 8 + 7 + 8" by simp
      then show ?thesis by simp
    next
      case short: False
      have "0 < length us" using False by simp
      then have "length us + 7 = (length us - 1) + 8" by simp
      moreover have "(length us - 1) div 8 = 0" using short by simp
      ultimately have "(length us + 7) div 8 = 1" by (metis One_nat_def add.commute div_add_self1 plus_1_eq_Suc zero_neq_numeral)
      then show ?thesis using short by simp
    qed
    then show ?thesis using False 1 l by (subst pack.simps) (simp add: pack_group_def)
  qed (simp add: pack.simps)
qed

abbreviation worst_case :: "nat \<Rightarrow> nat" where "worst_case n \<equiv> n + (n + 7) div 8"

lemma pack_bound:
  assumes "length (units_bytes us) \<le> n" "length us \<le> n" "n \<le> m"
  shows "length (pack us) \<le> worst_case m"
proof -
  have "(length us + 7) div 8 \<le> (m + 7) div 8" using assms by (intro div_le_mono) simp
  then show ?thesis using assms by (simp add: pack_length)
qed

lemma compress_body_spec:
  assumes inv: "loop_inv garbage X n us st" and len: "0 < c_len st"
  shows "\<exists>res. compress_body dstlen st = Some res \<and>
    (case res of
       None \<Rightarrow> dstlen < worst_case (length X)
     | Some st' \<Rightarrow> \<exists>u m. 1 \<le> m \<and> loop_inv garbage X (n + m) (us @ [u]) st')"
proof -
  note d = matched_slide [OF loop_invD(1) [OF inv]] matched_dict [OF loop_invD(1) [OF inv] len]
    loop_invD(2-5) [OF inv]
  have b: "n + c_len st \<le> length X" "c_r st = (n + (ring_N - max_F)) mod ring_N"
    using slide_bound [OF d(1)] d(1) unfolding slide_inv_def by blast+
  obtain u m st1 where st1: "emit_unit st = Some st1" "code_open (us @ [u]) st1"
      "match_length (c_sp st1) = m" "1 \<le> m" "m \<le> c_len st" "length (unit_bytes u) \<le> m"
      "ring_ok X n (c_len st) (c_sp st1)" "c_src st1 = c_src st" "c_len st1 = c_len st"
      "c_r st1 = c_r st" "c_s st1 = c_s st"
      "\<forall>D. dec_sync X n D \<longrightarrow> dec_sync X (n + m) (dec_unit u D)"
    using emit_unit_spec [OF d(3,2) len b] by blast
  have us': "length (units_bytes (us @ [u])) \<le> n + m" "length (us @ [u]) \<le> n + m"
    using st1(4,6) d(5,6) by auto
  have nm: "n + m \<le> length X" using b(1) st1(5) by simp
  obtain res where res: "flush_code dstlen st1 = Some res"
    "case res of
       None \<Rightarrow> dstlen < length (pack (us @ [u]))
     | Some st' \<Rightarrow> code_inv (us @ [u]) st' \<and> c_sp st' = c_sp st1 \<and> c_src st' = c_src st1 \<and>
         c_len st' = c_len st1 \<and> c_r st' = c_r st1 \<and> c_s st' = c_s st1"
    using flush_code_spec [OF st1(2)] by blast
  show ?thesis
  proof (cases res)
    case None
    then have "dstlen < worst_case (length X)"
      using res(2) pack_bound [OF us' nm] by simp
    then show ?thesis using None st1(1) res(1) by (simp add: compress_body_def)
  next
    case (Some st2)
    then have f: "code_inv (us @ [u]) st2" "c_sp st2 = c_sp st1" "c_src st2 = c_src st"
        "c_len st2 = c_len st" "c_r st2 = c_r st" "c_s st2 = c_s st"
      using res(2) st1(8-11) by auto
    have sl: "slide_inv X n st2"
      using slide_inv_cong [OF d(1) f(3-6)] st1(7) f(2,4) by simp
    obtain rem st3 where st3: "read_loop m st2 = Some (rem, st3)" "rem \<le> m"
        "slide_inv X (n + (m - rem)) st3" "same_code st2 st3" "c_len st3 = c_len st2"
        "0 < rem \<longrightarrow> c_src st3 = []" "rem = 0 \<longrightarrow> matched X (n + m) st3"
      using read_loop_spec [OF sl, of m] st1(4) by auto
    obtain st4 where st4: "drain_loop rem st3 = Some st4" "matched X (n + (m - rem) + rem) st4"
        "same_code st3 st4"
      using drain_loop_spec [OF st3(3), of rem] st3 st1(5) f(4) by auto
    have "compress_body dstlen st = Some (Some st4)"
      using st1(1,3) res(1) Some f(2) st3(1) st4(1) by (simp add: compress_body_def)
    moreover have "loop_inv garbage X (n + m) (us @ [u]) st4"
      using st4(2) st3(2,4) f(1) st4(3) us' st1(12) d(4)
      by (simp add: loop_inv_def same_code_inv)
    ultimately show ?thesis using st1(4) by auto
  qed
qed

lemma compress_loop_spec:
  assumes "loop_inv garbage X n us st" "0 < c_len st" "length X - n < fuel"
  shows "\<exists>res. compress_loop fuel dstlen st = Some res \<and>
    (case res of
       None \<Rightarrow> dstlen < worst_case (length X)
     | Some st' \<Rightarrow> \<exists>us'. loop_inv garbage X (length X) us' st')"
  using assms
proof (induction fuel arbitrary: n us st)
  case (Suc fuel)
  obtain res where res: "compress_body dstlen st = Some res"
    "case res of
       None \<Rightarrow> dstlen < worst_case (length X)
     | Some st' \<Rightarrow> \<exists>u m. 1 \<le> m \<and> loop_inv garbage X (n + m) (us @ [u]) st'"
    using compress_body_spec [OF Suc.prems(1,2)] by blast
  show ?case
  proof (cases res)
    case None
    then show ?thesis using res by simp
  next
    case (Some st')
    then obtain u m where um: "1 \<le> m" "loop_inv garbage X (n + m) (us @ [u]) st'"
      using res(2) by auto
    show ?thesis
    proof (cases "0 < c_len st'")
      case True
      have "n < length X"
        using slide_bound [OF matched_slide [OF loop_invD(1) [OF Suc.prems(1)]]] Suc.prems(2) by linarith
      then have "length X - (n + m) < fuel" using um(1) Suc.prems(3) by simp
      then show ?thesis using Suc.IH [OF um(2) True] Some res(1) True by simp
    next
      case False
      have "slide_inv X (n + m) st'" by (rule matched_slide [OF loop_invD(1) [OF um(2)]])
      then have "n + m = length X" using False by (auto simp: slide_inv_def)
      then show ?thesis using um(2) Some res(1) False by auto
    qed
  qed
qed simp

end
