(* ===== verification/Lzss_Roundtrip.thy ===== *)
theory Lzss_Roundtrip
  imports Lzss_Encode
begin

text \<open>
  The properties of \<open>src/src/lzss.c\<close>: what the tree operations promise, and that decoding
  inverts encoding.
\<close>

section \<open>Start of the compressor\<close>

lemma fill_first_spec:
  assumes "r + len + n \<le> ring_N"
  shows "\<exists>sp'. fill_first n r len sp src = Some (sp', len + min n (length src), drop n src) \<and>
    lchild sp' = lchild sp \<and> rchild sp' = rchild sp \<and> parent sp' = parent sp \<and>
    (\<forall>i. text_buf sp' i = (if r + len \<le> i \<and> i < r + len + min n (length src)
                          then src ! (i - (r + len)) else text_buf sp i))"
  using assms
proof (induction n r len sp src rule: fill_first.induct)
  case (3 n r len sp c src)
  let ?sp = "sp\<lparr>text_buf := (text_buf sp)(r + len := c)\<rparr>"
  have b: "r + len < 4113" using "3.prems" by simp
  obtain sp' where sp': "fill_first n r (len + 1) ?sp src = Some (sp', len + 1 + min n (length src), drop n src)"
      "lchild sp' = lchild sp" "rchild sp' = rchild sp" "parent sp' = parent sp"
      "\<forall>i. text_buf sp' i = (if r + (len + 1) \<le> i \<and> i < r + (len + 1) + min n (length src)
                          then src ! (i - (r + (len + 1))) else text_buf ?sp i)"
    using "3.IH" [of ?sp] "3.prems" b by auto
  have "text_buf sp' i = (if r + len \<le> i \<and> i < r + len + min (Suc n) (length (c # src))
      then (c # src) ! (i - (r + len)) else text_buf sp i)" for i
    using sp'(5) by (cases "i = r + len") (auto simp: nth_Cons')
  then show ?case using sp'(1-4) b by simp
qed auto

lemma insert_first_spec:
  assumes "tree_ok sp" "in_tree sp \<subseteq> {r - i<..<r}" "i + n < r" "1 \<le> i" "r < ring_N"
  shows "\<exists>sp'. insert_first n r i sp = Some sp' \<and> tree_ok sp' \<and> in_tree sp' \<subseteq> {..<r} \<and>
    text_buf sp' = text_buf sp"
  using assms
proof (induction n arbitrary: i sp)
  case (Suc n)
  have "r - i \<notin> in_tree sp" "r - i < ring_N" using Suc.prems(2,5) by auto
  then obtain sp1 where sp1: "insert_node sp (r - i) = Some sp1" "tree_ok sp1"
      "in_tree sp1 \<subseteq> insert (r - i) (in_tree sp)" "text_buf sp1 = text_buf sp"
    using lzss_trees.ins_law [OF Suc.prems(1), of "r - i"] by auto
  have "insert (r - i) {r - i<..<r} \<subseteq> {r - (i + 1)<..<r}"
    using Suc.prems(3,4) by auto
  then have "in_tree sp1 \<subseteq> {r - (i + 1)<..<r}" using sp1(3) Suc.prems(2) by blast
  then show ?case using Suc.IH [OF sp1(2), of "i + 1"] sp1 Suc.prems by auto
qed auto

text \<open>The state on entry to the main loop satisfies its invariant.\<close>

lemma compress_start:
  assumes "X \<noteq> []"
  defines "len \<equiv> min max_F (length X)"
  shows "\<exists>sp sp1 sp2. fill_first max_F (ring_N - max_F) 0 init_state X = Some (sp, len, drop len X) \<and>
    insert_first max_F (ring_N - max_F) 1 sp = Some sp1 \<and>
    insert_node sp1 (ring_N - max_F) = Some sp2 \<and>
    loop_inv garbage X 0 []
      \<lparr>c_sp = sp2, c_src = drop len X, c_len = len, c_r = ring_N - max_F, c_s = 0,
       c_buf = (\<lambda>_. 0), c_ptr = 1, c_mask = 1, c_dst = []\<rparr>"
proof -
  let ?r = "ring_N - max_F"
  have dl: "drop max_F X = drop len X" by (simp add: len_def min_def)
  obtain sp where fill: "fill_first max_F ?r 0 init_state X = Some (sp, len, drop len X)"
    and links: "lchild sp = lchild init_state" "rchild sp = rchild init_state"
      "parent sp = parent init_state"
    and content: "\<And>i. text_buf sp i = (if ?r \<le> i \<and> i < ?r + len then X ! (i - ?r) else text_buf init_state i)"
    using fill_first_spec [of ?r 0 max_F init_state X, unfolded add_0_right] dl
    by (auto simp: len_def)
  have it: "in_tree sp = {}" using init_in_tree in_tree_cong [OF links(3)] by simp
  have ok: "tree_ok sp"
    by (auto simp: tree_ok_def tree_rank_def tinv_def links init_state_def live_def
        vertex_def is_root_def)
  obtain sp1 where sp1: "insert_first max_F ?r 1 sp = Some sp1" "tree_ok sp1"
      "in_tree sp1 \<subseteq> {..<?r}" "text_buf sp1 = text_buf sp"
    using insert_first_spec [OF ok, of ?r 1 max_F] it by auto
  have win: "window_text X 0 (0 + ?r + len) (text_buf sp1)"
    unfolding window_text_def
  proof (intro allI impI)
    fix a assume "a < 0 + ?r + len"
    then have a: "a < ?r + len" "a < ring_N" by (simp_all add: len_def)
    then show "text_buf sp1 (a mod ring_N) = src_at X a \<and> (ring_N \<le> a \<longrightarrow> a mod ring_N < max_F - 1 \<longrightarrow>
        text_buf sp1 (ring_N + a mod ring_N) = src_at X a)"
      by (simp add: sp1(4) content src_at_def init_state_def)
  qed
  have reg: "window_reg 0 (0 + ?r) (in_tree sp1)"
    unfolding window_reg_def
  proof
    fix i assume "i \<in> in_tree sp1"
    then have "i < ?r" using sp1(3) by auto
    then show "\<exists>a. 0 \<le> a \<and> a < 0 + ?r \<and> i = a mod ring_N" by (intro exI [of _ i]) simp
  qed
  have "lzss_trees.dict_pre X 0 len sp1"
    using sp1(2) win reg by (simp add: lzss_trees.dict_pre_def len_def)
  then obtain sp2 where sp2: "insert_node sp1 ?r = Some sp2" "dict X 0 len sp2"
    using lzss_trees.register [of X 0 len sp1] by auto
  have "slide_inv X 0 \<lparr>c_sp = sp2, c_src = drop len X, c_len = len, c_r = ?r, c_s = 0,
       c_buf = (\<lambda>_. 0), c_ptr = 1, c_mask = 1, c_dst = []\<rparr>"
    unfolding slide_inv_def using dict_ring [OF sp2(2)] by (simp add: len_def)
  then have "loop_inv garbage X 0 [] \<lparr>c_sp = sp2, c_src = drop len X, c_len = len, c_r = ?r, c_s = 0,
       c_buf = (\<lambda>_. 0), c_ptr = 1, c_mask = 1, c_dst = []\<rparr>"
    unfolding loop_inv_def matched_def code_inv_def
    using sp2(2) dec_sync_init [of X garbage] by (simp add: pack.simps)
  then show ?thesis using fill sp1(1) sp2(1) by blast
qed

text \<open>The end: the last, incomplete group.\<close>

lemma compress_finish:
  assumes code: "code_inv us st"
  shows "(if c_ptr st > 1 then write_code dstlen (c_buf st) 0 (c_ptr st) (c_dst st)
          else Some (Some (c_dst st))) =
    Some (if c_ptr st = 1 \<or> length (pack us) \<le> dstlen then Some (pack us) else None)"
proof -
  obtain prev pend where d: "us = prev @ pend" "8 dvd length prev" "length pend < 8"
      "c_dst st = pack prev" "c_buf st 0 = flag_bits pend"
      "c_ptr st = 1 + length (units_bytes pend)"
      "\<forall>i < length (units_bytes pend). c_buf st (1 + i) = units_bytes pend ! i"
    using code by (auto simp: code_inv_def)
  show ?thesis
  proof (cases "pend = []")
    case True
    then show ?thesis using d by simp
  next
    case False
    then obtain u vs where "pend = u # vs" by (cases pend) auto
    then have p: "c_ptr st > 1" using d(6) by (cases u) auto
    have pk: "pack us = pack prev @ pack_group pend"
      using pack_append_group [OF d(2) _ False] d(1,3) by simp
    have grp: "map (c_buf st) [0..<0 + c_ptr st] = pack_group pend" using d by (intro code_group) auto
    have "0 + c_ptr st \<le> 17" using code_inv_ptr [OF code] by simp
    from write_code_spec [OF this, of dstlen "c_buf st" "c_dst st"]
    have w: "write_code dstlen (c_buf st) 0 (c_ptr st) (c_dst st) =
        Some (if length (c_dst st) + c_ptr st \<le> dstlen \<or> c_ptr st = 0
              then Some (c_dst st @ pack_group pend) else None)"
      unfolding grp .
    have "length (c_dst st) + c_ptr st = length (pack us)"
      using d(4,6) pk by (simp add: pack_group_def)
    moreover have "pack_group pend \<noteq> []" by (simp add: pack_group_def)
    ultimately show ?thesis using w p pk d(4) by simp
  qed
qed

lemma write_code_le:
  "write_code dstlen buf i n dst = Some (Some out) \<Longrightarrow> length dst \<le> dstlen \<Longrightarrow> length out \<le> dstlen"
  by (induction dstlen buf i n dst rule: write_code.induct)
    (auto split: if_splits bind_splits)

lemma decompress_pack:
  assumes "list_all unit_ok us"
  shows "decompress_lzss garbage (pack us) = Some (d_out (fold dec_unit us (dec_init garbage)))"
  using dec_pack [of "dec_init garbage" us 0] assms
  by (simp add: decompress_lzss_def dec_init_def dec_ok_def)

lemma final_decodes:
  assumes "loop_inv garbage X (length X) us st"
  shows "decompress_lzss garbage (pack us) = Some X" "length (pack us) \<le> worst_case (length X)"
proof -
  note inv = loop_invD [OF assms]
  have "list_all unit_ok us" using inv(2) by (simp add: code_inv_def)
  then show "decompress_lzss garbage (pack us) = Some X"
    using inv(3) by (simp add: decompress_pack dec_sync_def)
  show "length (pack us) \<le> worst_case (length X)" by (rule pack_bound [OF inv(4,5)]) simp
qed

lemma compress_result:
  assumes "X \<noteq> []"
  shows "\<exists>res. compress_lzss dstlen X = Some res \<and>
    (case res of
       None \<Rightarrow> dstlen < worst_case (length X)
     | Some out \<Rightarrow> decompress_lzss garbage out = Some X)"
proof -
  let ?len = "min max_F (length X)" and ?r = "ring_N - max_F"
  obtain sp sp1 sp2 where start: "fill_first max_F ?r 0 init_state X = Some (sp, ?len, drop ?len X)"
      "insert_first max_F ?r 1 sp = Some sp1" "insert_node sp1 ?r = Some sp2"
      "loop_inv garbage X 0 [] \<lparr>c_sp = sp2, c_src = drop ?len X, c_len = ?len, c_r = ?r, c_s = 0,
         c_buf = (\<lambda>_. 0), c_ptr = 1, c_mask = 1, c_dst = []\<rparr>" (is "loop_inv _ _ _ _ ?st")
    using compress_start [OF assms] by blast
  have len: "0 < ?len" using assms by simp
  obtain res where res: "compress_loop (length X + 1) dstlen ?st = Some res"
    "case res of
       None \<Rightarrow> dstlen < worst_case (length X)
     | Some st' \<Rightarrow> \<exists>us'. loop_inv garbage X (length X) us' st'"
    using compress_loop_spec [OF start(4), of "length X + 1" dstlen] len by auto
  have eq: "compress_lzss dstlen X = do {
       f \<leftarrow> compress_loop (length X + 1) dstlen ?st;
       case f of
         None \<Rightarrow> Some None
       | Some st \<Rightarrow>
           if c_ptr st > 1 then write_code dstlen (c_buf st) 0 (c_ptr st) (c_dst st)
           else Some (Some (c_dst st)) }"
  proof -
    have "?len \<noteq> 0" using len by simp
    then show ?thesis
      by (simp only: compress_lzss_def Let_def start(1-3) Option.bind.simps prod.case if_False)
  qed
  show ?thesis
  proof (cases res)
    case None
    have "compress_lzss dstlen X = Some None"
      unfolding eq res(1) None Option.bind.simps option.case ..
    then show ?thesis using res(2) None by simp
  next
    case (Some st')
    then obtain us where us: "loop_inv garbage X (length X) us st'" using res(2) by auto
    have "compress_lzss dstlen X =
        Some (if c_ptr st' = 1 \<or> length (pack us) \<le> dstlen then Some (pack us) else None)"
      unfolding eq res(1) Some Option.bind.simps option.case compress_finish [OF loop_invD(2) [OF us]] ..
    then show ?thesis using final_decodes [OF us] by auto
  qed
qed

section \<open>Properties\<close>

text \<open>C1: for every non-empty input and every destination size, \<open>compress_lzss\<close> returns
  (it terminates and indexes inside its arrays); when it does not return \<open>NULL\<close>, the bytes it
  wrote decode to the input, whatever the decoder's uninitialised ring bytes are; and it returns
  \<open>NULL\<close> only when the destination is smaller than \<open>n + (n + 7) / 8\<close> bytes.\<close>

theorem lzss_roundtrip:
  assumes "src \<noteq> []"
  shows "\<exists>res. compress_lzss dstlen src = Some res \<and>
    (case res of
       None \<Rightarrow> dstlen < length src + (length src + 7) div 8
     | Some out \<Rightarrow> decompress_lzss garbage out = Some src)"
  using compress_result [OF assms] .

lemma lzss_roundtrip_witness:
  "\<exists>out. compress_lzss 64 (replicate 20 65) = Some (Some out) \<and>
     decompress_lzss (\<lambda>_. 255) out = Some (replicate 20 65)"
  using lzss_roundtrip [of "replicate 20 65" 64 "\<lambda>_. 255"] by (auto split: option.splits)

text \<open>C2: \<open>insert_node\<close> on a well-formed tree state and an unregistered position terminates
  inside its arrays, keeps the trees well formed and the text unchanged, registers exactly \<open>r\<close>
  (dropping at most positions that were registered), and reports a match that is either empty or
  a registered position at which the text really agrees for \<open>match_length \<le> F\<close> bytes.\<close>

theorem insert_node_correct:
  assumes "tree_ok sp" "r < ring_N" "r \<notin> in_tree sp"
  shows "\<exists>sp' dropped. insert_node sp r = Some sp' \<and> tree_ok sp' \<and>
    in_tree sp' = insert r (in_tree sp - dropped) \<and> dropped \<subseteq> in_tree sp \<and>
    text_buf sp' = text_buf sp \<and> match_length sp' \<le> max_F \<and>
    (match_length sp' = 0 \<or>
       match_position sp' \<in> in_tree sp \<and>
       (\<forall>j < match_length sp'. text_buf sp (match_position sp' + j) = text_buf sp (r + j)))"
  using insert_node_ok [OF assms] by (fastforce simp: match_ok_def)

lemma insert_node_correct_witness:
  "\<exists>sp' dropped. insert_node init_state 5 = Some sp' \<and> tree_ok sp' \<and>
    in_tree sp' = insert 5 (in_tree init_state - dropped)"
  using insert_node_correct [of init_state 5] init_tree_ok init_in_tree by auto

text \<open>C3: \<open>delete_node\<close> on a well-formed tree state, for any position of the ring, registered or
  not, with zero, one or two children, terminates inside its arrays, keeps the trees well formed
  and the text unchanged and removes exactly that position.\<close>

theorem delete_node_correct:
  assumes "tree_ok sp" "p < ring_N"
  shows "\<exists>sp'. delete_node sp p = Some sp' \<and> tree_ok sp' \<and> in_tree sp' = in_tree sp - {p} \<and>
    text_buf sp' = text_buf sp"
  using delete_node_ok [OF assms] by (simp add: deleted_def)

lemma delete_node_correct_witness:
  "\<exists>sp'. delete_node init_state 7 = Some sp' \<and> tree_ok sp' \<and> in_tree sp' = in_tree init_state - {7}"
  using delete_node_correct [of init_state 7] init_tree_ok by auto

end
