(* ===== verification/Ota_Entry.thy ===== *)
theory Ota_Entry
  imports Prelude
begin

text \<open>
  The archive of \<open>src/src/ota.c\<close>: packed entries (\<open>struct entry\<close>, name, contents), the
  handlers for one entry (\<open>extractFile\<close>, \<open>hashFile\<close>, \<open>processFileInner\<close>), the entry loop of
  \<open>processFile\<close> and the comparison of two archives (\<open>getNextEnt\<close>, \<open>doDiff\<close>). Output and file
  system calls are events, in the order the code performs them.
\<close>

section \<open>Entries\<close>

text \<open>\<open>ntohs\<close> is declared by the file as returning a (signed) \<open>short\<close>; \<open>swap32\<close> returns
  \<open>uint32_t\<close>.\<close>

definition ntohs_at :: "mem \<Rightarrow> nat \<Rightarrow> int option" where
  "ntohs_at m i = map_option (\<lambda>v. if v < 2 ^ 15 then int v else int v - 2 ^ 16) (rd_be 2 m i)"

definition swap32_at :: "mem \<Rightarrow> nat \<Rightarrow> nat option" where
  "swap32_at m i = rd_be 4 m i"

text \<open>The fields of \<open>struct entry\<close> that the code uses, with \<open>name[0]\<close> at offset 30.\<close>

definition sizeof_entry :: nat where "sizeof_entry = 30"

record entry =
  usually_0x210_or_0x110 :: nat
  usually_0x00_00 :: nat
  ent_fileSize :: nat
  ent_nameLen :: int
  ent_uid :: int
  ent_gid :: int
  ent_perms :: nat

definition read_entry :: "mem \<Rightarrow> nat \<Rightarrow> entry option" where
  "read_entry m p = do {
     magic \<leftarrow> rd_le 4 m p;
     zero \<leftarrow> rd_le 2 m (p + 4);
     sz \<leftarrow> swap32_at m (p + 6);
     nl \<leftarrow> ntohs_at m (p + 22);
     uid \<leftarrow> ntohs_at m (p + 24);
     gid \<leftarrow> ntohs_at m (p + 26);
     perms \<leftarrow> rd_be 2 m (p + 28);
     Some \<lparr>usually_0x210_or_0x110 = magic, usually_0x00_00 = zero, ent_fileSize = sz,
           ent_nameLen = nl, ent_uid = uid, ent_gid = gid, ent_perms = perms\<rparr>
   }"

section \<open>Handling one entry\<close>

datatype ota_event =
    Mkdir mem nat
  | Symlink mem mem
  | Fchmodat mem nat
  | Dump mem nat mem             \<comment> \<open>open, fchmod, write, close\<close>
  | UnknownType nat
  | HashLine mem nat mem         \<comment> \<open>name, size, digest\<close>
  | FoundIn mem int nat          \<comment> \<open>entry name, relative and absolute offset\<close>
  | Listed mem
  | ListedVerbose int int nat nat int mem
  | CorruptAt nat
  | NotYaa nat
  | YaaLine "(mem \<times> nat) list" "mem option" int
  | Line mem

record ota_opts =
  g_list :: bool
  g_verbose :: bool
  g_extract :: "mem option"
  g_search :: "mem option"
  g_hash :: "mem option"
  g_nullTerm :: bool

abbreviation "S_IFMT \<equiv> 0xF000 :: nat"
abbreviation "S_IFDIR \<equiv> 0x4000 :: nat"
abbreviation "S_IFREG \<equiv> 0x8000 :: nat"
abbreviation "S_IFLNK \<equiv> 0xA000 :: nat"

abbreviation "mode_755 \<equiv> 7 * 64 + 5 * 8 + 5 :: nat"

text \<open>\<open>(Criteria[0] != '*') && !strstr(Name, Criteria)\<close> negated.\<close>

definition selected :: "mem \<Rightarrow> mem \<Rightarrow> bool" where
  "selected name criteria \<longleftrightarrow>
     (case criteria of c # _ \<Rightarrow> c = of_char CHR ''*'' | [] \<Rightarrow> False) \<or> strstr name criteria"

text \<open>The \<open>strchr\<close> loop: every prefix of the name that ends before a slash.\<close>

fun dir_prefixes :: "mem \<Rightarrow> mem \<Rightarrow> mem list" where
  "dir_prefixes acc [] = []"
| "dir_prefixes acc (c # cs) =
     (if c = of_char CHR ''/'' then acc # dir_prefixes (acc @ [c]) cs
      else dir_prefixes (acc @ [c]) cs)"

text \<open>\<open>mem\<close> at \<open>file\<close> is the mapping from the contents on, so that a read past the end of the
  mapping is visible.\<close>

definition extractFile :: "mem \<Rightarrow> mem \<Rightarrow> nat \<Rightarrow> nat \<Rightarrow> mem option \<Rightarrow> ota_event list option" where
  "extractFile file name sz perms criteria =
     (case criteria of
        None \<Rightarrow> Some []
      | Some crit \<Rightarrow>
          if \<not> selected name crit then Some []
          else
            let type = perms AND S_IFMT;
                perms = perms AND 0x0FFF in
            if type = S_IFDIR then Some [Mkdir name mode_755]
            else do {
              let unknown = (if type \<noteq> S_IFREG \<and> type \<noteq> S_IFLNK then [UnknownType type] else []);
              let dirs = map (\<lambda>d. Mkdir d mode_755) (dir_prefixes [] name);
              out \<leftarrow> (if type = S_IFLNK then do {
                       target \<leftarrow> cstrn_at file 0 sz;
                       Some [Symlink target name, Fchmodat name perms]
                     } else do {
                       contents \<leftarrow> slice file 0 sz;
                       Some [Dump name perms contents]
                     });
              Some (unknown @ dirs @ out)
            })"

text \<open>\<open>sha1\<close> stands for \<open>doSHA1\<close>, which the repository includes from a file it does not hold.\<close>

definition hashFile ::
  "(mem \<Rightarrow> mem) \<Rightarrow> mem \<Rightarrow> mem \<Rightarrow> nat \<Rightarrow> mem option \<Rightarrow> ota_event list option" where
  "hashFile sha1 file name sz criteria =
     (case criteria of
        None \<Rightarrow> Some []
      | Some crit \<Rightarrow>
          if \<not> selected name crit then Some []
          else map_option (\<lambda>data. [HashLine name sz (sha1 data)]) (slice file 0 sz))"

text \<open>The search loop: \<open>from\<close> is the offset where \<open>memmem\<close> starts, \<open>n\<close> the length it is given.
  After a match at \<open>rel\<close>, the code searches \<open>fileSize - rel\<close> bytes from \<open>rel + 1\<close> on.\<close>

definition search_body ::
  "mem \<Rightarrow> nat \<Rightarrow> mem \<Rightarrow> nat \<Rightarrow> mem \<Rightarrow> nat \<times> nat \<times> ota_event list
     \<Rightarrow> ((nat \<times> nat \<times> ota_event list) + ota_event list) option" where
  "search_body m pos name fileSize needle st =
     (case st of (from, n, evs) \<Rightarrow> do {
        window \<leftarrow> slice m (pos + from) n;
        case memmem window needle of
          None \<Rightarrow> Some (Inr evs)
        | Some k \<Rightarrow>
            let rel = from + k in
            Some (Inl (rel + 1, (if rel \<le> fileSize then fileSize - rel else 2 ^ 32 + fileSize - rel),
                       evs @ [FoundIn name (int rel) (pos + rel)]))
      })"

definition search_needle :: "ota_opts \<Rightarrow> mem \<Rightarrow> mem" where
  "search_needle opts s = s @ (if g_nullTerm opts then [0] else [])"

definition processFileInner ::
  "(mem \<Rightarrow> mem) \<Rightarrow> ota_opts \<Rightarrow> mem \<Rightarrow> nat \<Rightarrow> mem \<Rightarrow> nat \<Rightarrow> nat \<Rightarrow> ota_event list option" where
  "processFileInner sha1 opts m pos name fileSize perms = do {
     ex \<leftarrow> extractFile (drop pos m) name fileSize perms (g_extract opts);
     ha \<leftarrow> hashFile sha1 (drop pos m) name fileSize (g_hash opts);
     fo \<leftarrow> (case g_search opts of
              None \<Rightarrow> Some []
            | Some s \<Rightarrow>
                loop (fileSize + 2) (search_body m pos name fileSize (search_needle opts s))
                  (0, fileSize, []));
     Some (ex @ ha @ fo)
   }"

section \<open>The entry loop of processFile\<close>

definition entry_magic :: "nat \<Rightarrow> bool" where
  "entry_magic v \<longleftrightarrow> v = 0x210 \<or> v = 0x110 \<or> v = 0x310"

text \<open>The inner loop of the recovery: only two of the three magics end it.\<close>

definition scan_body :: "mem \<Rightarrow> nat \<Rightarrow> (nat + nat) option" where
  "scan_body m p = do {
     v \<leftarrow> rd_le 4 m p;
     Some (if v \<noteq> 0x210 \<and> v \<noteq> 0x110 then Inl (p + 1) else Inr p)
   }"

text \<open>\<open>while (skipping)\<close>: the result is the entry's offset and the position behind its header, or
  \<open>None\<close> inside for the \<open>return\<close>.\<close>

definition skip_body :: "mem \<Rightarrow> nat \<Rightarrow> (nat + (nat \<times> nat) option) option" where
  "skip_body m p = do {
     e \<leftarrow> loop (length m + 1) (scan_body m) p;
     zero \<leftarrow> rd_le 2 m (e + 4);
     nl \<leftarrow> ntohs_at m (e + 22);
     if zero \<noteq> 0 \<or> nl = 0
     then (if e + 1 > length m then Some (Inr None) else Some (Inl (e + 1)))
     else (if e + sizeof_entry > length m then Some (Inr None)
           else Some (Inr (Some (e, e + sizeof_entry))))
   }"

text \<open>The rest of the iteration for the entry header at \<open>e\<close>, with \<open>p\<close> behind it: name, listing,
  contents. A negative \<open>nameLen\<close> asks \<open>alloca\<close> for almost 4 GB: \<open>None\<close>.\<close>

definition entry_listing :: "ota_opts \<Rightarrow> entry \<Rightarrow> mem \<Rightarrow> ota_event list" where
  "entry_listing opts ent name =
     (if g_list opts then
        (if g_verbose opts
         then [ListedVerbose (ent_uid ent) (ent_gid ent) (ent_perms ent)
                 (ent_fileSize ent) (ent_nameLen ent) name]
         else [Listed name]) else [])"

definition entry_finish ::
  "(mem \<Rightarrow> mem) \<Rightarrow> ota_opts \<Rightarrow> mem \<Rightarrow> nat \<Rightarrow> nat \<Rightarrow> (nat \<times> ota_event list) option" where
  "entry_finish sha1 opts m e p = do {
     ent \<leftarrow> read_entry m e;
     if ent_nameLen ent < 0 then None
     else do {
       name \<leftarrow> cstrn_at m p (nat (ent_nameLen ent));
       let p = p + nat (ent_nameLen ent);
       inner \<leftarrow> (if ent_fileSize ent \<noteq> 0
                 then processFileInner sha1 opts m (p mod 2 ^ 32) name (ent_fileSize ent) (ent_perms ent)
                 else Some []);
       Some (p + ent_fileSize ent, entry_listing opts ent name @ inner)
     }
   }"

definition entry_body ::
  "(mem \<Rightarrow> mem) \<Rightarrow> ota_opts \<Rightarrow> mem \<Rightarrow> nat \<times> ota_event list
     \<Rightarrow> ((nat \<times> ota_event list) + ota_event list) option" where
  "entry_body sha1 opts m st =
     (case st of (pos, evs) \<Rightarrow>
        if \<not> pos + 3 * sizeof_entry < length m then Some (Inr evs)
        else do {
          ent \<leftarrow> read_entry m pos;
          found \<leftarrow> (if \<not> entry_magic (usually_0x210_or_0x110 ent) \<or> usually_0x00_00 ent \<noteq> 0
                    then do {
                      r \<leftarrow> loop (length m + 1) (skip_body m) (pos + sizeof_entry);
                      Some ([CorruptAt (pos + sizeof_entry)], r)
                    }
                    else Some ([], Some (pos, pos + sizeof_entry)));
          case snd found of
            None \<Rightarrow> Some (Inr (evs @ fst found))
          | Some (e, p) \<Rightarrow> do {
              res \<leftarrow> entry_finish sha1 opts m e p;
              Some (Inl (fst res, evs @ fst found @ snd res))
            }
        })"

definition processEntries :: "(mem \<Rightarrow> mem) \<Rightarrow> ota_opts \<Rightarrow> mem \<Rightarrow> ota_event list option" where
  "processEntries sha1 opts m = loop (length m + 1) (entry_body sha1 opts m) (0, [])"

section \<open>Comparing two archives\<close>

text \<open>Both results of \<open>getNextEnt\<close>: the entry pointer (its offset, \<open>None\<close> for \<open>NULL\<close>) and the
  advanced position.\<close>

definition getNextEnt :: "mem \<Rightarrow> nat \<Rightarrow> (nat option \<times> nat) option" where
  "getNextEnt m p =
     (if p > length m then Some (None, p)
      else do {
        entsize \<leftarrow> swap32_at m (p + 6);
        nl \<leftarrow> ntohs_at m (p + 22);
        if nl < 0 then None
        else Some (Some p, p + sizeof_entry + nat nl + entsize)
      })"

text \<open>\<open>strncmp\<close> and \<open>memcmp\<close> for equality.\<close>

fun strn_eq :: "nat \<Rightarrow> mem \<Rightarrow> mem \<Rightarrow> bool option" where
  "strn_eq 0 a b = Some True"
| "strn_eq (Suc n) (x # a) (y # b) =
     (if x \<noteq> y then Some False else if x = 0 then Some True else strn_eq n a b)"
| "strn_eq (Suc n) _ _ = None"

definition mem_eq :: "mem \<Rightarrow> nat \<Rightarrow> mem \<Rightarrow> nat \<Rightarrow> nat \<Rightarrow> bool option" where
  "mem_eq m1 i m2 j n = do { a \<leftarrow> slice m1 i n; b \<leftarrow> slice m2 j n; Some (a = b) }"

definition name_len :: "mem \<Rightarrow> nat \<Rightarrow> nat option" where
  "name_len m e = do { nl \<leftarrow> ntohs_at m (e + 22); if nl < 0 then None else Some (nat nl) }"

text \<open>Looking for the name of entry \<open>e1\<close> of the first file from \<open>seekpos\<close> on.\<close>

definition seek_body :: "mem \<Rightarrow> nat \<Rightarrow> mem \<Rightarrow> nat \<Rightarrow> (nat + (bool \<times> nat)) option" where
  "seek_body m1 e1 m2 seekpos = do {
     r \<leftarrow> getNextEnt m2 seekpos;
     case fst r of
       None \<Rightarrow> Some (Inr (False, snd r))
     | Some s \<Rightarrow> do {
         n \<leftarrow> name_len m2 s;
         eq \<leftarrow> mem_eq m2 (s + sizeof_entry) m1 (e1 + sizeof_entry) n;
         Some (if eq then Inr (True, snd r) else Inl (snd r))
       }
   }"

text \<open>The body of \<open>while (file1ent && file2ent)\<close>. The names are read through the entry
  pointers before any test for \<open>NULL\<close>: \<open>None\<close>.\<close>

definition diff_body ::
  "nat \<Rightarrow> bool \<Rightarrow> mem \<Rightarrow> mem \<Rightarrow> nat option \<times> nat option \<times> nat \<times> nat \<times> ota_event list
     \<Rightarrow> ((nat option \<times> nat option \<times> nat \<times> nat \<times> ota_event list) + ota_event list) option" where
  "diff_body fuel exists m1 m2 st =
     (case st of (e1, e2, p1, p2, evs) \<Rightarrow>
        if e1 = None \<or> e2 = None then Some (Inr evs)
        else do {
          let last1 = p1;
          let last2 = p2;
          r1 \<leftarrow> getNextEnt m1 p1;
          r2 \<leftarrow> getNextEnt m2 p2;
          let p1 = snd r1;
          let p2 = snd r2;
          if int p1 > (int (length m1) - 1000000) mod 2 ^ 64 then Some (Inr evs)
          else do {
            x1 \<leftarrow> fst r1;
            n \<leftarrow> name_len m1 x1;
            n1 \<leftarrow> cstrn_at m1 (x1 + sizeof_entry) n;
            same \<leftarrow> (if n = 0 then Some True else do {
                      x2 \<leftarrow> fst r2;
                      strn_eq n (drop (x1 + sizeof_entry) m1) (drop (x2 + sizeof_entry) m2)
                    });
            fnd \<leftarrow> (if same then Some (True, p2, [])
                    else do {
                      s \<leftarrow> loop fuel (seek_body m1 x1 m2) p2;
                      Some (if fst s then (True, snd s, [])
                            else (False, last2, [Line (n1 @ str '': In file1 but not file2'')]))
                    });
            let p2 = fst (snd fnd);
            cmp \<leftarrow> (if fst fnd \<and> \<not> exists
                    then (if int p1 - int last1 \<noteq> int p2 - int last2
                          then Some [Line (n1 @ str '' (different sizes)'')]
                          else do {
                            x2 \<leftarrow> fst r2;
                            eq \<leftarrow> mem_eq m1 (x1 + sizeof_entry) m2 (x2 + sizeof_entry)
                                    (p1 - last1 - sizeof_entry);
                            Some (if eq then [] else [Line n1])
                          })
                    else Some []);
            Some (Inl (fst r1, fst r2, p1, p2, evs @ snd (snd fnd) @ cmp))
          }
        })"

definition doDiff :: "nat \<Rightarrow> mem \<Rightarrow> mem \<Rightarrow> bool \<Rightarrow> ota_event list option" where
  "doDiff fuel m1 m2 exists = do {
     r1 \<leftarrow> getNextEnt m1 0;
     r2 \<leftarrow> getNextEnt m2 0;
     loop fuel (diff_body fuel exists m1 m2) (fst r1, fst r2, snd r1, snd r2, [])
   }"

end
