(* ===== verification/Ota_Archive.thy ===== *)
theory Ota_Archive
  imports Ota_Entry
begin

text \<open>
  Archives for \<open>ota.c\<close>: well-formed entries and how they are read, and the termination of the entry loop, of its recovery
  from corrupt entries and of the search.
\<close>

section \<open>Well-formed archives\<close>

text \<open>A packed header, the name and the contents.\<close>

type_synonym arc_entry = "mem \<times> mem \<times> mem"

definition arc_ok :: "arc_entry \<Rightarrow> bool" where
  "arc_ok e \<longleftrightarrow> (case e of (h, name, data) \<Rightarrow>
     length h = sizeof_entry \<and> entry_magic (le_val (take 4 h)) \<and>
     le_val (take 2 (drop 4 h)) = 0 \<and> be_val (take 4 (drop 6 h)) = length data \<and>
     be_val (take 2 (drop 22 h)) = length name \<and> length name < 2 ^ 15 \<and> 0 \<notin> set name)"

definition arc_bytes :: "arc_entry \<Rightarrow> mem" where
  "arc_bytes e = (case e of (h, name, data) \<Rightarrow> h @ name @ data)"

definition archive :: "arc_entry list \<Rightarrow> mem" where
  "archive es = concat (map arc_bytes es)"

section \<open>Reading inside a concatenation\<close>

lemma slice_mid: "k + n \<le> length h \<Longrightarrow> slice (pre @ h @ rest) (length pre + k) n = Some (take n (drop k h))"
  by (simp add: slice_def)

lemma reads_mid:
  "k + n \<le> length h \<Longrightarrow> rd_le n (pre @ h @ rest) (length pre + k) = Some (le_val (take n (drop k h)))"
  "k + n \<le> length h \<Longrightarrow> rd_be n (pre @ h @ rest) (length pre + k) = Some (be_val (take n (drop k h)))"
  by (simp_all add: rd_le_def rd_be_def slice_mid)

lemma ntohs_mid:
  "k + 2 \<le> length h \<Longrightarrow> ntohs_at (pre @ h @ rest) (length pre + k) = ntohs_at h k"
  by (simp add: ntohs_at_def reads_mid rd_be_in)

lemma cstrn_of_app: "0 \<notin> set name \<Longrightarrow> cstrn_of (length name) (name @ rest) = Some name"
  by (induction name) auto

lemma cstrn_of_prefix: "cstrn_of (length d) (d @ rest) = cstrn_of (length d) d"
  by (induction d) auto

lemma cstrn_of_defined: "n \<le> length d \<Longrightarrow> cstrn_of n d \<noteq> None"
  by (induction n d rule: cstrn_of.induct) auto

lemma read_entry_mid:
  assumes "arc_ok (h, name, data)"
  shows "\<exists>ent. read_entry (pre @ h @ rest) (length pre) = Some ent \<and>
    entry_magic (usually_0x210_or_0x110 ent) \<and> usually_0x00_00 ent = 0 \<and>
    ent_fileSize ent = length data \<and> ent_nameLen ent = int (length name) \<and>
    ent_uid ent = the (ntohs_at h 24) \<and> ent_gid ent = the (ntohs_at h 26) \<and>
    ent_perms ent = be_val (take 2 (drop 28 h))"
proof -
  have l: "length h = 30" using assms by (simp add: arc_ok_def sizeof_entry_def)
  have s: "\<exists>v. ntohs_at h 24 = Some v" "\<exists>v. ntohs_at h 26 = Some v"
    using l by (auto simp: ntohs_at_def rd_be_in)
  have n: "ntohs_at h 22 = Some (int (length name))"
    using assms l by (simp add: ntohs_at_def rd_be_in arc_ok_def)
  note r = reads_mid [where h = h and pre = pre and rest = rest] ntohs_mid [where h = h and pre = pre and rest = rest]
  have "rd_le 4 (pre @ h @ rest) (length pre) = Some (le_val (take 4 h))"
    using r(1) [of 0 4] l by simp
  then show ?thesis
    using s n assms l r(1) [of 4 2] r(2) [of 6 4] r(2) [of 28 2] r(3) [of 22] r(3) [of 24] r(3) [of 26]
    by (auto simp: read_entry_def swap32_at_def arc_ok_def)
qed

lemma extract_prefix:
  "extractFile (d @ rest) name (length d) perms crit = extractFile d name (length d) perms crit"
  by (simp add: extractFile_def Let_def cstrn_at_def cstrn_of_prefix slice_def split: option.splits)

lemma extract_defined: "extractFile d name (length d) perms crit \<noteq> None"
  using cstrn_of_defined [of "length d" d]
  by (auto simp: extractFile_def Let_def cstrn_at_def slice_def split: option.splits)

lemma hash_prefix: "hashFile sha1 (d @ rest) name (length d) crit = hashFile sha1 d name (length d) crit"
  and hash_defined: "hashFile sha1 d name (length d) crit \<noteq> None"
  by (auto simp: hashFile_def slice_def split: option.splits)

lemma archive_length: "list_all arc_ok es \<Longrightarrow> 30 * length es \<le> length (archive es)"
  by (induction es) (auto simp: archive_def arc_bytes_def arc_ok_def sizeof_entry_def split: prod.splits)

definition sample_entry :: arc_entry where
  "sample_entry = ([0x10, 2, 0, 0, 0, 0, 0, 0, 0, 2, 0, 0, 0, 0, 0, 0, 0, 0, 0, 0, 0, 0, 0, 1,
     0, 0, 0, 0, 0x81, 0xA4], [97], [1, 2])"

abbreviation list_opts :: ota_opts where
  "list_opts \<equiv> \<lparr>g_list = True, g_verbose = False, g_extract = None, g_search = None,
     g_hash = None, g_nullTerm = False\<rparr>"

lemma sample_ok: "arc_ok sample_entry"
  by (simp add: sample_entry_def arc_ok_def sizeof_entry_def entry_magic_def be_val_def)

section \<open>The loops make progress\<close>

interpretation entry_scan: progress_loop "\<lambda>p. p0 \<le> p" "\<lambda>p. length m - p" "scan_body m"
    "\<lambda>e. p0 \<le> e \<and> e + 4 \<le> length m" for m p0
  by unfold_locales (auto simp: scan_body_def dest!: rd_SomeD split: bind_splits if_splits)

lemma skip_body_progress:
  assumes "skip_body m p = Some (Inl p')"
  shows "p < p' \<and> p' \<le> length m"
  using assms entry_scan.result_post [of "length m + 1" m p _ p]
  by (auto simp: skip_body_def split: bind_splits if_splits)

lemma skip_body_exit:
  assumes "skip_body m p = Some (Inr (Some (e, q)))"
  shows "p < q \<and> q \<le> length m"
  using assms entry_scan.result_post [of "length m + 1" m p _ p]
  by (auto simp: skip_body_def sizeof_entry_def split: bind_splits if_splits)

interpretation entry_skip: progress_loop "\<lambda>p. p0 \<le> p" "\<lambda>p. length m - p" "skip_body m"
    "\<lambda>r. \<forall>e q. r = Some (e, q) \<longrightarrow> p0 < q" for m p0
  by unfold_locales (force dest: skip_body_progress skip_body_exit)+

lemma entry_finish_pos: "entry_finish sha1 opts m e p = Some (p', evs) \<Longrightarrow> p \<le> p'"
  by (auto simp: entry_finish_def Let_def split: bind_splits if_splits)

lemma entry_body_progress:
  assumes "entry_body sha1 opts m (p, evs) = Some (Inl (p', evs'))"
  shows "p < p' \<and> p < length m"
proof -
  have skip: "p + sizeof_entry < q" if "loop (length m + 1) (skip_body m) (p + sizeof_entry) = Some (Some (e, q))" for e q
    using entry_skip.result_post [OF that order_refl] by simp
  have run: "p < length m" using assms by (auto simp: entry_body_def split: if_splits)
  obtain e q evs'' where eq: "p + sizeof_entry \<le> q" "entry_finish sha1 opts m e q = Some (p', evs'')"
    using assms skip
    by (fastforce simp: entry_body_def split: bind_splits if_splits option.splits dest: less_imp_le)
  show ?thesis using run eq(1) entry_finish_pos [OF eq(2)] by (simp add: sizeof_entry_def)
qed

interpretation entries: progress_loop "\<lambda>_. True" "\<lambda>st. length m - fst st" "entry_body sha1 opts m"
    "\<lambda>_. True" for sha1 opts m
  by unfold_locales (auto dest!: entry_body_progress)

text \<open>The search goes on behind the last match: with a needle that is not empty it stays inside the entry and the byte
  behind it.\<close>

lemma search_round:
  assumes "search_body m pos name fileSize needle (k, n, evs) = Some (Inl (k', n', evs'))" "needle \<noteq> []" "k + n \<le> fileSize + 1"
  shows "k < k' \<and> k' + n' \<le> fileSize + 1 \<and> k \<le> fileSize"
proof -
  obtain w i where w: "slice m (pos + k) n = Some w" "memmem w needle = Some i"
    and eq: "k' = k + i + 1" "n' = (if k + i \<le> fileSize then fileSize - (k + i) else 2 ^ 32 + fileSize - (k + i))"
    using assms(1) by (auto simp: search_body_def Let_def split: bind_splits option.splits)
  have "length w = n" using w(1) by (auto simp: slice_def split: if_splits)
  then have "i + length needle \<le> n" using memmem_Some [OF w(2)] by simp
  moreover have "0 < length needle" using assms(2) by simp
  ultimately have "k + i \<le> fileSize" using assms(3) by linarith
  then show ?thesis using eq by simp
qed

interpretation entry_search: progress_loop "\<lambda>(k, n, evs). needle = [] \<or> k + n \<le> fileSize + 1"
    "\<lambda>(k, n, evs). if needle = [] then 0 else fileSize + 1 - k" "\<lambda>st. if needle = [] then None else search_body m pos name fileSize needle st"
    "\<lambda>_. True" for m pos name fileSize needle
  by unfold_locales (auto dest!: search_round split: if_splits)

lemma search_ends:
  "needle \<noteq> [] \<Longrightarrow>
   ends (search_body m pos name fileSize needle) (0, fileSize, []) (loop (fileSize + 2) (search_body m pos name fileSize needle) (0, fileSize, []))"
  using entry_search.loop_ends [of needle fileSize "(0, fileSize, [])" "fileSize + 2" m pos name] by simp

text \<open>C10: The entry loop of \<open>processFile\<close> ends by itself on every file, however corrupt, and so does every loop inside it:
  the recovery, its scan for the next magic, and, unless the text to search for is empty, the search of an entry.
  The model returns what they end with.\<close>

theorem processEntries_terminates:
  "ends (entry_body sha1 opts m) (0, []) (processEntries sha1 opts m) \<and>
   ends (skip_body m) p (loop (length m + 1) (skip_body m) p) \<and>
   ends (scan_body m) p (loop (length m + 1) (scan_body m) p) \<and>
   (needle = [] \<or>
    ends (search_body m pos name fileSize needle) (0, fileSize, []) (loop (fileSize + 2) (search_body m pos name fileSize needle) (0, fileSize, [])))"
proof (intro conjI)
  show "ends (entry_body sha1 opts m) (0, []) (processEntries sha1 opts m)"
    unfolding processEntries_def by (rule entries.loop_ends) simp_all
  show "ends (skip_body m) p (loop (length m + 1) (skip_body m) p)"
    by (rule entry_skip.loop_ends [of 0]) simp_all
  show "ends (scan_body m) p (loop (length m + 1) (scan_body m) p)"
    by (rule entry_scan.loop_ends [of 0]) simp_all
qed (use search_ends in blast)

end
