(* ===== verification/Ota_Search.thy ===== *)
theory Ota_Search
  imports Ota_Archive
begin

text \<open>
  Searching and comparing in \<open>ota.c\<close>: what the search loop of \<open>processFileInner\<close> reports, which
  directories \<open>extractFile\<close> makes, and the comparison \<open>doDiff\<close>, which reads through a \<open>NULL\<close> entry
  at the end of every archive smaller than a million bytes.
\<close>

section \<open>The search loop\<close>

text \<open>Offsets of the needle in the \<open>L\<close> bytes at \<open>pos\<close>, in increasing order.\<close>

definition hits :: "mem \<Rightarrow> nat \<Rightarrow> nat \<Rightarrow> mem \<Rightarrow> nat list" where
  "hits m pos L needle =
     filter (\<lambda>k. k + length needle \<le> L \<and> take (length needle) (drop (pos + k) m) = needle) [0..<L]"

definition hits_from :: "mem \<Rightarrow> nat \<Rightarrow> nat \<Rightarrow> mem \<Rightarrow> nat \<Rightarrow> nat list" where
  "hits_from m pos L needle from =
     filter (\<lambda>k. k + length needle \<le> L \<and> take (length needle) (drop (pos + k) m) = needle) [from..<L]"

lemma memmem_window:
  assumes "slice m (pos + from) n = Some w" "needle \<noteq> []"
  shows "(case memmem w needle of
            None \<Rightarrow> hits_from m pos (from + n) needle from = []
          | Some k \<Rightarrow> from + k + length needle \<le> from + n \<and>
              hits_from m pos (from + n) needle from =
                (from + k) # hits_from m pos (from + n) needle (Suc (from + k)))"
proof -
  let ?P = "\<lambda>k. k + length needle \<le> from + n \<and> take (length needle) (drop (pos + k) m) = needle"
  have w: "w = take n (drop (pos + from) m)" "length w = n"
    using assms(1) by (auto simp: slice_def split: if_splits)
  have at: "take (length needle) (drop j w) = take (length needle) (drop (pos + (from + j)) m)"
    if "j + length needle \<le> n" for j
    using slice_window [OF assms(1) that] by (simp add: add.assoc)
  show ?thesis
  proof (cases "memmem w needle")
    case None
    have "\<not> ?P k" if "from \<le> k" for k
      using memmem_None [OF None, of "k - from"] at [of "k - from"] that by auto
    then show ?thesis using None by (simp add: hits_from_def filter_empty_conv)
  next
    case (Some k)
    note k = memmem_Some [OF Some, unfolded w(2)]
    have hit: "?P (from + k)" using k at [of k] by simp
    have miss: "\<not> ?P i" if i: "from \<le> i" "i < from + k" for i
    proof -
      have "i - from < k" "i - from + length needle \<le> n" using i k by linarith+
      then show ?thesis using k at [of "i - from"] i(1) by auto
    qed
    have lt: "from + k < from + n" using k assms(2) by (cases needle) auto
    have "[from..<from + n] = [from..<from + k] @ (from + k) # [Suc (from + k)..<from + n]"
      using lt by (metis le_add1 less_imp_le upt_add_eq_append upt_conv_Cons le_Suc_ex)
    then have "filter ?P [from..<from + n] = (from + k) # filter ?P [Suc (from + k)..<from + n]"
      using hit miss by (simp add: filter_empty_conv)
    then show ?thesis using Some k by (simp add: hits_from_def)
  qed
qed

lemma search_body_hit:
  assumes "slice m (pos + from) n = Some w" "memmem w needle = Some k" "from + k \<le> fileSize"
  shows "search_body m pos name fileSize needle (from, n, evs) =
    Some (Inl (from + k + 1, fileSize - (from + k),
               evs @ [FoundIn name (int (from + k)) (pos + (from + k))]))"
  using assms by (simp add: search_body_def Let_def)

lemma search_body_end:
  assumes "slice m (pos + from) n = Some w" "memmem w needle = None"
  shows "search_body m pos name fileSize needle (from, n, evs) = Some (Inr evs)"
  using assms by (simp add: search_body_def)

lemma search_loop:
  assumes "needle \<noteq> []" "pos + fileSize + 1 \<le> length m" "from + n = fileSize + 1" "n < fuel"
  shows "loop fuel (search_body m pos name fileSize needle) (from, n, evs) =
    Some (evs @ map (\<lambda>k. FoundIn name (int k) (pos + k)) (hits_from m pos (fileSize + 1) needle from))"
  using assms
proof (induction fuel arbitrary: "from" n evs)
  case (Suc fuel)
  obtain w where w: "slice m (pos + from) n = Some w"
    using Suc.prems(2,3) by (auto simp: slice_def)
  note win = memmem_window [OF w Suc.prems(1), unfolded Suc.prems(3)]
  show ?case
  proof (cases "memmem w needle")
    case None
    then show ?thesis using w win by (simp add: search_body_def)
  next
    case (Some k)
    have kn: "from + k \<le> fileSize" using win Some Suc.prems(1) by (cases needle) auto
    have "from + k + 1 + (fileSize - (from + k)) = fileSize + 1" using kn by simp
    moreover have "fileSize - (from + k) < fuel" using Suc.prems(3,4) kn by simp
    ultimately have "loop fuel (search_body m pos name fileSize needle)
        (from + k + 1, fileSize - (from + k), evs @ [FoundIn name (int (from + k)) (pos + (from + k))]) =
      Some ((evs @ [FoundIn name (int (from + k)) (pos + (from + k))]) @
        map (\<lambda>k. FoundIn name (int k) (pos + k)) (hits_from m pos (fileSize + 1) needle (from + k + 1)))"
      using Suc.IH [OF Suc.prems(1,2)] by blast
    then show ?thesis using win Some by (simp add: search_body_hit [OF w Some kn])
  qed
qed simp

lemma search_from_start:
  assumes "needle \<noteq> []" "pos + fileSize + 1 \<le> length m"
  shows "loop (fileSize + 2) (search_body m pos name fileSize needle) (0, fileSize, []) =
    Some (map (\<lambda>k. FoundIn name (int k) (pos + k))
      (if hits m pos fileSize needle = [] then [] else hits m pos (fileSize + 1) needle))"
proof -
  obtain w where w: "slice m (pos + 0) fileSize = Some w"
    using assms(2) by (auto simp: slice_def)
  note win = memmem_window [OF w assms(1), unfolded add_0]
  show ?thesis
  proof (cases "memmem w needle")
    case None
    then have "hits m pos fileSize needle = []" using win by (simp add: hits_def hits_from_def)
    then show ?thesis using None w by (simp add: search_body_def)
  next
    case (Some k)
    have kn: "k \<le> fileSize" using win Some by auto
    have nz: "hits m pos fileSize needle \<noteq> []" using win Some by (simp add: hits_def hits_from_def)
    have "slice m (pos + 0) (fileSize + 1) = Some (take (fileSize + 1) (drop pos m))"
      using assms(2) by (simp add: slice_def)
    note win2 = memmem_window [OF this assms(1), unfolded add_0]
    have first: "hits m pos (fileSize + 1) needle = k # hits_from m pos (fileSize + 1) needle (Suc k)"
    proof -
      let ?P = "\<lambda>k. k + length needle \<le> fileSize + 1 \<and> take (length needle) (drop (pos + k) m) = needle"
      have k: "k + length needle \<le> fileSize" "take (length needle) (drop k w) = needle"
        "\<forall>j < k. take (length needle) (drop j w) \<noteq> needle"
        using memmem_Some [OF Some] w by (auto simp: slice_def split: if_splits)
      have at: "take (length needle) (drop j w) = take (length needle) (drop (pos + j) m)"
        if "j + length needle \<le> fileSize" for j
        using slice_window [OF w that] by simp
      have "?P k" "\<And>i. i < k \<Longrightarrow> \<not> ?P i" using k at by auto
      moreover have "[0..<fileSize + 1] = [0..<k] @ k # [Suc k..<fileSize + 1]"
        using kn by (metis le_add_same_cancel1 le_imp_less_Suc le_add1 less_imp_le upt_add_eq_append
            upt_conv_Cons Suc_eq_plus1 add_0 le_Suc_ex)
      ultimately show ?thesis by (simp add: hits_def hits_from_def filter_empty_conv)
    qed
    have "loop (fileSize + 1) (search_body m pos name fileSize needle)
        (k + 1, fileSize - k, [FoundIn name (int k) (pos + k)]) =
      Some ([FoundIn name (int k) (pos + k)] @
        map (\<lambda>k. FoundIn name (int k) (pos + k)) (hits_from m pos (fileSize + 1) needle (k + 1)))"
      using kn by (intro search_loop assms) auto
    then show ?thesis
      using nz first kn by (simp add: search_body_hit [OF w Some, unfolded add_0])
  qed
qed

text \<open>C7: with a non-empty needle and one byte of mapping behind the entry, the search of an entry
  terminates and reports the occurrences in increasing order, with their relative and absolute
  offsets: none when the contents hold none, and otherwise every occurrence in the contents and
  in the single byte behind them, because every search after the first is given one byte too many.\<close>

theorem search_reports:
  assumes "needle \<noteq> []" "pos + fileSize + 1 \<le> length m"
  shows "loop (fileSize + 2) (search_body m pos name fileSize needle) (0, fileSize, []) =
    Some (map (\<lambda>k. FoundIn name (int k) (pos + k))
      (if hits m pos fileSize needle = [] then [] else hits m pos (fileSize + 1) needle))"
  using assms by (rule search_from_start)

lemma search_reports_witness:
  "loop (2 + 2) (search_body [7, 7, 7] 0 [] 2 [7, 7]) (0, 2, []) =
     Some [FoundIn [] 0 0, FoundIn [] 1 1]"
  by (subst search_reports) (simp_all add: hits_def upt_rec)

section \<open>Comparing archives\<close>

lemma getNextEnt_mid:
  assumes "arc_ok (h, name, data)"
  shows "getNextEnt (pre @ arc_bytes (h, name, data) @ rest) (length pre) =
    Some (Some (length pre), length (pre @ arc_bytes (h, name, data)))"
proof -
  have l: "length h = 30" using assms by (simp add: arc_ok_def sizeof_entry_def)
  let ?rest = "name @ data @ rest"
  have m: "pre @ arc_bytes (h, name, data) @ rest = pre @ h @ ?rest" by (simp add: arc_bytes_def)
  have "swap32_at (pre @ h @ ?rest) (length pre + 6) = Some (length data)"
    using reads_mid(2) [of 6 4 h pre ?rest] l assms by (simp add: swap32_at_def arc_ok_def)
  moreover have "ntohs_at (pre @ h @ ?rest) (length pre + 22) = Some (int (length name))"
    using ntohs_mid [of 22 h pre ?rest] l assms by (simp add: arc_ok_def ntohs_at_def rd_be_in)
  ultimately show ?thesis
    unfolding m using l by (simp add: getNextEnt_def arc_bytes_def sizeof_entry_def)
qed

lemma getNextEnt_end: "getNextEnt m (length m) = None"
  by (simp add: getNextEnt_def swap32_at_def rd_out)

lemma name_len_mid:
  assumes "arc_ok (h, name, data)"
  shows "name_len (pre @ arc_bytes (h, name, data) @ rest) (length pre) = Some (length name)"
proof -
  have l: "length h = 30" using assms by (simp add: arc_ok_def sizeof_entry_def)
  show ?thesis
    using ntohs_mid [of 22 h pre "name @ data @ rest"] l assms
    by (simp add: name_len_def arc_bytes_def arc_ok_def ntohs_at_def rd_be_in)
qed

lemma diff_loop_undefined:
  assumes "list_all arc_ok es" "\<forall>(h, name, data) \<in> set es. name \<noteq> []"
    "length (archive (done1 @ es)) < 1000000" "e1 \<noteq> None" "e2 \<noteq> None"
  shows "loop n (diff_body fuel exists (archive (done1 @ es)) m2)
    (e1, e2, length (archive done1), p2, evs) = None"
  using assms
proof (induction es arbitrary: n done1 e1 e2 p2 evs)
  case Nil
  then show ?case by (cases n) (auto simp: diff_body_def getNextEnt_end)
next
  case (Cons e es)
  obtain h name data where e: "e = (h, name, data)" by (cases e) auto
  let ?pre = "archive done1" and ?m1 = "archive (done1 @ e # es)"
  have m1: "?m1 = ?pre @ arc_bytes (h, name, data) @ archive es"
    by (simp add: archive_def e)
  have ok: "arc_ok (h, name, data)" "name \<noteq> []" using Cons.prems(1,2) e by auto
  have next1: "getNextEnt ?m1 (length ?pre) = Some (Some (length ?pre), length (archive (done1 @ [e])))"
    unfolding m1 using getNextEnt_mid [OF ok(1)] by (simp add: archive_def e)
  have nl: "name_len ?m1 (length ?pre) = Some (length name)"
    unfolding m1 by (rule name_len_mid [OF ok(1)])
  have p1: "length (archive (done1 @ [e])) \<le> length ?m1" by (simp add: archive_def)
  have go: "\<not> int (length (archive (done1 @ [e]))) > (int (length ?m1) - 1000000) mod 2 ^ 64"
  proof -
    have "(int (length ?m1) - 1000000) mod 2 ^ 64 = (int (length ?m1) - 1000000 + 2 ^ 64) mod 2 ^ 64"
      by (rule mod_add_self2 [symmetric])
    also have "\<dots> = int (length ?m1) - 1000000 + 2 ^ 64"
      using Cons.prems(3) by (intro mod_pos_pos_trivial) auto
    finally have "(int (length ?m1) - 1000000) mod 2 ^ 64 = int (length ?m1) - 1000000 + 2 ^ 64" .
    then show ?thesis using p1 Cons.prems(3) by simp
  qed
  show ?case
  proof (cases n)
    case (Suc n')
    let ?st = "(e1, e2, length ?pre, p2, evs)"
    have body: "diff_body fuel exists ?m1 m2 ?st = None \<or>
      (\<exists>e2' p2' evs'. e2' \<noteq> None \<and> diff_body fuel exists ?m1 m2 ?st =
        Some (Inl (Some (length ?pre), e2', length (archive (done1 @ [e])), p2', evs')))"
      using Cons.prems(4,5) ok(2) go
      unfolding diff_body_def prod.case Let_def next1 Option.bind.simps fst_conv snd_conv nl
      by (auto split: bind_splits option.splits)
    then show ?thesis
    proof
      assume "\<exists>e2' p2' evs'. e2' \<noteq> None \<and> diff_body fuel exists ?m1 m2 ?st =
        Some (Inl (Some (length ?pre), e2', length (archive (done1 @ [e])), p2', evs'))"
      then obtain e2' p2' evs' where b: "e2' \<noteq> None" "diff_body fuel exists ?m1 m2 ?st =
        Some (Inl (Some (length ?pre), e2', length (archive (done1 @ [e])), p2', evs'))" by blast
      have "loop n' (diff_body fuel exists (archive ((done1 @ [e]) @ es)) m2)
          (Some (length ?pre), e2', length (archive (done1 @ [e])), p2', evs') = None"
        using Cons.prems(1,2,3) b(1) by (intro Cons.IH) auto
      then show ?thesis using Suc b(2) by simp
    qed (use Suc in simp)
  qed simp
qed

text \<open>Comparing with \<open>ota -d\<close> has no defined execution when the first archive (any list of
  well-formed entries with non-empty names) is smaller than 1,000,000 bytes, whatever the second
  file is: the "skip last entry" test wraps around and the loop reads the name of an entry past
  the end or through the \<open>NULL\<close> result of \<open>getNextEnt\<close>.\<close>

theorem doDiff_small_undefined:
  assumes "list_all arc_ok es" "\<forall>(h, name, data) \<in> set es. name \<noteq> []"
    "length (archive es) < 1000000"
  shows "doDiff fuel (archive es) m2 exists = None"
proof (cases es)
  case Nil
  then show ?thesis by (simp add: doDiff_def getNextEnt_def archive_def swap32_at_def rd_out)
next
  case (Cons e es')
  obtain h name data where e: "e = (h, name, data)" by (cases e) auto
  have "arc_ok (h, name, data)" using assms(1) Cons e by simp
  from getNextEnt_mid [OF this, of "[]" "archive es'"]
  have n1: "getNextEnt (archive es) 0 = Some (Some 0, length (archive [e]))"
    by (simp add: archive_def Cons e)
  show ?thesis
  proof (cases "getNextEnt m2 0")
    case (Some r2)
    then have "fst r2 \<noteq> None" by (auto simp: getNextEnt_def split: bind_splits if_splits)
    then have "loop fuel (diff_body fuel exists (archive ([e] @ es')) m2)
        (Some 0, fst r2, length (archive [e]), snd r2, []) = None"
      using assms Cons by (intro diff_loop_undefined) auto
    then show ?thesis using n1 Some Cons by (simp add: doDiff_def)
  qed (simp add: doDiff_def n1)
qed

lemma doDiff_small_undefined_witness:
  "doDiff 10 (archive [sample_entry]) (archive [sample_entry]) False = None"
  by (rule doDiff_small_undefined)
    (simp_all add: sample_ok, simp_all add: sample_entry_def archive_def arc_bytes_def)

end
