(* ===== verification/Ota_Listing.thy ===== *)
theory Ota_Listing
  imports Ota_Search
begin

text \<open>
  What the entry loop of \<open>ota.c\<close> makes of a well-formed archive: which entries it reaches, and what each contributes.
\<close>

text \<open>What the search of an entry reports: its contents at \<open>pos\<close>, and the byte behind them.\<close>

definition found_in :: "ota_opts \<Rightarrow> nat \<Rightarrow> mem \<Rightarrow> mem \<Rightarrow> mem \<Rightarrow> ota_event list" where
  "found_in opts pos name data behind =
     (case g_search opts of
        None \<Rightarrow> []
      | Some s \<Rightarrow> map (\<lambda>k. FoundIn name (int k) (pos + k))
          (if hits data 0 (length data) (search_needle opts s) = [] then []
           else hits (data @ behind) 0 (length data + 1) (search_needle opts s)))"

text \<open>The output for the entry at \<open>pos\<close>, computed from its own bytes and, for the search, the next one.\<close>

definition entry_output :: "(mem \<Rightarrow> mem) \<Rightarrow> ota_opts \<Rightarrow> nat \<Rightarrow> mem \<Rightarrow> arc_entry \<Rightarrow> ota_event list" where
  "entry_output sha1 opts pos behind e = (case e of (h, name, data) \<Rightarrow>
     (if g_list opts then
        (if g_verbose opts
         then [ListedVerbose (the (ntohs_at h 24)) (the (ntohs_at h 26)) (be_val (take 2 (drop 28 h)))
                 (length data) (int (length name)) name]
         else [Listed name]) else []) @
     (if data = [] then []
      else the (extractFile data name (length data) (be_val (take 2 (drop 28 h))) (g_extract opts)) @
           the (hashFile sha1 data name (length data) (g_hash opts)) @
           found_in opts (pos + length h + length name) name data behind))"

text \<open>The loop stops as soon as no more than 90 bytes, three headers, are left: entries there are not reached.\<close>

fun archive_output :: "(mem \<Rightarrow> mem) \<Rightarrow> ota_opts \<Rightarrow> nat \<Rightarrow> arc_entry list \<Rightarrow> mem \<Rightarrow> ota_event list" where
  "archive_output sha1 opts pos [] trailer = []"
| "archive_output sha1 opts pos (e # es) trailer =
     (if length (archive (e # es)) + length trailer \<le> 90 then []
      else entry_output sha1 opts pos (take 1 (archive es @ trailer)) e @
        archive_output sha1 opts (pos + length (arc_bytes e)) es trailer)"

text \<open>A search needs a text, and a byte behind the entry.\<close>

definition search_possible :: "ota_opts \<Rightarrow> mem \<Rightarrow> bool" where
  "search_possible opts rest \<longleftrightarrow> (\<forall>s. g_search opts = Some s \<longrightarrow> search_needle opts s \<noteq> [] \<and> rest \<noteq> [])"

lemma hits_inside: "L \<le> length w \<Longrightarrow> hits (pre @ w @ rest) (length pre) L needle = hits w 0 L needle"
  unfolding hits_def by (rule filter_cong) auto

lemma inner_mid:
  assumes "search_possible opts rest"
  shows "processFileInner sha1 opts (pre @ data @ rest) (length pre) name (length data) perms =
    Some (the (extractFile data name (length data) perms (g_extract opts)) @
          the (hashFile sha1 data name (length data) (g_hash opts)) @ found_in opts (length pre) name data (take 1 rest))"
proof -
  have "(case g_search opts of None \<Rightarrow> Some []
     | Some s \<Rightarrow> loop (length data + 2) (search_body (pre @ data @ rest) (length pre) name (length data) (search_needle opts s)) (0, length data, []))
     = Some (found_in opts (length pre) name data (take 1 rest))"
  proof (cases "g_search opts")
    case (Some s)
    then have needle: "search_needle opts s \<noteq> []" and "rest \<noteq> []" using assms by (auto simp: search_possible_def)
    then obtain b rest' where rest: "rest = [b] @ rest'" by (cases rest) auto
    have "hits (pre @ data @ rest) (length pre) (length data) (search_needle opts s) = hits data 0 (length data) (search_needle opts s)"
      by (rule hits_inside) simp
    moreover have "hits (pre @ data @ rest) (length pre) (length data + 1) (search_needle opts s) =
        hits (data @ take 1 rest) 0 (length data + 1) (search_needle opts s)"
      using hits_inside [of "length data + 1" "data @ [b]" pre rest' "search_needle opts s"] rest by simp
    ultimately show ?thesis
      using search_from_start [OF needle, of "length pre" "length data" "pre @ data @ rest" name] Some rest by (simp add: found_in_def)
  qed (simp add: found_in_def)
  then show ?thesis
    using extract_defined [of data name perms "g_extract opts"] hash_defined [of sha1 data name "g_hash opts"]
    by (auto simp: processFileInner_def extract_prefix hash_prefix)
qed

lemma entry_step:
  assumes ok: "arc_ok (h, name, data)" and srch: "search_possible opts rest"
    and len: "length pre + 90 < length (pre @ h @ name @ data @ rest)"
    and small: "length (pre @ h @ name @ data @ rest) < 2 ^ 32"
  shows "entry_body sha1 opts (pre @ h @ name @ data @ rest) (length pre, evs) =
    Some (Inl (length (pre @ h @ name @ data), evs @ entry_output sha1 opts (length pre) (take 1 rest) (h, name, data)))"
proof -
  let ?m = "pre @ h @ name @ data @ rest"
  obtain ent where ent: "read_entry ?m (length pre) = Some ent"
    "entry_magic (usually_0x210_or_0x110 ent)" "usually_0x00_00 ent = 0"
    "ent_fileSize ent = length data" "ent_nameLen ent = int (length name)"
    "ent_uid ent = the (ntohs_at h 24)" "ent_gid ent = the (ntohs_at h 26)"
    "ent_perms ent = be_val (take 2 (drop 28 h))"
    using read_entry_mid [OF ok, of pre "name @ data @ rest"] by auto
  have l: "length h = sizeof_entry" "0 \<notin> set name" using ok by (simp_all add: arc_ok_def)
  have nm: "cstrn_at ?m (length pre + sizeof_entry) (length name) = Some name"
    using l cstrn_of_app [OF l(2), of "data @ rest"] by (simp add: cstrn_at_def)
  let ?p = "length pre + sizeof_entry + length name"
  have p: "?p mod 2 ^ 32 = ?p" using small l by simp
  have inner: "processFileInner sha1 opts ?m ?p name (length data) (be_val (take 2 (drop 28 h))) =
    Some (the (extractFile data name (length data) (be_val (take 2 (drop 28 h))) (g_extract opts)) @
          the (hashFile sha1 data name (length data) (g_hash opts)) @ found_in opts ?p name data (take 1 rest))"
    using inner_mid [OF srch, of sha1 "pre @ h @ name" data name] l by (simp add: add.assoc)
  have run: "length pre + 3 * sizeof_entry < length ?m" using len by (simp add: sizeof_entry_def)
  have "entry_finish sha1 opts ?m (length pre) (length pre + sizeof_entry) =
      Some (length (pre @ h @ name @ data), entry_output sha1 opts (length pre) (take 1 rest) (h, name, data))"
    unfolding entry_finish_def Let_def
    using ent l p inner nm by (simp add: entry_output_def entry_listing_def)
  then show ?thesis
    using run ent by (simp add: entry_body_def)
qed

lemma entry_loop:
  assumes "list_all arc_ok es" "search_possible opts trailer" "length trailer \<le> 90"
    "length (pre @ archive es @ trailer) < 2 ^ 32" "length es < fuel"
  shows "loop fuel (entry_body sha1 opts (pre @ archive es @ trailer)) (length pre, evs) =
    Some (evs @ archive_output sha1 opts (length pre) es trailer)"
  using assms
proof (induction es arbitrary: pre evs fuel)
  case Nil
  then obtain f where "fuel = Suc f" by (cases fuel) auto
  then show ?case using Nil.prems by (simp add: archive_def entry_body_def sizeof_entry_def)
next
  case (Cons e es)
  obtain h name data where e: "e = (h, name, data)" by (cases e) auto
  obtain f where f: "fuel = Suc f" "length es < f" using Cons.prems(5) by (cases fuel) auto
  let ?rest = "archive es @ trailer"
  have m: "pre @ archive (e # es) @ trailer = pre @ h @ name @ data @ ?rest"
    by (simp add: archive_def arc_bytes_def e)
  show ?case
  proof (cases "length (archive (e # es)) + length trailer \<le> 90")
    case True
    then have "length pre + 3 * sizeof_entry \<ge> length (pre @ archive (e # es) @ trailer)" by (simp add: sizeof_entry_def)
    then show ?thesis using True by (simp add: f(1) entry_body_def)
  next
    case False
    have ok: "arc_ok (h, name, data)" "list_all arc_ok es" using Cons.prems(1) e by auto
    have run: "length pre + 90 < length (pre @ h @ name @ data @ ?rest)" using False unfolding m [symmetric] by simp
    have "search_possible opts ?rest" using Cons.prems(2) by (auto simp: search_possible_def)
    from entry_step [OF ok(1) this run Cons.prems(4) [unfolded m]]
    have step: "entry_body sha1 opts (pre @ h @ name @ data @ ?rest) (length pre, evs) =
        Some (Inl (length (pre @ h @ name @ data), evs @ entry_output sha1 opts (length pre) (take 1 ?rest) e))" by (simp add: e)
    have IH: "loop f (entry_body sha1 opts ((pre @ h @ name @ data) @ ?rest))
        (length (pre @ h @ name @ data), evs @ entry_output sha1 opts (length pre) (take 1 ?rest) e) =
      Some ((evs @ entry_output sha1 opts (length pre) (take 1 ?rest) e) @ archive_output sha1 opts (length (pre @ h @ name @ data)) es trailer)"
      using Cons.prems(4) [unfolded m] by (intro Cons.IH ok Cons.prems(2,3) f(2)) simp
    moreover have "length (pre @ h @ name @ data) = length pre + length (arc_bytes e)" by (simp add: e arc_bytes_def)
    ultimately show ?thesis
      unfolding m f(1) loop.simps step option.case sum.case using False by simp
  qed
qed

text \<open>C6: On an archive of well-formed entries (any of the three magics, names without NUL) with at most 90 bytes behind
  it, the entry loop of \<open>processFile\<close> stays inside the mapping and handles the entries in order, each once, each by its
  own header, name and contents: it lists, extracts, hashes and searches them, and a search also sees the byte behind
  the contents. It handles them as long as more than 90 bytes are left; the entries in the last 90 bytes of the
  file are never reached. A search text must not be empty and needs a byte behind the archive.\<close>

theorem processEntries_archive:
  assumes "list_all arc_ok es" "length trailer \<le> 90" "search_possible opts trailer" "length (archive es @ trailer) < 2 ^ 32"
  shows "processEntries sha1 opts (archive es @ trailer) = Some (archive_output sha1 opts 0 es trailer)"
  using entry_loop [OF assms(1,3,2), of "[]" "length (archive es @ trailer) + 1" sha1 "[]"]
    archive_length [OF assms(1)] assms(4)
  by (simp add: processEntries_def)

text \<open>Of three small entries only the first is reached, and searched.\<close>

lemma processEntries_archive_witness:
  "processEntries id (list_opts\<lparr>g_search := Some [2]\<rparr>) (archive [sample_entry, sample_entry, sample_entry] @ [2]) =
     Some [Listed [97], FoundIn [97] 1 32]"
proof -
  let ?opts = "list_opts\<lparr>g_search := Some [2]\<rparr>" and ?es = "[sample_entry, sample_entry, sample_entry]"
  have "processEntries id ?opts (archive ?es @ [2]) = Some (archive_output id ?opts 0 ?es [2])"
    by (rule processEntries_archive) (simp_all add: sample_ok search_possible_def search_needle_def,
        simp add: archive_def arc_bytes_def sample_entry_def)
  then show ?thesis
    by (simp add: archive_def arc_bytes_def sample_entry_def entry_output_def found_in_def search_needle_def
        extractFile_def hashFile_def hits_def upt_rec)
qed

end
