(* ===== verification/Ota_Pbzx.thy ===== *)
theory Ota_Pbzx
  imports Ota_Entry
begin

text \<open>
  The other containers of \<open>ota.c\<close>: the chunks of a \<open>pbzx\<close> stream (\<open>doPBZX\<close>), the attribute
  list of a \<open>YAA1\<close> header (\<open>YAAright\<close>) with the YAA loop of \<open>processFile\<close>, and \<open>getULEB128\<close>.
\<close>

section \<open>pbzx chunks\<close>

abbreviation OUT_BUFSIZE :: nat where "OUT_BUFSIZE \<equiv> 16 * 1024 * 1024"

definition PBZX_MAGIC :: mem where "PBZX_MAGIC = str ''pbzx''"

text \<open>The six bytes of the literal \<open>"\xfd""7zXZ"\<close>, terminator included.\<close>

definition xz_header :: mem where "xz_header = [0xFD, 0x37, 0x7A, 0x58, 0x5A, 0]"

text \<open>Loop state: \<open>pos\<close>, the size of the output buffer (\<open>returnedSize\<close>) and its contents so far
  (\<open>returnedSize - available\<close> bytes).\<close>

record pbzx_state =
  px_pos :: nat
  px_size :: nat
  px_out :: mem

text \<open>One chunk. \<open>xz data room\<close> stands for \<open>decompressXZChunk\<close>, which the repository only
  declares: the expansion of a chunk into at most \<open>room\<close> bytes. A chunk without the XZ header is
  copied, and the copy is not checked against the buffer: \<open>None\<close> when it does not fit.
  \<open>pos += length\<close> on an \<open>int\<close> is only defined up to \<open>2^31 - 1\<close>.\<close>

definition pbzx_body ::
  "(mem \<Rightarrow> nat \<Rightarrow> mem) \<Rightarrow> mem \<Rightarrow> pbzx_state \<Rightarrow> (pbzx_state + mem) option" where
  "pbzx_body xz m st =
     (if \<not> px_pos st < length m then Some (Inr (px_out st))
      else do {
        flags \<leftarrow> rd_be 8 m (px_pos st);
        len \<leftarrow> rd_be 8 m (px_pos st + 8);
        let buf = px_pos st + 16;
        if buf + len \<ge> 2 ^ 31 then None
        else do {
          hd6 \<leftarrow> slice m buf 6;
          if hd6 \<noteq> xz_header
          then do {
            data \<leftarrow> slice m buf len;
            if length (px_out st) + len > px_size st then None
            else Some (Inl (st\<lparr>px_pos := buf + len, px_out := px_out st @ data\<rparr>))
          }
          else do {
            footer \<leftarrow> slice m (buf + len - 2) 2;
            data \<leftarrow> slice m buf len;
            let out = px_out st @ xz data (px_size st - length (px_out st));
            let sz = (if px_size st - length out < OUT_BUFSIZE
                      then px_size st + 10 * OUT_BUFSIZE else px_size st);
            Some (Inl \<lparr>px_pos = buf + len, px_size = sz, px_out = out\<rparr>)
          }
        }
      })"

text \<open>Before the loop the code reads eight bytes through \<open>*((uint64_t *) pbzxData + pos)\<close>: the
  pointer arithmetic scales, so the read is at byte 32, not at byte 4. The value is not used.\<close>

definition doPBZX :: "(mem \<Rightarrow> nat \<Rightarrow> mem) \<Rightarrow> mem \<Rightarrow> mem option" where
  "doPBZX xz m = do {
     let pos = length PBZX_MAGIC;
     flags \<leftarrow> rd_be 8 m (8 * pos);
     loop (length m + 1) (pbzx_body xz m)
       \<lparr>px_pos = pos + 8, px_size = OUT_BUFSIZE, px_out = []\<rparr>
   }"

section \<open>ULEB128\<close>

text \<open>\<open>slice << bit >> bit != slice\<close> on \<open>uint64_t\<close>; the bytes after \<open>p\<close>, the bits gathered and
  the position \<open>bit\<close>. The result is the value and \<open>*len\<close>; \<open>Inl\<close> is the malformed return of 0.\<close>

fun uleb_loop :: "mem \<Rightarrow> 64 word \<Rightarrow> nat \<Rightarrow> nat \<Rightarrow> (nat + 64 word \<times> nat) option" where
  "uleb_loop [] result bitno len = None"
| "uleb_loop (b # bs) result bitno len =
     (let sl = (ucast (b AND 0x7F) :: 64 word);
          len = len + 1 in
      if bitno \<ge> 64 \<or> drop_bit bitno (push_bit bitno sl) \<noteq> sl then Some (Inl len)
      else
        let result = result OR push_bit bitno sl in
        if b AND 0x80 \<noteq> 0 then uleb_loop bs result (bitno + 7) len
        else Some (Inr (result, len)))"

definition getULEB128 :: "mem \<Rightarrow> (nat + 64 word \<times> nat) option" where
  "getULEB128 p = uleb_loop p 0 0 0"

section \<open>YAA headers\<close>

definition YAA :: mem where "YAA = str ''YAA1''"

text \<open>The locals of \<open>YAAright\<close> that outlive one attribute; \<open>y_line\<close> collects what is printed.\<close>

record yaa_state =
  y_pos :: nat
  y_symlink :: "mem option"
  y_dataLen :: int
  y_pat :: "mem option"
  y_typ :: byte
  y_mod :: nat
  y_line :: "(mem \<times> nat) list"

definition attr_is :: "mem \<Rightarrow> string \<Rightarrow> bool" where
  "attr_is attr name \<longleftrightarrow> attr = str name"

text \<open>One attribute: \<open>Inr code\<close> is the early return. A negative or oversized \<open>memcpy\<close> is
  \<open>None\<close>. \<open>m\<close> is the image from the header on.\<close>

definition yaa_attr :: "mem \<Rightarrow> yaa_state \<Rightarrow> (yaa_state + int) option" where
  "yaa_attr m st = do {
     let p = y_pos st;
     attr4 \<leftarrow> slice m p 4;
     let len = unat (attr4 ! 3);
     attr \<leftarrow> cstr_of (take 3 attr4 @ [0]);
     if attr_is attr ''AFT'' then
       (if len < 0x30 \<or> len > 0x34 then None
        else do { aft \<leftarrow> slice m (p + 4) (len - 0x30);
                  Some (Inl (st\<lparr>y_pos := p + (len - 0x30) + 4\<rparr>)) })
     else if attr_is attr ''DAT'' then
       (if len = 0x41 then do {
          v \<leftarrow> rd_le 2 m (p + 4);
          let old = nat (y_dataLen st mod 2 ^ 32);
          let v = (old div 2 ^ 16) * 2 ^ 16 + v;
          Some (Inl (st\<lparr>y_dataLen := (if v < 2 ^ 31 then int v else int v - 2 ^ 32), y_pos := p + 6\<rparr>))
        }
        else if len = 0x42 then do {
          v \<leftarrow> rd_le 4 m (p + 4);
          Some (Inl (st\<lparr>y_dataLen := (if v < 2 ^ 31 then int v else int v - 2 ^ 32), y_pos := p + 8\<rparr>))
        }
        else Some (Inl (st\<lparr>y_pos := p + len + 4\<rparr>)))
     else if attr_is attr ''MTM'' then
       Some (Inl (st\<lparr>y_pos := p + (if len = 0x54 then 12 else if len = 0x53 then 8 else len) + 4\<rparr>))
     else if attr_is attr ''LNK'' then do {
       l \<leftarrow> rd_le 2 m (p + 4);
       raw \<leftarrow> slice m (p + 6) l;
       s \<leftarrow> cstr_of (raw @ [0]);
       Some (Inl (st\<lparr>y_symlink := Some s, y_pos := p + (l + 2) + 4\<rparr>))
     }
     else if attr_is attr ''PAT'' then do {
       l \<leftarrow> rd_le 2 m (p + 4);
       raw \<leftarrow> slice m (p + 6) l;
       s \<leftarrow> cstr_of (raw @ [0]);
       Some (Inl (st\<lparr>y_pat := Some s, y_pos := p + (l + 2) + 4\<rparr>))
     }
     else do {
       let len = (if 0x30 \<le> len \<and> len \<le> 0x39 then len - 0x30 else len);
       if len > 8 then Some (Inr (- 3))
       else do {
         v \<leftarrow> rd_le len m (p + 4);
         t \<leftarrow> (if attr_is attr ''TYP'' then rd8 m (p + 4) else Some 0);
         let st = (if attr_is attr ''TYP'' then st\<lparr>y_typ := t\<rparr>
                   else if attr_is attr ''MOD'' then st\<lparr>y_mod := v mod 2 ^ 32\<rparr> else st);
         Some (Inl (st\<lparr>y_line := y_line st @ [(attr, v)], y_pos := p + len + 4\<rparr>))
       }
     }
   }"

definition yaa_body :: "mem \<Rightarrow> nat \<Rightarrow> yaa_state \<Rightarrow> (yaa_state + (yaa_state + int)) option" where
  "yaa_body m yaaLen st =
     (if \<not> y_pos st < yaaLen then Some (Inr (Inl st))
      else do {
        r \<leftarrow> yaa_attr m st;
        Some (case r of Inl st' \<Rightarrow> Inl st' | Inr code \<Rightarrow> Inr (Inr code))
      })"

datatype yaa_result = YaaReturn int "ota_event list" | YaaExit nat

text \<open>\<open>g\<close> is the value of the global \<open>pos\<close>: the test of the magic looks there and not at the
  parameter \<open>Pos\<close>. \<open>pat\<close> is passed on as a pointer: a missing name (\<open>NULL\<close>) is undefined in the
  handlers that read it.\<close>

definition YAAright :: "(mem \<Rightarrow> mem) \<Rightarrow> ota_opts \<Rightarrow> nat \<Rightarrow> mem \<Rightarrow> nat \<Rightarrow> yaa_result option" where
  "YAAright sha1 opts g m Pos = do {
     magic \<leftarrow> slice m g 4;
     if magic \<noteq> YAA then Some (YaaReturn (- 1) [NotYaa Pos])
     else do {
       let mm = drop Pos m;
       yaaLen \<leftarrow> rd_le 2 mm 4;
       let quiet = (g_extract opts \<noteq> None \<or> g_search opts \<noteq> None);
       r \<leftarrow> loop (yaaLen + 1) (yaa_body mm yaaLen)
              \<lparr>y_pos = 6, y_symlink = None, y_dataLen = 0, y_pat = None, y_typ = 0, y_mod = 0, y_line = []\<rparr>;
       case r of
         Inr code \<Rightarrow> Some (YaaReturn code [])
       | Inl st \<Rightarrow> do {
           let line = (if quiet then [] else [YaaLine (y_line st) (y_pat st) (y_dataLen st)]);
           if y_pos st > yaaLen then Some (YaaExit 1)
           else do {
             act \<leftarrow> (case (g_extract opts, y_symlink st) of
                       (Some _, Some target) \<Rightarrow> do { name \<leftarrow> y_pat st; Some [Symlink target name] }
                     | _ \<Rightarrow> if g_extract opts = None \<and> g_hash opts = None \<and> g_search opts = None
                            then Some []
                            else do {
                              name \<leftarrow> y_pat st;
                              processFileInner sha1 opts mm (y_pos st) name
                                (nat (y_dataLen st mod 2 ^ 32))
                                ((if y_typ st = of_char CHR ''D'' then S_IFDIR else S_IFREG) OR y_mod st)
                            });
             Some (YaaReturn (int yaaLen + y_dataLen st) (line @ act))
           }
         }
     }
   }"

text \<open>The YAA loop of \<open>processFile\<close>; \<open>exit(1)\<close> inside ends everything.\<close>

definition yaa_file_body ::
  "(mem \<Rightarrow> mem) \<Rightarrow> ota_opts \<Rightarrow> nat \<Rightarrow> mem \<Rightarrow> nat \<times> ota_event list
     \<Rightarrow> ((nat \<times> ota_event list) + ota_event list) option" where
  "yaa_file_body sha1 opts g m st =
     (case st of (pos, evs) \<Rightarrow>
        if \<not> pos < length m then Some (Inr evs)
        else do {
          r \<leftarrow> YAAright sha1 opts g m pos;
          case r of
            YaaExit code \<Rightarrow> Some (Inr evs)
          | YaaReturn rc out \<Rightarrow>
              if rc > 0 then Some (Inl (pos + nat rc, evs @ out))
              else Some (Inl (case memmem (drop pos m) YAA of
                                None \<Rightarrow> pos | Some k \<Rightarrow> pos + k,
                              evs @ out @ [CorruptAt pos]))
        })"

definition processYaa :: "nat \<Rightarrow> (mem \<Rightarrow> mem) \<Rightarrow> ota_opts \<Rightarrow> mem \<Rightarrow> ota_event list option" where
  "processYaa fuel sha1 opts m = loop fuel (yaa_file_body sha1 opts 0 m) (0, [])"

text \<open>\<open>processFile\<close> on the mapped file: expand a pbzx stream first, then the YAA loop or the
  entry loop.\<close>

definition processFile ::
  "nat \<Rightarrow> (mem \<Rightarrow> nat \<Rightarrow> mem) \<Rightarrow> (mem \<Rightarrow> mem) \<Rightarrow> ota_opts \<Rightarrow> mem \<Rightarrow> ota_event list option" where
  "processFile fuel xz sha1 opts file = do {
     magic \<leftarrow> slice file 0 4;
     m \<leftarrow> (if magic = PBZX_MAGIC then doPBZX xz file else Some file);
     head4 \<leftarrow> slice m 0 4;
     if head4 = YAA then processYaa fuel sha1 opts m else processEntries sha1 opts m
   }"

end
