(* ===== verification/Ota_Format.thy ===== *)
theory Ota_Format
  imports Ota_Pbzx Ota_Archive
begin

text \<open>
  Properties of the containers of \<open>ota.c\<close>: a pbzx stream expands to the concatenation of its
  chunks, ULEB128 decoding inverts encoding, and the YAA loop hangs on a corrupt header.
\<close>

section \<open>pbzx\<close>

text \<open>A chunk: its two big-endian length fields and its data.\<close>

type_synonym chunk = "mem \<times> mem \<times> mem"

definition chunk_ok :: "chunk \<Rightarrow> bool" where
  "chunk_ok c \<longleftrightarrow> (case c of (f, l, d) \<Rightarrow>
     length f = 8 \<and> length l = 8 \<and> be_val l = length d \<and> 6 \<le> length d)"

definition chunk_bytes :: "chunk \<Rightarrow> mem" where
  "chunk_bytes c = (case c of (f, l, d) \<Rightarrow> f @ l @ d)"

definition chunk_out :: "(mem \<Rightarrow> mem) \<Rightarrow> chunk \<Rightarrow> mem" where
  "chunk_out expand c = (case c of (f, l, d) \<Rightarrow> if take 6 d = xz_header then expand d else d)"

definition pbzx_out :: "(mem \<Rightarrow> mem) \<Rightarrow> chunk list \<Rightarrow> mem" where
  "pbzx_out expand cs = concat (map (chunk_out expand) cs)"

lemma be8_mid:
  "length f = 8 \<Longrightarrow> rd_be 8 (pre @ f @ rest) (length pre) = Some (be_val f)"
  by (simp add: rd_be_def slice_def)

lemma pbzx_step:
  assumes ok: "chunk_ok (f, l, d)" and room: "length out + length (chunk_out expand (f, l, d)) \<le> sz"
    and xz: "\<forall>room. length (expand d) \<le> room \<longrightarrow> xz d room = expand d"
    and small: "length (pre @ chunk_bytes (f, l, d)) < 2 ^ 31"
  shows "\<exists>sz'. sz \<le> sz' \<and>
    pbzx_body xz (pre @ chunk_bytes (f, l, d) @ rest) \<lparr>px_pos = length pre, px_size = sz, px_out = out\<rparr> =
    Some (Inl \<lparr>px_pos = length (pre @ chunk_bytes (f, l, d)), px_size = sz',
               px_out = out @ chunk_out expand (f, l, d)\<rparr>)"
proof -
  let ?m = "pre @ f @ l @ d @ rest"
  have k: "length f = 8" "length l = 8" "be_val l = length d" "6 \<le> length d"
    using ok by (auto simp: chunk_ok_def)
  have r1: "rd_be 8 ?m (length pre) = Some (be_val f)" using be8_mid [OF k(1)] .
  have r2: "rd_be 8 ?m (length pre + 8) = Some (length d)"
    using be8_mid [OF k(2), of "pre @ f" "d @ rest"] k by simp
  have s6: "slice ?m (length pre + 16) 6 = Some (take 6 d)"
    using k by (simp add: slice_def)
  have sd: "slice ?m (length pre + 16) (length d) = Some d"
    using k by (simp add: slice_def)
  have sf: "\<exists>v. slice ?m (length pre + 16 + length d - 2) 2 = Some v"
    using k by (simp add: slice_def)
  have lim: "length pre < length ?m" "\<not> length pre + 16 + length d \<ge> 2 ^ 31"
    using k small by (auto simp: chunk_bytes_def)
  have m: "pre @ chunk_bytes (f, l, d) @ rest = ?m"
    "length (pre @ chunk_bytes (f, l, d)) = length pre + 16 + length d"
    using k by (simp_all add: chunk_bytes_def)
  show ?thesis
  proof (cases "take 6 d = xz_header")
    case True
    then have "length (expand d) \<le> sz - length out" using room by (simp add: chunk_out_def)
    then have "xz d (sz - length out) = expand d" using xz by blast
    then show ?thesis
      unfolding m using True r1 r2 s6 sd sf lim
      by (intro exI [of _ "if sz - length (out @ expand d) < OUT_BUFSIZE then sz + 10 * OUT_BUFSIZE else sz"])
        (auto simp: pbzx_body_def chunk_out_def Let_def)
  next
    case False
    then have "\<not> length out + length d > sz" using room by (simp add: chunk_out_def)
    then show ?thesis
      unfolding m using False r1 r2 s6 sd lim
      by (intro exI [of _ sz]) (auto simp: pbzx_body_def chunk_out_def Let_def)
  qed
qed

lemma pbzx_loop:
  assumes "list_all chunk_ok cs" "length out + length (pbzx_out expand cs) \<le> sz"
    "\<forall>(f, l, d) \<in> set cs. \<forall>room. length (expand d) \<le> room \<longrightarrow> xz d room = expand d"
    "length (pre @ concat (map chunk_bytes cs)) < 2 ^ 31" "length cs < fuel"
  shows "loop fuel (pbzx_body xz (pre @ concat (map chunk_bytes cs)))
    \<lparr>px_pos = length pre, px_size = sz, px_out = out\<rparr> = Some (out @ pbzx_out expand cs)"
  using assms
proof (induction cs arbitrary: pre out sz fuel)
  case Nil
  then show ?case by (cases fuel) (auto simp: pbzx_body_def pbzx_out_def)
next
  case (Cons c cs)
  obtain f l d where c: "c = (f, l, d)" by (cases c) auto
  obtain n where n: "fuel = Suc n" "length cs < n" using Cons.prems(5) by (cases fuel) auto
  let ?rest = "concat (map chunk_bytes cs)"
  have room: "length out + length (chunk_out expand c) \<le> sz"
    "length (out @ chunk_out expand c) + length (pbzx_out expand cs) \<le> sz"
    using Cons.prems(2) by (auto simp: pbzx_out_def)
  have "chunk_ok (f, l, d)" "length (pre @ chunk_bytes (f, l, d)) < 2 ^ 31"
    "\<forall>room. length (expand d) \<le> room \<longrightarrow> xz d room = expand d"
    using Cons.prems(1,3,4) c by auto
  from pbzx_step [where expand = expand and xz = xz, OF this(1) room(1) [unfolded c] this(3,2), of ?rest]
  obtain sz' where sz': "sz \<le> sz'"
    "pbzx_body xz (pre @ chunk_bytes c @ ?rest) \<lparr>px_pos = length pre, px_size = sz, px_out = out\<rparr> =
     Some (Inl \<lparr>px_pos = length (pre @ chunk_bytes c), px_size = sz', px_out = out @ chunk_out expand c\<rparr>)"
    unfolding c by blast
  have "loop n (pbzx_body xz ((pre @ chunk_bytes c) @ ?rest))
      \<lparr>px_pos = length (pre @ chunk_bytes c), px_size = sz', px_out = out @ chunk_out expand c\<rparr> =
    Some ((out @ chunk_out expand c) @ pbzx_out expand cs)"
    using Cons.prems sz'(1) room(2) n(2) by (intro Cons.IH) auto
  then show ?case using sz'(2) n(1) by (simp add: pbzx_out_def)
qed

text \<open>C8: a pbzx stream (magic, eight bytes, chunks of at least six bytes, XZ or raw, fewer than
  2 GB) that expands to at most 16 MB is expanded by \<open>doPBZX\<close> to the concatenation of its chunks,
  without leaving the mapping or the output buffer, when the XZ decoder expands what fits.\<close>

theorem doPBZX_expands:
  assumes "list_all chunk_ok cs" "length (pbzx_out expand cs) \<le> 16 * 1024 * 1024"
    and "\<forall>(f, l, d) \<in> set cs. \<forall>room. length (expand d) \<le> room \<longrightarrow> xz d room = expand d"
    and "length flags = 8" "40 \<le> length (PBZX_MAGIC @ flags @ concat (map chunk_bytes cs))"
    and "length (PBZX_MAGIC @ flags @ concat (map chunk_bytes cs)) < 2 ^ 31"
  shows "doPBZX xz (PBZX_MAGIC @ flags @ concat (map chunk_bytes cs)) = Some (pbzx_out expand cs)"
proof -
  let ?m = "PBZX_MAGIC @ flags @ concat (map chunk_bytes cs)"
  have lm: "length PBZX_MAGIC = 4" by (simp add: PBZX_MAGIC_def str_def)
  have "\<exists>v. rd_be 8 ?m 32 = Some v" using assms(5) by (simp add: rd_be_def slice_def)
  moreover have "length cs \<le> length (concat (map chunk_bytes cs))"
    using assms(1) by (induction cs) (auto simp: chunk_ok_def chunk_bytes_def)
  then have "loop (length ?m + 1) (pbzx_body xz ((PBZX_MAGIC @ flags) @ concat (map chunk_bytes cs)))
      \<lparr>px_pos = length (PBZX_MAGIC @ flags), px_size = OUT_BUFSIZE, px_out = []\<rparr> =
    Some ([] @ pbzx_out expand cs)"
    using assms by (intro pbzx_loop) auto
  ultimately show ?thesis using lm assms(4) by (auto simp: doPBZX_def Let_def)
qed

definition sample_chunk :: chunk where
  "sample_chunk = ([0, 0, 0, 0, 0, 0, 0, 0], [0, 0, 0, 0, 0, 0, 0, 12], [9, 9, 9, 9, 9, 9, 9, 9, 9, 9, 9, 9])"

lemma doPBZX_expands_witness:
  "doPBZX (\<lambda>d room. []) (PBZX_MAGIC @ [0, 0, 0, 0, 0, 0, 0, 0] @ concat (map chunk_bytes [sample_chunk])) =
   Some [9, 9, 9, 9, 9, 9, 9, 9, 9, 9, 9, 9]"
  using doPBZX_expands [of "[sample_chunk]" "\<lambda>d. []" "\<lambda>d room. []" "[0, 0, 0, 0, 0, 0, 0, 0]"]
  by (simp add: chunk_ok_def chunk_bytes_def pbzx_out_def chunk_out_def xz_header_def be_val_def
      PBZX_MAGIC_def str_def sample_chunk_def)

section \<open>ULEB128\<close>

function uleb_enc :: "nat \<Rightarrow> mem" where
  "uleb_enc n = (if n < 128 then [of_nat n] else of_nat (n mod 128 + 128) # uleb_enc (n div 128))"
  by pat_completeness auto
termination by (relation "measure id") auto

declare uleb_enc.simps [simp del]

lemma uleb_bytes:
  assumes "n < 128"
  shows "(of_nat n :: byte) AND 0x7F = of_nat n" "(of_nat n :: byte) AND 0x80 = 0"
    "(of_nat (n + 128) :: byte) AND 0x7F = of_nat n" "(of_nat (n + 128) :: byte) AND 0x80 \<noteq> 0"
proof -
  have f: "(0x7F :: byte) = mask 7" "(0x80 :: byte) = push_bit 7 1"
    by (simp_all add: mask_eq_exp_minus_1)
  have n: "bit n k \<Longrightarrow> k < 7" for k using bit_less_exp [of n 7 k] assms by simp
  have n128: "n + 128 = push_bit 7 1 OR n" using nat_or_shift [of n 7 1] assms by simp
  show "(of_nat n :: byte) AND 0x7F = of_nat n"
    unfolding f by (rule bit_eqI) (auto simp: bit_simps dest: n)
  show "(of_nat n :: byte) AND 0x80 = 0"
    using and_exp_eq_0_iff_not_bit [of "of_nat n :: byte" 7] n [of 7] by (auto simp: bit_of_nat_iff)
  have b80: "bit (128 :: nat) k \<longleftrightarrow> k = 7" for k
    using bit_exp_iff [of 7 k, where 'a = nat] by auto
  show "(of_nat (n + 128) :: byte) AND 0x7F = of_nat n"
    unfolding f n128 by (rule bit_eqI) (auto simp: bit_simps b80 dest: n)
  have "bit (of_nat (n + 128) :: byte) 7"
    unfolding n128 by (simp add: bit_simps b80)
  then have "bit ((of_nat (n + 128) :: byte) AND 0x80) 7"
    unfolding f by (simp add: bit_simps)
  then show "(of_nat (n + 128) :: byte) AND 0x80 \<noteq> 0" by auto
qed

lemma uleb_slice:
  assumes "n < 128" "bitno < 64" "n * 2 ^ bitno < 2 ^ 64"
  shows "unat (push_bit bitno (of_nat n :: 64 word)) = n * 2 ^ bitno"
    "drop_bit bitno (push_bit bitno (of_nat n :: 64 word)) = of_nat n"
proof -
  have n: "take_bit 64 n = n" using assms(1) by (intro take_bit_nat_eq_self) simp
  show u: "unat (push_bit bitno (of_nat n :: 64 word)) = n * 2 ^ bitno"
    using assms(3) n by (simp only: unsigned_push_bit_eq)
      (simp add: push_bit_eq_mult take_bit_nat_eq_self unsigned_of_nat)
  have "unat (drop_bit bitno (push_bit bitno (of_nat n :: 64 word))) = n"
    using assms(3) by (simp only: unsigned_drop_bit_eq u) (simp add: drop_bit_eq_div take_bit_nat_eq_self)
  then show "drop_bit bitno (push_bit bitno (of_nat n :: 64 word)) = of_nat n"
    by (metis of_nat_unat ucast_id)
qed

lemma uleb_step_small:
  assumes "n < 128" "bitno < 64" "n * 2 ^ bitno < 2 ^ 64"
  shows "uleb_loop (of_nat n # rest) r bitno len =
    Some (Inr (r OR push_bit bitno (of_nat n), len + 1))"
proof -
  have "(ucast (of_nat n :: byte) :: 64 word) = of_nat n"
    using assms(1) by (simp add: word_unat_eq_iff unsigned_ucast_eq unsigned_of_nat take_bit_nat_eq_self)
  then show ?thesis using uleb_bytes(1,2) [OF assms(1)] uleb_slice(2) [OF assms] assms(2)
    by (simp add: Let_def)
qed

lemma uleb_step_more:
  assumes "n < 128" "bitno < 64" "n * 2 ^ bitno < 2 ^ 64"
  shows "uleb_loop (of_nat (n + 128) # rest) r bitno len =
    uleb_loop rest (r OR push_bit bitno (of_nat n)) (bitno + 7) (len + 1)"
proof -
  have "(ucast (of_nat n :: byte) :: 64 word) = of_nat n"
    using assms(1) by (simp add: word_unat_eq_iff unsigned_ucast_eq unsigned_of_nat take_bit_nat_eq_self)
  then show ?thesis using uleb_bytes(3,4) [OF assms(1)] uleb_slice(2) [OF assms] assms(2)
    by (simp add: Let_def del: of_nat_add)
qed

lemma uleb_or:
  assumes "unat r < 2 ^ bitno" "n < 128" "bitno < 64" "n * 2 ^ bitno < 2 ^ 64"
  shows "unat (r OR push_bit bitno (of_nat n) :: 64 word) = unat r + n * 2 ^ bitno"
  using nat_or_shift [OF assms(1), of n] uleb_slice(1) [OF assms(2-4)]
  by (simp only: unsigned_or_eq) (simp add: push_bit_eq_mult or.commute)

lemma split_sum: "(a :: nat) * 2 ^ k + b * 2 ^ (k + 7) = (a + 128 * b) * 2 ^ k"
  by (simp add: power_add algebra_simps)

lemma uleb_enc_loop:
  assumes "unat r < 2 ^ bitno" "bitno < 64" "n * 2 ^ bitno < 2 ^ 64"
  shows "\<exists>v. uleb_loop (uleb_enc n @ rest) r bitno len = Some (Inr (v, len + length (uleb_enc n))) \<and>
    unat v = unat r + n * 2 ^ bitno"
  using assms
proof (induction n arbitrary: r bitno len rule: uleb_enc.induct)
  case (1 n)
  show ?case
  proof (cases "n < 128")
    case True
    then show ?thesis
      using uleb_step_small [OF True "1.prems"(2,3)] uleb_or [OF "1.prems"(1) True "1.prems"(2,3)]
      by (subst (1 2) uleb_enc.simps) simp
  next
    case False
    let ?lo = "n mod 128" and ?hi = "n div 128"
    have le: "?lo * 2 ^ bitno \<le> n * 2 ^ bitno" "(128 * ?hi) * 2 ^ bitno \<le> n * 2 ^ bitno"
      by (intro mult_right_mono; simp)+
    have lo: "?lo < 128" "?lo * 2 ^ bitno < 2 ^ 64" using le_less_trans [OF le(1) "1.prems"(3)] by simp_all
    have hi: "?hi * 2 ^ (bitno + 7) < 2 ^ 64"
    proof -
      have "?hi * 2 ^ (bitno + 7) = (128 * ?hi) * 2 ^ bitno" by (simp add: power_add)
      then show ?thesis using le_less_trans [OF le(2) "1.prems"(3)] by argo
    qed
    have "1 \<le> ?hi" using False by simp
    then have "(2::nat) ^ (bitno + 7) < 2 ^ 64" using hi by (metis le_less_trans mult_le_mono1 nat_mult_1)
    then have b: "bitno + 7 < 64" by (simp only: power_strict_increasing_iff)
    let ?r = "r OR push_bit bitno (of_nat ?lo) :: 64 word"
    have r: "unat ?r = unat r + ?lo * 2 ^ bitno"
      using uleb_or [OF "1.prems"(1) lo(1) "1.prems"(2) lo(2)] .
    have "unat r + ?lo * 2 ^ bitno < 2 ^ bitno + 127 * 2 ^ bitno"
      using "1.prems"(1) lo(1) by (intro add_less_le_mono mult_right_mono) auto
    then have "unat ?r < 2 ^ (bitno + 7)" using r by (simp add: power_add)
    from "1.IH" [OF False this b hi, of "len + 1"] obtain v where v:
      "uleb_loop (uleb_enc ?hi @ rest) ?r (bitno + 7) (len + 1) =
         Some (Inr (v, len + 1 + length (uleb_enc ?hi)))"
      "unat v = unat ?r + ?hi * 2 ^ (bitno + 7)" by blast
    have "uleb_loop (uleb_enc n @ rest) r bitno len =
        uleb_loop (uleb_enc ?hi @ rest) ?r (bitno + 7) (len + 1)"
      using False uleb_step_more [OF lo(1) "1.prems"(2) lo(2), of "uleb_enc ?hi @ rest" r len]
      by (subst uleb_enc.simps) simp
    moreover have "?lo * 2 ^ bitno + ?hi * 2 ^ (bitno + 7) = n * 2 ^ bitno"
    proof -
      have "?lo * 2 ^ bitno + ?hi * 2 ^ (bitno + 7) = (?lo + 128 * ?hi) * 2 ^ bitno"
        by (rule split_sum)
      also have "?lo + 128 * ?hi = n" by simp
      finally show ?thesis .
    qed
    moreover have "length (uleb_enc n) = Suc (length (uleb_enc ?hi))"
      using False by (subst uleb_enc.simps) simp
    ultimately show ?thesis using v r by simp
  qed
qed

text \<open>C9: \<open>getULEB128\<close> inverts the ULEB128 encoding of every 64-bit value, whatever follows it,
  and reports the number of bytes it used; its overflow test never rejects a canonical encoding.\<close>

theorem getULEB128_encoded:
  assumes "n < 2 ^ 64"
  shows "getULEB128 (uleb_enc n @ rest) = Some (Inr (of_nat n, length (uleb_enc n)))"
proof -
  obtain v where v: "uleb_loop (uleb_enc n @ rest) 0 0 0 = Some (Inr (v, 0 + length (uleb_enc n)))"
    "unat v = unat (0 :: 64 word) + n * 2 ^ 0"
    using uleb_enc_loop [of 0 0 n rest 0] assms by auto
  have "unat v = n" using v(2) by simp
  then have "v = of_nat n" by auto
  then show ?thesis using v(1) by (simp add: getULEB128_def)
qed

lemma getULEB128_encoded_witness:
  "getULEB128 [0xE5, 0x8E, 0x26, 0xFF] = Some (Inr (624485, 3))"
  using getULEB128_encoded [of 624485 "[0xFF]"] by (simp add: uleb_enc.simps)

section \<open>The YAA loop\<close>

lemma memmem_self: "prefix_of n h \<Longrightarrow> memmem h n = Some 0"
  by (cases h; cases n) auto

text \<open>When \<open>YAAright\<close> rejects the header at the first position (return code not positive),
  the YAA loop of \<open>processFile\<close> never ends: the search for the next \<open>YAA1\<close> starts at the rejected
  header itself and finds it again. No amount of fuel gives a result.\<close>

theorem processYaa_hangs:
  assumes "prefix_of YAA m" "YAAright sha1 opts 0 m 0 = Some (YaaReturn rc out)" "rc \<le> 0"
  shows "processYaa fuel sha1 opts m = None"
proof -
  have ne: "m \<noteq> []" using assms(1) by (auto simp: YAA_def str_def)
  have step: "yaa_file_body sha1 opts 0 m (0, evs) = Some (Inl (0, evs @ out @ [CorruptAt 0]))" for evs
    using assms ne memmem_self [OF assms(1)] by (simp add: yaa_file_body_def)
  have "loop fuel (yaa_file_body sha1 opts 0 m) (0, evs) = None" for evs
    by (induction fuel arbitrary: evs) (simp_all add: step)
  then show ?thesis by (simp add: processYaa_def)
qed

definition bad_yaa :: mem where
  "bad_yaa = [0x59, 0x41, 0x41, 0x31, 10, 0, 0x58, 0x59, 0x5A, 0x7F]"

lemma processYaa_hangs_witness: "processYaa 1000 id list_opts bad_yaa = None"
proof (rule processYaa_hangs)
  show "prefix_of YAA bad_yaa" by (simp add: YAA_def str_def bad_yaa_def)
  show "YAAright id list_opts 0 bad_yaa 0 = Some (YaaReturn (- 3) [])"
    by (simp add: YAAright_def YAA_def str_def bad_yaa_def slice_def rd_le_def
        yaa_body_def yaa_attr_def attr_is_def Let_def)
qed simp

end
