(* ===== verification/Ota_Main.thy ===== *)
theory Ota_Main
  imports Ota_Pbzx
begin

text \<open>
  The option parser of \<open>main\<close> in \<open>src/src/ota.c\<close>: which action a command line asks for.
\<close>

text \<open>What \<open>main\<close> does with its arguments: leave with a code, compare two files, or process the
  files that are left.\<close>

datatype ota_action = OtaExit nat | OtaDiff mem mem bool | OtaRun ota_opts "mem list"

definition no_opts :: ota_opts where
  "no_opts = \<lparr>g_list = False, g_verbose = False, g_extract = None, g_search = None,
              g_hash = None, g_nullTerm = False\<rparr>"

definition dash :: "mem \<Rightarrow> bool" where
  "dash a \<longleftrightarrow> (case a of c # _ \<Rightarrow> c = of_char CHR ''-'' | [] \<Rightarrow> False)"

text \<open>After the option loop: \<open>argv[argc-1][0] == '-'\<close>, then every file whose name does not
  contain \<open>.ecc\<close>.\<close>

definition ota_files :: "ota_opts \<Rightarrow> mem list \<Rightarrow> nat \<Rightarrow> ota_action" where
  "ota_files opts argv i =
     (if dash (last argv) then OtaExit 5
      else OtaRun opts (filter (\<lambda>f. \<not> strstr f (str ''.ecc'')) (drop i argv)))"

text \<open>The option loop from \<open>argv[i]\<close> on; \<open>exists_file\<close> stands for \<open>access(..., F_OK) == 0\<close>.\<close>

function ota_options :: "(mem \<Rightarrow> bool) \<Rightarrow> mem list \<Rightarrow> nat \<Rightarrow> bool \<Rightarrow> ota_opts \<Rightarrow> ota_action" where
  "ota_options exists_file argv i exists opts =
     (let argc = length argv in
      if \<not> (i + 1 < argc \<and> dash (argv ! i)) then ota_files opts argv i
      else
        let a = argv ! i in
        if a = str ''-n'' then ota_options exists_file argv (i + 1) True opts
        else if a = str ''-d'' then
          (if i + 3 \<noteq> argc then OtaExit 6
           else if \<not> exists_file (argv ! (i + 1)) then OtaExit 11
           else if \<not> exists_file (argv ! (i + 2)) then OtaExit 12
           else OtaDiff (argv ! (i + 1)) (argv ! (i + 2)) exists)
        else if a = str ''-l'' then
          ota_options exists_file argv (i + 1) exists (opts\<lparr>g_list := True\<rparr>)
        else if a = str ''-v'' then
          ota_options exists_file argv (i + 1) exists (opts\<lparr>g_verbose := True\<rparr>)
        else if a = str ''-H'' then
          (if i + 1 = argc then OtaExit 5
           else ota_options exists_file argv (i + 2) exists (opts\<lparr>g_hash := Some (argv ! (i + 1))\<rparr>))
        else if a = str ''-e'' then
          (if i + 1 = argc then OtaExit 5
           else ota_options exists_file argv (i + 2) exists (opts\<lparr>g_extract := Some (argv ! (i + 1))\<rparr>))
        else if a = str ''-s'' \<or> a = str ''-S'' then
          (if i + 2 = argc then OtaExit 5
           else ota_options exists_file argv (i + 2) exists
                  (opts\<lparr>g_search := Some (argv ! (i + 1)),
                        g_nullTerm := (g_nullTerm opts \<or> a = str ''-S'')\<rparr>))
        else OtaExit 1)"
  by pat_completeness auto
termination by (relation "measure (\<lambda>(_, argv, i, _). length argv - i)") auto

declare ota_options.simps [simp del]

definition ota_main :: "(mem \<Rightarrow> bool) \<Rightarrow> mem list \<Rightarrow> ota_action" where
  "ota_main exists_file argv =
     (if length argv < 2 then OtaExit 10 else ota_options exists_file argv 1 False no_opts)"

text \<open>\<open>ota -e name\<close> and \<open>ota -H name\<close> without a file are not rejected: the test for the
  missing argument (\<open>i == argc - 1\<close>) cannot hold inside the loop, whose condition is
  \<open>i < argc - 1\<close>; the only argument is taken as the criterion and the tool runs on no file at all.
  The same mistake with \<open>-s\<close> leaves with code 5.\<close>

theorem ota_missing_file:
  assumes "\<not> dash name"
  shows "ota_main f [prog, str ''-e'', name] = OtaRun (no_opts\<lparr>g_extract := Some name\<rparr>) [] \<and>
    ota_main f [prog, str ''-H'', name] = OtaRun (no_opts\<lparr>g_hash := Some name\<rparr>) [] \<and>
    ota_main f [prog, str ''-s'', name] = OtaExit 5"
  using assms
  by (simp_all add: ota_main_def ota_options.simps ota_files_def dash_def str_def)

lemma ota_missing_file_witness:
  "ota_main (\<lambda>_. True) [[], str ''-e'', str ''p''] = OtaRun (no_opts\<lparr>g_extract := Some (str ''p'')\<rparr>) []"
  using ota_missing_file [of "str ''p''" "\<lambda>_. True" "[]"] by (simp add: dash_def str_def)

end
