(* ===== verification/Smbios.thy ===== *)
theory Smbios
  imports Prelude
begin

text \<open>
  The SMBIOS dumper \<open>src/src/smut.c\<close>: \<open>getSMBString\<close>, the text tables, the structure printer
  \<open>parseSMBIOSStruct\<close>, the walk over the table in \<open>parseBIOSData\<close>, and \<open>hexDump\<close>. The structure
  layouts are those of \<open>src/include/SMBIOS.h\<close>. Printed lines are items.
\<close>

section \<open>Strings and text tables\<close>

text \<open>The bytes behind the next NUL.\<close>

definition skip_string :: "mem \<Rightarrow> mem option" where
  "skip_string bs = (case dropWhile (\<lambda>b. b \<noteq> 0) bs of [] \<Rightarrow> None | _ # t \<Rightarrow> Some t)"

fun skip_strings :: "nat \<Rightarrow> mem \<Rightarrow> mem option" where
  "skip_strings 0 bs = Some bs"
| "skip_strings (Suc n) bs = do { t \<leftarrow> skip_string bs; skip_strings n t }"

definition getSMBString :: "mem \<Rightarrow> nat \<Rightarrow> nat \<Rightarrow> mem option" where
  "getSMBString m off stringNum = do {
     len \<leftarrow> rd8 m (off + 1);
     t \<leftarrow> skip_strings (stringNum - 1) (drop (off + unat len) m);
     cstr_of t
   }"

definition table_text :: "(nat \<times> string) list \<Rightarrow> string \<Rightarrow> nat \<Rightarrow> string" where
  "table_text tab dflt v = (case map_of tab v of Some s \<Rightarrow> s | None \<Rightarrow> dflt)"

definition bootStatusToText :: "nat \<Rightarrow> string" where
  "bootStatusToText = table_text
    [(0, ''no errors detected''), (1, ''no bootable media''), (2, ''normal OS failed to load''),
     (3, ''firmware detected failure''), (4, ''OS detected failure''), (5, ''User requested boot''),
     (6, ''system security violation''), (7, ''previously requested image''),
     (8, ''watchdog timer expiration'')] ''unknown/reserved''"

definition memLocToText :: "nat \<Rightarrow> string" where
  "memLocToText = table_text
    [(1, ''other''), (2, ''unnknown''), (3, ''system board/motherboard''), (4, ''ISA add-on''),
     (5, ''EISA add-on''), (6, ''PCI add-on''), (7, ''MCA add-on''), (8, ''PCMCIA add-on''),
     (9, ''proprietary add-on'')] ''?!''"

definition memUseToText :: "nat \<Rightarrow> string" where
  "memUseToText = table_text
    [(1, ''other''), (2, ''unnknown''), (3, ''system memory''), (4, ''video memory''),
     (5, ''flash memory''), (6, ''NVRAM''), (7, ''cache memory'')] ''?!''"

definition enclosureTypeToText :: "nat \<Rightarrow> string" where
  "enclosureTypeToText = table_text
    [(1, ''other''), (2, ''unnknown''), (3, ''dekstop''), (4, ''low profile desktop''),
     (5, ''pizza box''), (6, ''mini tower''), (7, ''tower''), (8, ''portable''), (9, ''laptop''),
     (10, ''notebook''), (11, ''handheld''), (12, ''docking station''), (13, ''all in one''),
     (14, ''sub notebook'')] ''Too many codes - J hasn't filled all''"

definition deviceTypeToText :: "nat \<Rightarrow> string" where
  "deviceTypeToText = table_text
    [(1, ''other''), (2, ''unnknown''), (3, ''video''), (4, ''SCSI''), (5, ''Ethernet''),
     (6, ''Token Ring...''), (7, ''Sound''), (8, ''PATA''), (9, ''SATA''), (10, ''SAS'')] ''?!''"

section \<open>Hex dump\<close>

text \<open>Rows of eight bytes: offset, bytes, and the text column, which is printed when the next
  row starts (so never for the last row).\<close>

definition printable :: "byte \<Rightarrow> char" where
  "printable b = (if 0x20 \<le> b \<and> b < 0x7F then char_of (unat b) else CHR ''.'')"

function hexRows :: "nat \<Rightarrow> mem \<Rightarrow> (nat \<times> mem \<times> string option) list" where
  "hexRows off bs =
     (if length bs \<le> 8 then [(off, bs, None)]
      else (off, take 8 bs, Some (map printable (take 8 bs))) # hexRows (off + 8) (drop 8 bs))"
  by pat_completeness auto
termination by (relation "measure (\<lambda>(_, bs). length bs)") auto

declare hexRows.simps [simp del]

definition hexDump :: "mem \<Rightarrow> (nat \<times> mem \<times> string option) list" where
  "hexDump buf = hexRows 0 buf"

section \<open>The fields of a structure\<close>

datatype smb_item =
    Title string
  | Str string mem
  | At nat
  | Num string int
  | Txt string string
  | Hex "(nat \<times> mem \<times> string option) list"

text \<open>A printed field: a string number, a byte, a word or a double word at an offset of the
  packed structure.\<close>

datatype smb_field = FStr string nat | FByte string nat | FWord string nat | FDword string nat

fun read_field :: "mem \<Rightarrow> nat \<Rightarrow> smb_field \<Rightarrow> smb_item option" where
  "read_field m off (FStr label k) = do {
     n \<leftarrow> rd8 m (off + k); s \<leftarrow> getSMBString m off (unat n); Some (Str label s) }"
| "read_field m off (FByte label k) = do { v \<leftarrow> rd8 m (off + k); Some (Num label (int (unat v))) }"
| "read_field m off (FWord label k) = do { v \<leftarrow> rd_le 2 m (off + k); Some (Num label (int v)) }"
| "read_field m off (FDword label k) = do { v \<leftarrow> rd_le 4 m (off + k); Some (Num label (int v)) }"

fun read_fields :: "mem \<Rightarrow> nat \<Rightarrow> smb_field list \<Rightarrow> smb_item list option" where
  "read_fields m off [] = Some []"
| "read_fields m off (f # fs) = do {
     x \<leftarrow> read_field m off f; xs \<leftarrow> read_fields m off fs; Some (x # xs) }"

text \<open>The structures that are a title and a list of fields, at the offsets of \<open>SMBIOS.h\<close>.\<close>

definition bios_fields :: "smb_field list" where
  "bios_fields = [FStr ''Vendor'' 4, FStr ''Version'' 5, FStr ''Release Date'' 8]"

definition system_fields :: "smb_field list" where
  "system_fields = [FStr ''Manufacturer'' 4, FStr ''Product Name'' 5, FStr ''Version'' 6,
     FStr ''Serial #'' 7]"

definition base_board_fields :: "smb_field list" where
  "base_board_fields = [FStr ''Manufacturer'' 4, FStr ''Product'' 5, FStr ''Version'' 6,
     FStr ''Serial #'' 7, FStr ''Location'' 10]"

definition processor_fields :: "smb_field list" where
  "processor_fields = [FStr ''Socket designation'' 4, FStr ''Manufacturer'' 7, FStr ''Version'' 16,
     FStr ''Serial #'' 32, FWord ''External MHz'' 18, FWord ''Maximum MHz'' 20,
     FWord ''Current MHz'' 22, FWord ''L1'' 26, FWord ''L2'' 28, FWord ''L3'' 30]"

definition system_slot_fields :: "smb_field list" where
  "system_slot_fields = [FStr ''Designation'' 4]"

definition port_fields :: "smb_field list" where
  "port_fields = [FStr ''Internal Reference Designator'' 4, FByte ''Type'' 5,
     FStr ''External Reference Designator'' 6, FByte ''Type'' 7]"

definition language_fields :: "smb_field list" where
  "language_fields = [FByte ''Installable Languages'' 4, FByte ''String'' 0x15, FStr ''String'' 0x15]"

definition mapped_address_fields :: "smb_field list" where
  "mapped_address_fields = [FDword ''start'' 4, FDword ''end'' 8]"

definition plain_struct :: "nat \<Rightarrow> (string \<times> smb_field list) option" where
  "plain_struct = map_of
    [(0, ''BIOS Information'', bios_fields), (1, ''System Information'', system_fields),
     (2, ''Base Board'', base_board_fields), (4, ''Processor Information'', processor_fields),
     (6, ''Memory Module'', []), (8, ''Port Connector Information'', port_fields),
     (9, ''System Slot'', system_slot_fields), (12, ''System Configuration Options'', []),
     (13, ''BIOS Language Information'', language_fields), (14, ''Group Associations'', []),
     (18, ''32-Bit Memory Error Info'', []),
     (19, ''Memory Array Mapped Address'', mapped_address_fields),
     (33, ''64-Bit Memory Error Info'', []), (35, ''Management Device Component Info'', []),
     (36, ''Management Device Threshold Data'', []), (38, ''IPMI Device Information'', []),
     (127, ''End of Table'', []), (128, ''Firmware Volume'', []), (131, ''OEM Processor Type'', []),
     (132, ''Firmware Volume'', [])]"

text \<open>System Enclosure (3), Cache (7), Physical Memory Array (16), Memory Device (17).\<close>

definition enclosure_info :: "mem \<Rightarrow> nat \<Rightarrow> smb_item list option" where
  "enclosure_info m off = do {
     fs \<leftarrow> read_fields m off [FStr ''Manufacturer'' 4, FStr ''Version'' 6, FStr ''Serial #'' 7];
     t \<leftarrow> rd8 m (off + 5);
     Some (Title ''System Enclosure'' # fs @ [Txt ''Type'' (enclosureTypeToText (unat (t AND 0x7F)))])
   }"

definition cache_info :: "mem \<Rightarrow> nat \<Rightarrow> smb_item list option" where
  "cache_info m off = do {
     fs \<leftarrow> read_fields m off [FWord ''Cache Information'' 2, FStr ''Socket designation'' 4,
            FWord ''Size'' 9, FWord ''Maximum'' 7];
     speed \<leftarrow> rd8 m (off + 15);
     Some (fs @ (if speed \<noteq> 0 then [Num ''Speed'' (int (unat speed))] else []))
   }"

definition memory_array_info :: "mem \<Rightarrow> nat \<Rightarrow> smb_item list option" where
  "memory_array_info m off = do {
     loc \<leftarrow> rd8 m (off + 4);
     use1 \<leftarrow> rd8 m (off + 5);
     cap \<leftarrow> rd_le 4 m (off + 7);
     Some [Title ''Physical Memory Array'',
           Num ''Physical Location'' (int (unat loc)), Txt ''Physical Location'' (memLocToText (unat loc)),
           Num ''Array Use'' (int (unat use1)), Txt ''Array Use'' (memUseToText (unat use1)),
           Num ''Maximum Capacity (GB)'' (int (cap div (1024 * 1024)))]
   }"

definition memory_device_info :: "mem \<Rightarrow> nat \<Rightarrow> smb_item list option" where
  "memory_device_info m off = do {
     sz \<leftarrow> rd_le 2 m (off + 12);
     fs \<leftarrow> read_fields m off [FWord ''Speed'' 21, FStr ''Device Locator'' 16, FStr ''Bank Locator'' 17,
            FStr ''Manufacturer'' 23, FStr ''Asset Tag'' 25, FStr ''Serial #'' 24, FStr ''Part #'' 26];
     Some (Title ''Memory Device'' # Num ''Size'' (int (sz AND 0x7FFF))
           # Txt ''Unit'' (if sz AND 0x8000 \<noteq> 0 then ''KB'' else ''MB'') # fs)
   }"

text \<open>On board devices (10): one string per pair of bytes; boot status (32): the bytes behind
  the ten fixed ones; onboard devices extended (41).\<close>

fun device_list :: "mem \<Rightarrow> nat \<Rightarrow> nat \<Rightarrow> nat \<Rightarrow> smb_item list option" where
  "device_list m off d 0 = Some []"
| "device_list m off d (Suc n) = do {
     k \<leftarrow> rd8 m (off + 5 + 2 * (d - 1));
     s \<leftarrow> getSMBString m off (unat k);
     xs \<leftarrow> device_list m off (d + 1) n;
     Some (Num ''device'' (int d) # Str ''name'' s # xs)
   }"

definition onboard_info :: "mem \<Rightarrow> nat \<Rightarrow> smb_item list option" where
  "onboard_info m off = do {
     len \<leftarrow> rd8 m (off + 1);
     let n = (if unat len < 4 then - int ((4 - unat len) div 2) else (int (unat len) - 4) div 2);
     xs \<leftarrow> device_list m off 1 (nat n);
     Some (Title ''On Board Device Information'' # Num ''Devices'' n # xs)
   }"

fun boot_list :: "mem \<Rightarrow> nat \<Rightarrow> nat \<Rightarrow> nat \<Rightarrow> smb_item list option" where
  "boot_list m off i 0 = Some []"
| "boot_list m off i (Suc n) = do {
     b \<leftarrow> rd8 m (off + 10 + i);
     xs \<leftarrow> boot_list m off (i + 1) n;
     Some (Num ''Status'' (int (unat b)) # Txt ''Status'' (bootStatusToText (unat b)) # xs)
   }"

definition boot_info :: "mem \<Rightarrow> nat \<Rightarrow> smb_item list option" where
  "boot_info m off = do {
     len \<leftarrow> rd8 m (off + 1);
     xs \<leftarrow> boot_list m off 0 (unat len - 10);
     Some (Title ''System Boot Information'' # xs)
   }"

definition extended_device_info :: "mem \<Rightarrow> nat \<Rightarrow> smb_item list option" where
  "extended_device_info m off = do {
     fs \<leftarrow> read_fields m off [FStr ''Reference Designation'' 4];
     t \<leftarrow> rd8 m (off + 5);
     Some (Title ''Onboard Devices Extended Info'' # fs @
           [Txt ''Type'' (deviceTypeToText (unat (t AND 0x7F))),
            Txt ''State'' (if t AND 0x80 \<noteq> 0 then ''enabled'' else ''disabled'')])
   }"

text \<open>Memory SPD (130), Apple SMC Version (134) and every unknown type.\<close>

definition dump_info :: "nat \<Rightarrow> mem \<Rightarrow> nat \<Rightarrow> smb_item list option" where
  "dump_info type m off = do {
     len \<leftarrow> rd8 m (off + 1);
     bytes \<leftarrow> slice m off (unat len);
     pre \<leftarrow> (if type = 130 then Some [Title ''Memory SPD'']
             else if type = 134 then do {
               v \<leftarrow> cstr_at m (off + 4);
               Some [Title ''Apple SMC Version (probably - 134)'', Str ''Version String'' v]
             }
             else Some [Title ''Unknown type'', Num ''type'' (int type), Num ''bytes'' (int (unat len))]);
     Some (pre @ [Hex (hexDump bytes)])
   }"

section \<open>String sets\<close>

lemma skip_string_shorter: "skip_string bs = Some t \<Longrightarrow> length t < length bs"
proof (induction bs)
  case (Cons b bs)
  then show ?case by (cases "b = 0") (auto simp: skip_string_def)
qed (simp add: skip_string_def)

text \<open>\<open>while (Bytes[Offset]) { while (Bytes[Offset++]) ...}\<close>: the strings up to the empty one, and
  the number of bytes they take with their terminators.\<close>

function string_set :: "mem \<Rightarrow> (mem list \<times> nat) option" where
  "string_set [] = None"
| "string_set (b # bs) =
     (if b = 0 then Some ([], 0)
      else case skip_string (b # bs) of
             None \<Rightarrow> None
           | Some t \<Rightarrow>
               (case string_set t of
                  None \<Rightarrow> None
                | Some (ss, n) \<Rightarrow>
                    Some (takeWhile (\<lambda>b. b \<noteq> 0) (b # bs) # ss,
                          length (takeWhile (\<lambda>b. b \<noteq> 0) (b # bs)) + 1 + n)))"
  by pat_completeness auto

termination by (relation "measure length") (auto dest: skip_string_shorter)

text \<open>\<open>isalnum\<close>, \<open>ispunct\<close> or a blank print as they are.\<close>

definition oem_char :: "byte \<Rightarrow> string" where
  "oem_char b =
     (if 0x20 \<le> b \<and> b < 0x7F then [char_of (unat b)]
      else if b = 0x0A then [CHR 0x5C, CHR ''r''] else if b = 0x0D then [CHR 0x5C, CHR ''n'']
      else [CHR 0x5C, CHR ''x'', hex_digit (unat b div 16), hex_digit (unat b mod 16)])"

text \<open>OEM Strings (11): reads its own strings from offset 5 on and returns from there.\<close>

definition oem_info :: "mem \<Rightarrow> nat \<Rightarrow> (smb_item list \<times> nat) option" where
  "oem_info m off = do {
     n \<leftarrow> rd8 m (off + 4);
     r \<leftarrow> string_set (drop (off + 5) m);
     Some (Title ''OEM Strings'' # Num ''Strings'' (int (unat n))
             # map (\<lambda>s. Txt ''String'' (concat (map oem_char s))) (fst r),
           off + 5 + snd r + 1)
   }"

text \<open>The end of \<open>parseSMBIOSStruct\<close>: from the end of the formatted area to the next structure.\<close>

definition smb_next :: "mem \<Rightarrow> nat \<Rightarrow> nat option" where
  "smb_next m off = do {
     len \<leftarrow> rd8 m (off + 1);
     let p = off + unat len + 1;
     b \<leftarrow> rd8 m p;
     let p = (if b \<noteq> 0 then p - 1 else p);
     r \<leftarrow> string_set (drop p m);
     Some (p + snd r + 1)
   }"

section \<open>The structure printer and the table walk\<close>

text \<open>The battery case (22) prints \<open>si->manufacturer\<close>, where \<open>si\<close> is only initialised by the jump to
  the case of type 1: \<open>None\<close>.\<close>

definition struct_items :: "mem \<Rightarrow> nat \<Rightarrow> nat \<Rightarrow> smb_item list option" where
  "struct_items m off type =
     (case plain_struct type of
        Some (title, fields) \<Rightarrow> map_option (Cons (Title title)) (read_fields m off fields)
      | None \<Rightarrow>
          if type = 3 then enclosure_info m off
          else if type = 7 then cache_info m off
          else if type = 10 then onboard_info m off
          else if type = 16 then memory_array_info m off
          else if type = 17 then memory_device_info m off
          else if type = 22 then None
          else if type = 32 then boot_info m off
          else if type = 41 then extended_device_info m off
          else dump_info type m off)"

definition parseSMBIOSStruct :: "mem \<Rightarrow> nat \<Rightarrow> (smb_item list \<times> nat) option" where
  "parseSMBIOSStruct m off = do {
     type \<leftarrow> rd8 m off;
     if type = 11 then map_option (apfst (Cons (At off))) (oem_info m off)
     else do {
       items \<leftarrow> struct_items m off (unat type);
       p \<leftarrow> smb_next m off;
       Some (At off # items, p)
     }
   }"

definition bios_body :: "mem \<Rightarrow> nat \<times> smb_item list \<Rightarrow> ((nat \<times> smb_item list) + smb_item list) option" where
  "bios_body m st =
     (case st of (i, out) \<Rightarrow>
        if \<not> i < length m then Some (Inr out)
        else do { r \<leftarrow> parseSMBIOSStruct m i; Some (Inl (snd r, out @ fst r)) })"

definition parseBIOSData :: "mem \<Rightarrow> smb_item list option" where
  "parseBIOSData m = loop (length m + 1) (bios_body m) (0, [])"

section \<open>Well-formed tables\<close>

text \<open>A structure: its type, the formatted area behind the length byte (with the handle), and its
  strings. With no strings the string set is a double NUL.\<close>

record smb =
  s_type :: byte
  s_area :: mem
  s_strs :: "mem list"

definition strs_bytes :: "mem list \<Rightarrow> mem" where
  "strs_bytes ss = concat (map (\<lambda>s. s @ [0]) ss)"

definition smb_bytes :: "smb \<Rightarrow> mem" where
  "smb_bytes s = [s_type s, of_nat (2 + length (s_area s))] @ s_area s @
     (if s_strs s = [] then [0, 0] else strs_bytes (s_strs s) @ [0])"

definition good_strs :: "mem list \<Rightarrow> bool" where
  "good_strs ss \<longleftrightarrow> (\<forall>x \<in> set ss. x \<noteq> [] \<and> 0 \<notin> set x)"

definition smb_ok :: "smb \<Rightarrow> bool" where
  "smb_ok s \<longleftrightarrow> length (s_area s) < 254 \<and> good_strs (s_strs s)"

text \<open>The walk also needs a first string of at least two characters, and of an OEM Strings structure
  that it has the five fixed bytes and some string.\<close>

definition smb_walkable :: "smb \<Rightarrow> bool" where
  "smb_walkable s \<longleftrightarrow> smb_ok s \<and> (s_strs s \<noteq> [] \<longrightarrow> 2 \<le> length (hd (s_strs s))) \<and>
     (s_type s = 11 \<longrightarrow> length (s_area s) = 3 \<and> s_strs s \<noteq> [])"

definition smb_str :: "smb \<Rightarrow> nat \<Rightarrow> mem" where
  "smb_str s n = (if n - 1 < length (s_strs s) then s_strs s ! (n - 1) else [])"

lemma skip_string_append: "0 \<notin> set x \<Longrightarrow> skip_string (x @ 0 # t) = Some t"
  by (induction x) (auto simp: skip_string_def)

lemma cstr_of_append: "0 \<notin> set x \<Longrightarrow> cstr_of (x @ 0 # t) = Some x"
  by (induction x) auto

lemma strs_bytes_simps [simp]:
  "strs_bytes [] = []" "strs_bytes (x # xs) = x @ 0 # strs_bytes xs"
  by (simp_all add: strs_bytes_def)

lemma good_strs_Cons [simp]: "good_strs (x # xs) \<longleftrightarrow> x \<noteq> [] \<and> 0 \<notin> set x \<and> good_strs xs"
  by (auto simp: good_strs_def)

lemma skip_strings_nth:
  "good_strs ss \<Longrightarrow> k < length ss \<Longrightarrow>
   \<exists>t u. skip_strings k (strs_bytes ss @ r) = Some t \<and> t = ss ! k @ 0 # u"
proof (induction ss arbitrary: k)
  case (Cons x xs)
  show ?case
  proof (cases k)
    case 0
    then show ?thesis by auto
  next
    case (Suc j)
    then show ?thesis using Cons.IH [of j] Cons.prems
      by (auto simp: skip_string_append)
  qed
qed simp

lemma skip_strings_all: "good_strs ss \<Longrightarrow> skip_strings (length ss) (strs_bytes ss @ r) = Some r"
  by (induction ss) (auto simp: skip_string_append)

lemma smb_bytes_at:
  assumes "length (s_area s) < 254"
  shows "rd8 (pre @ smb_bytes s @ post) (length pre) = Some (s_type s)"
    "rd8 (pre @ smb_bytes s @ post) (Suc (length pre)) = Some (of_nat (2 + length (s_area s)))"
    "drop (length pre + (2 + length (s_area s)) + k) (pre @ smb_bytes s @ post) =
       drop k ((if s_strs s = [] then [0, 0] else strs_bytes (s_strs s) @ [0]) @ post)"
    "unat (of_nat (2 + length (s_area s)) :: byte) = 2 + length (s_area s)"
proof -
  show "unat (of_nat (2 + length (s_area s)) :: byte) = 2 + length (s_area s)"
    using assms by (simp add: unat_of_nat take_bit_eq_mod del: of_nat_add of_nat_Suc)
qed (auto simp: rd8_def smb_bytes_def nth_append drop_Cons' )

lemma getSMBString_string:
  assumes "smb_ok s" "n \<le> Suc (length (s_strs s))"
  shows "getSMBString (pre @ smb_bytes s @ post) (length pre) n = Some (smb_str s n)"
proof -
  have area: "length (s_area s) < 254" and good: "good_strs (s_strs s)"
    using assms(1) by (auto simp: smb_ok_def)
  note at = smb_bytes_at(1-3) [OF area, where pre = pre and post = post] smb_bytes_at(4) [OF area]
  have bytes: "drop (length pre + (2 + length (s_area s))) (pre @ smb_bytes s @ post) =
      (if s_strs s = [] then [0, 0] else strs_bytes (s_strs s) @ [0]) @ post"
    using at(3) [of 0] by simp
  show ?thesis
  proof (cases "n - 1 < length (s_strs s)")
    case True
    then obtain u where "skip_strings (n - 1) (strs_bytes (s_strs s) @ 0 # post) = Some (s_strs s ! (n - 1) @ 0 # u)"
      using skip_strings_nth [OF good True, of "0 # post"] by auto
    moreover have "0 \<notin> set (s_strs s ! (n - 1))" using good True by (simp add: good_strs_def)
    ultimately show ?thesis using True at bytes
      by (auto simp: getSMBString_def smb_str_def cstr_of_append)
  next
    case False
    then have "n - 1 = length (s_strs s)" using assms(2) by simp
    then show ?thesis using skip_strings_all [OF good, of "0 # post"] at bytes False
      by (auto simp: getSMBString_def smb_str_def)
  qed
qed

text \<open>\<open>getSMBString\<close> on a structure with non-empty strings, anywhere in a table: number \<open>n\<close>
  gives the \<open>n\<close>-th string (counted from 1) and the number behind the last one the empty string. The
  number 0, with which SMBIOS marks an absent string, gives the first string.\<close>

theorem getSMBString_nth:
  assumes "smb_ok s" "n \<le> Suc (length (s_strs s))"
  shows "getSMBString (pre @ smb_bytes s @ post) (length pre) n = Some (smb_str s n)"
  using assms by (rule getSMBString_string)

lemma getSMBString_nth_witness:
  "getSMBString [1, 4, 0, 0, 65, 66, 0, 67, 0, 0] 0 2 = Some [67] \<and>
   getSMBString [1, 4, 0, 0, 65, 66, 0, 67, 0, 0] 0 0 = Some [65, 66]"
  using getSMBString_nth [of "\<lparr>s_type = 1, s_area = [0, 0], s_strs = [[65, 66], [67]]\<rparr>" 2 "[]" "[]"]
    getSMBString_nth [of "\<lparr>s_type = 1, s_area = [0, 0], s_strs = [[65, 66], [67]]\<rparr>" 0 "[]" "[]"]
  by (simp add: smb_ok_def good_strs_def smb_str_def smb_bytes_def)

lemma takeWhile_string: "0 \<notin> set x \<Longrightarrow> takeWhile (\<lambda>b. b \<noteq> (0::byte)) (x @ 0 # t) = x"
  by (induction x) auto

lemma string_set_append:
  "good_strs ss \<Longrightarrow> string_set (strs_bytes ss @ 0 # t) = Some (ss, length (strs_bytes ss))"
proof (induction ss)
  case (Cons x xs)
  obtain b y where x: "x = b # y" "b \<noteq> 0" using Cons.prems by (cases x) auto
  have skip: "skip_string (b # y @ 0 # strs_bytes xs @ 0 # t) = Some (strs_bytes xs @ 0 # t)"
    using skip_string_append [of x "strs_bytes xs @ 0 # t"] Cons.prems x by simp
  have head: "takeWhile (\<lambda>b. b \<noteq> 0) (b # y @ 0 # strs_bytes xs @ 0 # t) = x"
    using takeWhile_string [of x "strs_bytes xs @ 0 # t"] Cons.prems x by simp
  show ?case using Cons skip head x by (simp del: takeWhile.simps)
qed simp

lemma smb_next_walkable:
  assumes "smb_walkable s"
  shows "smb_next (pre @ smb_bytes s @ post) (length pre) = Some (length pre + length (smb_bytes s))"
proof -
  have area: "length (s_area s) < 254" and good: "good_strs (s_strs s)"
    using assms by (auto simp: smb_walkable_def smb_ok_def)
  let ?m = "pre @ smb_bytes s @ post" and ?e = "length pre + (2 + length (s_area s))"
  note at = smb_bytes_at(1-3) [OF area, where pre = pre and post = post] smb_bytes_at(4) [OF area]
  have bytes: "drop ?e ?m = (if s_strs s = [] then [0, 0] else strs_bytes (s_strs s) @ [0]) @ post"
    using at(3) [of 0] by simp
  show ?thesis
  proof (cases "s_strs s")
    case Nil
    have d: "drop (Suc ?e) ?m = 0 # post" using at(3) [of 1] Nil by simp
    then show ?thesis using at Nil rd8_drop [OF d] by (simp add: smb_next_def smb_bytes_def)
  next
    case (Cons x xs)
    obtain a b y where x: "x = a # b # y" "b \<noteq> 0"
      using assms Cons good by (cases x; cases "tl x") (auto simp: smb_walkable_def)
    have d: "drop (Suc ?e) ?m = b # y @ 0 # strs_bytes xs @ 0 # post" using at(3) [of 1] Cons x by simp
    have "string_set (drop ?e ?m) = Some (s_strs s, length (strs_bytes (s_strs s)))"
      using string_set_append [OF good, of post] bytes Cons by simp
    then show ?thesis using at Cons x rd8_drop [OF d] by (simp add: smb_next_def smb_bytes_def)
  qed
qed

lemma oem_info_next:
  assumes "smb_walkable s" "s_type s = 11"
  shows "map_option snd (oem_info (pre @ smb_bytes s @ post) (length pre)) =
    Some (length pre + length (smb_bytes s))"
proof -
  have area: "length (s_area s) < 254" "length (s_area s) = 3" "s_strs s \<noteq> []" and good: "good_strs (s_strs s)"
    using assms by (auto simp: smb_walkable_def smb_ok_def)
  let ?m = "pre @ smb_bytes s @ post"
  have d: "drop (length pre + 5) ?m = strs_bytes (s_strs s) @ 0 # post"
    using smb_bytes_at(3) [OF area(1), where k = 0 and pre = pre and post = post] area by simp
  have "rd8 ?m (length pre + 4) = Some (?m ! (length pre + 4))"
    by (rule rd8_in) (simp add: smb_bytes_def area)
  then show ?thesis using d string_set_append [OF good, of post]
    by (simp add: oem_info_def smb_bytes_def area)
qed

text \<open>What the walk prints: the text of every structure in the order of the table.\<close>

definition smb_text :: "mem \<Rightarrow> nat \<Rightarrow> smb \<Rightarrow> smb_item list option" where
  "smb_text m off s = (if s_type s = 11 then map_option fst (oem_info m off)
     else struct_items m off (unat (s_type s)))"

fun table_items :: "mem \<Rightarrow> nat \<Rightarrow> smb list \<Rightarrow> smb_item list option" where
  "table_items m off [] = Some []"
| "table_items m off (s # ss) = do {
     x \<leftarrow> smb_text m off s;
     xs \<leftarrow> table_items m (off + length (smb_bytes s)) ss;
     Some (At off # x @ xs)
   }"

lemma parse_walkable:
  assumes "smb_walkable s"
  shows "parseSMBIOSStruct (pre @ smb_bytes s @ post) (length pre) =
    map_option (\<lambda>x. (At (length pre) # x, length pre + length (smb_bytes s)))
      (smb_text (pre @ smb_bytes s @ post) (length pre) s)"
proof -
  have area: "length (s_area s) < 254" using assms by (simp add: smb_walkable_def smb_ok_def)
  show ?thesis
  proof (cases "s_type s = 11")
    case True
    then show ?thesis using oem_info_next [OF assms True, of pre post]
      smb_bytes_at(1) [OF area, of pre post]
      by (auto simp: parseSMBIOSStruct_def smb_text_def)
  next
    case False
    then show ?thesis using smb_next_walkable [OF assms, of pre post] smb_bytes_at(1) [OF area, of pre post]
      by (auto simp: parseSMBIOSStruct_def smb_text_def split: option.splits Option.bind_splits)
  qed
qed

lemma bios_loop_table:
  assumes "\<forall>s \<in> set ss. smb_walkable s" "length ss < n"
  shows "loop n (bios_body (pre @ concat (map smb_bytes ss))) (length pre, out) =
    map_option ((@) out) (table_items (pre @ concat (map smb_bytes ss)) (length pre) ss)"
  using assms
proof (induction ss arbitrary: pre n out)
  case Nil
  then show ?case by (cases n) (auto simp: bios_body_def)
next
  case (Cons s ss)
  obtain k where n: "n = Suc k" "length ss < k" using Cons.prems by (cases n) auto
  let ?m = "pre @ smb_bytes s @ concat (map smb_bytes ss)"
  have s: "smb_walkable s" using Cons.prems by simp
  note step = parse_walkable [OF s, of pre "concat (map smb_bytes ss)"]
  have less: "length pre < length ?m" by (simp add: smb_bytes_def)
  show ?case
  proof (cases "smb_text ?m (length pre) s")
    case None
    then show ?thesis using step n less by (simp add: bios_body_def)
  next
    case (Some x)
    let ?out = "out @ At (length pre) # x"
    have body: "bios_body ?m (length pre, out) = Some (Inl (length pre + length (smb_bytes s), ?out))"
      using step Some less by (simp add: bios_body_def)
    have "loop k (bios_body ?m) (length pre + length (smb_bytes s), ?out) =
      map_option ((@) ?out) (table_items ?m (length pre + length (smb_bytes s)) ss)"
      using Cons.IH [of k "pre @ smb_bytes s" ?out] Cons.prems n
      by (cases "table_items ?m (length pre + length (smb_bytes s)) ss") simp_all
    then show ?thesis using body Some n
      by (cases "table_items ?m (length pre + length (smb_bytes s)) ss") simp_all
  qed
qed

text \<open>C11: on a table of well-formed structures the walk of \<open>parseBIOSData\<close> visits every structure
  once, in order, at the offset where it starts, and nothing else; the output is that of the
  structures.\<close>

theorem parseBIOSData_table:
  assumes "\<forall>s \<in> set ss. smb_walkable s"
  shows "parseBIOSData (concat (map smb_bytes ss)) = table_items (concat (map smb_bytes ss)) 0 ss"
proof -
  have "length ss \<le> length (concat (map smb_bytes ss))"
    by (induction ss) (auto simp: smb_bytes_def)
  then show ?thesis using bios_loop_table [OF assms, of "length (concat (map smb_bytes ss)) + 1" "[]" "[]"]
    by (cases "table_items (concat (map smb_bytes ss)) 0 ss") (simp_all add: parseBIOSData_def del: loop.simps)
qed

text \<open>Two structures and the end-of-table structure.\<close>

lemma parseBIOSData_table_witness:
  "parseBIOSData ([1, 8, 0, 0, 1, 2, 2, 1, 65, 66, 0, 67, 0, 0] @ [6, 4, 0, 0, 0, 0] @ [127, 4, 0, 0, 0, 0]) =
   Some [At 0, Title ''System Information'', Str ''Manufacturer'' [65, 66], Str ''Product Name'' [67],
         Str ''Version'' [67], Str ''Serial #'' [65, 66],
         At 14, Title ''Memory Module'', At 20, Title ''End of Table'']"
proof -
  let ?ss = "[\<lparr>s_type = 1, s_area = [0, 0, 1, 2, 2, 1], s_strs = [[65, 66], [67]]\<rparr>,
    \<lparr>s_type = 6, s_area = [0, 0], s_strs = []\<rparr>, \<lparr>s_type = 127, s_area = [0, 0], s_strs = []\<rparr>] :: smb list"
  have "parseBIOSData (concat (map smb_bytes ?ss)) = table_items (concat (map smb_bytes ?ss)) 0 ?ss"
    by (rule parseBIOSData_table) (simp add: smb_walkable_def smb_ok_def good_strs_def)
  moreover have "table_items (concat (map smb_bytes ?ss)) 0 ?ss =
    Some [At 0, Title ''System Information'', Str ''Manufacturer'' [65, 66], Str ''Product Name'' [67],
         Str ''Version'' [67], Str ''Serial #'' [65, 66],
         At 14, Title ''Memory Module'', At 20, Title ''End of Table'']"
    by code_simp
  ultimately show ?thesis by (simp add: smb_bytes_def)
qed

text \<open>The strings a field refers to.\<close>

lemma read_field_string:
  assumes "smb_ok s" "k < length (s_area s)" "unat (s_area s ! k) \<le> Suc (length (s_strs s))"
  shows "read_field (pre @ smb_bytes s @ post) (length pre) (FStr label (k + 2)) =
    Some (Str label (smb_str s (unat (s_area s ! k))))"
proof -
  have "rd8 (pre @ smb_bytes s @ post) (length pre + (k + 2)) = Some (s_area s ! k)"
    using assms(2) by (auto simp: rd8_def smb_bytes_def nth_append)
  then show ?thesis using getSMBString_string [OF assms(1,3)] by simp
qed

section \<open>Termination of the walk\<close>

lemma string_set_length: "string_set bs = Some (ss, n) \<Longrightarrow> n < length bs"
proof (induction bs arbitrary: ss n rule: string_set.induct)
  case (2 b bs)
  have take_less: "length (takeWhile (\<lambda>b. b \<noteq> 0) xs) + 1 + length t \<le> length xs"
    if "skip_string xs = Some t" for xs :: mem and t
    using that by (induction xs) (auto simp: skip_string_def split: if_splits)
  show ?case
  proof (cases "b = 0")
    case False
    then obtain t ss' n' where t: "skip_string (b # bs) = Some t" "string_set t = Some (ss', n')"
      and n: "n = length (takeWhile (\<lambda>b. b \<noteq> 0) (b # bs)) + 1 + n'"
      using 2(2) by (auto split: option.splits simp del: takeWhile.simps)
    then show ?thesis using 2(1) [OF False t] take_less [OF t(1)] by linarith
  qed (use 2(2) in auto)
qed simp

lemma smb_next_bounds: "smb_next m off = Some p \<Longrightarrow> off < p \<and> p \<le> length m"
  by (auto simp: smb_next_def Let_def split: Option.bind_splits if_splits
      dest!: string_set_length rd_SomeD)

lemma oem_info_bounds: "oem_info m off = Some (xs, p) \<Longrightarrow> off < p \<and> p \<le> length m"
  by (auto simp: oem_info_def split: Option.bind_splits dest!: string_set_length)

lemma parse_bounds: "parseSMBIOSStruct m off = Some (xs, p) \<Longrightarrow> off < p \<and> p \<le> length m"
  by (auto simp: parseSMBIOSStruct_def split: Option.bind_splits if_splits
      dest: smb_next_bounds oem_info_bounds)

interpretation bios_walk: progress_loop "\<lambda>_. True" "\<lambda>(i, out). length m - i" "bios_body m" "\<lambda>_. True"
  for m
  by unfold_locales
    (auto simp: bios_body_def split: if_splits Option.bind_splits dest!: parse_bounds)

text \<open>C12: the walk ends by itself on every table, well-formed or not, and the model returns what it ends with: each
  structure moves the offset forward and keeps it inside the table. What is read outside the table is undefined,
  never endless.\<close>

theorem parseBIOSData_terminates: "ends (bios_body m) (0, []) (parseBIOSData m)"
  unfolding parseBIOSData_def by (rule bios_walk.loop_ends) auto

section \<open>Where the dumper departs from the tables it reads\<close>

text \<open>A first string of one character is taken for the end of the strings: the next structure
  is looked for right behind that character's terminator, inside the structure itself, whatever
  strings follow.\<close>

theorem one_char_string_desync:
  assumes "length (s_area s) < 254" "s_strs s = [c] # rest"
  shows "smb_next (pre @ smb_bytes s @ post) (length pre) = Some (length pre + 4 + length (s_area s)) \<and>
    length pre + 4 + length (s_area s) < length pre + length (smb_bytes s)"
proof -
  let ?m = "pre @ smb_bytes s @ post" and ?e = "length pre + (2 + length (s_area s))"
  note at = smb_bytes_at(1-3) [OF assms(1), where pre = pre and post = post] smb_bytes_at(4) [OF assms(1)]
  have d: "drop (Suc ?e) ?m = 0 # strs_bytes rest @ 0 # post" using at(3) [of 1] assms(2) by simp
  show ?thesis using at rd8_drop [OF d] d assms(2) by (simp add: smb_next_def smb_bytes_def)
qed

lemma one_char_string_desync_witness:
  "smb_next [1, 8, 0, 0, 1, 2, 2, 1, 65, 0, 66, 67, 0, 0] 0 = Some 10"
  using one_char_string_desync [of "\<lparr>s_type = 1, s_area = [0, 0, 1, 2, 2, 1], s_strs = [[65], [66, 67]]\<rparr>"
    65 "[[66, 67]]" "[]" "[]"]
  by (simp add: smb_bytes_def)

text \<open>The System Information structure prints its manufacturer, product name, version and serial
  number, each the string its field refers to.\<close>

theorem system_information_text:
  assumes "smb_ok s" "6 \<le> length (s_area s)"
    and "\<forall>k \<in> {2, 3, 4, 5}. unat (s_area s ! k) \<le> Suc (length (s_strs s))"
  shows "struct_items (pre @ smb_bytes s @ post) (length pre) 1 =
    Some [Title ''System Information'',
          Str ''Manufacturer'' (smb_str s (unat (s_area s ! 2))),
          Str ''Product Name'' (smb_str s (unat (s_area s ! 3))),
          Str ''Version'' (smb_str s (unat (s_area s ! 4))),
          Str ''Serial #'' (smb_str s (unat (s_area s ! 5)))]"
proof -
  have "read_field (pre @ smb_bytes s @ post) (length pre) (FStr label (k + 2)) =
    Some (Str label (smb_str s (unat (s_area s ! k))))" if "k \<in> {2, 3, 4, 5}" for label k
    using read_field_string [of s k] assms that by auto
  from this [of 2] this [of 3] this [of 4] this [of 5] show ?thesis
    by (simp add: struct_items_def plain_struct_def system_fields_def del: read_field.simps)
qed

lemma system_information_text_witness:
  "struct_items [1, 8, 0, 0, 1, 2, 2, 1, 65, 66, 0, 67, 0, 0] 0 1 =
    Some [Title ''System Information'', Str ''Manufacturer'' [65, 66], Str ''Product Name'' [67],
          Str ''Version'' [67], Str ''Serial #'' [65, 66]]"
  using system_information_text [of "\<lparr>s_type = 1, s_area = [0, 0, 1, 2, 2, 1], s_strs = [[65, 66], [67]]\<rparr>" "[]" "[]"]
  by (simp add: smb_bytes_def smb_ok_def good_strs_def smb_str_def)

text \<open>In the OEM strings a line feed prints as the escape of a carriage return and a carriage
  return as that of a line feed, and every other character as itself or as two hex digits.\<close>

lemma oem_char_text:
  "oem_char b =
     (if b = 10 then [CHR 0x5C, CHR ''r''] else if b = 13 then [CHR 0x5C, CHR ''n'']
      else if 32 \<le> b \<and> b < 127 then [char_of (unat b)]
      else [CHR 0x5C, CHR ''x'', hex_digit (unat b div 16), hex_digit (unat b mod 16)])"
  by (auto simp: oem_char_def)

end
