(* ===== verification/Lsock_Text.thy ===== *)
theory Lsock_Text
  imports Prelude
begin

text \<open>
  The text of \<open>src/src/lsock.c\<close>: TCP states, the description lines of UDP and TCP sources, byte
  counts and the columns at the end of a line. \<open>ntop\<close> stands for \<open>inet_ntop\<close> into a buffer of
  40 bytes and \<open>resolve\<close> for \<open>getnameinfo\<close>; both are the system's. Buffers keep their sizes: a
  write past one is \<open>None\<close>.
\<close>

section \<open>States, versions\<close>

definition stateToText :: "nat \<Rightarrow> string" where
  "stateToText s = (case map_of
     [(0, ''CLOSED''), (1, ''LISTENING''), (4, ''ESTABLISHED''), (7, ''CLOSING''), (2, ''SYN_SENT''),
      (8, ''LAST_ACK''), (5, ''CLOSE_WAIT''), (10, ''TIME_WAIT''), (6, ''FIN_WAIT_1''),
      (9, ''FIN_WAIT_2'')] s of Some t \<Rightarrow> t | None \<Rightarrow> ''?'')"

definition getOsVer :: "string \<Rightarrow> nat" where
  "getOsVer version =
     (if strstr version ''xnu-37'' then 12 else if strstr version ''xnu-32'' then 11
      else if strstr version ''xnu-27'' then 10 else if strstr version ''xnu-20'' then 8
      else if strstr version ''xnu-24'' then 9 else 12)"

section \<open>Byte counts\<close>

text \<open>Conversion of an integer to \<open>float\<close> (24 significant bits, nearest, ties to even); division by
  a power of two is exact, and \<open>%5.2f\<close> rounds the exact value to hundredths.\<close>

fun bit_len :: "nat \<Rightarrow> nat" where
  "bit_len n = (if n = 0 then 0 else Suc (bit_len (n div 2)))"

declare bit_len.simps [simp del]

definition round_even :: "nat \<Rightarrow> nat \<Rightarrow> nat" where
  "round_even n d =
     (let q = n div d; r = n mod d in if 2 * r < d \<or> (2 * r = d \<and> even q) then q else q + 1)"

definition to_float :: "nat \<Rightarrow> nat" where
  "to_float n = (let k = bit_len n - 24 in round_even n (2 ^ k) * 2 ^ k)"

definition show_hundredths :: "nat \<Rightarrow> string" where
  "show_hundredths h =
     show_nat (h div 100) @ [CHR ''.'', digit_char (h mod 100 div 10), digit_char (h mod 10)]"

definition humanReadable :: "nat \<Rightarrow> string" where
  "humanReadable number =
     (let num = to_float number;
          (unit, d) = (if num < 1024 then (CHR ''B'', 1)
                       else if num < 1024 * 1024 then (CHR ''K'', 1024)
                       else if num < 1024 * 1024 * 1024 then (CHR ''M'', 1024 * 1024)
                       else if num < 1024 * 1024 * 1024 * 1024 then (CHR ''G'', 1024 * 1024 * 1024)
                       else (CHR ''B'', 1))
      in pad_left 5 (show_hundredths (round_even (num * 100) d)) @ [unit])"

text \<open>A \<open>sprintf\<close> into a buffer of \<open>n\<close> bytes.\<close>

definition in_buf :: "nat \<Rightarrow> string \<Rightarrow> string option" where
  "in_buf n s = (if length s < n then Some s else None)"

section \<open>Lines\<close>

record counts =
  rxpackets :: nat
  rxbytes :: nat
  txpackets :: nat
  txbytes :: nat

definition tab :: char where "tab = CHR 0x09"

definition count_cols :: "bool \<Rightarrow> counts \<Rightarrow> string" where
  "count_cols packets c =
     (if packets then lld (rxpackets c) @ tab # lld (txpackets c)
      else lld (rxbytes c) @ tab # lld (txbytes c))"

definition name_col :: "nat \<Rightarrow> mem \<Rightarrow> string" where
  "name_col blanks pname =
     (if pname = [] then replicate blanks CHR '' '' @ [tab]
      else pad_right 16 (map (\<lambda>b. char_of (unat b)) pname) @ [tab])"

definition port_col :: "nat \<Rightarrow> string" where
  "port_col p = pad_right 5 (show_nat p)"

definition no_remote :: string where
  "no_remote = tab # ''*.*                    '' @ tab # ''        ''"

text \<open>The two addresses: both formats read the families at bytes 1 and 29, the ports in network
  order at 2 and 30 and the addresses at 4 and 32 (IPv4) or 8 and 36 (IPv6). With another remote
  family the address buffers stay uninitialised.\<close>

record net_api =
  ntop :: "nat \<Rightarrow> mem \<Rightarrow> string option"
  resolve :: "mem \<Rightarrow> string option"
  os_ver :: nat

definition addr_texts :: "net_api \<Rightarrow> bool \<Rightarrow> mem \<Rightarrow> (string \<times> string \<times> string option) option" where
  "addr_texts api noResolve d = do {
     lfam \<leftarrow> rd8 d 1;
     rfam \<leftarrow> rd8 d 29;
     if rfam = 30 then do {
       la \<leftarrow> slice d 8 16; ra \<leftarrow> slice d 36 16;
       l \<leftarrow> ntop api (unat lfam) la; r \<leftarrow> ntop api (unat rfam) ra;
       sa \<leftarrow> slice d 28 28;
       Some (l, r, if noResolve then None else resolve api sa)
     } else if rfam = 2 then do {
       la \<leftarrow> slice d 4 4; ra \<leftarrow> slice d 32 4;
       l \<leftarrow> ntop api (unat lfam) la; r \<leftarrow> ntop api (unat rfam) ra;
       sa \<leftarrow> slice d 28 16;
       Some (l, r, if noResolve then None else resolve api sa)
     } else None
   }"

definition udp_state :: string where
  "udp_state = ''N/A         ''"

text \<open>The line up to the counts, and the whole line.\<close>

definition udp_head :: "net_api \<Rightarrow> bool \<Rightarrow> mem \<Rightarrow> nat \<Rightarrow> string option" where
  "udp_head api noResolve d num = do {
     pid \<leftarrow> rd_le 4 d 80;
     pname \<leftarrow> cstr_at d 84;
     lport \<leftarrow> rd_be 2 d 2;
     rport \<leftarrow> rd_be 2 d 30;
     (l, r, name) \<leftarrow> addr_texts api noResolve d;
     l \<leftarrow> in_buf 40 (l @ CHR '':'' # port_col lport);
     ifindex \<leftarrow> rd_le 4 d 56;
     Some ((show_nat num @ pad_left 6 (int32 pid) @ tab # name_col 18 pname @
       pad_right 21 l @
       (if rport = 0 then no_remote
        else tab # pad_right 21 (case name of Some h \<Rightarrow> h | None \<Rightarrow> r) @ CHR '' '' # port_col rport @ [tab]) @
       int32 ifindex @ [tab]) @ udp_state)
   }"

definition print_udp_descriptor ::
  "net_api \<Rightarrow> bool \<Rightarrow> bool \<Rightarrow> counts \<Rightarrow> mem \<Rightarrow> nat \<Rightarrow> string option" where
  "print_udp_descriptor api noResolve packets cnt d num = do {
     head \<leftarrow> udp_head api noResolve d num;
     in_buf 1024 (head @ tab # count_cols packets cnt)
   }"

text \<open>Where the version keeps pid and name; any other version leaves the name \<open>NULL\<close>.\<close>

definition tcp_pid_offsets :: "nat \<Rightarrow> (nat \<times> nat) option" where
  "tcp_pid_offsets ver =
     (if ver = 7 then Some (124, 128) else if ver = 8 \<or> ver = 9 then Some (104, 108)
      else if ver = 10 then Some (124, 128) else if ver = 11 \<or> ver = 12 then Some (124, 128)
      else None)"

text \<open>The port is appended to the numeric address; a resolved name is printed without it.\<close>

definition tcp_head :: "net_api \<Rightarrow> bool \<Rightarrow> mem \<Rightarrow> nat \<Rightarrow> string option" where
  "tcp_head api noResolve d num = do {
     (pid_off, name_off) \<leftarrow> tcp_pid_offsets (os_ver api);
     pid \<leftarrow> rd_le 4 d pid_off;
     pname \<leftarrow> cstr_at d name_off;
     lport \<leftarrow> rd_be 2 d 2;
     rport \<leftarrow> rd_be 2 d 30;
     (l, r, name) \<leftarrow> addr_texts api noResolve d;
     r \<leftarrow> (if (case name of Some h \<Rightarrow> h | None \<Rightarrow> r) \<noteq> [] then in_buf 40 (r @ CHR '':'' # port_col rport)
           else Some ''*.*'');
     l \<leftarrow> in_buf 40 (l @ CHR '':'' # port_col lport);
     ifindex \<leftarrow> rd_le 4 d 56;
     state \<leftarrow> rd_le 4 d 60;
     Some ((show_nat num @ pad_left 6 (int32 pid)) @ tab # name_col 17 pname @
       pad_right 21 l @
       (if rport = 0 then no_remote
        else tab # pad_right 25 (case name of Some h \<Rightarrow> h | None \<Rightarrow> r) @ [tab]) @
       int32 ifindex @ tab # pad_right 10 (stateToText state))
   }"

definition print_tcp_descriptor ::
  "net_api \<Rightarrow> bool \<Rightarrow> bool \<Rightarrow> counts \<Rightarrow> mem \<Rightarrow> nat \<Rightarrow> string option" where
  "print_tcp_descriptor api noResolve packets cnt d num = do {
     head \<leftarrow> tcp_head api noResolve d num;
     in_buf 1024 (head @ tab # count_cols packets cnt)
   }"

text \<open>\<open>strrchr(desc, '\t')\<close> and the cut there.\<close>

fun cut_last_tab :: "string \<Rightarrow> string option" where
  "cut_last_tab [] = None"
| "cut_last_tab (c # cs) =
     (case cut_last_tab cs of
        Some s \<Rightarrow> Some (c # s)
      | None \<Rightarrow> if c = tab then Some [] else None)"

text \<open>\<open>update_provider_statistics\<close> on a line: the last two columns are cut and the new counts
  appended, in the line's buffer of 1024 bytes. With a single tab the cut stays.\<close>

definition new_cols :: "bool \<Rightarrow> bool \<Rightarrow> counts \<Rightarrow> string option" where
  "new_cols packets human c =
     (if packets then Some (tab # pad_left 7 (lld (rxpackets c)) @ tab # pad_left 7 (lld (txpackets c)))
      else if human then do {
        rx \<leftarrow> in_buf 15 (humanReadable (rxbytes c));
        tx \<leftarrow> in_buf 15 (humanReadable (txbytes c));
        Some (tab # rx @ tab # tx)
      }
      else Some (tab # lld (rxbytes c) @ tab # lld (txbytes c)))"

definition update_line :: "bool \<Rightarrow> bool \<Rightarrow> counts \<Rightarrow> string \<Rightarrow> string option" where
  "update_line packets human c desc =
     (case cut_last_tab desc of
        None \<Rightarrow> Some desc
      | Some s \<Rightarrow>
          (case cut_last_tab s of
             None \<Rightarrow> Some s
           | Some s' \<Rightarrow> do { cols \<leftarrow> new_cols packets human c; in_buf 1024 (s' @ cols) }))"

section \<open>Which lines are shown\<close>

record filters =
  wantUDP :: bool
  wantTCP :: bool
  wantListen :: bool

text \<open>The test of \<open>print_descriptors\<close> and the colour it picks.\<close>

datatype colour = Plain | UdpCol | EstCol | ListenCol | SynCol

definition row_colour :: "string \<Rightarrow> colour" where
  "row_colour d =
     (if strstr d ''N/A'' then UdpCol
      else if strstr d ''SYN_SENT'' then SynCol
      else if strstr d ''LISTEN'' then ListenCol
      else if strstr d ''ESTABLISHED'' then EstCol else Plain)"

definition row_shown :: "filters \<Rightarrow> string \<Rightarrow> bool" where
  "row_shown w d =
     (if strstr d ''N/A'' then wantUDP w
      else wantTCP w \<and> (strstr d ''LISTEN'' \<longrightarrow> wantListen w))"

section \<open>Columns\<close>

lemma cut_last_tab_none: "cut_last_tab s = None \<longleftrightarrow> tab \<notin> set s"
  by (induction s) (auto split: option.splits)

lemma cut_last_tab_last: "tab \<notin> set b \<Longrightarrow> cut_last_tab (pre @ tab # b) = Some pre"
  by (induction pre) (auto simp: cut_last_tab_none [symmetric])

lemma update_line_cols:
  assumes "tab \<notin> set a" "tab \<notin> set b"
  shows "update_line packets human c (pre @ tab # a @ tab # b) =
    do { cols \<leftarrow> new_cols packets human c; in_buf 1024 (pre @ cols) }"
  using cut_last_tab_last [OF assms(2), of "pre @ tab # a"] cut_last_tab_last [OF assms(1), of pre]
  by (simp add: update_line_def)

lemma digit_char_plain: "d < 10 \<Longrightarrow> digit_char d \<noteq> tab"
proof
  assume "d < 10" "digit_char d = tab"
  then have "of_char (digit_char d) = (of_char tab :: nat)" by simp
  then show False using \<open>d < 10\<close> by (simp add: digit_char_def tab_def take_bit_eq_mod)
qed

lemma lld_no_tab: "tab \<notin> set (lld n)"
proof -
  have "tab \<notin> set (show_nat k)" for k
    using show_nat_digits digit_char_plain by metis
  then show ?thesis by (auto simp: lld_def show_int_def) (simp_all add: tab_def)
qed

text \<open>Appending to the line and cutting the counts again.\<close>

lemma update_reprint:
  "update_line False False c' (head @ tab # count_cols False c) = in_buf 1024 (head @ tab # count_cols False c')"
  using update_line_cols [of "lld (rxbytes c)" "lld (txbytes c)" False False c' head]
  by (simp add: count_cols_def new_cols_def lld_no_tab)

lemma in_buf_Some: "in_buf n s = Some t \<longleftrightarrow> t = s \<and> length s < n"
  by (auto simp: in_buf_def)

lemma strstr_suffix:
  "strstr s n \<Longrightarrow> strstr (pre @ s) n" "strstr s n \<Longrightarrow> strstr (c # s) n"
  unfolding strstr_iff by (metis append.assoc, metis append_Cons)

lemma strstr_prefix: "strstr s n \<Longrightarrow> strstr (s @ post) n"
  unfolding strstr_iff by (metis append.assoc)

lemma udp_state_na: "strstr udp_state ''N/A''"
  by code_simp

lemma udp_head_na: "udp_head api nr d num = Some head \<Longrightarrow> strstr head ''N/A''"
  unfolding udp_head_def
  by (auto split: Option.bind_splits prod.splits if_splits intro!: strstr_suffix udp_state_na)

text \<open>A system for the examples: dotted decimal for IPv4, a fixed text for IPv6, no names.\<close>

definition sample_api :: net_api where
  "sample_api = \<lparr>ntop = (\<lambda>fam a. if fam = 2 then Some (concat (map (\<lambda>b. show_nat (unat b) @ ''.'') a))
       else if fam = 30 then Some ''2001:db80:1111:2222:3333:4444:5555:6666'' else None),
     resolve = (\<lambda>_. None), os_ver = 12\<rparr>"

definition sample_desc :: "byte \<Rightarrow> mem" where
  "sample_desc fam = [16, fam, 0, 80, 127, 0, 0, 1] @ replicate 20 0 @ [16, fam, 1, 187, 10, 0, 0, 7] @
     replicate 20 0 @ [4, 0, 0, 0, 4, 0, 0, 0] @ replicate 96 0"

lemmas sample_simps = sample_api_def sample_desc_def

text \<open>C16: A message with new counts rewrites the line of its source in place: what stands in front of the counts is kept,
  however the old ones were shown. Showing bytes, the line becomes the one that the description would be printed as
  with the new counts. Showing packets, it becomes that line only for numbers of seven digits or more: here they are
  padded to seven columns, and a description is printed without padding. Human-readable numbers, which a description
  is never printed with, need a buffer of 15 bytes each.\<close>

theorem counts_update_reprints:
  assumes "(print, head) \<in> {(print_udp_descriptor, udp_head), (print_tcp_descriptor, tcp_head)}" "print api nr p c d num = Some old"
  shows "update_line False False c' old = print api nr False c' d num \<and>
    (\<exists>h. head api nr d num = Some h \<and> old = h @ tab # count_cols p c \<and>
       update_line True human c' old = in_buf 1024 (h @ tab # pad_left 7 (lld (rxpackets c')) @ tab # pad_left 7 (lld (txpackets c'))) \<and>
       update_line False True c' old =
         (if length (humanReadable (rxbytes c')) < 15 \<and> length (humanReadable (txbytes c')) < 15
          then in_buf 1024 (h @ tab # humanReadable (rxbytes c') @ tab # humanReadable (txbytes c')) else None))"
proof -
  have print: "print api nr q k d num = do { h \<leftarrow> head api nr d num; in_buf 1024 (h @ tab # count_cols q k) }" for q k
    using assms(1) by (auto simp: print_udp_descriptor_def print_tcp_descriptor_def)
  then obtain h where h: "head api nr d num = Some h" "old = h @ tab # count_cols p c"
    using assms(2) by (auto simp: in_buf_def split: Option.bind_splits if_splits)
  have "update_line packets human c' old = do { cols \<leftarrow> new_cols packets human c'; in_buf 1024 (h @ cols) }" for packets human
    unfolding h(2) using update_line_cols lld_no_tab by (cases p) (simp_all add: count_cols_def)
  then show ?thesis using h print by (auto simp: new_cols_def in_buf_def count_cols_def)
qed

lemma counts_update_reprints_witness:
  "let c = \<lparr>rxpackets = 0, rxbytes = 0, txpackets = 0, txbytes = 0\<rparr>;
       c' = \<lparr>rxpackets = 1, rxbytes = 70, txpackets = 2, txbytes = 140\<rparr>
   in update_line False False c' (the (print_tcp_descriptor sample_api True False c (sample_desc 2) 5)) =
     print_tcp_descriptor sample_api True False c' (sample_desc 2) 5"
proof -
  let ?c = "\<lparr>rxpackets = 0, rxbytes = 0, txpackets = 0, txbytes = 0\<rparr>"
  have "print_tcp_descriptor sample_api True False ?c (sample_desc 2) 5 \<noteq> None" by code_simp
  then obtain old where old: "print_tcp_descriptor sample_api True False ?c (sample_desc 2) 5 = Some old" by blast
  show ?thesis
    using counts_update_reprints [of print_tcp_descriptor tcp_head sample_api True False ?c "sample_desc 2" 5 old] old
    by (simp add: Let_def)
qed

text \<open>The kind of a line is read off its text. A UDP line is always taken for one; a TCP line is
  taken for UDP as soon as its process name contains \<open>N/A\<close>.\<close>

lemma udp_row_classified:
  "(print_udp_descriptor api nr p c d num = Some line \<longrightarrow>
      row_colour line = UdpCol \<and> row_shown w line = wantUDP w) \<and>
   (print_tcp_descriptor api nr p c d num = Some line \<and>
      tcp_pid_offsets (os_ver api) = Some (po, no) \<and> cstr_at d no = Some name \<and>
      strstr (map (\<lambda>b. char_of (unat b)) name) ''N/A'' \<longrightarrow> row_shown w line = wantUDP w)"
  (is "?udp \<and> ?tcp")
proof
  show ?udp
    by (auto simp: print_udp_descriptor_def in_buf_Some row_colour_def row_shown_def
        split: Option.bind_splits dest!: udp_head_na intro: strstr_prefix)
  have name: "strstr (name_col k name) ''N/A''"
    if "strstr (map (\<lambda>b. char_of (unat b)) name) ''N/A''" for k
  proof -
    have "name \<noteq> []" using that by (auto simp: strstr_def)
    then show ?thesis using that by (auto simp: name_col_def pad_right_def intro!: strstr_prefix)
  qed
  have strstr_inside: "\<not> strstr (a @ b @ tab # name_col k name @ z) ''N/A'' \<Longrightarrow> False"
    if "strstr (map (\<lambda>b. char_of (unat b)) name) ''N/A''" for a b k z
    using name [OF that, of k] by (auto intro: strstr_suffix strstr_prefix)
  show ?tcp
    using strstr_inside
    by (auto simp: print_tcp_descriptor_def tcp_head_def in_buf_Some row_shown_def
        split: Option.bind_splits prod.splits if_splits)
qed

section \<open>Buffers\<close>

text \<open>The address buffers have 40 bytes, room for every IPv6 address, but the port is appended
  there: a local or a remote address of 34 characters or more writes past its buffer.\<close>

theorem long_address_overflows:
  assumes "addr_texts api nr d = Some (l, r, None)" "34 \<le> length l \<or> 34 \<le> length r"
  shows "print_tcp_descriptor api nr p c d num = None"
proof -
  have "in_buf 40 (x @ CHR '':'' # port_col k) = None" if "34 \<le> length x" for x k
    using that by (simp add: in_buf_def port_col_def)
  then show ?thesis using assms
    by (auto simp: print_tcp_descriptor_def tcp_head_def split: Option.bind_splits)
qed

lemma long_address_overflows_witness:
  "print_tcp_descriptor sample_api True False \<lparr>rxpackets = 0, rxbytes = 0, txpackets = 0, txbytes = 0\<rparr>
     (sample_desc 30) 5 = None"
proof -
  have "addr_texts sample_api True (sample_desc 30) =
    Some (''2001:db80:1111:2222:3333:4444:5555:6666'', ''2001:db80:1111:2222:3333:4444:5555:6666'', None)"
    by code_simp
  then show ?thesis by (rule long_address_overflows) simp
qed

text \<open>Lower bounds: digits, and the conversion to \<open>float\<close>.\<close>

lemma show_nat_length_ge: "10 ^ k \<le> n \<Longrightarrow> k < length (show_nat n)"
proof (induction n arbitrary: k rule: show_nat.induct)
  case (1 n)
  show ?case
  proof (cases k)
    case 0
    then show ?thesis by (simp add: show_nat.simps [of n])
  next
    case (Suc j)
    then have "\<not> n < 10" using 1(2) by (metis not_less one_le_numeral one_le_power
        order_trans mult_le_mono2 nat_mult_1_right power_Suc)
    moreover have "10 ^ j \<le> n div 10" using 1(2) Suc by (simp add: less_eq_div_iff_mult_less_eq mult.commute)
    ultimately show ?thesis using 1(1) [of j] Suc by (simp add: show_nat.simps [of n])
  qed
qed

lemma bit_len_bounds: "0 < n \<Longrightarrow> 2 ^ (bit_len n - 1) \<le> n \<and> n < 2 ^ bit_len n \<and> 0 < bit_len n"
proof (induction n rule: bit_len.induct)
  case (1 n)
  show ?case
  proof (cases "n div 2 = 0")
    case True
    then show ?thesis using 1(2) by (auto simp: bit_len.simps [of n] bit_len.simps [of 0])
  next
    case False
    then have "2 ^ (bit_len (n div 2) - 1) \<le> n div 2 \<and> n div 2 < 2 ^ bit_len (n div 2) \<and> 0 < bit_len (n div 2)"
      using 1 by simp
    moreover have "(2::nat) ^ bit_len (n div 2) = 2 * 2 ^ (bit_len (n div 2) - 1)"
      using calculation by (metis Suc_pred' power_Suc)
    moreover have "2 * (n div 2) \<le> n" "n < 2 * (n div 2) + 2" by auto
    ultimately show ?thesis using 1(2) by (simp add: bit_len.simps [of n]) linarith
  qed
qed

lemma to_float_ge: "2 ^ m \<le> n \<Longrightarrow> 2 ^ m \<le> to_float n"
proof -
  assume le: "2 ^ m \<le> n"
  let ?k = "bit_len n - 24"
  have b: "2 ^ (bit_len n - 1) \<le> n" "n < 2 ^ bit_len n" "0 < bit_len n"
    using bit_len_bounds [of n] le by (cases "n = 0"; auto)+
  have "m < bit_len n" using le b(2) by (metis le_less_trans one_less_numeral_iff power_less_imp_less_exp semiring_norm(76))
  have low: "n div 2 ^ ?k * 2 ^ ?k \<le> to_float n"
    by (simp add: to_float_def round_even_def Let_def)
  show "2 ^ m \<le> to_float n"
  proof (cases "?k = 0")
    case True
    then show ?thesis using le low by simp
  next
    case False
    then have split: "bit_len n - 1 = 23 + ?k" by simp
    then have "2 ^ 23 * 2 ^ ?k \<le> n" using b(1) by (simp only: power_add)
    then have "2 ^ 23 \<le> n div 2 ^ ?k" by (simp only: less_eq_div_iff_mult_less_eq zero_less_power zero_less_numeral)
    then have "2 ^ (bit_len n - 1) \<le> n div 2 ^ ?k * 2 ^ ?k" unfolding split power_add by (rule mult_le_mono1)
    moreover have "(2::nat) ^ m \<le> 2 ^ (bit_len n - 1)" using \<open>m < bit_len n\<close> by (intro power_increasing) auto
    ultimately show ?thesis using low by linarith
  qed
qed

lemma round_even_mult: "d dvd x \<Longrightarrow> 0 < d \<Longrightarrow> round_even x d = x div d"
  by (auto simp: round_even_def Let_def)

lemma round_even_1 [simp]: "round_even x (Suc 0) = x"
  by (simp add: round_even_def)

lemma round_even_le: "0 < d \<Longrightarrow> x \<le> y * d \<Longrightarrow> round_even x d \<le> y"
proof -
  assume d: "0 < d" and le: "x \<le> y * d"
  show "round_even x d \<le> y"
  proof (cases "x = y * d")
    case True
    then show ?thesis using d by (simp add: round_even_mult)
  next
    case False
    then have "x div d < y" using d le by (simp add: div_less_iff_less_mult)
    then show ?thesis by (auto simp: round_even_def Let_def)
  qed
qed

text \<open>The human-readable counts go to buffers of 15 bytes. A count below one terabyte (as a
  \<open>float\<close>) takes at most nine characters; from one terabyte on the number is printed undivided and
  does not fit.\<close>

theorem humanReadable_fits:
  "in_buf 15 (humanReadable n) \<noteq> None \<longleftrightarrow> to_float n < 1024 * 1024 * 1024 * 1024"
proof -
  let ?num = "to_float n"
  have len: "length (show_hundredths h) = length (show_nat (h div 100)) + 3" for h
    by (simp add: show_hundredths_def)
  have small: "length (show_hundredths (round_even (?num * 100) d)) \<le> 7" if "?num < 1024 * d" for d
  proof -
    have "round_even (?num * 100) d \<le> 102400" using that by (intro round_even_le) auto
    then have "round_even (?num * 100) d div 100 < 10 ^ 4" by simp
    then show ?thesis using show_nat_length [of 4] by (simp add: len)
  qed
  have big: "15 \<le> length (show_hundredths (?num * 100))" if "1024 * 1024 * 1024 * 1024 \<le> ?num"
    using show_nat_length_ge [of 12 ?num] that by (simp add: len)
  show ?thesis
    using small [of 1] small [of 1024] small [of "1024 * 1024"] small [of "1024 * 1024 * 1024"] big
    by (auto simp: humanReadable_def in_buf_def Let_def round_even_mult [of 1] not_less)
qed

end
