(* ===== verification/Lsock_Table.thy ===== *)
theory Lsock_Table
  imports Lsock_Text
begin

text \<open>
  The table of network sources of \<open>src/src/lsock.c\<close>: the arrays \<open>descriptors\<close> and
  \<open>descriptorCounts\<close>, what is printed from them, and the message handler \<open>process_nstat_msg\<close> with
  the request it may send in between (\<open>refreshSrc\<close>). Messages have the layouts of
  \<open>src/include/lsock.h\<close>.

  The kernel's answers are the list \<open>inbox\<close>, one datagram per \<open>read\<close>; a read behind its end does
  not return and is \<open>None\<close>. Requests are appended to \<open>sent\<close>, output to \<open>printed\<close>.
\<close>

section \<open>State\<close>

text \<open>A table entry is the literal \<open>"reading"\<close> until the source is described, then a line in a heap
  buffer.\<close>

datatype desc = Reading | Line string

datatype request =
    GetSrcDesc nat nat
  | AddAllSrcs nat nat
  | QuerySrc nat nat

datatype out =
    Rows "string option" "(colour \<times> string) list"
  | Success nat
  | UnknownType nat
  | ErrorReply nat nat
  | Header

record nstat =
  descriptors :: "nat \<Rightarrow> desc option"
  descriptorCounts :: "nat \<Rightarrow> counts"
  want :: filters
  wantPackets :: bool
  wantHumanReadable :: bool
  wantCurses :: bool
  noResolve :: bool
  message :: string
  inbox :: "mem list"
  sent :: "request list"
  printed :: "out list"

definition MAX_DESC :: nat where "MAX_DESC = 2000"

definition no_counts :: counts where
  "no_counts = \<lparr>rxpackets = 0, rxbytes = 0, txpackets = 0, txbytes = 0\<rparr>"

definition send :: "request \<Rightarrow> nstat \<Rightarrow> nstat" where
  "send r st = st\<lparr>sent := sent st @ [r]\<rparr>"

definition emit :: "out \<Rightarrow> nstat \<Rightarrow> nstat" where
  "emit x st = st\<lparr>printed := printed st @ [x]\<rparr>"

text \<open>\<open>read\<close> of a datagram into a buffer of \<open>n\<close> bytes.\<close>

definition receive :: "nat \<Rightarrow> nstat \<Rightarrow> (mem \<times> nstat) option" where
  "receive n st = (case inbox st of [] \<Rightarrow> None | m # rest \<Rightarrow> Some (take n m, st\<lparr>inbox := rest\<rparr>))"

section \<open>Output\<close>

definition table_rows :: "nstat \<Rightarrow> (colour \<times> string) list" where
  "table_rows st = List.map_filter (\<lambda>i. case descriptors st i of
       Some (Line d) \<Rightarrow> if row_shown (want st) d then Some (row_colour d, d) else None
     | _ \<Rightarrow> None) [0..<MAX_DESC]"

definition print_descriptors :: "nstat \<Rightarrow> nstat" where
  "print_descriptors st =
     (let st = (if \<not> wantUDP (want st) \<and> \<not> wantTCP (want st)
                then st\<lparr>message := ''Warning: Both TCP and UDP are filtered''\<rparr> else st)
      in emit (Rows (if wantCurses st then Some (message st) else None) (table_rows st)) st)"

section \<open>Messages\<close>

definition update_provider_statistics :: "nstat \<Rightarrow> nat \<Rightarrow> nstat option" where
  "update_provider_statistics st prov =
     (case descriptors st prov of
        Some (Line d) \<Rightarrow> do {
          d' \<leftarrow> update_line (wantPackets st) (wantHumanReadable st) (descriptorCounts st prov) d;
          Some (st\<lparr>descriptors := (descriptors st)(prov \<mapsto> Line d')\<rparr>)
        }
      | _ \<Rightarrow> Some st)"

definition src_added :: "nstat \<Rightarrow> mem \<Rightarrow> nstat option" where
  "src_added st m = do {
     i \<leftarrow> rd_le 8 m 20;
     if i < MAX_DESC
     then Some (send (GetSrcDesc i 2411)
            (st\<lparr>descriptorCounts := (descriptorCounts st)(i := no_counts),
                descriptors := (descriptors st)(i \<mapsto> Reading)\<rparr>))
     else None
   }"

text \<open>\<open>free\<close> of the literal is undefined.\<close>

definition src_removed :: "nstat \<Rightarrow> mem \<Rightarrow> nstat option" where
  "src_removed st m = do {
     i \<leftarrow> rd_le 8 m 16;
     if i < MAX_DESC
     then (case descriptors st i of
             None \<Rightarrow> Some st
           | Some Reading \<Rightarrow> None
           | Some (Line _) \<Rightarrow>
               (let st = st\<lparr>descriptors := (descriptors st)(i := None)\<rparr>
                in Some (if wantCurses st then print_descriptors st else st)))
     else None
   }"

definition src_counts :: "nstat \<Rightarrow> mem \<Rightarrow> nstat option" where
  "src_counts st m = do {
     i \<leftarrow> rd_le 8 m 16;
     _ \<leftarrow> slice m 24 64;
     rxp \<leftarrow> rd_le 8 m 24; rxb \<leftarrow> rd_le 8 m 32; txp \<leftarrow> rd_le 8 m 40; txb \<leftarrow> rd_le 8 m 48;
     if i < MAX_DESC
     then update_provider_statistics
            (st\<lparr>descriptorCounts := (descriptorCounts st)
                  (i := \<lparr>rxpackets = rxp, rxbytes = rxb, txpackets = txp, txbytes = txb\<rparr>)\<rparr>) i
     else None
   }"

text \<open>The line of a described source: providers 2 and 3 are TCP, 4 and 5 UDP.\<close>

definition src_line :: "net_api \<Rightarrow> nstat \<Rightarrow> mem \<Rightarrow> nat \<Rightarrow> nat \<Rightarrow> string option" where
  "src_line api st m prov i =
     (if prov = 2 \<or> prov = 3
      then print_tcp_descriptor api (noResolve st) (wantPackets st) (descriptorCounts st i) (drop 36 m) i
      else print_udp_descriptor api (noResolve st) (wantPackets st) (descriptorCounts st i) (drop 36 m) i)"

text \<open>A TCP line that mentions \<open>CLOSED\<close> and a parenthesis asks for the description again, and
  handles the next message before the line is stored.\<close>

definition wants_refresh :: "nat \<Rightarrow> string \<Rightarrow> bool" where
  "wants_refresh prov line \<longleftrightarrow> (prov = 2 \<or> prov = 3) \<and> strstr line ''CLOSED'' \<and> strstr line ''(''"

function process_nstat_msg :: "net_api \<Rightarrow> nstat \<Rightarrow> mem \<Rightarrow> (nstat \<times> nat) option" where
  "process_nstat_msg api st m = do {
     type \<leftarrow> rd_le 4 m 8;
     context \<leftarrow> rd_le 8 m 0;
     st \<leftarrow>
       (if type = 10001 then src_added st m
        else if type = 10002 then src_removed st m
        else if type = 10004 then src_counts st m
        else if type = 10003 then do {
          prov \<leftarrow> rd_le 4 m 32;
          i \<leftarrow> rd_le 8 m 16;
          if \<not> (2 \<le> prov \<and> prov \<le> 5) then Some st
          else if \<not> i < MAX_DESC then None
          else do {
            line \<leftarrow> src_line api st m prov i;
            st \<leftarrow> (if wants_refresh prov line
                  then (case inbox st of
                          [] \<Rightarrow> None
                        | x # rest \<Rightarrow>
                            map_option fst (process_nstat_msg api
                              (send (GetSrcDesc i 2410) st\<lparr>inbox := rest\<rparr>) (take 2048 x)))
                  else Some st);
            Some (st\<lparr>descriptors := (descriptors st)(i \<mapsto> Line line)\<rparr>)
          }
        }
        else if type = 1 then Some st
        else if type = 0 then Some (emit (Success context) st)
        else Some (emit (UnknownType type) st));
     Some (st, type)
   }"
  by pat_completeness auto
termination
  by (relation "measure (\<lambda>(_, st, _). length (inbox st))") (auto simp: send_def)

declare process_nstat_msg.simps [simp del]

definition refreshSrc :: "net_api \<Rightarrow> nstat \<Rightarrow> nat \<Rightarrow> nstat option" where
  "refreshSrc api st num = do {
     (m, st) \<leftarrow> receive 2048 (send (GetSrcDesc num 2410) st);
     map_option fst (process_nstat_msg api st m)
   }"

section \<open>The lines of the table\<close>

text \<open>What a line of source \<open>i\<close> shows: the head of a description under that number, and behind it, in two columns, what
  was received and what was sent, as packets or as bytes. The counts are those of the source; only a line that
  mentions \<open>CLOSED\<close> and a parenthesis may show others, because the handler then deals with another message, which
  may bring new counts, before it stores the line.\<close>

definition shown_counts :: "counts \<Rightarrow> (string \<times> string) set" where
  "shown_counts c =
     {(lld (rxpackets c), lld (txpackets c)), (lld (rxbytes c), lld (txbytes c)),
      (pad_left 7 (lld (rxpackets c)), pad_left 7 (lld (txpackets c))),
      (humanReadable (rxbytes c), humanReadable (txbytes c))}"

definition ends_in_counts :: "net_api \<Rightarrow> nat \<Rightarrow> counts \<Rightarrow> string \<Rightarrow> bool" where
  "ends_in_counts api i c s \<longleftrightarrow>
     (\<exists>noResolve d head rx tx. Some head \<in> {udp_head api noResolve d i, tcp_head api noResolve d i} \<and>
        (rx, tx) \<in> shown_counts c \<and> s = head @ tab # rx @ tab # tx)"

definition line_ok :: "net_api \<Rightarrow> nat \<Rightarrow> counts \<Rightarrow> string \<Rightarrow> bool" where
  "line_ok api i c s \<longleftrightarrow>
     ends_in_counts api i c s \<or> strstr s ''CLOSED'' \<and> strstr s ''('' \<and> (\<exists>c'. ends_in_counts api i c' s)"

definition table_ok :: "net_api \<Rightarrow> nstat \<Rightarrow> bool" where
  "table_ok api st \<longleftrightarrow> (\<forall>i s. descriptors st i = Some (Line s) \<longrightarrow> line_ok api i (descriptorCounts st i) s)"

lemma table_okD: "table_ok api st \<Longrightarrow> descriptors st i = Some (Line s) \<Longrightarrow> line_ok api i (descriptorCounts st i) s"
  by (simp add: table_ok_def)

lemma table_ok_cong:
  "descriptors st' = descriptors st \<Longrightarrow> descriptorCounts st' = descriptorCounts st \<Longrightarrow> table_ok api st' = table_ok api st"
  by (simp add: table_ok_def)

lemma table_ok_upd:
  "table_ok api st \<Longrightarrow> (\<forall>s. x = Some (Line s) \<longrightarrow> line_ok api i (descriptorCounts st i) s) \<Longrightarrow>
   table_ok api (st\<lparr>descriptors := (descriptors st)(i := x)\<rparr>)"
  by (auto simp: table_ok_def)

lemma frame [simp]:
  "descriptors (send r st) = descriptors st" "descriptors (emit x st) = descriptors st"
  "inbox (send r st) = inbox st" "inbox (emit x st) = inbox st"
  "descriptors (print_descriptors st) = descriptors st" "inbox (print_descriptors st) = inbox st"
  "descriptorCounts (send r st) = descriptorCounts st" "descriptorCounts (emit x st) = descriptorCounts st"
  "descriptorCounts (print_descriptors st) = descriptorCounts st"
  by (simp_all add: send_def emit_def print_descriptors_def Let_def)

lemma show_nat_no_tab: "tab \<notin> set (show_nat k)"
  using show_nat_digits digit_char_plain by metis

lemma in_bufD: "in_buf n s = Some t \<Longrightarrow> t = s \<and> length s < n"
  by (simp add: in_buf_Some)

lemma humanReadable_no_tab: "tab \<notin> set (humanReadable n)"
proof -
  have "tab \<notin> set (show_hundredths h)" for h
  proof -
    have "h mod 100 div 10 < 10" by (simp add: less_mult_imp_div_less)
    then show ?thesis
      using digit_char_plain [of "h mod 100 div 10"] digit_char_plain [of "h mod 10"] show_nat_no_tab
      by (auto simp: show_hundredths_def) (simp_all add: tab_def)
  qed
  then have "tab \<notin> set (pad_left 5 (show_hundredths h) @ [u])" if "u \<noteq> tab" for h u
    using that by (auto simp: pad_left_def) (simp add: tab_def)
  moreover have "CHR ''B'' \<noteq> tab" "CHR ''K'' \<noteq> tab" "CHR ''M'' \<noteq> tab" "CHR ''G'' \<noteq> tab"
    by (simp_all add: tab_def)
  ultimately show ?thesis by (auto simp: humanReadable_def Let_def)
qed

lemma shown_no_tab: "(rx, tx) \<in> shown_counts c \<Longrightarrow> tab \<notin> set rx \<and> tab \<notin> set tx"
proof -
  have "tab \<notin> set (pad_left k (lld n))" for k n
    using lld_no_tab by (auto simp: pad_left_def) (simp add: tab_def)
  then show "(rx, tx) \<in> shown_counts c \<Longrightarrow> ?thesis"
    using lld_no_tab humanReadable_no_tab by (auto simp: shown_counts_def)
qed

lemma new_cols_shown:
  "new_cols p h c = Some cols \<Longrightarrow> \<exists>rx tx. cols = tab # rx @ tab # tx \<and> (rx, tx) \<in> shown_counts c"
  by (auto simp: new_cols_def shown_counts_def split: if_splits Option.bind_splits dest!: in_bufD)

lemma count_cols_shown: "\<exists>rx tx. count_cols p c = rx @ tab # tx \<and> (rx, tx) \<in> shown_counts c"
  by (auto simp: count_cols_def shown_counts_def)

text \<open>Updating puts the counts of the source at the end of the line, whatever stood there.\<close>

lemma update_line_shows:
  assumes "ends_in_counts api i c' s" "update_line p h c s = Some t"
  shows "ends_in_counts api i c t"
proof -
  obtain noResolve d head rx tx where s: "Some head \<in> {udp_head api noResolve d i, tcp_head api noResolve d i}"
      "(rx, tx) \<in> shown_counts c'" "s = head @ tab # rx @ tab # tx"
    using assms(1) unfolding ends_in_counts_def by blast
  then obtain cols where "new_cols p h c = Some cols" "t = head @ cols"
    using assms(2) update_line_cols [of rx tx] shown_no_tab [OF s(2)] by (auto split: Option.bind_splits dest!: in_bufD)
  then show ?thesis using new_cols_shown s(1) unfolding ends_in_counts_def by blast
qed

lemma src_line_shows: "src_line api st m prov i = Some line \<Longrightarrow> ends_in_counts api i (descriptorCounts st i) line"
  using count_cols_shown [of "wantPackets st" "descriptorCounts st i"]
  by (auto simp: src_line_def print_tcp_descriptor_def print_udp_descriptor_def ends_in_counts_def
      split: Option.bind_splits if_splits dest!: in_bufD) metis+

lemma update_provider_counts:
  "update_provider_statistics st i = Some st' \<Longrightarrow> descriptorCounts st' = descriptorCounts st"
  by (auto simp: update_provider_statistics_def split: Option.bind_splits option.splits desc.splits)

lemma src_counts_ok:
  assumes "table_ok api st" "update_provider_statistics (st\<lparr>descriptorCounts := (descriptorCounts st)(i := c)\<rparr>) i = Some st'"
  shows "table_ok api st'"
proof (cases "\<exists>s. descriptors st i = Some (Line s)")
  case True
  then obtain s where s: "descriptors st i = Some (Line s)" by blast
  then obtain t where t: "update_line (wantPackets st) (wantHumanReadable st) c s = Some t"
      "st' = st\<lparr>descriptorCounts := (descriptorCounts st)(i := c), descriptors := (descriptors st)(i \<mapsto> Line t)\<rparr>"
    using assms(2) by (auto simp: update_provider_statistics_def split: Option.bind_splits)
  have "ends_in_counts api i c t"
    using table_okD [OF assms(1) s] update_line_shows [OF _ t(1)] by (auto simp: line_ok_def)
  then show ?thesis using assms(1) t(2) by (auto simp: table_ok_def line_ok_def)
next
  case False
  then have "st' = st\<lparr>descriptorCounts := (descriptorCounts st)(i := c)\<rparr>"
    using assms(2) by (auto simp: update_provider_statistics_def split: option.splits desc.splits)
  then show ?thesis using assms(1) False by (auto simp: table_ok_def)
qed

lemma src_ops_ok:
  "src_added st m = Some st' \<Longrightarrow> table_ok api st \<Longrightarrow> table_ok api st'"
  "src_removed st m = Some st' \<Longrightarrow> table_ok api st \<Longrightarrow> table_ok api st'"
  "src_counts st m = Some st' \<Longrightarrow> table_ok api st \<Longrightarrow> table_ok api st'"
proof -
  show "src_added st m = Some st' \<Longrightarrow> table_ok api st \<Longrightarrow> table_ok api st'"
    by (auto simp: src_added_def table_ok_def send_def split: Option.bind_splits if_splits)
  show "src_removed st m = Some st' \<Longrightarrow> table_ok api st \<Longrightarrow> table_ok api st'"
    by (auto simp: src_removed_def table_ok_def Let_def
        split: Option.bind_splits if_splits option.splits desc.splits)
  show "src_counts st m = Some st' \<Longrightarrow> table_ok api st \<Longrightarrow> table_ok api st'"
    by (auto simp: src_counts_def split: Option.bind_splits if_splits intro: src_counts_ok)
qed

text \<open>The abstract table: the set of sources it knows, and what a message does to it.\<close>

definition live :: "nstat \<Rightarrow> nat set" where
  "live st = dom (descriptors st)"

datatype src_event = Added nat | Removed nat | Described nat | Other

definition decode :: "mem \<Rightarrow> src_event" where
  "decode m =
     (case (rd_le 4 m 8, rd_le 8 m 20, rd_le 8 m 16, rd_le 4 m 32) of
        (Some t, added, src, prov) \<Rightarrow>
          if t = 10001 then (case added of Some i \<Rightarrow> Added i | None \<Rightarrow> Other)
          else if t = 10002 then (case src of Some i \<Rightarrow> Removed i | None \<Rightarrow> Other)
          else if t = 10003 then
            (case (src, prov) of
               (Some i, Some p) \<Rightarrow> if 2 \<le> p \<and> p \<le> 5 then Described i else Other
             | _ \<Rightarrow> Other)
          else Other
      | _ \<Rightarrow> Other)"

fun live_step :: "src_event \<Rightarrow> nat set \<Rightarrow> nat set" where
  "live_step (Added i) S = insert i S"
| "live_step (Removed i) S = S - {i}"
| "live_step (Described i) S = insert i S"
| "live_step Other S = S"

lemma src_ops_live:
  "src_added st m = Some st' \<Longrightarrow>
     \<exists>i. rd_le 8 m 20 = Some i \<and> live st' = insert i (live st) \<and> inbox st' = inbox st"
  "src_removed st m = Some st' \<Longrightarrow>
     \<exists>i. rd_le 8 m 16 = Some i \<and> live st' = live st - {i} \<and> inbox st' = inbox st"
  "src_counts st m = Some st' \<Longrightarrow> live st' = live st \<and> inbox st' = inbox st"
proof -
  show "src_added st m = Some st' \<Longrightarrow>
     \<exists>i. rd_le 8 m 20 = Some i \<and> live st' = insert i (live st) \<and> inbox st' = inbox st"
    by (auto simp: src_added_def live_def split: Option.bind_splits if_splits)
  show "src_removed st m = Some st' \<Longrightarrow>
     \<exists>i. rd_le 8 m 16 = Some i \<and> live st' = live st - {i} \<and> inbox st' = inbox st"
    by (auto simp: src_removed_def live_def Let_def split: Option.bind_splits if_splits option.splits desc.splits)
  show "src_counts st m = Some st' \<Longrightarrow> live st' = live st \<and> inbox st' = inbox st"
    by (auto simp: src_counts_def live_def update_provider_statistics_def
        split: Option.bind_splits if_splits option.splits desc.splits)
qed

text \<open>What handling a message may do besides its own effect: consume messages, which are handled
  first, and keep the lines well formed.\<close>

definition handled :: "net_api \<Rightarrow> nstat \<Rightarrow> mem list \<Rightarrow> nstat \<Rightarrow> bool" where
  "handled api st ms st' \<longleftrightarrow>
     (table_ok api st \<longrightarrow> table_ok api st') \<and>
     (\<exists>k. inbox st' = drop k (inbox st) \<and>
        live st' = foldr (live_step \<circ> decode) (ms @ map (take 2048) (take k (inbox st))) (live st))"

lemma handled_simple:
  "inbox st' = inbox st \<Longrightarrow> live st' = live_step (decode m) (live st) \<Longrightarrow>
   (table_ok api st \<longrightarrow> table_ok api st') \<Longrightarrow> handled api st [m] st'"
  unfolding handled_def by (auto intro: exI [of _ 0])

lemma handled_describe:
  assumes "handled api st1 [take 2048 x] st2" "inbox st = x # inbox st1" "descriptors st1 = descriptors st"
    "descriptorCounts st1 = descriptorCounts st"
    and "decode m = Described i" "\<And>c. line_ok api i c line"
  shows "handled api st [m] (st2\<lparr>descriptors := (descriptors st2)(i \<mapsto> Line line)\<rparr>)"
proof -
  obtain k where k: "inbox st2 = drop k (inbox st1)"
    "live st2 = foldr (live_step \<circ> decode) ([take 2048 x] @ map (take 2048) (take k (inbox st1))) (live st1)"
    using assms(1) by (auto simp: handled_def)
  have "table_ok api st \<longrightarrow> table_ok api (st2\<lparr>descriptors := (descriptors st2)(i \<mapsto> Line line)\<rparr>)"
    using assms(1,6) table_ok_cong [OF assms(3,4)] by (auto simp: handled_def intro!: table_ok_upd)
  moreover have "live st1 = live st" using assms(3) by (simp add: live_def)
  ultimately show ?thesis using k assms(2,5) unfolding handled_def
    by (auto intro!: exI [of _ "Suc k"] simp: live_def)
qed

lemma process_type:
  assumes "process_nstat_msg api st m = Some (st', t)"
  shows "rd_le 4 m 8 = Some t" and "\<exists>c. rd_le 8 m 0 = Some c"
  using assms by (subst (asm) process_nstat_msg.simps; auto split: Option.bind_splits)+

lemma process_plain:
  assumes "rd_le 4 m 8 = Some t" "rd_le 8 m 0 = Some c" "t \<noteq> 10003"
  shows "process_nstat_msg api st m = map_option (\<lambda>st. (st, t))
    (if t = 10001 then src_added st m
     else if t = 10002 then src_removed st m
     else if t = 10004 then src_counts st m
     else if t = 1 then Some st
     else if t = 0 then Some (emit (Success c) st)
     else Some (emit (UnknownType t) st))"
  using assms by (subst process_nstat_msg.simps) (simp add: map_conv_bind_option comp_def)

lemma process_describe:
  assumes "rd_le 4 m 8 = Some 10003" "rd_le 8 m 0 = Some c" "rd_le 4 m 32 = Some prov" "rd_le 8 m 16 = Some i"
  shows "process_nstat_msg api st m = map_option (\<lambda>st. (st, 10003))
    (if \<not> (2 \<le> prov \<and> prov \<le> 5) then Some st
     else if \<not> i < MAX_DESC then None
     else do {
       line \<leftarrow> src_line api st m prov i;
       st \<leftarrow> (if wants_refresh prov line
             then (case inbox st of
                     [] \<Rightarrow> None
                   | x # rest \<Rightarrow>
                       map_option fst (process_nstat_msg api
                         (send (GetSrcDesc i 2410) st\<lparr>inbox := rest\<rparr>) (take 2048 x)))
             else Some st);
       Some (st\<lparr>descriptors := (descriptors st)(i \<mapsto> Line line)\<rparr>)
     })"
  using assms by (subst process_nstat_msg.simps) (simp add: map_conv_bind_option comp_def cong: if_cong list.case_cong)

lemma process_describe_reads:
  assumes "process_nstat_msg api st m = Some (st', 10003)"
  shows "\<exists>prov i. rd_le 4 m 32 = Some prov \<and> rd_le 8 m 16 = Some i"
  using assms process_type(1) [OF assms]
  by (subst (asm) process_nstat_msg.simps) (cases "rd_le 4 m 32"; cases "rd_le 8 m 16"; auto split: Option.bind_splits)

lemma plain_handled:
  assumes "process_nstat_msg api st m = Some (st', t)" "t \<noteq> 10003"
  shows "handled api st [m] st'"
proof -
  obtain c where t: "rd_le 4 m 8 = Some t" "rd_le 8 m 0 = Some c" using process_type [OF assms(1)] by auto
  note eq = assms(1) [unfolded process_plain [OF t assms(2)]]
  consider "t = 10001" | "t = 10002" | "t = 10004" | "t \<notin> {10001, 10002, 10003, 10004}"
    using assms(2) by auto
  then show ?thesis
  proof cases
    case 1
    then have op: "src_added st m = Some st'" using eq by simp
    obtain i where "rd_le 8 m 20 = Some i" "live st' = insert i (live st)" "inbox st' = inbox st"
      using src_ops_live(1) [OF op] by blast
    then show ?thesis using src_ops_ok(1) [OF op] t 1
      by (intro handled_simple) (simp_all add: decode_def)
  next
    case 2
    then have op: "src_removed st m = Some st'" using eq by simp
    obtain i where "rd_le 8 m 16 = Some i" "live st' = live st - {i}" "inbox st' = inbox st"
      using src_ops_live(2) [OF op] by blast
    then show ?thesis using src_ops_ok(2) [OF op] t 2
      by (intro handled_simple) (simp_all add: decode_def)
  next
    case 3
    then have op: "src_counts st m = Some st'" using eq by simp
    show ?thesis using src_ops_live(3) [OF op] src_ops_ok(3) [OF op] t 3
      by (intro handled_simple) (simp_all add: decode_def)
  next
    case 4
    then have "descriptors st' = descriptors st" "inbox st' = inbox st" "descriptorCounts st' = descriptorCounts st"
      using eq by (simp_all split: if_splits) (metis frame(2) frame(4) frame(8))+
    then show ?thesis using 4 t table_ok_cong [of st' st]
      by (intro handled_simple) (simp_all add: decode_def live_def)
  qed
qed

lemma process_handled:
  "process_nstat_msg api st m = Some (st', t) \<Longrightarrow> handled api st [m] st'"
proof (induction "length (inbox st)" arbitrary: st m st' t rule: less_induct)
  case less
  show ?case
  proof (cases "t = 10003")
    case False
    then show ?thesis using plain_handled less.prems by blast
  next
    case True
    obtain c prov i where t: "rd_le 4 m 8 = Some 10003" "rd_le 8 m 0 = Some c"
      "rd_le 4 m 32 = Some prov" "rd_le 8 m 16 = Some i"
      using process_type [OF less.prems] process_describe_reads less.prems True by blast
    note eq = less.prems [unfolded process_describe [OF t]]
    show ?thesis
    proof (cases "2 \<le> prov \<and> prov \<le> 5")
      case False
      then have "st' = st" using eq by auto
      then show ?thesis using False t by (auto simp: decode_def intro!: handled_simple)
    next
      case prov: True
      have dec: "decode m = Described i" using prov t by (simp add: decode_def)
      obtain line where line: "src_line api st m prov i = Some line" and i: "i < MAX_DESC"
        using eq prov by (auto split: if_splits Option.bind_splits)
      show ?thesis
      proof (cases "wants_refresh prov line")
        case False
        then have "st' = st\<lparr>descriptors := (descriptors st)(i \<mapsto> Line line)\<rparr>"
          using eq prov line i by auto
        then show ?thesis using dec src_line_shows [OF line]
          by (auto simp: live_def line_ok_def intro!: handled_simple table_ok_upd)
      next
        case refresh: True
        obtain x rest st2 t2 where x: "inbox st = x # rest"
          and rec: "process_nstat_msg api (send (GetSrcDesc i 2410) st\<lparr>inbox := rest\<rparr>) (take 2048 x) = Some (st2, t2)"
          and st': "st' = st2\<lparr>descriptors := (descriptors st2)(i \<mapsto> Line line)\<rparr>"
          using eq prov refresh line i by (auto split: Option.bind_splits list.splits)
        have "handled api (send (GetSrcDesc i 2410) st\<lparr>inbox := rest\<rparr>) [take 2048 x] st2"
          by (rule less.hyps [OF _ rec]) (simp add: x send_def)
        moreover have "line_ok api i c line" for c
          using src_line_shows [OF line] refresh by (auto simp: line_ok_def wants_refresh_def)
        ultimately show ?thesis unfolding st'
          using dec x by (auto simp: send_def intro!: handled_describe)
      qed
    qed
  qed
qed

section \<open>Theorems\<close>

text \<open>Messages of the kernel, as they arrive.\<close>

definition msg_added :: "nat \<Rightarrow> nat \<Rightarrow> mem" where
  "msg_added prov i = le_bytes 8 0 @ le_bytes 4 10001 @ le_bytes 4 0 @ le_bytes 4 prov @ le_bytes 8 i"

definition msg_removed :: "nat \<Rightarrow> mem" where
  "msg_removed i = le_bytes 8 0 @ le_bytes 4 10002 @ le_bytes 4 0 @ le_bytes 8 i"

lemma msg_reads:
  "rd_le 4 (msg_added prov i) 8 = Some 10001" "rd_le 8 (msg_added prov i) 0 = Some 0"
  "i < 2000 \<Longrightarrow> rd_le 8 (msg_added prov i) 20 = Some i"
  "rd_le 4 (msg_removed i) 8 = Some 10002" "rd_le 8 (msg_removed i) 0 = Some 0"
  "i < 2000 \<Longrightarrow> rd_le 8 (msg_removed i) 16 = Some i"
  using rd_le_bytes [of 10001 4 "le_bytes 8 0" 8] rd_le_bytes [of 10002 4 "le_bytes 8 0" 8]
    rd_le_bytes [of 0 8 "[]" 0]
    rd_le_bytes_end [of i 8 "le_bytes 8 0 @ le_bytes 4 10001 @ le_bytes 4 0 @ le_bytes 4 prov" 20]
    rd_le_bytes_end [of i 8 "le_bytes 8 0 @ le_bytes 4 10002 @ le_bytes 4 0" 16]
  by (simp_all add: msg_added_def msg_removed_def)

definition empty_table :: nstat where
  "empty_table = \<lparr>descriptors = Map.empty, descriptorCounts = (\<lambda>_. no_counts),
     want = \<lparr>wantUDP = True, wantTCP = True, wantListen = True\<rparr>, wantPackets = False,
     wantHumanReadable = False, wantCurses = False, noResolve = True, message = [],
     inbox = [], sent = [], printed = []\<rparr>"

text \<open>C13: the message handler implements the set of known sources: the set changes exactly as the
  message says (added and described sources enter, removed ones leave), including the messages it
  reads and handles itself when it asks for a description again, which take effect first.\<close>

theorem process_refines_live:
  assumes "process_nstat_msg api st m = Some (st', t)"
  shows "\<exists>k. inbox st' = drop k (inbox st) \<and>
    live st' = foldr (live_step \<circ> decode) (m # map (take 2048) (take k (inbox st))) (live st)"
  using process_handled [OF assms] by (simp add: handled_def)

lemma process_refines_live_witness:
  "\<exists>st'. process_nstat_msg sample_api empty_table (msg_added 3 7) = Some (st', 10001) \<and> live st' = {7}"
proof -
  obtain st' where st': "process_nstat_msg sample_api empty_table (msg_added 3 7) = Some (st', 10001)"
    using process_plain [OF msg_reads(1,2)] msg_reads(3) [of 7 3]
    by (auto simp: src_added_def MAX_DESC_def)
  have "live st' = live_step (decode (msg_added 3 7)) {}"
    using process_refines_live [OF st'] by (auto simp: empty_table_def live_def)
  then show ?thesis using st' msg_reads(1) msg_reads(3) [of 7 3] by (auto simp: decode_def)
qed

text \<open>A source that is removed before its description came still holds the string literal
  \<open>"reading"\<close>, and the handler frees it: undefined, from every state of the table.\<close>

theorem early_removal_undefined:
  assumes "i < 2000"
  shows "do { (st1, _) \<leftarrow> process_nstat_msg api st (msg_added prov i);
              process_nstat_msg api st1 (msg_removed i) } = None"
  using assms
  by (simp add: process_plain [OF msg_reads(1,2)] process_plain [OF msg_reads(4,5)] msg_reads
      src_added_def src_removed_def send_def MAX_DESC_def)

lemma early_removal_undefined_witness:
  "do { (st1, _) \<leftarrow> process_nstat_msg sample_api empty_table (msg_added 3 7);
        process_nstat_msg sample_api st1 (msg_removed 7) } = None"
  by (rule early_removal_undefined) simp

text \<open>The handler indexes its arrays of 2000 entries with the source reference of the message,
  which it does not check: a larger reference is undefined in every kind of message that uses it.\<close>

theorem large_srcref_undefined:
  assumes "rd_le 4 m 8 = Some t" "t \<in> {10001, 10002, 10004}"
    and "rd_le 8 m (if t = 10001 then 20 else 16) = Some i" "2000 \<le> i"
  shows "process_nstat_msg api st m = None"
proof (cases "rd_le 8 m 0")
  case None
  then show ?thesis using process_type(2) [of api st m] by (cases "process_nstat_msg api st m") auto
next
  case (Some c)
  show ?thesis using assms process_plain [OF assms(1) Some, of api st]
    by (auto simp: src_added_def src_removed_def src_counts_def MAX_DESC_def split: Option.bind_splits)
qed

lemma large_srcref_undefined_witness:
  "process_nstat_msg sample_api empty_table
     (le_bytes 8 0 @ le_bytes 4 10002 @ le_bytes 4 0 @ le_bytes 8 2000) = None"
proof -
  have "rd_le 4 (le_bytes 8 0 @ le_bytes 4 10002 @ le_bytes 4 0 @ le_bytes 8 2000) 8 = Some 10002"
    "rd_le 8 (le_bytes 8 0 @ le_bytes 4 10002 @ le_bytes 4 0 @ le_bytes 8 2000) 16 = Some 2000"
    using rd_le_bytes [of 10002 4 "le_bytes 8 0" 8]
      rd_le_bytes_end [of 2000 8 "le_bytes 8 0 @ le_bytes 4 10002 @ le_bytes 4 0" 16] by simp_all
  then show ?thesis by (intro large_srcref_undefined [where t = 10002 and i = 2000]) simp_all
qed

end
