(* ===== verification/Lsock_Main.thy ===== *)
theory Lsock_Main
  imports Lsock_Table
begin

text \<open>
  The conversations of \<open>src/src/lsock.c\<close> with the kernel: \<open>addAll\<close>, \<open>querySources\<close>, the options
  and the main loop with its keys. Writes and reads do not fail here.
\<close>

section \<open>Registering with a provider\<close>

text \<open>The request has the size its kernel version expects.\<close>

definition add_all_size :: "nat \<Rightarrow> nat" where
  "add_all_size ver = (if 11 < ver then 56 else if 10 < ver then 28 else 20)"

definition addAll_body :: "net_api \<Rightarrow> nstat \<Rightarrow> (nstat + nstat) option" where
  "addAll_body api st = do {
     (m, st) \<leftarrow> receive 20480 st;
     type \<leftarrow> rd_le 4 m 8;
     if type = 1 then do {
       err \<leftarrow> rd_le 4 m 16;
       ctx \<leftarrow> rd_le 8 m 0;
       Some (Inl (emit (ErrorReply err ctx) st))
     }
     else if type = 0 then Some (Inr st)
     else do { (st, _) \<leftarrow> process_nstat_msg api st m; Some (Inl st) }
   }"

fun refresh_from :: "net_api \<Rightarrow> nat \<Rightarrow> nat \<Rightarrow> nstat \<Rightarrow> nstat option" where
  "refresh_from api src 0 st = Some st"
| "refresh_from api src (Suc n) st = do {
     st \<leftarrow> (if descriptors st src \<noteq> None then refreshSrc api st src else Some st);
     refresh_from api (src + 1) n st
   }"

definition addAll :: "net_api \<Rightarrow> nstat \<Rightarrow> nat \<Rightarrow> nstat option" where
  "addAll api st provider = do {
     st \<leftarrow> loop (length (inbox st) + 1) (addAll_body api)
            (send (AddAllSrcs (add_all_size (os_ver api)) provider) st);
     refresh_from api 0 MAX_DESC st
   }"


section \<open>Options\<close>





section \<open>The main loop\<close>









section \<open>The table through the conversations\<close>

lemma receiveD:
  "receive n st = Some (m, st') \<Longrightarrow>
   \<exists>x. inbox st = x # inbox st' \<and> m = take n x \<and> descriptors st' = descriptors st \<and> descriptorCounts st' = descriptorCounts st"
  by (auto simp: receive_def split: list.splits)

lemma process_ok:
  "process_nstat_msg api st m = Some (st', t) \<Longrightarrow> table_ok api st \<Longrightarrow> table_ok api st' \<and> length (inbox st') \<le> length (inbox st)"
  by (auto simp: handled_def dest!: process_handled)

lemma receive_ok: "receive n st = Some (m, st') \<Longrightarrow> table_ok api st \<Longrightarrow> table_ok api st' \<and> length (inbox st') < length (inbox st)"
  by (auto simp: table_ok_def dest!: receiveD)

lemma emit_ok [simp]:
  "table_ok api (emit x st) = table_ok api st" "table_ok api (send r st) = table_ok api st"
  "table_ok api (print_descriptors st) = table_ok api st"
  by (simp_all add: table_ok_def)

lemma addAll_body_ok:
  assumes "table_ok api st" "addAll_body api st = Some x"
  shows "case x of Inl st' \<Rightarrow> table_ok api st' \<and> length (inbox st') < length (inbox st) | Inr st' \<Rightarrow> table_ok api st'"
proof -
  obtain m st1 where r: "receive 20480 st = Some (m, st1)"
    using assms(2) by (auto simp: addAll_body_def split: Option.bind_splits)
  have st1: "table_ok api st1" "length (inbox st1) < length (inbox st)" using receive_ok [OF r assms(1)] by auto
  have proc: "table_ok api st' \<and> length (inbox st') < length (inbox st)"
    if "process_nstat_msg api st1 m = Some (st', t)" for st' t
    using process_ok [OF that st1(1)] st1(2) by linarith
  show ?thesis using assms(2) r st1 proc
    by (auto simp: addAll_body_def split: Option.bind_splits if_splits)
qed

interpretation add_all: progress_loop "table_ok api" "\<lambda>st. length (inbox st)" "addAll_body api" "table_ok api"
  for api
  by unfold_locales (use addAll_body_ok in fastforce)+
















section \<open>A provider that answers\<close>

definition msg_success :: mem where
  "msg_success = le_bytes 8 0 @ le_bytes 4 0 @ le_bytes 4 0"

text \<open>A message that describes source \<open>i\<close>, without a refresh.\<close>

definition described_by :: "net_api \<Rightarrow> nstat \<Rightarrow> mem \<Rightarrow> nat \<Rightarrow> string \<Rightarrow> bool" where
  "described_by api st m i line \<longleftrightarrow>
     rd_le 4 m 8 = Some 10003 \<and> rd_le 8 m 0 \<noteq> None \<and> rd_le 8 m 16 = Some i \<and>
     (\<exists>prov \<in> {2..5}. rd_le 4 m 32 = Some prov \<and> src_line api st m prov i = Some line \<and>
        \<not> wants_refresh prov line)"

definition register :: "nat \<Rightarrow> nstat \<Rightarrow> nstat" where
  "register i st = send (GetSrcDesc i 2411)
     (st\<lparr>descriptorCounts := (descriptorCounts st)(i := no_counts),
         descriptors := (descriptors st)(i \<mapsto> Reading)\<rparr>)"

lemma register_fields [simp]:
  "inbox (register i st) = inbox st" "noResolve (register i st) = noResolve st"
  "wantPackets (register i st) = wantPackets st"
  "descriptors (register i st) = (descriptors st)(i \<mapsto> Reading)"
  "descriptorCounts (register i st) = (descriptorCounts st)(i := no_counts)"
  "sent (register i st) = sent st @ [GetSrcDesc i 2411]"
  "(register i st)\<lparr>inbox := x\<rparr> = register i (st\<lparr>inbox := x\<rparr>)"
  by (simp_all add: register_def send_def)

lemma body_added:
  assumes "inbox st = msg_added p i # rest" "i < 2000"
  shows "addAll_body api st = Some (Inl ((register i st)\<lparr>inbox := rest\<rparr>))"
proof -
  have "length (msg_added p i) = 28" by (simp add: msg_added_def)
  then have "receive 20480 st = Some (msg_added p i, st\<lparr>inbox := rest\<rparr>)"
    using assms(1) by (simp add: receive_def)
  moreover have "process_nstat_msg api (st\<lparr>inbox := rest\<rparr>) (msg_added p i) =
      Some ((register i st)\<lparr>inbox := rest\<rparr>, 10001)"
    using assms(2) process_plain [OF msg_reads(1,2)] msg_reads(3) [OF assms(2)]
    by (simp add: src_added_def MAX_DESC_def) (simp add: register_def send_def)
  ultimately show ?thesis by (simp add: addAll_body_def msg_reads)
qed

lemma body_success:
  assumes "inbox st = msg_success # rest"
  shows "addAll_body api st = Some (Inr (st\<lparr>inbox := rest\<rparr>))"
proof -
  have "length msg_success = 16" "rd_le 4 msg_success 8 = Some 0"
    using rd_le_bytes [of 0 4 "le_bytes 8 0" 8] by (simp_all add: msg_success_def)
  then show ?thesis using assms by (simp add: addAll_body_def receive_def)
qed

lemma registers:
  assumes "\<forall>i \<in> set is. i < 2000" "inbox st = map (msg_added p) is @ msg_success # rest" "length is < n"
  shows "loop n (addAll_body api) st = Some ((fold register is st)\<lparr>inbox := rest\<rparr>)"
  using assms
proof (induction "is" arbitrary: st n)
  case Nil
  then show ?case by (cases n) (simp_all add: body_success)
next
  case (Cons i "is")
  obtain k where n: "n = Suc k" "length is < k" using Cons.prems by (cases n) auto
  let ?st = "(register i st)\<lparr>inbox := map (msg_added p) is @ msg_success # rest\<rparr>"
  have "loop n (addAll_body api) st = loop k (addAll_body api) ?st"
    using body_added [of st p i "map (msg_added p) is @ msg_success # rest" api] Cons.prems n by simp
  also have "\<dots> = Some ((fold register is ?st)\<lparr>inbox := rest\<rparr>)"
    using Cons.IH [of ?st k] Cons.prems n by simp
  also have "(fold register is ?st)\<lparr>inbox := rest\<rparr> = (fold register (i # is) st)\<lparr>inbox := rest\<rparr>"
  proof -
    have "(fold register js s)\<lparr>inbox := a\<rparr>  = fold register js (s\<lparr>inbox := a\<rparr>)" for js s a
      by (induction js arbitrary: s) simp_all
    then show ?thesis by simp
  qed
  finally show ?case .
qed

lemma refreshSrc_described:
  assumes "inbox st = x # rest" "described_by api st (take 2048 x) i line" "i < 2000"
  shows "refreshSrc api st i =
    Some (send (GetSrcDesc i 2410) (st\<lparr>inbox := rest, descriptors := (descriptors st)(i \<mapsto> Line line)\<rparr>))"
proof -
  let ?m = "take 2048 x" and ?st = "send (GetSrcDesc i 2410) st\<lparr>inbox := rest\<rparr>"
  obtain c prov where t: "rd_le 4 ?m 8 = Some 10003" "rd_le 8 ?m 0 = Some c" "rd_le 4 ?m 32 = Some prov"
    "rd_le 8 ?m 16 = Some i" and p: "2 \<le> prov" "prov \<le> 5"
    and l: "src_line api st ?m prov i = Some line" "\<not> wants_refresh prov line"
    using assms(2) by (auto simp: described_by_def)
  have "src_line api ?st = src_line api st" by (intro ext) (simp add: src_line_def send_def)
  then have "src_line api ?st ?m prov i = Some line" using l(1) by simp
  then have "process_nstat_msg api ?st ?m =
      Some (?st\<lparr>descriptors := (descriptors st)(i \<mapsto> Line line)\<rparr>, 10003)"
    using p l assms(3) unfolding process_describe [OF t] by (simp add: MAX_DESC_def send_def)
  then show ?thesis using assms(1) by (simp add: refreshSrc_def receive_def send_def)
qed

lemma described_cong:
  "noResolve st' = noResolve st \<Longrightarrow> wantPackets st' = wantPackets st \<Longrightarrow>
   descriptorCounts st' i = descriptorCounts st i \<Longrightarrow>
   described_by api st' m i line = described_by api st m i line"
  by (simp add: described_by_def src_line_def)

lemma refreshes:
  assumes "\<forall>i. j \<le> i \<and> i < j + n \<and> descriptors st i \<noteq> None \<longrightarrow>
      described_by api st (take 2048 (reply i)) i (line i)"
    and "inbox st = map reply (filter (\<lambda>i. descriptors st i \<noteq> None) [j..<j + n]) @ rest" "j + n \<le> 2000"
  shows "\<exists>st'. refresh_from api j n st = Some st' \<and> inbox st' = rest \<and>
    descriptors st' = (\<lambda>i. if j \<le> i \<and> i < j + n \<and> descriptors st i \<noteq> None then Some (Line (line i))
                           else descriptors st i) \<and>
    sent st' = sent st @ map (\<lambda>i. GetSrcDesc i 2410) (filter (\<lambda>i. descriptors st i \<noteq> None) [j..<j + n])"
  using assms
proof (induction n arbitrary: j st)
  case 0
  then show ?case by (auto simp: fun_eq_iff)
next
  case (Suc n)
  have upt: "[j..<Suc (j + n)] = j # [Suc j..<Suc (j + n)]" by (simp add: upt_rec)
  show ?case
  proof (cases "descriptors st j = None")
    case True
    have "\<exists>st'. refresh_from api (Suc j) n st = Some st' \<and> inbox st' = rest \<and>
      descriptors st' = (\<lambda>i. if Suc j \<le> i \<and> i < Suc j + n \<and> descriptors st i \<noteq> None then Some (Line (line i))
                           else descriptors st i) \<and>
      sent st' = sent st @ map (\<lambda>i. GetSrcDesc i 2410) (filter (\<lambda>i. descriptors st i \<noteq> None) [Suc j..<Suc j + n])"
      by (rule Suc.IH) (use Suc.prems True in \<open>simp_all add: upt del: upt_Suc not_None_eq\<close>)
    moreover have "(Suc j \<le> i \<and> i < Suc j + n \<and> descriptors st i \<noteq> None) =
        (j \<le> i \<and> i < j + Suc n \<and> descriptors st i \<noteq> None)" for i
      using True by (cases "i = j") auto
    ultimately show ?thesis using True by (simp add: upt del: not_None_eq upt_Suc)
  next
    case False
    let ?rest = "map reply (filter (\<lambda>i. descriptors st i \<noteq> None) [Suc j..<Suc j + n]) @ rest"
    let ?st = "send (GetSrcDesc j 2410) (st\<lparr>inbox := ?rest, descriptors := (descriptors st)(j \<mapsto> Line (line j))\<rparr>)"
    have "refreshSrc api st j = Some ?st"
      by (rule refreshSrc_described [where x = "reply j"])
        (use Suc.prems False in \<open>simp_all add: upt del: not_None_eq upt_Suc\<close>)
    then have step: "refresh_from api j (Suc n) st = refresh_from api (Suc j) n ?st"
      using False by simp
    have filt: "filter (\<lambda>i. descriptors ?st i \<noteq> None) [Suc j..<Suc j + n] =
        filter (\<lambda>i. descriptors st i \<noteq> None) [Suc j..<Suc j + n]"
      by (rule filter_cong) auto
    have "\<exists>st'. refresh_from api (Suc j) n ?st = Some st' \<and> inbox st' = rest \<and>
      descriptors st' = (\<lambda>i. if Suc j \<le> i \<and> i < Suc j + n \<and> descriptors ?st i \<noteq> None then Some (Line (line i))
                           else descriptors ?st i) \<and>
      sent st' = sent ?st @ map (\<lambda>i. GetSrcDesc i 2410) (filter (\<lambda>i. descriptors ?st i \<noteq> None) [Suc j..<Suc j + n])"
    proof (rule Suc.IH)
      show "inbox ?st = map reply (filter (\<lambda>i. descriptors ?st i \<noteq> None) [Suc j..<Suc j + n]) @ rest"
        unfolding filt by (simp add: send_def del: upt_Suc not_None_eq)
      show "\<forall>i. Suc j \<le> i \<and> i < Suc j + n \<and> descriptors ?st i \<noteq> None \<longrightarrow>
          described_by api ?st (take 2048 (reply i)) i (line i)"
      proof (intro allI impI)
        fix i assume i: "Suc j \<le> i \<and> i < Suc j + n \<and> descriptors ?st i \<noteq> None"
        then have "described_by api st (take 2048 (reply i)) i (line i)"
          using Suc.prems(1) by (auto simp del: not_None_eq split: if_splits)
        then show "described_by api ?st (take 2048 (reply i)) i (line i)"
          by (subst described_cong [where st = st]) (simp_all add: send_def)
      qed
    qed (use Suc.prems in simp)
    then show ?thesis unfolding step filt
      using False by (auto simp: upt send_def fun_eq_iff simp del: upt_Suc not_None_eq)
  qed
qed

lemma fold_register:
  "descriptors (fold register is st) = (\<lambda>i. if i \<in> set is then Some Reading else descriptors st i)"
  "noResolve (fold register is st) = noResolve st" "wantPackets (fold register is st) = wantPackets st"
  "descriptorCounts (fold register is st) = (\<lambda>i. if i \<in> set is then no_counts else descriptorCounts st i)"
  "sent (fold register is st) = sent st @ map (\<lambda>i. GetSrcDesc i 2411) is"
  by (induction "is" arbitrary: st) (auto simp: fun_eq_iff)

text \<open>C14: registering with a provider that announces its sources, reports success and describes each
  source when asked: \<open>addAll\<close> returns, has asked for every description (once when the source was
  announced and once in the refresh), and every announced source has its line in the table.\<close>

theorem addAll_describes:
  assumes "\<forall>i \<in> set is. i < 2000 \<and>
      described_by api (st\<lparr>descriptorCounts := \<lambda>_. no_counts\<rparr>) (take 2048 (reply i)) i (line i)"
    and "descriptors st = Map.empty"
    and "inbox st = map (msg_added p) is @ msg_success # map reply (filter (\<lambda>i. i \<in> set is) [0..<2000]) @ rest"
  shows "\<exists>st'. addAll api st p = Some st' \<and> inbox st' = rest \<and>
    descriptors st' = (\<lambda>i. if i \<in> set is then Some (Line (line i)) else None) \<and>
    sent st' = sent st @ AddAllSrcs (add_all_size (os_ver api)) p # map (\<lambda>i. GetSrcDesc i 2411) is @
      map (\<lambda>i. GetSrcDesc i 2410) (filter (\<lambda>i. i \<in> set is) [0..<2000])"
proof -
  let ?replies = "map reply (filter (\<lambda>i. i \<in> set is) [0..<2000]) @ rest"
  let ?st0 = "send (AddAllSrcs (add_all_size (os_ver api)) p) st"
  let ?st1 = "(fold register is ?st0)\<lparr>inbox := ?replies\<rparr>"
  have "length is < length (inbox st) + 1" using assms(3) by simp
  then have reg: "loop (length (inbox st) + 1) (addAll_body api) ?st0 = Some ?st1"
    by (intro registers [where p = p]) (use assms in simp_all)
  have live: "(descriptors ?st1 i \<noteq> None) = (i \<in> set is)" for i
    using assms(2) by (simp add: fold_register)
  have "\<exists>st'. refresh_from api 0 2000 ?st1 = Some st' \<and> inbox st' = rest \<and>
    descriptors st' = (\<lambda>i. if 0 \<le> i \<and> i < 0 + 2000 \<and> descriptors ?st1 i \<noteq> None then Some (Line (line i))
                           else descriptors ?st1 i) \<and>
    sent st' = sent ?st1 @ map (\<lambda>i. GetSrcDesc i 2410) (filter (\<lambda>i. descriptors ?st1 i \<noteq> None) [0..<0 + 2000])"
  proof (rule refreshes)
    show "\<forall>i. 0 \<le> i \<and> i < 0 + 2000 \<and> descriptors ?st1 i \<noteq> None \<longrightarrow>
        described_by api ?st1 (take 2048 (reply i)) i (line i)"
      unfolding live
    proof (intro allI impI)
      fix i assume i: "0 \<le> i \<and> i < 0 + 2000 \<and> i \<in> set is"
      then show "described_by api ?st1 (take 2048 (reply i)) i (line i)"
        using assms(1) by (subst described_cong [where st = "st\<lparr>descriptorCounts := \<lambda>_. no_counts\<rparr>"])
          (simp_all add: fold_register send_def)
    qed
  qed (simp_all only: live, simp)
  then obtain st' where st': "refresh_from api 0 2000 ?st1 = Some st'" "inbox st' = rest"
    "descriptors st' = (\<lambda>i. if 0 \<le> i \<and> i < 0 + 2000 \<and> descriptors ?st1 i \<noteq> None then Some (Line (line i))
                           else descriptors ?st1 i)"
    "sent st' = sent ?st1 @ map (\<lambda>i. GetSrcDesc i 2410) (filter (\<lambda>i. descriptors ?st1 i \<noteq> None) [0..<0 + 2000])"
    by blast
  have "descriptors st' = (\<lambda>i. if i \<in> set is then Some (Line (line i)) else None)"
    unfolding st'(3) live using assms(1,2) by (auto simp: fold_register fun_eq_iff)
  moreover have "sent st' = sent st @ AddAllSrcs (add_all_size (os_ver api)) p # map (\<lambda>i. GetSrcDesc i 2411) is @
      map (\<lambda>i. GetSrcDesc i 2410) (filter (\<lambda>i. i \<in> set is) [0..<2000])"
    unfolding st'(4) live by (simp add: fold_register) (simp add: send_def)
  ultimately show ?thesis using reg st'(1,2) by (simp add: addAll_def MAX_DESC_def del: loop.simps)
qed

text \<open>One source, number 5, described as UDP.\<close>

definition sample_reply :: mem where
  "sample_reply = le_bytes 8 0 @ le_bytes 4 10003 @ le_bytes 4 0 @ le_bytes 8 5 @ le_bytes 8 0 @
     le_bytes 4 4 @ sample_desc 2"

lemma filter_upt_single: "i < n \<Longrightarrow> filter (\<lambda>j. j = i) [0..<n] = [i]"
  by (induction n) (auto simp: less_Suc_eq filter_empty_conv)

lemma sample_reply_reads:
  "rd_le 4 sample_reply 8 = Some 10003" "rd_le 8 sample_reply 0 = Some 0"
  "rd_le 8 sample_reply 16 = Some 5" "rd_le 4 sample_reply 32 = Some 4"
  using rd_le_bytes [of 10003 4 "le_bytes 8 0" 8] rd_le_bytes [of 0 8 "[]" 0]
    rd_le_bytes [of 5 8 "le_bytes 8 0 @ le_bytes 4 10003 @ le_bytes 4 0" 16]
    rd_le_bytes [of 4 4 "le_bytes 8 0 @ le_bytes 4 10003 @ le_bytes 4 0 @ le_bytes 8 5 @ le_bytes 8 0" 32]
  by (simp_all add: sample_reply_def)

lemma addAll_describes_witness:
  "\<exists>st'. addAll sample_api (empty_table\<lparr>inbox := [msg_added 4 5, msg_success, sample_reply]\<rparr>) 4 = Some st' \<and>
    live st' = {5}"
proof -
  let ?st = "empty_table\<lparr>inbox := [msg_added 4 5, msg_success, sample_reply]\<rparr>"
  have "take 2048 sample_reply = sample_reply" "drop 36 sample_reply = sample_desc 2"
    by (simp_all add: sample_reply_def sample_desc_def)
  moreover have "print_udp_descriptor sample_api True False no_counts (sample_desc 2) 5 \<noteq> None"
    by code_simp
  ultimately have "rd_le 4 (take 2048 sample_reply) 8 = Some 10003 \<and> rd_le 8 (take 2048 sample_reply) 0 = Some 0 \<and>
      rd_le 8 (take 2048 sample_reply) 16 = Some 5 \<and> rd_le 4 (take 2048 sample_reply) 32 = Some 4 \<and>
      print_udp_descriptor sample_api True False no_counts (drop 36 (take 2048 sample_reply)) 5 \<noteq> None"
    using sample_reply_reads by simp
  then obtain line where "described_by sample_api (?st\<lparr>descriptorCounts := \<lambda>_. no_counts\<rparr>)
      (take 2048 sample_reply) 5 line"
    by (auto simp: described_by_def src_line_def empty_table_def wants_refresh_def)
  moreover have "filter (\<lambda>i. i \<in> set [5]) [0..<2000] = [5]"
    using filter_upt_single [of 5 2000] by simp
  ultimately have "\<exists>st'. addAll sample_api ?st 4 = Some st' \<and> inbox st' = [] \<and>
    descriptors st' = (\<lambda>i. if i \<in> set [5] then Some (Line line) else None) \<and>
    sent st' = sent ?st @ AddAllSrcs (add_all_size (os_ver sample_api)) 4 # map (\<lambda>i. GetSrcDesc i 2411) [5] @
      map (\<lambda>i. GetSrcDesc i 2410) (filter (\<lambda>i. i \<in> set [5]) [0..<2000])"
    by (intro addAll_describes [where reply = "\<lambda>_. sample_reply"])
      (simp_all add: empty_table_def del: upt_Suc)
  then show ?thesis by (auto simp: live_def dom_def)
qed








text \<open>Registering with a provider either returns or waits for more messages: the loop consumes one
  message per round, so a larger bound on its rounds changes nothing.\<close>

theorem addAll_rounds:
  assumes "length (inbox st) < n" "table_ok api st"
  shows "loop n (addAll_body api) st = loop (length (inbox st) + 1) (addAll_body api) st"
  using assms by (intro add_all.fuel_irrelevant) auto

lemma addAll_rounds_witness:
  "loop 50 (addAll_body sample_api) empty_table = loop 1 (addAll_body sample_api) empty_table"
  using addAll_rounds [of empty_table 50 sample_api] by (simp add: empty_table_def table_ok_def del: loop.simps)

end
