(* ===== verification/Vmmap.thy ===== *)
theory Vmmap
  imports Prelude
begin

text \<open>
  The region lister \<open>src/src/12-1-vmmap.c\<close>: the text of protections, inheritance and behaviour, the
  line of a region and the coalescing loop of \<open>macosx_debug_regions\<close>. \<open>mach_vm_region\<close> is the
  kernel's: the parameter \<open>region attempt address\<close>, where the second attempt follows
  the new \<open>task_for_pid\<close>. Addresses are 64-bit, with the wrap-around written out.
\<close>

section \<open>Text\<close>

definition VM_BEHAVIOR :: "(nat \<times> string) list" where
  "VM_BEHAVIOR = [(0, ''default''), (1, ''random''), (2, ''fwd-seq''), (3, ''rev-seq''),
     (4, ''will-need''), (5, ''will-need''), (6, ''free-nowb''), (7, ''zero-wire''),
     (8, ''reusable''), (9, ''reuse''), (10, ''canreuse'')]"

definition behavior_to_text :: "nat \<Rightarrow> string" where
  "behavior_to_text b = (case map_of VM_BEHAVIOR b of Some s \<Rightarrow> s | None \<Rightarrow> ''?'')"

definition protection_bits_to_rwx :: "nat \<Rightarrow> string" where
  "protection_bits_to_rwx p =
     [if p AND 1 \<noteq> 0 then CHR ''r'' else CHR ''-'', if p AND 2 \<noteq> 0 then CHR ''w'' else CHR ''-'',
      if p AND 4 \<noteq> 0 then CHR ''x'' else CHR ''-'']"

definition unparse_inheritance :: "nat \<Rightarrow> string" where
  "unparse_inheritance i =
     (if i = 0 then ''share'' else if i = 1 then ''copy'' else if i = 2 then ''none'' else ''???'')"

section \<open>Regions\<close>

record region_info =
  protection :: nat
  max_protection :: nat
  inheritance :: nat
  shared :: bool
  reserved :: bool
  behavior :: nat

record region_line =
  from_addr :: nat
  to_addr :: nat
  print_size :: int
  size_unit :: char
  rwx :: "string \<times> string"
  inherit_text :: string
  flags :: "bool \<times> bool"
  behavior_text :: string
  subregions :: nat

text \<open>\<open>int print_size = prev_size\<close>, divided while it exceeds 1024; the unit is only set by a
  division.\<close>

definition size_text :: "nat \<Rightarrow> (int \<times> char) option" where
  "size_text sz =
     (let p0 = sint (of_nat sz :: 32 word); u0 = None;
          (p1, u1) = (if 1024 < p0 then (p0 div 1024, Some CHR ''K'') else (p0, u0));
          (p2, u2) = (if 1024 < p1 then (p1 div 1024, Some CHR ''M'') else (p1, u1));
          (p3, u3) = (if 1024 < p2 then (p2 div 1024, Some CHR ''G'') else (p2, u2))
      in map_option (Pair p3) u3)"

definition show_region :: "nat \<Rightarrow> nat \<Rightarrow> region_info \<Rightarrow> nat \<Rightarrow> region_line option" where
  "show_region a sz info n = do {
     (p, u) \<leftarrow> size_text sz;
     Some \<lparr>from_addr = a, to_addr = (a + sz) mod 2 ^ 64, print_size = p, size_unit = u,
           rwx = (protection_bits_to_rwx (protection info), protection_bits_to_rwx (max_protection info)),
           inherit_text = unparse_inheritance (inheritance info),
           flags = (shared info, reserved info), behavior_text = behavior_to_text (behavior info),
           subregions = n\<rparr>
   }"

text \<open>The attributes that are compared: the new region's \<open>shared\<close> with the previous one's
  \<open>reserved\<close>.\<close>

definition differs :: "region_info \<Rightarrow> region_info \<Rightarrow> bool" where
  "differs info prev \<longleftrightarrow>
     protection info \<noteq> protection prev \<or> max_protection info \<noteq> max_protection prev \<or>
     inheritance info \<noteq> inheritance prev \<or> shared info \<noteq> reserved prev \<or> reserved info \<noteq> reserved prev"

type_synonym region_api = "nat \<Rightarrow> nat \<Rightarrow> (nat \<times> nat \<times> region_info) option"

record vm_state =
  prev_address :: nat
  prev_size :: nat
  prev_info :: region_info
  cur_info :: region_info
  cur_size :: nat
  nsubregions :: nat
  lines_out :: "region_line list"

text \<open>One round: \<open>Inr\<close> is the end of the function. After a failed call the outputs are unchanged
  but for \<open>size = 0\<close>; from address 0x4000000 on a failure returns at once.\<close>

definition regions_body :: "region_api \<Rightarrow> nat \<Rightarrow> vm_state \<Rightarrow> (vm_state + region_line list) option" where
  "regions_body region max_lines st =
     (let expect = (prev_address st + prev_size st) mod 2 ^ 64;
          query = (if expect = 0 then None
                   else case region 0 expect of Some r \<Rightarrow> Some r | None \<Rightarrow> region 1 expect)
      in
        if expect \<noteq> 0 \<and> query = None \<and> 0x4000000 \<le> expect then Some (Inr (lines_out st))
        else
          let over = (expect = 0 \<or> query = None);
              (addr, sz, info) = (case query of
                 Some r \<Rightarrow> r
               | None \<Rightarrow> (expect, if expect = 0 then cur_size st else 0, cur_info st));
              print = (over \<or> addr \<noteq> expect \<or> differs info (prev_info st))
          in do {
            st' \<leftarrow>
              (if print then do {
                 l \<leftarrow> show_region (prev_address st) (prev_size st) (prev_info st) (nsubregions st);
                 Some (st\<lparr>prev_address := addr, prev_size := sz, prev_info := info, cur_info := info,
                          cur_size := sz, nsubregions := 1, lines_out := lines_out st @ [l]\<rparr>)
               }
               else Some (st\<lparr>prev_size := (prev_size st + sz) mod 2 ^ 64, cur_info := info,
                             cur_size := sz, nsubregions := nsubregions st + 1\<rparr>));
            if over \<or> 0 < max_lines \<and> max_lines \<le> length (lines_out st')
            then Some (Inr (lines_out st')) else Some (Inl st')
          })"

definition macosx_debug_regions ::
  "nat \<Rightarrow> region_api \<Rightarrow> nat \<Rightarrow> nat \<Rightarrow> region_line list option" where
  "macosx_debug_regions fuel region address max_lines =
     (case region 0 address of
        None \<Rightarrow> Some []
      | Some (addr, sz, info) \<Rightarrow>
          loop fuel (regions_body region max_lines)
            \<lparr>prev_address = addr, prev_size = sz, prev_info = info, cur_info = info, cur_size = sz,
             nsubregions = 1, lines_out = []\<rparr>)"

section \<open>What is listed\<close>

text \<open>An address space as a list of regions, and the documented behaviour of \<open>mach_vm_region\<close> on it:
  the region that contains the address, or the next one.\<close>

type_synonym vm_region = "nat \<times> nat \<times> region_info"

definition region_end :: "vm_region \<Rightarrow> nat" where
  "region_end r = fst r + fst (snd r)"

definition kernel_map :: "vm_region list \<Rightarrow> region_api" where
  "kernel_map rs attempt a = find (\<lambda>r. a < region_end r) rs"

fun wf_map :: "nat \<Rightarrow> vm_region list \<Rightarrow> bool" where
  "wf_map lo [] = True"
| "wf_map lo (r # rs) \<longleftrightarrow> lo \<le> fst r \<and> fst r < region_end r \<and> region_end r < 2 ^ 64 \<and> wf_map (region_end r) rs"

text \<open>The runs as the loop builds them, with the number of regions so far.\<close>

fun coalesce :: "vm_region \<Rightarrow> nat \<Rightarrow> vm_region list \<Rightarrow> (vm_region \<times> nat) list" where
  "coalesce r n [] = [(r, n)]"
| "coalesce r n (q # rs) =
     (if fst q \<noteq> region_end r \<or> differs (snd (snd q)) (snd (snd r)) then (r, n) # coalesce q 1 rs
      else coalesce (fst r, fst (snd r) + fst (snd q), snd (snd r)) (n + 1) rs)"

definition show_group :: "vm_region \<times> nat \<Rightarrow> region_line option" where
  "show_group g = show_region (fst (fst g)) (fst (snd (fst g))) (snd (snd (fst g))) (snd g)"

lemma coalesce_ne: "coalesce r n rs \<noteq> []"
  by (induction r n rs rule: coalesce.induct) auto

lemma kernel_map_next:
  assumes "\<forall>r \<in> set pre. region_end r \<le> a" "wf_map a rest"
  shows "kernel_map (pre @ rest) k a = (case rest of [] \<Rightarrow> None | r # _ \<Rightarrow> Some r)"
proof -
  have "find (\<lambda>r. a < region_end r) (pre @ rest) = find (\<lambda>r. a < region_end r) rest"
    using assms(1) by (induction pre) auto
  then show ?thesis using assms(2) by (cases rest) (auto simp: kernel_map_def)
qed

definition cut :: "nat \<Rightarrow> nat \<Rightarrow> 'a list \<Rightarrow> 'a list" where
  "cut max_lines done_lines xs = (if max_lines = 0 then xs else take (max_lines - done_lines) xs)"

lemma regions_loop:
  assumes "wf_map (fst (r :: vm_region) + sz) rs" "\<forall>q \<in> set pre. region_end q \<le> fst r + sz" "fst r + sz < 2 ^ 64"
    and "0x4000000 \<le> fst r + sz" "0 < sz"
    and "\<forall>g \<in> set (butlast (coalesce (fst r, sz, i) n rs)). show_group g \<noteq> None"
    and "max_lines = 0 \<or> length out < max_lines" "length rs < fuel"
    and "prev_address st = fst r" "prev_size st = sz" "prev_info st = i" "nsubregions st = n" "lines_out st = out"
  shows "loop fuel (regions_body (kernel_map (pre @ rs)) max_lines) st =
    Some (out @ cut max_lines (length out) (map (the \<circ> show_group) (butlast (coalesce (fst r, sz, i) n rs))))"
  using assms
proof (induction rs arbitrary: fuel r sz i n pre out st)
  case Nil
  then obtain k where "fuel = Suc k" by (cases fuel) auto
  moreover have "kernel_map pre j (fst r + sz) = None" for j
    using kernel_map_next [of pre "fst r + sz" "[]" j] Nil.prems by simp
  ultimately show ?case using Nil.prems
    by (simp add: regions_body_def Let_def cut_def)
next
  case (Cons q rs)
  obtain k where fuel: "fuel = Suc k" "length rs < k" using Cons.prems by (cases fuel) auto
  obtain a l j where q: "q = (a, l, j)" by (cases q)
  let ?e = "fst r + sz"
  have wf: "?e \<le> a" "0 < l" "a + l < 2 ^ 64" "wf_map (a + l) rs"
    using Cons.prems(1) q by (auto simp: region_end_def)
  have query: "kernel_map (pre @ q # rs) m ?e = Some q" for m
    using kernel_map_next [of pre ?e "q # rs" m] Cons.prems by simp
  have e: "?e mod 2 ^ 64 = ?e" "?e \<noteq> 0" using Cons.prems by auto
  show ?case
  proof (cases "a \<noteq> ?e \<or> differs j i")
    case False
    let ?st = "st\<lparr>prev_size := (prev_size st + l) mod 2 ^ 64, cur_info := j, cur_size := l,
      nsubregions := nsubregions st + 1\<rparr>"
    have size: "(sz + l) mod 2 ^ 64 = sz + l" using wf False by simp
    have "regions_body (kernel_map (pre @ q # rs)) max_lines st = Some (Inl ?st)"
      using Cons.prems(7-) False e query q by (auto simp: regions_body_def Let_def)
    moreover have "loop k (regions_body (kernel_map ((pre @ [q]) @ rs)) max_lines) ?st =
      Some (out @ cut max_lines (length out) (map (the \<circ> show_group) (butlast (coalesce (fst r, sz + l, i) (n + 1) rs))))"
      by (rule Cons.IH [of r]) (use Cons.prems False wf fuel q size in \<open>auto simp: region_end_def add.assoc\<close>)
    ultimately show ?thesis using fuel q False by (simp add: region_end_def comp_def)
  next
    case True
    let ?g = "((fst r, sz, i), n)"
    have co: "coalesce (fst r, sz, i) n (q # rs) = ?g # coalesce q 1 rs"
      using True q by (simp add: region_end_def)
    then obtain line where line: "show_group ?g = Some line"
      using Cons.prems(6) coalesce_ne [of q 1 rs] by auto
    let ?st = "st\<lparr>prev_address := a, prev_size := l, prev_info := j, cur_info := j, cur_size := l,
      nsubregions := 1, lines_out := out @ [line]\<rparr>"
    have body: "regions_body (kernel_map (pre @ q # rs)) max_lines st =
      Some (if 0 < max_lines \<and> max_lines \<le> length out + 1 then Inr (out @ [line]) else Inl ?st)"
      using Cons.prems(7-) True e query q line by (auto simp: regions_body_def Let_def show_group_def)
    show ?thesis
    proof (cases "0 < max_lines \<and> max_lines \<le> length out + 1")
      case stop: True
      then have "max_lines - length out = 1" using Cons.prems(7) by simp
      then show ?thesis using body fuel co line coalesce_ne [of q 1 rs] stop by (simp add: cut_def)
    next
      case False
      have "loop k (regions_body (kernel_map ((pre @ [q]) @ rs)) max_lines) ?st =
        Some ((out @ [line]) @ cut max_lines (length (out @ [line]))
          (map (the \<circ> show_group) (butlast (coalesce (fst q, l, j) 1 rs))))"
        by (rule Cons.IH [of q])
          (use Cons.prems False wf fuel q co coalesce_ne [of q 1 rs] in \<open>auto simp: region_end_def\<close>)
      moreover have "max_lines = 0 \<or> max_lines - length out = Suc (max_lines - Suc (length out))"
        using False Cons.prems(7) by auto
      ultimately show ?thesis using body fuel False q line coalesce_ne [of q 1 rs]
        by (subst co) (auto simp: cut_def)
    qed
  qed
qed

lemma regions_listing:
  assumes "wf_map 0 (r # rs)" "address < region_end r" "0x4000000 \<le> region_end r"
    and "\<forall>g \<in> set (butlast (coalesce r 1 rs)). show_group g \<noteq> None" "length rs < fuel"
  shows "macosx_debug_regions fuel (kernel_map (r # rs)) address max_lines =
    Some (cut max_lines 0 (map (the \<circ> show_group) (butlast (coalesce r 1 rs))))"
proof -
  obtain a sz i where r: "r = (a, sz, i)" by (cases r)
  have "kernel_map (r # rs) 0 address = Some r" using assms(2) by (simp add: kernel_map_def)
  moreover have "loop fuel (regions_body (kernel_map ([r] @ rs)) max_lines)
      \<lparr>prev_address = a, prev_size = sz, prev_info = i, cur_info = i, cur_size = sz, nsubregions = 1, lines_out = []\<rparr> =
    Some ([] @ cut max_lines (length ([] :: region_line list))
      (map (the \<circ> show_group) (butlast (coalesce (fst r, sz, i) 1 rs))))"
    by (rule regions_loop) (use assms r in \<open>auto simp: region_end_def\<close>)
  ultimately show ?thesis using r by (simp add: macosx_debug_regions_def)
qed

definition sample_info :: "nat \<Rightarrow> bool \<Rightarrow> region_info" where
  "sample_info p sh = \<lparr>protection = p, max_protection = 7, inheritance = 1, shared = sh, reserved = False,
     behavior = 0\<rparr>"

definition sample_map :: "vm_region list" where
  "sample_map = [(0x4000000, 0x1000, sample_info 1 False), (0x4001000, 0x1000, sample_info 1 False),
     (0x4002000, 0x2000, sample_info 3 False), (0x8000000, 0x1000, sample_info 5 False)]"

text \<open>The runs, described without the loop. A region joins a run when it has the protections, the inheritance and the
  reservation of the run's first region and is shared exactly if it is reserved. A run is a list of regions without
  gaps of which all but the first join it; it ends where the next region does not follow directly or does not join.\<close>

definition joins :: "region_info \<Rightarrow> region_info \<Rightarrow> bool" where
  "joins first_info info \<longleftrightarrow>
     protection info = protection first_info \<and> max_protection info = max_protection first_info \<and>
     inheritance info = inheritance first_info \<and> reserved info = reserved first_info \<and> (shared info \<longleftrightarrow> reserved info)"

fun without_gaps :: "vm_region list \<Rightarrow> bool" where
  "without_gaps (p # q # rs) \<longleftrightarrow> fst q = region_end p \<and> without_gaps (q # rs)"
| "without_gaps _ \<longleftrightarrow> True"

definition is_run :: "vm_region list \<Rightarrow> bool" where
  "is_run g \<longleftrightarrow> g \<noteq> [] \<and> without_gaps g \<and> (\<forall>q \<in> set (tl g). joins (snd (snd (hd g))) (snd (snd q)))"

fun separated :: "vm_region list list \<Rightarrow> bool" where
  "separated (g # h # gs) \<longleftrightarrow>
     (fst (hd h) \<noteq> region_end (last g) \<or> \<not> joins (snd (snd (hd g))) (snd (snd (hd h)))) \<and> separated (h # gs)"
| "separated _ \<longleftrightarrow> True"

definition maximal_runs :: "vm_region list list \<Rightarrow> vm_region list \<Rightarrow> bool" where
  "maximal_runs gs rs \<longleftrightarrow> concat gs = rs \<and> (\<forall>g \<in> set gs. is_run g) \<and> separated gs"

text \<open>The line of a run: its first address, the sum of its sizes, the attributes of its first region.\<close>

definition run_line :: "vm_region list \<Rightarrow> region_line option" where
  "run_line g = show_region (fst (hd g)) (sum_list (map (fst \<circ> snd) g)) (snd (snd (hd g))) (length g)"

definition run_group :: "vm_region list \<Rightarrow> vm_region \<times> nat" where
  "run_group g = ((fst (hd g), sum_list (map (fst \<circ> snd) g), snd (snd (hd g))), length g)"

lemma run_line_group: "run_line g = show_group (run_group g)"
  by (simp add: run_line_def run_group_def show_group_def)

lemma not_differs: "\<not> differs info first_info \<longleftrightarrow> joins first_info info"
  by (auto simp: differs_def joins_def)

lemma run_end: "without_gaps (p # ps) \<Longrightarrow> region_end (last (p # ps)) = fst p + sum_list (map (fst \<circ> snd) (p # ps))"
  by (induction ps arbitrary: p) (auto simp: region_end_def)

lemma coalesce_run:
  assumes "without_gaps ((a, sz, i) # ps)" "\<forall>q \<in> set ps. joins i (snd (snd q))"
  shows "coalesce (a, sz, i) n (ps @ rest) = coalesce (a, sz + sum_list (map (fst \<circ> snd) ps), i) (n + length ps) rest"
  using assms
proof (induction ps arbitrary: sz n)
  case (Cons q ps)
  obtain b l j where q: "q = (b, l, j)" by (cases q)
  have "without_gaps ((a, sz + l, i) # ps)" using Cons.prems(1) q by (cases ps) (auto simp: region_end_def)
  then show ?case using Cons.IH [of "sz + l" "n + 1"] Cons.prems q not_differs [of j i] by (simp add: region_end_def add.assoc)
qed simp

lemma coalesce_maximal:
  assumes "\<forall>g \<in> set (g # gs). is_run g" "separated (g # gs)"
  shows "coalesce (hd g) 1 (tl g @ concat gs) = map run_group (g # gs)"
  using assms
proof (induction gs arbitrary: g)
  case Nil
  obtain a sz i ps where g: "g = (a, sz, i) # ps" using Nil.prems(1) by (cases g) (auto simp: is_run_def)
  then show ?case using coalesce_run [of a sz i ps 1 "[]"] Nil.prems(1) by (simp add: is_run_def run_group_def)
next
  case (Cons h gs)
  obtain a sz i ps where g: "g = (a, sz, i) # ps" using Cons.prems(1) by (cases g) (auto simp: is_run_def)
  obtain q qs where h: "h = q # qs" using Cons.prems(1) by (cases h) (auto simp: is_run_def)
  have run: "without_gaps ((a, sz, i) # ps)" "\<forall>q \<in> set ps. joins i (snd (snd q))" using Cons.prems(1) g by (auto simp: is_run_def)
  have "fst q \<noteq> a + (sz + sum_list (map (fst \<circ> snd) ps)) \<or> differs (snd (snd q)) i"
    using Cons.prems(2) run_end [OF run(1)] not_differs by (auto simp: g h)
  then have "coalesce (a, sz, i) 1 (ps @ q # (qs @ concat gs)) = run_group g # coalesce q 1 (qs @ concat gs)"
    using coalesce_run [OF run, of 1 "q # (qs @ concat gs)"] by (simp add: g run_group_def region_end_def)
  then show ?case using Cons.IH [of h] Cons.prems by (simp add: g h)
qed

text \<open>Every list of regions has maximal runs.\<close>

fun group_runs :: "vm_region list \<Rightarrow> vm_region list \<Rightarrow> vm_region list list" where
  "group_runs g [] = [g]"
| "group_runs g (q # rs) =
     (if fst q = region_end (last g) \<and> joins (snd (snd (hd g))) (snd (snd q)) then group_runs (g @ [q]) rs
      else g # group_runs [q] rs)"

lemma without_gaps_snoc: "g \<noteq> [] \<Longrightarrow> without_gaps (g @ [q]) \<longleftrightarrow> without_gaps g \<and> fst q = region_end (last g)"
  by (induction g rule: without_gaps.induct) auto

lemma group_runs_maximal:
  "is_run g \<Longrightarrow> maximal_runs (group_runs g rs) (g @ rs) \<and> group_runs g rs \<noteq> [] \<and> hd (hd (group_runs g rs)) = hd g"
proof (induction g rs rule: group_runs.induct)
  case (1 g)
  then show ?case by (simp add: maximal_runs_def)
next
  case (2 g q rs)
  have g: "g \<noteq> []" using 2(3) by (simp add: is_run_def)
  show ?case
  proof (cases "fst q = region_end (last g) \<and> joins (snd (snd (hd g))) (snd (snd q))")
    case True
    then have "is_run (g @ [q])" using 2(3) g without_gaps_snoc by (auto simp: is_run_def)
    then show ?thesis using 2(1) True g by simp
  next
    case False
    have "is_run [q]" by (simp add: is_run_def)
    then obtain h hs where "maximal_runs (h # hs) (q # rs)" "group_runs [q] rs = h # hs" "hd h = q"
      using 2(2) [OF False] by (cases "group_runs [q] rs") auto
    then show ?thesis using False 2(3) by (auto simp: maximal_runs_def)
  qed
qed

lemma maximal_runs_exist: "\<exists>gs. maximal_runs gs (r # rs)"
  using group_runs_maximal [of "[r]" rs] by (auto simp: is_run_def)

text \<open>C17: On an address space above 0x4000000 the lister prints the maximal runs, one line each, in order and at most as
  many as asked for, but never the last run: the call that finds no further region returns at once, before the
  pending run is printed. A region belongs to a run when it follows without a gap, has the protections, the inheritance
  and the reservation of the run's first region, and is shared exactly if it is reserved: that is what the comparison
  of its \<open>shared\<close> with the other's \<open>reserved\<close> amounts to. Sizes that print no unit are undefined.\<close>

theorem regions_listed:
  assumes "wf_map 0 (r # rs)" "address < region_end r" "0x4000000 \<le> region_end r"
    and "maximal_runs gs (r # rs)" "\<forall>g \<in> set (butlast gs). run_line g \<noteq> None" "length rs < fuel"
  shows "macosx_debug_regions fuel (kernel_map (r # rs)) address max_lines =
    Some (let shown = map (the \<circ> run_line) (butlast gs) in if max_lines = 0 then shown else take max_lines shown)"
proof -
  obtain g gs' where gs: "gs = g # gs'" using assms(4) by (cases gs) (auto simp: maximal_runs_def)
  then obtain ps where g: "g = r # ps" using assms(4) by (cases g) (auto simp: maximal_runs_def is_run_def)
  have "coalesce r 1 rs = map run_group gs"
    using coalesce_maximal [of g gs'] assms(4) by (auto simp: maximal_runs_def gs g)
  moreover have "butlast (map run_group gs) = map run_group (butlast gs)" by (simp add: map_butlast)
  ultimately show ?thesis
    using regions_listing [OF assms(1-3) _ assms(6), of max_lines] assms(5)
    by (simp add: cut_def Let_def run_line_group comp_def)
qed

lemma regions_listed_witness:
  "map_option (map (\<lambda>l. (from_addr l, to_addr l, print_size l, subregions l)))
     (macosx_debug_regions 10 (kernel_map sample_map) 1 1000) =
   Some [(0x4000000, 0x4002000, 8, 2), (0x4002000, 0x4004000, 8, 1)]"
proof -
  let ?gs = "[take 2 sample_map, [sample_map ! 2], [sample_map ! 3]]"
  have size: "size_text 0x2000 = Some (8, CHR ''K'')" by (simp add: size_text_def)
  have "macosx_debug_regions 10 (kernel_map (hd sample_map # tl sample_map)) 1 1000 =
    Some (let shown = map (the \<circ> run_line) (butlast ?gs) in if (1000::nat) = 0 then shown else take 1000 shown)"
  proof (rule regions_listed)
    show "maximal_runs ?gs (hd sample_map # tl sample_map)"
      by (simp add: maximal_runs_def is_run_def sample_map_def region_end_def joins_def sample_info_def)
  qed (simp_all add: sample_map_def region_end_def run_line_def show_region_def size)
  then show ?thesis by (simp add: sample_map_def run_line_def show_region_def size)
qed

text \<open>Sharing does not separate regions the way the other attributes do: of two regions that are
  equal but for their sharing, both not reserved, the second starts a new line exactly if it is
  shared. So a private region is merged into a shared one in front of it, and two shared regions are
  kept apart.\<close>

theorem sharing_compared_wrongly:
  assumes "\<not> reserved i" "\<not> reserved j" "protection i = protection j"
    and "max_protection i = max_protection j" "inheritance i = inheritance j"
  shows "differs j i \<longleftrightarrow> shared j"
  using assms by (simp add: differs_def)

lemma sharing_compared_wrongly_witness:
  "\<not> differs (sample_info 1 False) (sample_info 1 True) \<and> differs (sample_info 1 True) (sample_info 1 True)"
  using sharing_compared_wrongly [of "sample_info 1 True" "sample_info 1 False"]
    sharing_compared_wrongly [of "sample_info 1 True" "sample_info 1 True"]
  by (simp add: sample_info_def)

end
