(* ===== verification/Joker_Tables.thy ===== *)
theory Joker_Tables
  imports Prelude
begin

text \<open>
  The tables of \<open>src/src/joker.c\<close>: the names of the MAC policy operations, the signatures of known
  kernel extensions, the Mach traps and the routines of the MIG subsystems. They are the arrays of
  the source, entry by entry; a missing comma in the source joins two literals and leaves the name
  \<open>NULL\<close>.
\<close>

section \<open>MAC policy operations\<close>

definition mac_policy_ops_1 :: "string list" where
  "mac_policy_ops_1 =
    [''mpo_audit_check_preselect'', ''mpo_audit_check_preselect'', ''mpo_bpfdesc_label_associate'',
     ''mpo_bpfdesc_label_destroy'', ''mpo_bpfdesc_label_init'', ''mpo_bpfdesc_check_receive'',
     ''mpo_cred_check_label_update_execve'', ''mpo_cred_check_label_update'',
     ''mpo_cred_check_visible'', ''mpo_cred_label_associate_fork'',
     ''mpo_cred_label_associate_kernel'', ''mpo_cred_label_associate'',
     ''mpo_cred_label_associate_user'', ''mpo_cred_label_destroy'',
     ''mpo_cred_label_externalize_audit'', ''mpo_cred_label_externalize'', ''mpo_cred_label_init'',
     ''mpo_cred_label_internalize'', ''mpo_cred_label_update_execve'', ''mpo_cred_label_update'',
     ''mpo_devfs_label_associate_device'', ''mpo_devfs_label_associate_directory'',
     ''mpo_devfs_label_copy'', ''mpo_devfs_label_destroy'', ''mpo_devfs_label_init'',
     ''mpo_devfs_label_update'', ''mpo_file_check_change_offset'', ''mpo_file_check_create'',
     ''mpo_file_check_dup'', ''mpo_file_check_fcntl'', ''mpo_file_check_get_offset'',
     ''mpo_file_check_get'', ''mpo_file_check_inherit'', ''mpo_file_check_ioctl'',
     ''mpo_file_check_lock'', ''mpo_file_check_mmap_downgrade'', ''mpo_file_check_mmap'',
     ''mpo_file_check_receive'', ''mpo_file_check_set'', ''mpo_file_label_init'',
     ''mpo_file_label_destroy'', ''mpo_file_label_associate'', ''mpo_ifnet_check_label_update'',
     ''mpo_ifnet_check'', ''mpo_ifnet_label_associate'', ''mpo_ifnet_label_copy'',
     ''mpo_ifnet_label_destroy'', ''mpo_ifnet_label_externalize'', ''mpo_ifnet_label_init'',
     ''mpo_ifnet_label_internalize'', ''mpo_ifnet_label_update'', ''mpo_ifnet_label_recycle'',
     ''mpo_inpcb_check_deliver'', ''mpo_inpcb_label_associate'', ''mpo_inpcb_label_destroy'',
     ''mpo_inpcb_label_init'', ''mpo_inpcb_label_recycle'', ''mpo_inpcb_label_update'',
     ''mpo_iokit_check_device'', ''mpo_ipq_label_associate'', ''mpo_ipq_label_compare'',
     ''mpo_ipq_label_destroy'', ''mpo_ipq_label_init'', ''mpo_ipq_label_update'',
     ''mpo_reserved1_hook'', ''mpo_reserved2_hook'', ''mpo_reserved3_hook'',
     ''mpo_reserved4_hook'', ''mpo_reserved5_hook'', ''mpo_reserved6_hook'',
     ''mpo_reserved7_hook'', ''mpo_reserved8_hook'', ''mpo_reserved9_hook'',
     ''mpo_mbuf_label_associate_bpfdesc'', ''mpo_mbuf_label_associate_ifnet'',
     ''mpo_mbuf_label_associate_inpcb'', ''mpo_mbuf_label_associate_ipq'',
     ''mpo_mbuf_label_associate_linklayer'', ''mpo_mbuf_label_associate_multicast_encap'',
     ''mpo_mbuf_label_associate_netlayer'', ''mpo_mbuf_label_associate_socket'',
     ''mpo_mbuf_label_copy'', ''mpo_mbuf_label_destroy'', ''mpo_mbuf_label_init'',
     ''mpo_mount_check_fsctl'', ''mpo_mount_check_getattr'', ''mpo_mount_check_label_update'',
     ''mpo_mount_check_mount'', ''mpo_mount_check_remount'', ''mpo_mount_check_setattr'',
     ''mpo_mount_check_stat'', ''mpo_mount_check_umount'', ''mpo_mount_label_associate'',
     ''mpo_mount_label_destroy'', ''mpo_mount_label_externalize'', ''mpo_mount_label_init'',
     ''mpo_mount_label_internalize'', ''mpo_netinet_fragment'', ''mpo_netinet_icmp_reply'',
     ''mpo_netinet'', ''mpo_pipe_check_ioctl'', ''mpo_pipe_check_kqfilter'',
     ''mpo_pipe_check_label_update'', ''mpo_pipe_check_read'', ''mpo_pipe_check_select'',
     ''mpo_pipe_check_stat'', ''mpo_pipe_check_write'', ''mpo_pipe_label_associate'',
     ''mpo_pipe_label_copy'', ''mpo_pipe_label_destroy'', ''mpo_pipe_label_externalize'',
     ''mpo_pipe_label_init'', ''mpo_pipe_label_internalize'', ''mpo_pipe_label_update'',
     ''mpo_policy_destroy'', ''mpo_policy_init'', ''mpo_policy_initbsd'']"

definition mac_policy_ops_2 :: "string list" where
  "mac_policy_ops_2 =
    [''mpo_policy_syscall'', ''mpo_system_check_sysctlbyname'',
     ''mpo_proc_check_inherit_ipc_ports'', ''mpo_vnode_check_rename'', ''mpo_kext_check_query'',
     ''mpo_iokit_check_nvram_get'', ''mpo_iokit_check_nvram_set'',
     ''mpo_iokit_check_nvram_delete'', ''mpo_proc_check_expose'',
     ''mpo_proc_check_set_host_special_port'', ''mpo_proc_check_set_host_exception_port'',
     ''mpo_reserved10_hook'', ''mpo_reserved11_hook'', ''mpo_reserved12_hook'',
     ''mpo_reserved13_hook'', ''mpo_reserved14_hook'', ''mpo_reserved15_hook'',
     ''mpo_reserved16_hook'', ''mpo_reserved17_hook'', ''mpo_reserved18_hook'',
     ''mpo_reserved19_hook'', ''mpo_reserved20_hook'', ''mpo_reserved21_hook'',
     ''mpo_posixsem_check_create'', ''mpo_posixsem_check_open'', ''mpo_posixsem_check_post'',
     ''mpo_posixsem_check_unlink'', ''mpo_posixsem_check_wait'', ''mpo_posixsem_label_associate'',
     ''mpo_posixsem_label_destroy'', ''mpo_posixsem_label_init'', ''mpo_posixshm_check_create'',
     ''mpo_posixshm_check_mmap'', ''mpo_posixshm_check_open'', ''mpo_posixshm_check_stat'',
     ''mpo_posixshm_check'', ''mpo_posixshm_check_unlink'', ''mpo_posixshm_label_associate'',
     ''mpo_posixshm_label_destroy'', ''mpo_posixshm_label_init'', ''mpo_proc_check_debug'',
     ''mpo_proc_check_fork'', ''mpo_proc_check_get_task_name'', ''mpo_proc_check_get_task'',
     ''mpo_proc_check_getaudit'', ''mpo_proc_check_getauid'', ''mpo_proc_check_getlcid'',
     ''mpo_proc_check_mprotect'', ''mpo_proc_check_sched'', ''mpo_proc_check_setaudit'',
     ''mpo_proc_check_setauid'', ''mpo_proc_check_setlcid'', ''mpo_proc_check_signal'',
     ''mpo_proc_check_wait'', ''mpo_proc_label_destroy'', ''mpo_proc_label_init'',
     ''mpo_socket_check_accept'', ''mpo_socket_check_accepted'', ''mpo_socket_check_bind'',
     ''mpo_socket_check_connect'', ''mpo_socket_check_create'', ''mpo_socket_check_deliver'',
     ''mpo_socket_check_kqfilter'', ''mpo_socket_check_label_update'', ''mpo_socket_check_listen'',
     ''mpo_socket_check_receive'', ''mpo_socket_check_received'', ''mpo_socket_check_select'',
     ''mpo_socket_check_send'', ''mpo_socket_check_stat'', ''mpo_socket_check_setsockopt'',
     ''mpo_socket_check_getsockopt'', ''mpo_socket_label_associate_accept'',
     ''mpo_socket_label_associate'', ''mpo_socket_label_copy'', ''mpo_socket_label_destroy'',
     ''mpo_socket_label_externalize'', ''mpo_socket_label_init'', ''mpo_socket_label_internalize'',
     ''mpo_socket_label_update'', ''mpo_socketpeer_label_associate_mbuf'',
     ''mpo_socketpeer_label_associate_socket'', ''mpo_socketpeer_label_destroy'',
     ''mpo_socketpeer_label_externalize'', ''mpo_socketpeer_label_init'',
     ''mpo_system_check_acct'', ''mpo_system_check_audit'', ''mpo_system_check_auditctl'',
     ''mpo_system_check_auditon'', ''mpo_system_check_host_priv'', ''mpo_system_check_nfsd'',
     ''mpo_system_check_reboot'', ''mpo_system_check_settime'', ''mpo_system_check_swapoff'',
     ''mpo_system_check_swapon'', ''mpo_reserved22_hook'', ''mpo_sysvmsg_label_associate'',
     ''mpo_sysvmsg_label_destroy'', ''mpo_sysvmsg_label_init'', ''mpo_sysvmsg_label_recycle'',
     ''mpo_sysvmsq_check_enqueue'', ''mpo_sysvmsq_check_msgrcv'', ''mpo_sysvmsq_check_msgrmid'',
     ''mpo_sysvmsq_check_msqctl'', ''mpo_sysvmsq_check_msqget'', ''mpo_sysvmsq_check_msqrcv'',
     ''mpo_sysvmsq_check_msqsnd'', ''mpo_sysvmsq_label_associate'', ''mpo_sysvmsq_label_destroy'',
     ''mpo_sysvmsq_label_init'', ''mpo_sysvmsq_label_recycle'', ''mpo_sysvsem_check_semctl'',
     ''mpo_sysvsem_check_semget'', ''mpo_sysvsem_check_semop'', ''mpo_sysvsem_label_associate'',
     ''mpo_sysvsem_label_destroy'', ''mpo_sysvsem_label_init'', ''mpo_sysvsem_label_recycle'',
     ''mpo_sysvshm_check_shmat'', ''mpo_sysvshm_check_shmctl'', ''mpo_sysvshm_check_shmdt'',
     ''mpo_sysvshm_check_shmget'', ''mpo_sysvshm_label_associate'']"

definition mac_policy_ops_3 :: "string list" where
  "mac_policy_ops_3 =
    [''mpo_sysvshm_label_destroy'', ''mpo_sysvshm_label_init'', ''mpo_sysvshm_label_recycle'',
     ''mpo_reserved23_hook'', ''mpo_reserved24_hook'', ''mpo_reserved25_hook'',
     ''mpo_mount_check_snapshot_create'', ''mpo_check_snapshot_delete'', ''mpo_vnode_check_clone'',
     ''mpo_proc_check_get_cs_info'', ''mpo_proc_check_set_cs_info'',
     ''mpo_iokit_check_hid_control'', ''mpo_vnode_check_access'', ''mpo_vnode_check_chdir'',
     ''mpo_vnode_check_chroot'', ''mpo_vnode_check_create'', ''mpo_vnode_check_deleteextattr'',
     ''mpo_vnode_check_exchangedata'', ''mpo_vnode_check_exec'', ''mpo_vnode_check_getattrlist'',
     ''mpo_vnode_check_getextattr'', ''mpo_vnode_check_ioctl'', ''mpo_vnode_check_kqfilter'',
     ''mpo_vnode_check_label_update'', ''mpo_vnode_check_link'', ''mpo_vnode_check_listextattr'',
     ''mpo_vnode_check_lookup'', ''mpo_vnode_check_open'', ''mpo_vnode_check_read'',
     ''mpo_vnode_check_readdir'', ''mpo_vnode_check_readlink'', ''mpo_vnode_check_rename_from'',
     ''mpo_vnode_check_rename'', ''mpo_vnode_check_revoke'', ''mpo_vnode_check_select'',
     ''mpo_vnode_check_setattrlist'', ''mpo_vnode_check_setextattr'', ''mpo_vnode_check_setflags'',
     ''mpo_vnode_check_setmode'', ''mpo_vnode_check_setowner'', ''mpo_vnode_check_setutimes'',
     ''mpo_vnode_check_stat'', ''mpo_vnode_check'', ''mpo_vnode_check_unlink'',
     ''mpo_vnode_check_write'', ''mpo_vnode_label_associate_devfs'',
     ''mpo_vnode_label_associate_extattr'', ''mpo_vnode_label_associate_file'',
     ''mpo_vnode_label_associate_pipe'', ''mpo_vnode_label_associate_posixsem'',
     ''mpo_vnode_label_associate_posixshm'', ''mpo_vnode_label_associate_singlelabel'',
     ''mpo_vnode_label_associate_socket'', ''mpo_vnode_label_copy'', ''mpo_vnode_label_destroy'',
     ''mpo_vnode_label_externalize_audit'', ''mpo_vnode_label_externalize'',
     ''mpo_vnode_label_init'', ''mpo_vnode_label_internalize'', ''mpo_vnode_label_recycle'',
     ''mpo_vnode_label_store'', ''mpo_vnode_label_update_extattr'', ''mpo_vnode_label_update'',
     ''mpo_vnode_notify_create'', ''mpo_vnode_check_signature'', ''mpo_vnode_check_uipc_bind'',
     ''mpo_vnode_check_uipc_connect'', ''mpo_proc_check_run_cs_invalid'',
     ''mpo_proc_check_suspend_resume'', ''mpo_thread_userret'', ''mpo_iokit_check_set_properties'',
     ''mpo_system_check_chud'', ''mpo_vnode_check_searchfs'', ''mpo_priv_check'',
     ''mpo_priv_grant'', ''mpo_proc_check_map_anon'', ''mpo_vnode_check_fsgetpath'',
     ''mpo_iokit_check_open'', ''mpo_proc_check_ledger'', ''mpo_vnode_notify_rename'',
     ''mpo_vnode_check_setacl'', ''mpo_system_check_kas_info'', ''mpo_proc_check_cpumon'',
     ''mpo_vnode_notify_open'', ''mpo_system_check_info'', ''mpo_pty_notify_grant'',
     ''mpo_pty_notify_close'', ''mpo_vnode_find_sigs'', ''mpo_kext_check_load'',
     ''mpo_kext_check_unload'', ''mpo_proc_check_proc_info'', ''mpo_vnode_notify_link'',
     ''mpo_iokit_check_filter_properties'', ''mpo_iokit_check_get_property'']"

definition mac_policy_ops_names :: "string list" where
  "mac_policy_ops_names = mac_policy_ops_1 @ mac_policy_ops_2 @ mac_policy_ops_3"

section \<open>Kernel extensions\<close>

definition KextSigs_1 :: "(string \<times> string option) list" where
  "KextSigs_1 =
    [(''MD5Init'', Some ''Libkern Pseudoextension (com.apple.kpi.libkern)''),
     (''lock_get_calendar_microti'', Some ''Mach Kernel Pseudoextension (com.apple.kpi.mach)''),
     (''IOBSDNameMatching'', Some ''I/O Kit Pseudoextension''),
     (''VNOP_BWRITE'', Some ''BSD Kernel Pseudoextension (com.apple.kpi.bsd)''),
     (''ifnet_poll_params'', Some ''Private Pseudoextension (com.apple.kpi.private)''),
     (''KUNCExecute'', Some ''Unsupported Pseudoextension (com.apple.kpi.unsupported)''),
     (''mac_iokit_check_nvram'', Some ''MAC Framework Pseudoextension (com.apple.kpi.dsep)''),
     (''com.apple.driver.AppleSynopsysMIPIDSI'', Some ''(com.apple.driver.AppleSynopsysMIPIDSI)''),
     (''com.apple.nke.pptp'', Some ''(com.apple.nke.pptp)''),
     (''com.apple.kec.Libm'', Some ''com.apple.kec.Libm''),
     (''com.apple.driver.AppleEmbeddedAccelerometer'', Some ''(com.apple.driver.AppleEmbeddedAccelerometer)''),
     (''com.apple.driver.AppleSamsungI2S'', Some ''(com.apple.driver.AppleSamsungI2S)''),
     (''com.apple.driver.AppleT7000PMGR'', Some ''(com.apple.driver.AppleT7000PMGR)''),
     (''com.apple.driver.AppleS5L8960XUSBEHCI'', Some ''(com.apple.driver.AppleS5L8960XUSBEHCI)''),
     (''com.apple.driver.AppleT7000CLPC'', Some ''(com.apple.driver.AppleT7000CLPC)''),
     (''com.apple.driver.AppleT7000'', Some ''(com.apple.driver.AppleT7000)''),
     (''com.apple.driver.AppleS5L8960XUSBHSIC'', Some ''(com.apple.driver.AppleS5L8960XUSBHSIC)''),
     (''com.apple.driver.AppleUSBHSIC'', Some ''(com.apple.driver.USBHSIC)''),
     (''com.apple.driver.AppleUSBEHCIARM'', Some ''(com.apple.driver.AppleUSBEHCIARM)''),
     (''com.apple.driver.AppleS5L8960XGPIOIC'', Some ''(com.apple.driver.AppleS5L8960XGPIOIC)''),
     (''com.apple.driver.AppleInterruptController'', Some ''(com.apple.driver.AppleInterruptController)''),
     (''com.apple.driver.DiskImages.ReadWriteDiskImage'', Some ''(com.apple.driver.DiskImages.ReadWriteDiskImage)''),
     (''com.apple.iokit.IOMikeyBusFamily'', Some ''(com.apple.iokit.IOMikeyBusFamily)''),
     (''com.apple.iokit.AppleARMIISAudio'', Some ''(com.apple.iokit.AppleARMIISAudio)''),
     (''com.apple.driver.AppleEmbeddedAudio'', Some ''(com.apple.driver.AppleEmbeddedAudio)''),
     (''com.apple.driver.AppleCS35L19Amp'', Some ''(com.apple.driver.AppleCS35L19Amp)''),
     (''com.apple.AppleFSCompression.AppleFSCompressionTypeZlib'', Some ''(com.apple.AppleFSCompression.AppleFSCompressionTypeZlib)''),
     (''com.apple.nke.l2tp'', Some ''(com.apple.nke.l2tp)''),
     (''bsdthread_terminate'', Some ''Pthread (com.apple.kec.pthread)''),
     (''lzvn_decodeAppleFSCompressionTypeZlib (com.apple.AppleFSCompressionTypeZlib)'', None),
     (''AppleVXD393PriorityQueue'', Some ''AppleVXD393 (com.apple.driver.AppleVXD393)''),
     (''AppleS5L8940XDWI'', Some ''AppleS5L8940XDWI (com.apple.driver.AppleS5L8940XDWI)''),
     (''AppleD2186PMU'', Some ''AppleD2186PMU (com.apple.driver.AppleD2186PMU)''),
     (''AppleDialogPMU::'', Some ''AppleDialogPMU (com.apple.driver.AppleDialogPMU)''),
     (''com_apple_driver_KeyDeliveryIOKitMSE'', Some ''LSDIOKitMSE (com.apple.driver.LSDIOKitMSE)''),
     (''com_apple_driver_KeyDeliveryIOKit'', Some ''LSDIOKit (com.apple.driver.LSDIOKit)''),
     (''Sandbox extension sentinel'', Some ''Seatbelt (com.apple.security.sandbox)''),
     (''IOSlowAdaptiveClockingDomain'', Some ''IOSlowAdaptiveClockingFamily  (com.apple.iokit.IOSlowAdaptiveClockingFamily)''),
     (''AppleSEPManager::'', Some ''AppleSEPManager (com.apple.driver.AppleSEPManager)''),
     (''AppleSEPKeyStore::'', Some ''AppleSEPKeyStore (com.apple.driver.AppleSEPKeyStore)''),
     (''AppleOscarAsyncEventSource'', Some ''AppleOscar (com.apple.driver.AppleOscar)''),
     (''IOSurface::'', Some ''IOSurface (com.apple.iokit.IOSurface)''),
     (''AppleS5L8960XDART::'', Some ''AppleS5L8960XDART (com.apple.driver.AppleS5L8960XDART)''),
     (''IODART::'', Some ''IODARTFamily (com.apple.driver.IODARTFamily)''),
     (''IOBlockStorageDriver]:'', Some ''I/O Kit Storage Family (com.apple.iokit.IOStorageFamily)''),
     (''IOHDIXControllerUserClient::'', Some ''AppleDiskImageDriver (com.apple.driver.DiskImages)''),
     (''IOHDIXHDDriveInKernel'', Some ''AppleDiskImagesKernelBacked (com.apple.driver.DiskImages.KernelBacked)''),
     (''KDIRAMBackingStore'', Some ''AppleDiskImagesRAMBackingStore (com.apple.driver.DiskImages.RAMBackingStore)''),
     (''AppleAJPEGHal::'', Some ''AppleJPEGDriver (com.apple.driver.AppleJPEGDriver)''),
     (''AppleUSBHostMergePropertie'', Some ''I/O Kit Driver for USB Devices (com.apple.driver.AppleUSBHostMergeProperties)''),
     (''IOUSBDeviceConfigurator:'', Some ''IOUSBDeviceFamily (com.apple.iokit.IOUSBDeviceFamily)''),
     (''ORS232SerialStreamSync'', Some ''IOKit Serial Port Family (com.apple.iokit.IOSerialFamily)''),
     (''AppleOnboardSerialBSDClient:'', Some ''AppleOnboardSerial (com.apple.driver.AppleOnboardSerial)''),
     (''AppleS5L8940XI2CController:'', Some ''AppleS5L8940XI2CController (com.apple.driver.AppleS5L8940XI2C)''),
     (''AppleCS46L71Device'', Some ''AppleCS42L71Audio (com.apple.driver.AppleCS42L71Audio)''),
     (''AppleCS46L21Device'', Some ''AppleCS42L21Audio (com.apple.driver.AppleCS42L21Audio)'')]"

definition KextSigs_2 :: "(string \<times> string option) list" where
  "KextSigs_2 =
    [(''IOAccessoryPrimaryDevicePort'', Some ''IOAccessoryManager (com.apple.iokit.IOAccessoryManager)''),
     (''AppleSynopsysOTG3Device'', Some ''AppleSynopsysOTGDevice (com.apple.driver.AppleSynopsysOTGDevice)''),
     (''CCLogStream:'', Some ''CoreCapture (com.apple.driver.CoreCapture)''),
     (''CoreCaptureResponder'', Some ''CoreCaptureResponder (com.apple.driver.CoreCaptureResponder)''),
     (''com_apple_driver_FairPlayIOKitUserClient'', Some ''FairPlayIOKit (com.apple.driver.FairPlayIOKit)''),
     (''AppleTVIRUserClient'', Some ''AppleTVIR (com.apple.driver.AppleTVIR)''),
     (''AppleMobileApNonce::AppleMobileApNonce (com.apple.driver.AppleMobileApNonce)'', None),
     (''AppleStorageProcessorNode'', Some ''AppleStorageProcessorNodes (com.apple.driver.ASPSupportNodes''),
     (''ApplePinotLCD:'', Some ''ApplePinotLCD (com.apple.driver.ApplePinotLCD)''),
     (''IOAccelDevice'', Some ''IOAcceleratorFamily (com.apple.iokit.IOAcceleratorFamily2)''),
     (''AppleUSBEthernetHost::'', Some ''AppleUSBEthernetHost (com.apple.driver.AppleUSBEthernetHost''),
     (''AppleIDAMInterface'', Some ''AppleIDAMInterface (com.apple.driver.AppleIDAMInterface)''),
     (''com.apple.kext.tlsnke'', Some ''TLS NKE (com.apple.kext.tlsnke)''),
     (''AppleSSEUserClient'', Some ''AppleSSE (com.apple.driver.AppleSSE)''),
     (''AppleM2Scaler'', Some ''Apple M2 Scaler and Color Space Converter Driver (com.apple.driver.AppleM2ScalerCSCDriver)''),
     (''IOStreamAudio'', Some ''IOStreamAudioFamily (com.apple.iokit.IOStreamAudioFamily)''),
     (''Cyclone'', Some ''AppleCycloneErrorHandler (com.apple.driver.AppleCycloneErrorHander''),
     (''IOAudio2TransformerUserClient'', Some ''IOAudio2Family (com.apple.iokit.IOAudio2Family)''),
     (''IOCECUserClient::'', Some ''IOCECFamily (com.apple.iokit.IOCECFamily)''),
     (''IOAVController'', Some ''IOAVFamily (com.apple.iokit.IOAVFamily)''),
     (''AppleDiagnosticDataAccessReadOnly'', Some ''AppleDiagnosticDataAcccessReadOnly (com.apple.driver.AppleDiagnosticDataAccessReadOnly''),
     (''AppleBiometricServices'', Some ''AppleBiometricServices (com.apple.driver.AppleBiometricServices)''),
     (''IOPDPPlumbers::'', Some ''AppleBasebandPCI (com.apple.driver.AppleBasebandPCI''),
     (''IOMobileFramebufferUserClient::'', Some ''IOMobileGraphicsFamily (com.apple.iokit.IOMobileGraphicsFamily)''),
     (''AppleMobileADBE0'', Some ''AppleH8ADBE0 (com.apple.driver.AppleH8ADBE0)''),
     (''IOEthernetController:'', Some ''I/O Kit Networking Family (com.apple.iokit.IONetworkingFamily)''),
     (''ApplePMGR::'', Some ''ApplePMGR (com.apple.driver.ApplePMGR)''),
     (''AppleS8000PMGR:'', Some ''AppleS8000PMGR (com.apple.driver.AppleS8000PMGR)''),
     (''IOPCIDevice::'', Some ''I/O Kit PCI Family (com.apple.iokit.IOPCIFamily)''),
     (''AppleS800xPCIe:'', Some ''AppleS8000PCIe (com.apple.driver.AppleS8000PCIe)''),
     (''AppleSPIBiometricSensor:'', Some ''AppleBiometricSensor (com.apple.driver.AppleBiometricSensor)''),
     (''ProvInfo'', Some ''ProvInfoIOKit (com.apple.driver.ProvInfoIOKit)''),
     (''AppleBCMWLANTimeKeeper'', Some ''AppleBCMWLANCore (com.apple.driver.driver.AppleBCMWLANCore)''),
     (''AppleBCMWLANChipManagerPCIe'', Some ''AppleBCMWLANBusInterfacePCIe (com.apple.driver.driver.AppleBCMWLANBusInterfacePCIe)''),
     (''AppleStockholmControlUserClient'', Some ''AppleStockholmControl (com.apple.driver.AppleStockholmControl)''),
     (''AppleMesaSEPDriver'', Some ''AppleMesaSEPDriver (com.apple.driver.AppleMesaSEPDriver)''),
     (''AppleMobileFileIntegrityUser'', Some ''AppleMobileFileIntegrity (com.apple.driver.AppleMobileFileIntegrity)''),
     (''AppleEmbeddedI2CLightSensor'', Some ''AppleEmbeddedLightSensor (com.apple.driver.AppleEmbeddedLightSensor)''),
     (''TempSensorUserClient'', Some ''AppleEmbeddedTempSensor (com.apple.driver.AppleEmbeddedTempSensor)''),
     (''IONetworkUserClient'', Some ''iokit.IONetworkingFamily)''),
     (''corecrypto_kext'', Some ''corecrypto (com.apple.kec.corecrypto)''),
     (''IOReportFamily'', Some ''IOReportFamily (com.apple.iokit.IOReportFamily)''),
     (''AppleARMCPU'', Some ''AppleARMPlatform (com.apple.driver.AppleARMPlatform)''),
     (''AppleSamsungSPI'', Some ''AppleSamsungSPI (com.apple.driver.AppleSamsungSPI)''),
     (''IOAESAccelerator::'', Some ''IOAESAccelerator''),
     (''AppleEffaceableStorageUserClient::'', Some ''AppleEffaceableStorage (com.apple.driver.AppleEffaceableStorage)''),
     (''AppleH6CamIn::'', Some ''AppleH6CamIn''),
     (''AppleUSB20HubPort'', Some ''AppleUSB20HubPort''), (''IO80211AWDLMulti'', Some ''AWDL''),
     (''AppleUSBHostDevice'', Some ''AppleUSBHostDevice''),
     (''KDIUDIFDiskImage'', Some ''KDIUDIFDiskImage''),
     (''AppleUSBDeviceMux'', Some ''AppleUSBDeviceMux''),
     (''mDNSOffloadUserClient:'', Some ''mDNSOffloadUserClient''),
     (''AppleNANDConfigAccess'', Some ''AppleNANDConfigAccess''),
     (''AGXFirmwareKextG4P'', Some ''AGXFirmwareKextG4P''),
     (''BTReset'', Some ''BlueTooth-unknown-yet''),
     (''AppleS5L8920XPWM'', Some ''AppleS5L8920XPWM (com.apple.driver.AppleS5L8920XPWM)''),
     (''AppleSN2400ChargerFunction'', Some ''AppleSN2400Charger (com.apple.driver.AppleSN2400Charger)''),
     (''AppleIPAppenderUserClient'', Some ''AppleIPAppender (com.apple.driver.AppleIPAppender)''),
     (''AppleMultitouchSPI'', Some ''AppleMultitouchSPI (com.apple.driver.AppleMultitouchSPI)''),
     (''H264IOSurfaceBuf'', Some ''H264 Video Encoder (com.apple.driver.AppleAVE)''),
     (''IOSlaveMemory'', Some ''IOSlaveProcessor (com.apple.driver.IOSlaveProcessor)''),
     (''ApplePCIEMSIController'', Some ''ApplePCIEMSIController (com.apple.driver.AppleEmbeddedPCIE)''),
     (''IOHIDLibUserClient'', Some ''IOHIDFamily (com.apple.iokit.IOHIDFamily)''),
     (''AppleA7IOP'', Some ''AppleA7IOP (com.apple.driver.AppleA7IOP)'')]"

definition KextSigs :: "(string \<times> string option) list" where
  "KextSigs = KextSigs_1 @ KextSigs_2"

section \<open>Mach traps\<close>

definition mach_syscall_name_table :: "string list" where
  "mach_syscall_name_table =
    [''kern_invalid'', ''kern_invalid'', ''kern_invalid'', ''kern_invalid'', ''kern_invalid'',
     ''kern_invalid'', ''kern_invalid'', ''kern_invalid'', ''kern_invalid'', ''kern_invalid'',
     ''_kernelrpc_mach_vm_allocate_trap'', ''_kernelrpc_vm_allocate_trap'',
     ''_kernelrpc_mach_vm_deallocate_trap'', ''_kernelrpc_vm_deallocate_trap'',
     ''_kernelrpc_mach_vm_protect_trap'', ''_kernelrpc_vm_protect_trap'',
     ''_kernelrpc_mach_port_allocate_trap'', ''_kernelrpc_mach_port_destroy_trap'',
     ''_kernelrpc_mach_port_deallocate_trap'', ''_kernelrpc_mach_port_mod_refs_trap'',
     ''_kernelrpc_mach_port_move_member_trap'', ''_kernelrpc_mach_port_insert_right_trap'',
     ''_kernelrpc_mach_port_insert_member_trap'', ''_kernelrpc_mach_port_extract_member_trap'',
     ''__kernelrpc_mach_port_construct_trap'', ''__kernelrpc_mach_port_destruct_trap'',
     ''mach_reply_port'', ''thread_self_trap'', ''task_self_trap'', ''host_self_trap'',
     ''kern_invalid'', ''mach_msg_trap'', ''mach_msg_overwrite_trap'', ''semaphore_signal_trap'',
     ''semaphore_signal_all_trap'', ''semaphore_signal_thread_trap'', ''semaphore_wait_trap'',
     ''semaphore_wait_signal_trap'', ''semaphore_timedwait_trap'',
     ''semaphore_timedwait_signal_trap'', ''kern_invalid'', ''__kernelrpc_mach_port_guard_trap'',
     ''__kernelrpc_mach_port_unguard_trap'', ''map_fd'', ''task_name_for_pid'', ''task_for_pid'',
     ''pid_for_task'', ''kern_invalid'', ''macx_swapon'', ''macx_swapoff'', ''kern_invalid'',
     ''macx_triggers'', ''macx_backing_store_suspend'', ''macx_backing_store_recovery'',
     ''kern_invalid'', ''kern_invalid'', ''kern_invalid'', ''kern_invalid'', ''pfz_exit'',
     ''swtch_pri'', ''swtch'', ''thread_switch'', ''clock_sleep_trap'', ''kern_invalid'',
     ''kern_invalid'', ''kern_invalid'', ''kern_invalid'', ''kern_invalid'', ''kern_invalid'',
     ''kern_invalid'', ''kern_invalid'', ''kern_invalid'', ''kern_invalid'', ''kern_invalid'',
     ''kern_invalid'', ''kern_invalid'', ''kern_invalid'', ''kern_invalid'', ''kern_invalid'',
     ''kern_invalid'', ''kern_invalid'', ''kern_invalid'', ''kern_invalid'', ''kern_invalid'',
     ''kern_invalid'', ''kern_invalid'', ''kern_invalid'', ''kern_invalid'', ''kern_invalid'',
     ''mach_timebase_info_trap'', ''mach_wait_until_trap'', ''mk_timer_create_trap'',
     ''mk_timer_destroy_trap'', ''mk_timer_arm_trap'', ''mk_timer_cancel_trap'', ''kern_invalid'',
     ''kern_invalid'', ''kern_invalid'', ''kern_invalid'', ''kern_invalid'',
     ''iokit_user_client_trap'', ''kern_invalid'', ''kern_invalid'', ''kern_invalid'',
     ''kern_invalid'', ''kern_invalid'', ''kern_invalid'', ''kern_invalid'', ''kern_invalid'',
     ''kern_invalid'', ''kern_invalid'', ''kern_invalid'', ''kern_invalid'', ''kern_invalid'',
     ''kern_invalid'', ''kern_invalid'', ''kern_invalid'', ''kern_invalid'', ''kern_invalid'',
     ''kern_invalid'', ''kern_invalid'', ''kern_invalid'', ''kern_invalid'', ''kern_invalid'',
     ''kern_invalid'', ''kern_invalid'', ''kern_invalid'', ''kern_invalid'']"

section \<open>System calls\<close>

definition syscall_names_1 :: "string list" where
  "syscall_names_1 =
    [''syscall'', ''exit'', ''fork'', ''read'', ''write'', ''open'', ''close'', ''wait4'', ''8  old creat'',
     ''link'', ''unlink'', ''11  old execv'', ''chdir'', ''fchdir'', ''mknod'', ''chmod'', ''chown'',
     ''17  old break'', ''getfsstat'', ''19  old lseek'', ''getpid'', ''21  old mount'', ''22  old umount'',
     ''setuid'', ''getuid'', ''geteuid'', ''ptrace'', ''recvmsg'', ''sendmsg'', ''recvfrom'', ''accept'',
     ''getpeername'', ''getsockname'', ''access'', ''chflags'', ''fchflags'', ''sync'', ''kill'',
     ''38  old stat'', ''getppid'', ''40  old lstat'', ''dup'', ''pipe'', ''getegid'', ''profil'',
     ''45  old ktrace'', ''sigaction'', ''getgid'', ''sigprocmask'', ''getlogin'', ''setlogin'', ''acct'',
     ''sigpending'', ''sigaltstack'', ''ioctl'', ''reboot'', ''revoke'', ''symlink'', ''readlink'',
     ''execve'', ''umask'', ''chroot'', ''62  old fstat'', ''63  used internally , reserved'',
     ''64  old getpagesize'', ''msync'', ''vfork'', ''67  old vread'', ''68  old vwrite'', ''69  old sbrk'',
     ''70  old sstk'', ''71  old mmap'', ''72  old vadvise'', ''munmap'', ''mprotect'', ''madvise'',
     ''76  old vhangup'', ''77  old vlimit'', ''mincore'', ''getgroups'', ''setgroups'', ''getpgrp'',
     ''setpgid'', ''setitimer'', ''84  old wait'', ''swapon'', ''getitimer'', ''87  old gethostname'',
     ''88  old sethostname'', ''getdtablesize'', ''dup2'', ''91  old getdopt'', ''fcntl'', ''select'',
     ''94  old setdopt'', ''fsync'', ''setpriority'', ''socket'', ''connect'', ''99  old accept'',
     ''getpriority'', ''101  old send'', ''102  old recv'', ''103  old sigreturn'', ''bind'',
     ''setsockopt'', ''listen'', ''107  old vtimes'', ''108  old sigvec'', ''109  old sigblock'',
     ''110  old sigsetmask'', ''sigsuspend'', ''112  old sigstack'', ''113  old recvmsg'',
     ''114  old sendmsg'', ''115  old vtrace'', ''gettimeofday'', ''getrusage'', ''getsockopt'',
     ''119  old resuba'', ''readv'', ''writev'', ''settimeofday'', ''fchown'', ''fchmod'',
     ''125  old recvfrom'', ''setreuid'', ''setregid'', ''rename'', ''129  old truncate'',
     ''130  old ftruncate'']"

definition syscall_names_2 :: "string list" where
  "syscall_names_2 =
    [''flock'', ''mkfifo'', ''sendto'', ''shutdown'', ''socketpair'', ''mkdir'', ''rmdir'', ''utimes'',
     ''futimes'', ''adjtime'', ''141  old getpeername'', ''gethostuuid'', ''143  old sethostid'',
     ''144  old getrlimit'', ''145  old setrlimit'', ''146  old killpg'', ''setsid'', ''148  old setquota'',
     ''149  old qquota'', ''150  old getsockname'', ''getpgid'', ''setprivexec'', ''pread'', ''pwrite'',
     ''nfssvc'', ''156  old getdirentries'', ''statfs'', ''fstatfs'', ''unmount'',
     ''160  old async_daemon'', ''getfh'', ''162  old getdomainname'', ''163  old setdomainname'', ''164'',
     ''quotactl'', ''166  old exportfs'', ''mount'', ''168  old ustat'', ''csops'', ''csops_audittoken'',
     ''171  old wait3'', ''172  old rpause'', ''waitid'', ''174  old getdents'', ''175  old gc_control'',
     ''add_profil'', ''kdebug_typefilter'', ''kdebug_trace_string'', ''kdebug_trace64'', ''kdebug_trace'',
     ''setgid'', ''setegid'', ''seteuid'', ''sigreturn'', ''chud'', ''186'', ''fdatasync'', ''stat'',
     ''fstat'', ''lstat'', ''pathconf'', ''fpathconf'', ''193'', ''getrlimit'', ''setrlimit'',
     ''getdirentries'', ''mmap'', ''198  __syscall'', ''lseek'', ''truncate'', ''ftruncate'', ''__sysctl'',
     ''mlock'', ''munlock'', ''undelete'', ''ATsocket'', ''ATgetmsg'', ''ATputmsg'', ''ATPsndreq'',
     ''ATPsndrsp'', ''ATPgetreq'', ''ATPgetrsp'', ''213  Reserved for AppleTalk'', ''214'', ''215'',
     ''mkcomplex'', ''statv'', ''lstatv'', ''fstatv'', ''getattrlist'', ''setattrlist'',
     ''getdirentriesattr'', ''exchangedata'',
     ''224  old checkuseraccess / fsgetpath ( which moved to 427 )'', ''searchfs'', ''delete'',
     ''copyfile'', ''fgetattrlist'', ''fsetattrlist'', ''poll'', ''watchevent'', ''waitevent'',
     ''modwatch'', ''getxattr'', ''fgetxattr'', ''setxattr'', ''fsetxattr'', ''removexattr'',
     ''fremovexattr'', ''listxattr'', ''flistxattr'', ''fsctl'', ''initgroups'', ''posix_spawn'',
     ''ffsctl'', ''246'', ''nfsclnt'', ''fhopen'', ''249'', ''minherit'', ''semsys'', ''msgsys'',
     ''shmsys'', ''semctl'', ''semget'', ''semop'', ''257'', ''msgctl'', ''msgget'', ''msgsnd'', ''msgrcv'']"

definition syscall_names_3 :: "string list" where
  "syscall_names_3 =
    [''shmat'', ''shmctl'', ''shmdt'', ''shmget'', ''shm_open'', ''shm_unlink'', ''sem_open'',
     ''sem_close'', ''sem_unlink'', ''sem_wait'', ''sem_trywait'', ''sem_post'', ''sem_getvalue'',
     ''sem_init'', ''sem_destroy'', ''open_extended'', ''umask_extended'', ''stat_extended'',
     ''lstat_extended'', ''fstat_extended'', ''chmod_extended'', ''fchmod_extended'', ''access_extended'',
     ''settid'', ''gettid'', ''setsgroups'', ''getsgroups'', ''setwgroups'', ''getwgroups'',
     ''mkfifo_extended'', ''mkdir_extended'', ''identitysvc'', ''shared_region_check_np'',
     ''shared_region_map_np'', ''vm_pressure_monitor'', ''psynch_rw_longrdlock'', ''psynch_rw_yieldwrlock'',
     ''psynch_rw_downgrade'', ''psynch_rw_upgrade'', ''psynch_mutexwait'', ''psynch_mutexdrop'',
     ''psynch_cvbroad'', ''psynch_cvsignal'', ''psynch_cvwait'', ''psynch_rw_rdlock'', ''psynch_rw_wrlock'',
     ''psynch_rw_unlock'', ''psynch_rw_unlock2'', ''getsid'', ''settid_with_pid'', ''psynch_cvclrprepost'',
     ''aio_fsync'', ''aio_return'', ''aio_suspend'', ''aio_cancel'', ''aio_error'', ''aio_read'',
     ''aio_write'', ''lio_listio'', ''321  old __pthread_cond_wait'', ''iopolicysys'', ''process_policy'',
     ''mlockall'', ''munlockall'', ''326'', ''issetugid'', ''__pthread_kill'', ''__pthread_sigmask'',
     ''__sigwait'', ''__disable_threadsignal'', ''__pthread_markcancel'', ''__pthread_canceled'',
     ''__semwait_signal'', ''335  old utrace'', ''proc_info'', ''sendfile'', ''stat64'', ''fstat64'',
     ''lstat64'', ''stat64_extended'', ''lstat64_extended'', ''fstat64_extended'', ''getdirentries64'',
     ''statfs64'', ''fstatfs64'', ''getfsstat64'', ''__pthread_chdir'', ''__pthread_fchdir'', ''audit'',
     ''auditon'', ''352'', ''getauid'', ''setauid'', ''getaudit'', ''setaudit'', ''getaudit_addr'',
     ''setaudit_addr'', ''auditctl'', ''bsdthread_create'', ''bsdthread_terminate'', ''kqueue'', ''kevent'',
     ''lchown'', ''stack_snapshot'', ''bsdthread_register'', ''workq_open'', ''workq_kernreturn'',
     ''kevent64'', ''__old_semwait_signal'', ''__old_semwait_signal_nocancel'', ''thread_selfid'',
     ''ledger'', ''kevent_qos'', ''375'', ''376'', ''377'', ''378'', ''379'', ''__mac_execve'',
     ''__mac_syscall'', ''__mac_get_file'', ''__mac_set_file'', ''__mac_get_link'', ''__mac_set_link'',
     ''__mac_get_proc'', ''__mac_set_proc'', ''__mac_get_fd'', ''__mac_set_fd'', ''__mac_get_pid'',
     ''__mac_get_lcid'', ''__mac_get_lctx'']"

definition syscall_names_4 :: "string list" where
  "syscall_names_4 =
    [''__mac_set_lctx'', ''setlcid'', ''getlcid'', ''read_nocancel'', ''write_nocancel'', ''open_nocancel'',
     ''close_nocancel'', ''wait4_nocancel'', ''recvmsg_nocancel'', ''sendmsg_nocancel'',
     ''recvfrom_nocancel'', ''accept_nocancel'', ''msync_nocancel'', ''fcntl_nocancel'',
     ''select_nocancel'', ''fsync_nocancel'', ''connect_nocancel'', ''sigsuspend_nocancel'',
     ''readv_nocancel'', ''writev_nocancel'', ''sendto_nocancel'', ''pread_nocancel'', ''pwrite_nocancel'',
     ''waitid_nocancel'', ''poll_nocancel'', ''msgsnd_nocancel'', ''msgrcv_nocancel'',
     ''sem_wait_nocancel'', ''aio_suspend_nocancel'', ''__sigwait_nocancel'', ''__semwait_signal_nocancel'',
     ''__mac_mount'', ''__mac_get_mount'', ''__mac_getfsstat'', ''fsgetpath'', ''audit_session_self'',
     ''audit_session_join'', ''fileport_makeport'', ''fileport_makefd'', ''audit_session_port'',
     ''pid_suspend'', ''pid_resume'', ''pid_hibernate'', ''pid_shutdown_sockets'',
     ''437  old shared_region_slide_np'', ''shared_region_map_and_slide_np'', ''kas_info'',
     ''memorystatus_control'', ''guarded_open_np'', ''guarded_close_np'', ''guarded_kqueue_np'',
     ''change_fdguard_np'', ''proc_rlimit_control'', ''proc_rlimit_control'', ''proc_connectx'',
     ''proc_disconnectx'', ''proc_peeloff'', ''proc_socket_delegate'', ''proc_telemetry'',
     ''proc_uuid_policy'', ''memorystatus_get_level'', ''system_override'', ''vfs_purge'', ''sfi_ctl'',
     ''sfi_pidctl'', ''coalition'', ''coalition_info'', ''necp_match_policy'', ''getattrlistbulk'',
     ''clonefileat'', ''openat'', ''openat_nocancel'', ''renameat'', ''faccessat'', ''fchmodat'',
     ''fchownat'', ''fstatat'', ''fstatat64'', ''linkat'', ''unlinkat'', ''readlinkat'', ''symlinkat'',
     ''mkdirat'', ''getattrlistat'', ''proc_trace_log'', ''bsdthread_ctl'', ''openbyid_np'', ''recvmsg_x'',
     ''sendmsg_x'', ''thread_selfusage'', ''csrctl'', ''guarded_open_dprotected_np'', ''guarded_write_np'',
     ''guarded_pwrite_np'', ''guarded_writev_np'', ''rename_ext'', ''mremap_encrypted'',
     ''netagent_trigger'', ''stack_snapshot_with_config'', ''microstackshot'', ''grab_pgo_data'',
     ''persona'', ''#495'', ''#496'', ''#497'', ''#498'', ''work_interval_ctl'', ''getentropy    '',
     ''necp_open     '', ''necp_client_action'', ''__nexus_open  '', ''__nexus_register'',
     ''__nexus_deregister'', ''__nexus_create'', ''__nexus_destroy'', ''__nexus_get_opt'',
     ''__nexus_set_opt'', ''__channel_open'', ''__channel_get_info'', ''__channel_sync'',
     ''__channel_get_opt'', ''__channel_set_opt'', ''ulock_wait    '', ''ulock_wake    '',
     ''fclonefileat  '', ''fs_snapshot   '', ''#519'', ''terminate_with_payload'', ''abort_with_payload'']"

definition syscall_names :: "string list" where
  "syscall_names = syscall_names_1 @ syscall_names_2 @ syscall_names_3 @ syscall_names_4"

section \<open>MIG subsystems\<close>

type_synonym mig_func_desc = "string option \<times> nat"

definition processor_mig :: "mig_func_desc list" where
  "processor_mig =
    [(Some ''processor_start'', 3000), (Some ''processor_exit'', 3001),
     (Some ''processor_info'', 3002), (Some ''processor_control'', 3003),
     (Some ''processor_assign'', 3004), (Some ''processor_get_assignment'', 3005), (None, 3006)]"

definition mach_port_mig :: "mig_func_desc list" where
  "mach_port_mig =
    [(Some ''mach_port_names'', 3200), (Some ''mach_port_type'', 3201),
     (Some ''mach_port_rename'', 3202), (Some ''mach_port_allocate_name'', 3203),
     (Some ''mach_port_allocate'', 3204), (Some ''mach_port_destroy'', 3205),
     (Some ''mach_port_deallocate'', 3206), (Some ''mach_port_get_refs'', 3207),
     (Some ''mach_port_mod_refs'', 3208), (Some ''mach_port_peek'', 3209),
     (Some ''mach_port_set_mscount'', 3210), (Some ''mach_port_get_set_status'', 3211),
     (Some ''mach_port_move_member'', 3212), (Some ''mach_port_request_notification'', 3213),
     (Some ''mach_port_insert_right'', 3214), (Some ''mach_port_extract_right'', 3215),
     (Some ''mach_port_set_seqno'', 3216), (Some ''mach_port_get_attributes'', 3217),
     (Some ''mach_port_set_attributes'', 3218), (Some ''mach_port_allocate_qos'', 3219),
     (Some ''mach_port_allocate_full'', 3220), (Some ''task_set_port_space'', 3221),
     (Some ''mach_port_get_srights'', 3222), (Some ''mach_port_space_info'', 3223),
     (Some ''mach_port_dnrequest_info'', 3224), (Some ''mach_port_kernel_object'', 3225),
     (Some ''mach_port_insert_member'', 3226), (Some ''mach_port_extract_member'', 3227),
     (Some ''mach_port_get_context'', 3228), (Some ''mach_port_set_context'', 3229),
     (Some ''mach_port_kobject'', 3230), (Some ''mach_port_construct'', 3231),
     (Some ''mach_port_destruct'', 3232), (Some ''mach_port_guard'', 3233),
     (Some ''mach_port_unguard'', 3234), (Some ''mach_port_space_basic_info'', 3235), (None, 3236)]"

definition host_security_mig :: "mig_func_desc list" where
  "host_security_mig =
    [(Some ''host_security_create_task_token'', 600), (Some ''host_security_set_task_token'', 601),
     (None, 602)]"

definition processor_set_mig :: "mig_func_desc list" where
  "processor_set_mig =
    [(Some ''processor_set_statistics'', 4000), (Some ''processor_set_destroy'', 4001),
     (Some ''processor_set_max_priority'', 4002), (Some ''processor_set_policy_enable'', 4003),
     (Some ''processor_set_policy_disable'', 4004), (Some ''processor_set_tasks'', 4005),
     (Some ''processor_set_threads'', 4006), (Some ''processor_set_policy_control'', 4007),
     (Some ''processor_set_stack_usage'', 4008), (Some ''processor_set_info'', 4009), (None, 4010)]"

definition iokit_mig :: "mig_func_desc list" where
  "iokit_mig =
    [(Some ''io_object_get_class'', 2800), (Some ''io_object_conforms_to'', 2801),
     (Some ''io_iterator_next'', 2802), (Some ''io_iterator_reset'', 2803),
     (Some ''io_service_get_matching_services'', 2804),
     (Some ''io_registry_entry_get_property'', 2805), (Some ''io_registry_create_iterator'', 2806),
     (Some ''io_registry_iterator_enter_entry'', 2807),
     (Some ''io_registry_iterator_exit_entry'', 2808),
     (Some ''io_registry_entry_from_path'', 2809), (Some ''io_registry_entry_get_name'', 2810),
     (Some ''io_registry_entry_get_properties'', 2811),
     (Some ''io_registry_entry_get_property_bytes'', 2812),
     (Some ''io_registry_entry_get_child_iterator'', 2813),
     (Some ''io_registry_entry_get_parent_iterator'', 2814), (Some ''io_service_close'', 2816),
     (Some ''io_connect_get_service'', 2817), (Some ''io_connect_set_notification_port'', 2818),
     (Some ''io_connect_map_memory'', 2819), (Some ''io_connect_add_client'', 2820),
     (Some ''io_connect_set_properties'', 2821),
     (Some ''io_connect_method_scalarI_scalarO'', 2822),
     (Some ''io_connect_method_scalarI_structureO'', 2823),
     (Some ''io_connect_method_scalarI_structureI'', 2824),
     (Some ''io_connect_method_structureI_structureO'', 2825),
     (Some ''io_registry_entry_get_path'', 2826), (Some ''io_registry_get_root_entry'', 2827),
     (Some ''io_registry_entry_set_properties'', 2828),
     (Some ''io_registry_entry_in_plane'', 2829), (Some ''io_object_get_retain_count'', 2830),
     (Some ''io_service_get_busy_state'', 2831), (Some ''io_service_wait_quiet'', 2832),
     (Some ''io_registry_entry_create_iterator'', 2833), (Some ''io_iterator_is_valid'', 2834),
     (Some ''io_catalog_send_data'', 2836), (Some ''io_catalog_terminate'', 2837),
     (Some ''io_catalog_get_data'', 2838), (Some ''io_catalog_get_gen_count'', 2839),
     (Some ''io_catalog_module_loaded'', 2840), (Some ''io_catalog_reset'', 2841),
     (Some ''io_service_request_probe'', 2842),
     (Some ''io_registry_entry_get_name_in_plane'', 2843),
     (Some ''io_service_match_property_table'', 2844),
     (Some ''io_async_method_scalarI_scalarO'', 2845),
     (Some ''io_async_method_scalarI_structureO'', 2846),
     (Some ''io_async_method_scalarI_structureI'', 2847),
     (Some ''io_async_method_structureI_structureO'', 2848),
     (Some ''io_service_add_notification'', 2849),
     (Some ''io_service_add_interest_notification'', 2850),
     (Some ''io_service_acknowledge_notification'', 2851),
     (Some ''io_connect_get_notification_semaphore'', 2852),
     (Some ''io_connect_unmap_memory'', 2853),
     (Some ''io_registry_entry_get_location_in_plane'', 2854),
     (Some ''io_registry_entry_get_property_recursively'', 2855),
     (Some ''io_service_get_state'', 2856), (Some ''io_service_get_matching_services_ool'', 2857),
     (Some ''io_service_match_property_table_ool'', 2858),
     (Some ''io_service_add_notification_ool'', 2859), (Some ''io_object_get_superclass'', 2860),
     (Some ''io_object_get_bundle_identifier'', 2861), (Some ''io_service_open_extended'', 2862),
     (Some ''io_connect_map_memory_into_task'', 2863),
     (Some ''io_connect_unmap_memory_from_task'', 2864), (Some ''io_connect_method'', 2865),
     (Some ''io_connect_async_method'', 2866),
     (Some ''io_registry_entry_get_registry_entry_id'', 2871),
     (Some ''io_connect_method_var_output'', 2872),
     (Some ''io_service_get_matching_service'', 2873),
     (Some ''io_service_get_matching_service_ool'', 2874),
     (Some ''io_service_get_authorization_id'', 2875),
     (Some ''io_service_set_authorization_id'', 2876), (Some ''io_server_version'', 2877),
     (Some ''io_registry_entry_get_properties_bin'', 2878),
     (Some ''io_registry_entry_get_property_bin'', 2879),
     (Some ''io_service_get_matching_service_bin'', 2880),
     (Some ''io_service_get_matching_services_bin'', 2881),
     (Some ''io_service_match_property_table_bin'', 2882),
     (Some ''io_service_add_notification_bin'', 2883),
     (Some ''io_registry_entry_get_path_ool'', 2884),
     (Some ''io_registry_entry_from_path_ool'', 2885), (None, 2886)]"

definition mach_vm_mig :: "mig_func_desc list" where
  "mach_vm_mig =
    [(Some ''mach_vm_allocate'', 4800), (Some ''mach_vm_deallocate'', 4801),
     (Some ''mach_vm_protect'', 4802), (Some ''mach_vm_inherit'', 4803),
     (Some ''mach_vm_read'', 4804), (Some ''mach_vm_read_list'', 4805),
     (Some ''mach_vm_write'', 4806), (Some ''mach_vm_copy'', 4807),
     (Some ''mach_vm_read_overwrite'', 4808), (Some ''mach_vm_msync'', 4809),
     (Some ''mach_vm_behavior_set'', 4810), (Some ''mach_vm_map'', 4811),
     (Some ''mach_vm_machine_attribute'', 4812), (Some ''mach_vm_remap'', 4813),
     (Some ''mach_vm_page_query'', 4814), (Some ''mach_vm_region_recurse'', 4815),
     (Some ''mach_vm_region'', 4816), (Some ''_mach_make_memory_entry'', 4817),
     (Some ''mach_vm_purgable_control'', 4818), (Some ''mach_vm_page_info'', 4819), (None, 4820)]"

definition mach_host_mig :: "mig_func_desc list" where
  "mach_host_mig =
    [(Some ''host_info'', 200), (Some ''host_kernel_version'', 201),
     (Some ''_host_page_size'', 202), (Some ''mach_memory_object_memory_entry'', 203),
     (Some ''host_processor_info'', 204), (Some ''host_get_io_master'', 205),
     (Some ''host_get_clock_service'', 206), (Some ''kmod_get_info'', 207),
     (Some ''host_zone_info'', 208), (Some ''host_virtual_physical_table_info'', 209),
     (Some ''processor_set_default'', 213), (Some ''processor_set_create'', 214),
     (Some ''mach_memory_object_memory_entry_64'', 215), (Some ''host_statistics'', 216),
     (Some ''host_request_notification'', 217), (Some ''host_lockgroup_info'', 218),
     (Some ''host_statistics64'', 219), (Some ''mach_zone_info'', 220),
     (Some ''host_create_mach_voucher'', 222),
     (Some ''host_register_mach_voucher_attr_manager'', 223),
     (Some ''host_register_well_known_mach_voucher_attr_manager'', 224),
     (Some ''host_set_atm_diagnostic_flag'', 225), (Some ''host_get_atm_diagnostic_flag'', 226),
     (Some ''mach_memory_info'', 227), (Some ''host_set_multiuser_config_flags'', 228),
     (Some ''host_get_multiuser_config_flags'', 229), (Some ''host_check_multiuser_mode'', 230),
     (None, 231)]"

definition task_mig :: "mig_func_desc list" where
  "task_mig =
    [(Some ''task_create'', 3400), (Some ''task_terminate'', 3401), (Some ''task_threads'', 3402),
     (Some ''mach_ports_register'', 3403), (Some ''mach_ports_lookup'', 3404),
     (Some ''task_info'', 3405), (Some ''task_set_info'', 3406), (Some ''task_suspend'', 3407),
     (Some ''task_resume'', 3408), (Some ''task_get_special_port'', 3409),
     (Some ''task_set_special_port'', 3410), (Some ''thread_create'', 3411),
     (Some ''thread_create_running'', 3412), (Some ''task_set_exception_ports'', 3413),
     (Some ''task_get_exception_ports'', 3414), (Some ''task_swap_exception_ports'', 3415),
     (Some ''lock_set_create'', 3416), (Some ''lock_set_destroy'', 3417),
     (Some ''semaphore_create'', 3418), (Some ''semaphore_destroy'', 3419),
     (Some ''task_policy_set'', 3420), (Some ''task_policy_get'', 3421),
     (Some ''task_sample'', 3422), (Some ''task_policy'', 3423),
     (Some ''task_set_emulation'', 3424), (Some ''task_get_emulation_vector'', 3425),
     (Some ''task_set_emulation_vector'', 3426), (Some ''task_set_ras_pc'', 3427),
     (Some ''task_zone_info'', 3428), (Some ''task_assign'', 3429),
     (Some ''task_assign_default'', 3430), (Some ''task_get_assignment'', 3431),
     (Some ''task_set_policy'', 3432), (Some ''task_get_state'', 3433),
     (Some ''task_set_state'', 3434), (Some ''task_set_phys_footprint_limit'', 3435),
     (Some ''task_suspend2'', 3436), (Some ''task_resume2'', 3437),
     (Some ''task_purgable_info'', 3438), (Some ''task_get_mach_voucher'', 3439),
     (Some ''task_set_mach_voucher'', 3440), (Some ''task_swap_mach_voucher'', 3441),
     (Some ''task_generate_corpse'', 3442), (Some ''task_map_corpse_info'', 3443),
     (Some ''task_register_dyld_image_infos'', 3444),
     (Some ''task_unregister_dyld_image_infos'', 3445), (Some ''task_get_dyld_image_infos'', 3446),
     (Some ''task_register_dyld_shared_cache_image_info'', 3447),
     (Some ''task_register_dyld_set_dyld_state'', 3448),
     (Some ''task_register_dyld_get_process_state'', 3449),
     (Some ''task_map_corpse_info_64'', 3450), (None, 3451)]"

definition host_priv_mig :: "mig_func_desc list" where
  "host_priv_mig =
    [(Some ''host_get_boot_info'', 400), (Some ''host_reboot'', 401),
     (Some ''host_priv_statistics'', 402), (Some ''host_default_memory_manager'', 403),
     (Some ''vm_wire'', 404), (Some ''thread_wire'', 405), (Some ''vm_allocate_cpm'', 406),
     (Some ''host_processors'', 407), (Some ''host_get_clock_control'', 408),
     (Some ''kmod_create'', 409), (Some ''kmod_destroy'', 410), (Some ''kmod_control'', 411),
     (Some ''host_get_special_port'', 412), (Some ''host_set_special_port'', 413),
     (Some ''host_set_exception_ports'', 414), (Some ''host_get_exception_ports'', 415),
     (Some ''host_swap_exception_ports'', 416), (Some ''mach_vm_wire'', 418),
     (Some ''host_processor_sets'', 419), (Some ''host_processor_set_priv'', 420),
     (Some ''set_dp_control_port'', 421), (Some ''get_dp_control_port'', 422),
     (Some ''host_set_UNDServer'', 423), (Some ''host_get_UNDServer'', 424),
     (Some ''kext_request'', 425), (None, 426)]"

definition thread_act_mig :: "mig_func_desc list" where
  "thread_act_mig =
    [(Some ''thread_terminate'', 3600), (Some ''act_get_state'', 3601),
     (Some ''act_set_state'', 3602), (Some ''thread_get_state'', 3603),
     (Some ''thread_set_state'', 3604), (Some ''thread_suspend'', 3605),
     (Some ''thread_resume'', 3606), (Some ''thread_abort'', 3607),
     (Some ''thread_abort_safely'', 3608), (Some ''thread_depress_abort'', 3609),
     (Some ''thread_get_special_port'', 3610), (Some ''thread_set_special_port'', 3611),
     (Some ''thread_info'', 3612), (Some ''thread_set_exception_ports'', 3613),
     (Some ''thread_get_exception_ports'', 3614), (Some ''thread_swap_exception_ports'', 3615),
     (Some ''thread_policy'', 3616), (Some ''thread_policy_set'', 3617),
     (Some ''thread_policy_get'', 3618), (Some ''thread_sample'', 3619),
     (Some ''etap_trace_thread'', 3620), (Some ''thread_assign'', 3621),
     (Some ''thread_assign_default'', 3622), (Some ''thread_get_assignment'', 3623),
     (Some ''thread_set_policy'', 3624), (Some ''thread_get_mach_voucher'', 3625),
     (Some ''thread_set_mach_voucher'', 3626), (Some ''thread_swap_mach_voucher'', 3627),
     (None, 3628)]"

end
