(* ===== verification/Joker_Kernel.thy ===== *)
theory Joker_Kernel
  imports Joker_Tables
begin

text \<open>
  The scanners of \<open>src/src/joker.c\<close> over a kernel image: \<open>identifyKext\<close>, \<open>dumpOps\<close>, the MIG
  subsystems (\<open>doMIG\<close>, \<open>dumpMIGSubsystem\<close>) and the Mach trap table (\<open>doMachTraps\<close>,
  \<open>dumpMachTraps\<close>). The Mach-O sections come from a library that is not part of the repository:
  a section is the parameter \<open>(address, offset, size)\<close>, found by name. Output lines are items, as printed without the
  symbol cache of \<open>-j\<close>; notes on standard error are left out.
\<close>

section \<open>Kernel extensions and policy operations\<close>

text \<open>The outer option is a returned pointer's \<open>NULL\<close>: nothing found, or a signature without name.\<close>

fun match_sig :: "mem \<Rightarrow> (string \<times> string option) list \<Rightarrow> string option" where
  "match_sig kext [] = None"
| "match_sig kext ((s, name) # sigs) =
     (if memmem kext (str s) \<noteq> None then name else match_sig kext sigs)"

definition identifyKext :: "mem \<Rightarrow> nat \<Rightarrow> string option option" where
  "identifyKext kext sz =
     (if sz < 0x1000 then Some (Some ''this kext is too small!'')
      else do { bytes \<leftarrow> slice kext 0 sz; Some (match_sig bytes KextSigs) })"

text \<open>Operation \<open>i\<close> of a policy is the 64-bit pointer at index \<open>i\<close>.\<close>

fun dump_ops_from :: "mem \<Rightarrow> nat \<Rightarrow> nat \<Rightarrow> string list \<Rightarrow> (nat \<times> string \<times> nat) list option" where
  "dump_ops_from m p op [] = Some []"
| "dump_ops_from m p op (name # names) = do {
     f \<leftarrow> rd_le 8 m (p + 8 * op);
     xs \<leftarrow> dump_ops_from m p (op + 1) names;
     Some (if f \<noteq> 0 then (f, name, op) # xs else xs)
   }"

definition dumpOps :: "mem \<Rightarrow> nat \<Rightarrow> (nat \<times> string \<times> nat) list option" where
  "dumpOps m p = dump_ops_from m p 0 mac_policy_ops_names"

section \<open>MIG subsystems\<close>

datatype mig_item =
    Found string nat
  | Routine string nat nat
  | NewerKernel nat nat

definition mig_tables :: "mig_func_desc list list" where
  "mig_tables = [processor_mig, processor_set_mig, host_security_mig, iokit_mig, mach_port_mig,
     mach_vm_mig, mach_host_mig, host_priv_mig, task_mig, thread_act_mig]"

text \<open>The last table whose first routine is \<open>min\<close>; without one the pointer stays uninitialised.\<close>

definition mig_select :: "nat \<Rightarrow> mig_func_desc list option" where
  "mig_select mn = find (\<lambda>t. t \<noteq> [] \<and> snd (hd t) = mn) (rev mig_tables)"

definition rd_ptr :: "bool \<Rightarrow> mem \<Rightarrow> nat \<Rightarrow> nat option" where
  "rd_ptr is64 m p = (if is64 then rd_le 8 m p else rd_le 4 m p)"

definition mig_stride :: "bool \<Rightarrow> nat" where
  "mig_stride is64 = (if is64 then 5 * 8 else 6 * 4)"

text \<open>The table entries below \<open>last\<close>; the pointer advances by as many entries as the numbers do.
  Reading the number behind the table, or the \<open>NULL\<close> name of its last entry, is undefined.\<close>

fun mig_walk :: "bool \<Rightarrow> mem \<Rightarrow> nat \<Rightarrow> nat \<Rightarrow> mig_func_desc list \<Rightarrow> mig_item list option" where
  "mig_walk is64 m ptr last_num [] = None"
| "mig_walk is64 m ptr last_num ((name, num) # rest) =
     (if num < last_num then do {
        routine \<leftarrow> rd_ptr is64 m ptr;
        nm \<leftarrow> name;
        (_, next) \<leftarrow> (case rest of [] \<Rightarrow> None | e # _ \<Rightarrow> Some e);
        xs \<leftarrow> mig_walk is64 m (ptr + mig_stride is64 * (next - num)) last_num rest;
        Some (Routine nm routine num # xs)
      }
      else Some [])"

definition dumpMIGSubsystem :: "mem \<Rightarrow> nat \<Rightarrow> nat \<Rightarrow> bool \<Rightarrow> mig_item list option" where
  "dumpMIGSubsystem m p our_max is64 = do {
     mn \<leftarrow> rd_le 4 m p;
     mx \<leftarrow> rd_le 4 m (p + 4);
     tab \<leftarrow> mig_select mn;
     let last_num = (if mx < our_max then mx else our_max);
     rows \<leftarrow> mig_walk is64 m (p + (if is64 then 4 * 8 else 5 * 4)) last_num tab;
     Some (rows @ (if last_num < (mx + 2 ^ 32 - 1) mod 2 ^ 32
                   then [NewerKernel last_num ((mx + 2 ^ 32 - 1) mod 2 ^ 32)] else []))
   }"

text \<open>The subsystems looked for at every position: name, first and last number, and how many bytes
  of the pair are compared.\<close>

definition mig_subsystems :: "(string \<times> nat \<times> nat \<times> nat) list" where
  "mig_subsystems =
    [(''mach_vm'', 0x12c0, 0x12d4, 8), (''thread_act'', 3600, 3628, 8), (''mach_port'', 3200, 3236, 8),
     (''is_iokit'', 2800, 2885, 4), (''processor'', 3000, 3006, 8), (''processor_set'', 4000, 4010, 8),
     (''host_security'', 600, 602, 8), (''host_priv'', 400, 426, 8), (''mach_host'', 200, 230, 4),
     (''task'', 0xd48, 0xd7a, 4)]"

fun mig_at :: "mem \<Rightarrow> bool \<Rightarrow> nat \<Rightarrow> nat \<Rightarrow> (string \<times> nat \<times> nat \<times> nat) list \<Rightarrow> mig_item list option" where
  "mig_at m is64 p addr [] = Some []"
| "mig_at m is64 p addr ((name, mn, mx, n) # subs) = do {
     bytes \<leftarrow> slice m p n;
     found \<leftarrow> (if bytes = take n (le_bytes 4 mn @ le_bytes 4 mx)
              then map_option (Cons (Found name addr)) (dumpMIGSubsystem m p mx is64)
              else Some []);
     rest \<leftarrow> mig_at m is64 p addr subs;
     Some (found @ rest)
   }"

type_synonym section_api = "string \<Rightarrow> (nat \<times> nat \<times> nat) option"

definition const_section :: "section_api \<Rightarrow> (nat \<times> nat \<times> nat) option" where
  "const_section sects =
     (case sects ''__DATA.__const'' of
        Some s \<Rightarrow> Some s
      | None \<Rightarrow> (case sects ''__CONST.__constdata'' of
                  Some s \<Rightarrow> Some s
                | None \<Rightarrow> sects ''__DATA_CONST.__const''))"

fun mig_scan :: "mem \<Rightarrow> bool \<Rightarrow> nat \<Rightarrow> nat \<Rightarrow> nat list \<Rightarrow> mig_item list option" where
  "mig_scan m is64 offset addr [] = Some []"
| "mig_scan m is64 offset addr (i # is) = do {
     found \<leftarrow> mig_at m is64 (offset + i) ((addr + i + 2 ^ 64 - (if is64 then 8 else 4)) mod 2 ^ 64) mig_subsystems;
     rest \<leftarrow> mig_scan m is64 offset addr is;
     Some (found @ rest)
   }"

text \<open>\<open>for (i = 0; i < segSize; i += adv)\<close>.\<close>

definition word_steps :: "bool \<Rightarrow> nat \<Rightarrow> nat list" where
  "word_steps is64 sz = map (\<lambda>k. k * (if is64 then 8 else 4))
     [0..<(sz + (if is64 then 8 else 4) - 1) div (if is64 then 8 else 4)]"

definition doMIG :: "section_api \<Rightarrow> mem \<Rightarrow> bool \<Rightarrow> mig_item list option" where
  "doMIG sects m is64 =
     (case const_section sects of
        None \<Rightarrow> Some []
      | Some (addr, offset, sz) \<Rightarrow> mig_scan m is64 offset addr (word_steps is64 sz))"

section \<open>Mach traps\<close>

text \<open>A line: number, name, address and whether the thumb marker is printed. \<open>thumb\<close> is never
  reset. In 32-bit kernels the tests look at the 64 bits at 32 times the index, the printed address
  is the one at 12 times the index.\<close>

fun dump_traps :: "mem \<Rightarrow> nat \<Rightarrow> bool \<Rightarrow> nat \<Rightarrow> nat \<Rightarrow> bool \<Rightarrow> string list \<Rightarrow> (nat \<times> string \<times> nat \<times> bool) list option" where
  "dump_traps m p is64 invalid i thumb [] = Some []"
| "dump_traps m p is64 invalid i thumb (name # names) = do {
     addr \<leftarrow> rd_le 8 m (p + 32 * i);
     addr32 \<leftarrow> rd_le 4 m (p + 12 * i);
     if is64 then do {
       xs \<leftarrow> dump_traps m p is64 invalid (i + 1) thumb names;
       Some (if addr \<noteq> 0 \<and> addr \<noteq> invalid then (i, name, addr, thumb) # xs else xs)
     }
     else do {
       second \<leftarrow> rd_le 4 m (p + 4);
       if of_nat addr = (word_of_int (sint (of_nat second :: 32 word)) :: 64 word)
       then dump_traps m p is64 invalid (i + 1) thumb names
       else
         let odd_addr = (addr mod 4 = 1); addr' = (if odd_addr then addr - 1 else addr);
             thumb' = (thumb \<or> odd_addr \<or> addr' mod 4 \<noteq> 0)
         in do {
           xs \<leftarrow> dump_traps m p is64 invalid (i + 1) thumb' names;
           Some (if addr' \<noteq> 0 \<and> addr' \<noteq> invalid then (i, name, addr32, thumb') # xs else xs)
         }
     }
   }"

definition dumpMachTraps :: "mem \<Rightarrow> nat \<Rightarrow> bool \<Rightarrow> (nat \<times> string \<times> nat \<times> bool) list option" where
  "dumpMachTraps m p is64 = do {
     i64 \<leftarrow> rd_le 8 m p;
     i32 \<leftarrow> rd_le 4 m p;
     dump_traps m p is64 (if is64 then i64 else i32) 0 False mach_syscall_name_table
   }"

text \<open>The table starts with entries whose other fields are zero; \<open>&&\<close> stops at the first test that
  fails.\<close>

fun zero_runs :: "mem \<Rightarrow> nat list \<Rightarrow> nat \<Rightarrow> bool option" where
  "zero_runs m [] n = Some True"
| "zero_runs m (p # ps) n = do {
     bytes \<leftarrow> slice m p n;
     if bytes = replicate n 0 then zero_runs m ps n else Some False
   }"

definition trap_table_at :: "mem \<Rightarrow> bool \<Rightarrow> nat \<Rightarrow> bool option" where
  "trap_table_at m is64 p =
     (let adv = (if is64 then 8 else 4); skip = (if is64 then 3 else 5)
      in do {
        z \<leftarrow> zero_runs m (map (\<lambda>k. p + k * (skip + 1) * adv) [0..<5]) (skip * adv);
        if \<not> z then Some False
        else if p < adv then None
        else do {
          before \<leftarrow> rd_le 8 m (p - adv);
          if before = 0 then Some False
          else do { after \<leftarrow> rd_le 8 m (p + skip * adv); Some (after \<noteq> 0) }
        }
      })"

text \<open>The first hit ends the search; its file offset and address are printed before the traps.\<close>

record trap_listing =
  table_offset :: nat
  table_addr :: nat
  traps :: "(nat \<times> string \<times> nat \<times> bool) list"

fun trap_scan :: "mem \<Rightarrow> bool \<Rightarrow> nat \<Rightarrow> nat \<Rightarrow> nat list \<Rightarrow> trap_listing option option" where
  "trap_scan m is64 offset addr [] = Some None"
| "trap_scan m is64 offset addr (i # is) = do {
     hit \<leftarrow> trap_table_at m is64 (offset + i);
     if hit then do {
       rows \<leftarrow> dumpMachTraps m (offset + i - (if is64 then 8 else 4)) is64;
       Some (Some \<lparr>table_offset = offset + i, table_addr = (addr + i) mod 2 ^ 64, traps = rows\<rparr>)
     }
     else trap_scan m is64 offset addr is
   }"

definition doMachTraps :: "section_api \<Rightarrow> mem \<Rightarrow> bool \<Rightarrow> trap_listing option option" where
  "doMachTraps sects m is64 =
     (case const_section sects of
        None \<Rightarrow> Some None
      | Some (addr, offset, sz) \<Rightarrow> trap_scan m is64 offset addr (word_steps is64 sz))"

text \<open>\<open>look_for_inst\<close>: the address it returns when nothing is found is computed from a null pointer.\<close>

definition look_for_inst :: "mem \<Rightarrow> nat \<Rightarrow> nat \<Rightarrow> nat \<Rightarrow> mem \<Rightarrow> nat option" where
  "look_for_inst m start sz addr inst = do {
     bytes \<leftarrow> slice m start sz;
     k \<leftarrow> memmem bytes inst;
     Some ((addr + k) mod 2 ^ 64)
   }"

section \<open>What is listed\<close>

lemma match_sig_find:
  "match_sig kext sigs = (case find (\<lambda>(s, _). strstr kext (str s)) sigs of Some (_, n) \<Rightarrow> n | None \<Rightarrow> None)"
  by (induction kext sigs rule: match_sig.induct) (auto simp: strstr_def)

text \<open>A kernel extension of at least a page gets the name of the first signature in the table that
  occurs in it.\<close>

theorem identifyKext_first:
  assumes "slice kext 0 sz = Some bytes" "0x1000 \<le> sz"
  shows "identifyKext kext sz = Some (case find (\<lambda>(s, _). strstr bytes (str s)) KextSigs of
    Some (_, n) \<Rightarrow> n | None \<Rightarrow> None)"
  using assms by (simp add: identifyKext_def match_sig_find)

lemma identifyKext_first_witness:
  "identifyKext (str ''MD5Init'' @ replicate 4096 0) 4096 =
     Some (Some ''Libkern Pseudoextension (com.apple.kpi.libkern)'')"
proof -
  have "slice (str ''MD5Init'' @ replicate 4096 0) 0 4096 =
      Some (str ''MD5Init'' @ replicate (4096 - length ''MD5Init'') 0)"
    by (simp add: slice_def str_def)
  moreover have "strstr (str ''MD5Init'' @ replicate (4096 - length ''MD5Init'') 0) (str ''MD5Init'')"
    using strstr_append [of "[]"] by simp
  ultimately show ?thesis
    by (simp add: identifyKext_first KextSigs_def KextSigs_1_def)
qed

text \<open>The tables have increasing numbers, names but for the last entry, and end at or behind the
  last number that is looked for.\<close>

fun mig_table_ok :: "mig_func_desc list \<Rightarrow> bool" where
  "mig_table_ok [] = False"
| "mig_table_ok [(name, num)] = (name = None)"
| "mig_table_ok ((name, num) # (name', num') # rest) =
     (name \<noteq> None \<and> num < num' \<and> mig_table_ok ((name', num') # rest))"

lemma mig_tables_ok: "list_all mig_table_ok mig_tables"
  by (simp add: mig_tables_def processor_mig_def mach_port_mig_def host_security_mig_def
      processor_set_mig_def iokit_mig_def mach_vm_mig_def mach_host_mig_def task_mig_def
      host_priv_mig_def thread_act_mig_def)

definition mig_selected :: "nat \<Rightarrow> nat \<Rightarrow> bool" where
  "mig_selected mn mx \<longleftrightarrow> (case mig_select mn of None \<Rightarrow> False
     | Some t \<Rightarrow> mig_table_ok t \<and> snd (hd t) = mn \<and> mx \<le> snd (last t))"

lemma mig_subsystems_selected: "list_all (\<lambda>(_, mn, mx, _). mig_selected mn mx) mig_subsystems"
  using mig_tables_ok
  by (simp add: mig_subsystems_def mig_selected_def mig_select_def mig_tables_def processor_mig_def
      mach_port_mig_def host_security_mig_def processor_set_mig_def iokit_mig_def mach_vm_mig_def
      mach_host_mig_def task_mig_def host_priv_mig_def thread_act_mig_def)

fun mig_rows :: "bool \<Rightarrow> mem \<Rightarrow> (nat \<Rightarrow> nat) \<Rightarrow> mig_func_desc list \<Rightarrow> mig_item list option" where
  "mig_rows is64 m at [] = Some []"
| "mig_rows is64 m at ((name, num) # rest) = do {
     routine \<leftarrow> rd_ptr is64 m (at num);
     xs \<leftarrow> mig_rows is64 m at rest;
     Some (Routine (the name) routine num # xs)
   }"

lemma mig_walk_step:
  "num < last_num \<Longrightarrow> mig_walk is64 m ptr last_num ((Some nm, num) # (name', num') # rest) = do {
     routine \<leftarrow> rd_ptr is64 m ptr;
     xs \<leftarrow> mig_walk is64 m (ptr + mig_stride is64 * (num' - num)) last_num ((name', num') # rest);
     Some (Routine nm routine num # xs)
   }"
  by (subst mig_walk.simps) (simp del: mig_walk.simps)

lemma mig_walk_rows:
  "mig_table_ok tab \<Longrightarrow> last_num \<le> snd (last tab) \<Longrightarrow> first \<le> snd (hd tab) \<Longrightarrow>
   mig_walk is64 m (base + mig_stride is64 * (snd (hd tab) - first)) last_num tab =
     mig_rows is64 m (\<lambda>num. base + mig_stride is64 * (num - first)) (takeWhile (\<lambda>e. snd e < last_num) tab)"
proof (induction tab rule: mig_table_ok.induct)
  case (3 name num name' num' rest)
  let ?at = "\<lambda>num. base + mig_stride is64 * (num - first)"
  let ?rest = "(name', num') # rest"
  have at: "?at num + mig_stride is64 * (num' - num) = ?at num'"
  proof -
    have "num' - first = (num - first) + (num' - num)" using 3 by simp
    then show ?thesis by (simp only: distrib_left add.assoc)
  qed
  have IH: "mig_walk is64 m (?at num') last_num ?rest =
      mig_rows is64 m ?at (takeWhile (\<lambda>e. snd e < last_num) ?rest)"
    using 3 by simp
  show ?case
  proof (cases "num < last_num")
    case True
    obtain nm where "name = Some nm" using 3(2) by auto
    then have "mig_walk is64 m (?at num) last_num ((name, num) # ?rest) = do {
        routine \<leftarrow> rd_ptr is64 m (?at num);
        xs \<leftarrow> mig_walk is64 m (?at num') last_num ?rest;
        Some (Routine nm routine num # xs)}"
      using True by (simp only: mig_walk_step at)
    then show ?thesis using True IH \<open>name = Some nm\<close> by (simp del: mig_walk.simps)
  qed simp
qed simp_all

lemma mig_subsystem_select:
  assumes "(name, mn, ours, n) \<in> set mig_subsystems"
  obtains tab where "mig_select mn = Some tab" "mig_table_ok tab" "snd (hd tab) = mn" "ours \<le> snd (last tab)"
  using mig_subsystems_selected assms by (auto simp: list_all_iff mig_selected_def split: option.splits)

text \<open>Of a subsystem found in the image, the routines of joker's table below both limits are
  listed, each with the address stored in the kernel's entry for its number; entries past the table
  or without name are never read. A note follows when the kernel has more.\<close>

theorem mig_subsystem_listed:
  assumes "(name, mn, ours, n) \<in> set mig_subsystems"
    and "rd_le 4 m p = Some mn" "rd_le 4 m (p + 4) = Some mx"
  shows "\<exists>tab. mig_select mn = Some tab \<and> dumpMIGSubsystem m p ours is64 = do {
     rows \<leftarrow> mig_rows is64 m (\<lambda>num. p + (if is64 then 32 else 20) + mig_stride is64 * (num - mn))
       (takeWhile (\<lambda>e. snd e < min ours mx) tab);
     Some (rows @ (if min ours mx < (mx + 2 ^ 32 - 1) mod 2 ^ 32
       then [NewerKernel (min ours mx) ((mx + 2 ^ 32 - 1) mod 2 ^ 32)] else [])) }"
proof -
  obtain tab where tab: "mig_select mn = Some tab" "mig_table_ok tab" "snd (hd tab) = mn" "ours \<le> snd (last tab)"
    using mig_subsystem_select [OF assms(1)] by blast
  have walk: "mig_walk is64 m b (min ours mx) tab =
      mig_rows is64 m (\<lambda>num. b + mig_stride is64 * (num - mn)) (takeWhile (\<lambda>e. snd e < min ours mx) tab)" for b
    using mig_walk_rows [OF tab(2), of "min ours mx" mn is64 m b] tab by simp
  have last: "(if mx < ours then mx else ours) = min ours mx" by simp
  show ?thesis
    unfolding dumpMIGSubsystem_def last assms tab bind.bind_lunit walk Let_def by (auto simp: tab)
qed

lemma mig_subsystem_listed_witness:
  "dumpMIGSubsystem ([88, 2, 0, 0, 90, 2, 0, 0] @ replicate 24 0 @ [16, 1, 0, 0, 0, 0, 0, 0] @ replicate 32 0 @
       [32, 1, 0, 0, 0, 0, 0, 0]) 0 602 True =
     Some [Routine ''host_security_create_task_token'' 272 600, Routine ''host_security_set_task_token'' 288 601]"
proof -
  let ?m = "[88, 2, 0, 0, 90, 2, 0, 0] @ replicate 24 0 @ [16, 1, 0, 0, 0, 0, 0, 0] @ replicate 32 0 @
       [32, 1, 0, 0, 0, 0, 0, 0] :: mem"
  have "(''host_security'', 600, 602, 8) \<in> set mig_subsystems" by (simp add: mig_subsystems_def)
  moreover have "rd_le 4 ?m 0 = Some 600" "rd_le 4 ?m (0 + 4) = Some 602" 
     "rd_le 8 ?m 32 = Some 272" "rd_le 8 ?m 72 = Some 288"
    by (simp_all add: rd_le_def slice_def)
  ultimately show ?thesis
    using mig_subsystem_listed [of "''host_security''" 600 602 8 ?m 0 602 True]
    by (simp add: mig_select_def mig_tables_def processor_mig_def mach_port_mig_def host_security_mig_def
      processor_set_mig_def iokit_mig_def mach_vm_mig_def mach_host_mig_def task_mig_def
      host_priv_mig_def thread_act_mig_def rd_ptr_def mig_stride_def)
qed

text \<open>What is listed of a trap table at \<open>p\<close>. The handler of trap \<open>i\<close> is read in entries of 32 bytes. A 64-bit kernel lists the
  traps whose handler is neither 0 nor that of trap 0. In a 32-bit kernel those with the second word of the table as
  handler are passed over, a handler is rounded down when its last bits are 01 and then compared with 0 and with the
  first word, the address shown is another one, in entries of 12 bytes, and the mark is set from the first trap on whose
  address is no multiple of four.\<close>

definition trap_handler :: "mem \<Rightarrow> nat \<Rightarrow> nat \<Rightarrow> nat" where
  "trap_handler m p i = le_val (take 8 (drop (p + 32 * i) m))"

definition word_at :: "mem \<Rightarrow> nat \<Rightarrow> nat" where
  "word_at m p = le_val (take 4 (drop p m))"

definition passed_over :: "mem \<Rightarrow> nat \<Rightarrow> nat \<Rightarrow> bool" where
  "passed_over m p i \<longleftrightarrow>
     trap_handler m p i = (let second = word_at m (p + 4) in if second < 2 ^ 31 then second else second + (2 ^ 64 - 2 ^ 32))"

definition listed :: "mem \<Rightarrow> bool \<Rightarrow> nat \<Rightarrow> nat \<Rightarrow> bool" where
  "listed m is64 p i \<longleftrightarrow>
     (if is64 then trap_handler m p i \<notin> {0, trap_handler m p 0}
      else \<not> passed_over m p i \<and>
        (if trap_handler m p i mod 4 = 1 then trap_handler m p i - 1 else trap_handler m p i) \<notin> {0, word_at m p})"

definition marked :: "mem \<Rightarrow> nat \<Rightarrow> nat \<Rightarrow> bool" where
  "marked m p i \<longleftrightarrow> (\<exists>j \<in> {0..i}. \<not> passed_over m p j \<and> trap_handler m p j mod 4 \<noteq> 0)"

definition trap_rows :: "mem \<Rightarrow> bool \<Rightarrow> nat \<Rightarrow> (nat \<times> string \<times> nat \<times> bool) list" where
  "trap_rows m is64 p =
    map (\<lambda>(i, name). (i, name, if is64 then trap_handler m p i else word_at m (p + 12 * i), \<not> is64 \<and> marked m p i))
      (filter (\<lambda>(i, _). listed m is64 p i) (enumerate 0 mach_syscall_name_table))"

lemma dump_traps_64:
  "p + 32 * (i + length names) \<le> length m \<Longrightarrow> dump_traps m p True invalid i False names =
     Some (map (\<lambda>(i, name). (i, name, trap_handler m p i, False))
      (filter (\<lambda>(i, _). trap_handler m p i \<noteq> 0 \<and> trap_handler m p i \<noteq> invalid) (enumerate i names)))"
  by (induction names arbitrary: i) (auto simp: mem_simps trap_handler_def)

lemma sint32:
  assumes "s < 2 ^ 32"
  shows "sint (of_nat s :: 32 word) = (if s < 2 ^ 31 then int s else int s - 2 ^ 32)"
proof -
  have "unat (of_nat s :: 32 word) = s" using assms by (simp add: unat_of_nat take_bit_eq_mod)
  then have "uint (of_nat s :: 32 word) = int s" by (metis uint_nat)
  then have w: "sint (of_nat s :: 32 word) = (int s + 2 ^ 31) mod 2 ^ 32 - 2 ^ 31"
    by (simp add: sint_uint signed_take_bit_eq_take_bit_shift take_bit_eq_mod)
  show ?thesis
  proof (cases "s < 2 ^ 31")
    case False
    then have "(int s + 2 ^ 31) mod 2 ^ 32 = int s + 2 ^ 31 - 2 ^ 32"
      using assms mod_pos_geq [of "2 ^ 32" "int s + 2 ^ 31"] by simp
    then show ?thesis using w False by simp
  qed (use w in simp)
qed

lemma sign_extended:
  assumes "s < 2 ^ 32" "a < 2 ^ 64"
  shows "of_nat a = (word_of_int (sint (of_nat s :: 32 word)) :: 64 word) \<longleftrightarrow>
    a = (if s < 2 ^ 31 then s else s + (2 ^ 64 - 2 ^ 32))"
proof -
  have "sint (of_nat s :: 32 word) mod 2 ^ 64 = int (if s < 2 ^ 31 then s else s + (2 ^ 64 - 2 ^ 32))"
  proof (cases "s < 2 ^ 31")
    case False
    then have "(int s - 2 ^ 32) mod 2 ^ 64 = (int s - 2 ^ 32 + 2 ^ 64) mod 2 ^ 64" by (simp only: mod_add_self2)
    also have "\<dots> = int s - 2 ^ 32 + 2 ^ 64" using assms(1) False by (intro mod_pos_pos_trivial) simp_all
    finally show ?thesis using False sint32 [OF assms(1)] by simp
  qed (use sint32 [OF assms(1)] in simp)
  moreover have "(word_of_int (int a) :: 64 word) = word_of_int (sint (of_nat s :: 32 word)) \<longleftrightarrow>
      int a mod 2 ^ 64 = sint (of_nat s :: 32 word) mod 2 ^ 64"
    unfolding word_of_int_eq_iff by (simp only: take_bit_eq_mod len_bit0 len_num1 One_nat_def) simp
  ultimately show ?thesis using assms(2) by simp
qed
text \<open>The 32-bit rows from a trap on, given whether the mark is set already.\<close>

lemma dump_traps_32:
  assumes "p + 32 * (i + length names) \<le> length m" "p + 8 \<le> length m"
  shows "dump_traps m p False (word_at m p) i thumb names =
     Some (map (\<lambda>(k, name). (k, name, word_at m (p + 12 * k), thumb \<or> (\<exists>j \<in> {i..k}. \<not> passed_over m p j \<and> trap_handler m p j mod 4 \<noteq> 0)))
      (filter (\<lambda>(k, _). listed m False p k) (enumerate i names)))"
  using assms
proof (induction names arbitrary: i thumb)
  case (Cons name names)
  let ?a = "trap_handler m p i" and ?marks = "\<lambda>j. \<not> passed_over m p j \<and> trap_handler m p j mod 4 \<noteq> 0"
  let ?rows = "\<lambda>t. map (\<lambda>(k, name). (k, name, word_at m (p + 12 * k), t \<or> (\<exists>j \<in> {i + 1..k}. ?marks j)))
      (filter (\<lambda>(k, _). listed m False p k) (enumerate (i + 1) names))"
  have IH: "dump_traps m p False (word_at m p) (i + 1) t names = Some (?rows t)" for t
    using Cons.IH [of "i + 1" t] Cons.prems by simp
  have reads: "rd_le 8 m (p + 32 * i) = Some ?a" "rd_le 4 m (p + 12 * i) = Some (word_at m (p + 12 * i))"
      "rd_le 4 m (p + 4) = Some (word_at m (p + 4))"
    using Cons.prems by (simp_all add: mem_simps trap_handler_def word_at_def)
  have "?a < 2 ^ 64" "word_at m (p + 4) < 2 ^ 32" using rd_le_bound [OF reads(1)] rd_le_bound [OF reads(3)] by simp_all
  then have skip: "of_nat ?a = (word_of_int (sint (of_nat (word_at m (p + 4)) :: 32 word)) :: 64 word) \<longleftrightarrow> passed_over m p i"
    unfolding passed_over_def Let_def by (rule sign_extended [rotated])
  have later: "(\<exists>j \<in> {i..k}. ?marks j) \<longleftrightarrow> ?marks i \<or> (\<exists>j \<in> {i + 1..k}. ?marks j)" if "i \<le> k" for k
    using that by (metis Suc_eq_plus1 atLeastAtMost_insertL insert_iff)
  have rows: "?rows (thumb \<or> ?marks i) = map (\<lambda>(k, name). (k, name, word_at m (p + 12 * k), thumb \<or> (\<exists>j \<in> {i..k}. ?marks j)))
      (filter (\<lambda>(k, _). listed m False p k) (enumerate (i + 1) names))"
  proof (rule map_cong [OF refl], goal_cases)
    case (1 x)
    obtain k nm where x: "x = (k, nm)" by (cases x)
    have "i \<le> k" using 1 by (simp add: x in_set_enumerate_eq)
    then show ?case unfolding x prod.case using later [of k] by (simp only: disj_assoc)
  qed
  show ?case
  proof (cases "passed_over m p i")
    case True
    then have "\<not> listed m False p i" by (simp add: listed_def)
    then show ?thesis using True IH [of thumb] rows reads skip by simp
  next
    case False
    let ?t = "thumb \<or> ?marks i"
    have mark: "(thumb \<or> ?a mod 4 = 1 \<or> (if ?a mod 4 = 1 then ?a - 1 else ?a) mod 4 \<noteq> 0) = ?t"
      using False by (auto simp: mod_eq_0_iff_dvd)
    show ?thesis
      using False reads skip IH [of ?t] rows mark later [of i]
      by (auto simp: Let_def listed_def)
  qed
qed simp

lemma length_mach_syscall_name_table: "length mach_syscall_name_table = 128"
  by (simp add: mach_syscall_name_table_def)

lemma dumpMachTraps_rows:
  assumes "p + 32 * 128 \<le> length m"
  shows "dumpMachTraps m p is64 = Some (trap_rows m is64 p)"
proof (cases is64)
  case True
  then show ?thesis using assms
    by (simp add: dumpMachTraps_def mem_simps dump_traps_64 length_mach_syscall_name_table trap_rows_def)
      (simp add: trap_handler_def listed_def)
next
  case False
  have "rd_le 8 m p = Some (trap_handler m p 0)" "rd_le 4 m p = Some (word_at m p)"
    using assms by (simp_all add: mem_simps trap_handler_def word_at_def)
  then show ?thesis using assms False dump_traps_32 [of p 0 mach_syscall_name_table m False]
    by (simp add: dumpMachTraps_def length_mach_syscall_name_table trap_rows_def marked_def)
qed

lemma trap_scan_first:
  "list_all (\<lambda>j. trap_table_at m is64 (offset + j) = Some False) js \<Longrightarrow>
   trap_table_at m is64 (offset + i) = Some True \<Longrightarrow>
   trap_scan m is64 offset addr (js @ i # ks) = do {
     rows \<leftarrow> dumpMachTraps m (offset + i - (if is64 then 8 else 4)) is64;
     Some (Some \<lparr>table_offset = offset + i, table_addr = (addr + i) mod 2 ^ 64, traps = rows\<rparr>)
   }"
  by (induction js) auto

text \<open>C27: The first position that looks like a trap table is taken, and exactly its listed traps are shown, in 64-bit and in
  32-bit kernels. In 64-bit kernels these are the traps with a handler that is not the one of trap 0. In 32-bit
  kernels the handlers are read in entries of the 64-bit size and the addresses in entries of 12 bytes, and the mark
  stays set from the first trap on that sets it: what is listed there mixes different entries.\<close>

theorem doMachTraps_listed:
  assumes "const_section sects = Some (addr, offset, sz)"
    and "word_steps is64 sz = js @ i # ks"
    and "\<forall>j \<in> set js. trap_table_at m is64 (offset + j) = Some False"
    and "trap_table_at m is64 (offset + i) = Some True"
    and "offset + i + 32 * 128 \<le> length m + (if is64 then 8 else 4)"
  shows "doMachTraps sects m is64 = Some (Some \<lparr>table_offset = offset + i, table_addr = (addr + i) mod 2 ^ 64,
      traps = trap_rows m is64 (offset + i - (if is64 then 8 else 4))\<rparr>)"
proof -
  have "(if is64 then 8 else 4) \<le> offset + i"
    using assms(4) by (auto simp: trap_table_at_def Let_def split: if_splits option.splits bind_splits)
  then show ?thesis
    using assms trap_scan_first [of m is64 offset js i addr ks]
      dumpMachTraps_rows [of "offset + i - (if is64 then 8 else 4)" m is64]
    by (simp add: doMachTraps_def list_all_iff split: if_splits)
qed

definition trap_entry :: "byte \<Rightarrow> mem" where
  "trap_entry b = [b, 0, 0, 0, 0, 0, 0, 0] @ replicate 24 0"

definition trap_image :: mem where
  "trap_image = trap_entry 1 @ trap_entry 2 @ trap_entry 1 @ trap_entry 1 @ trap_entry 1 @ trap_entry 1 @
     replicate 4000 0"

lemma doMachTraps_listed_witness:
  "doMachTraps (\<lambda>_. Some (0, 0, 16)) trap_image True =
    Some (Some \<lparr>table_offset = 8, table_addr = 8, traps = trap_rows trap_image True 0\<rparr>)"
proof -
  have "const_section (\<lambda>_. Some (0, 0, 16)) = Some (0, 0, 16)" by (simp add: const_section_def)
  moreover have "word_steps True 16 = [0] @ 8 # []" by (simp add: word_steps_def upt_rec)
  moreover have "trap_table_at trap_image True (0 + 0) = Some False"
    by (simp add: trap_table_at_def trap_image_def trap_entry_def slice_def upt_rec) (simp add: numeral_eq_Suc)
  moreover have "trap_table_at trap_image True (0 + 8) = Some True"
    by (simp add: trap_table_at_def trap_image_def trap_entry_def slice_def upt_rec rd_le_def)
  moreover have "length trap_image = 4192" by (simp add: trap_image_def trap_entry_def)
  ultimately show ?thesis
    using doMachTraps_listed [of "\<lambda>_. Some (0, 0, 16)" 0 0 16 True "[0]" 8 "[]" trap_image] by simp
qed

text \<open>From the first flagged trap on all traps are flagged.\<close>

abbreviation thumb_flags :: "(nat \<times> string \<times> nat \<times> bool) list \<Rightarrow> bool list" where
  "thumb_flags rows \<equiv> map (\<lambda>(_, _, _, t). t) rows"

lemma dump_traps_sticky:
  "dump_traps m p False invalid i thumb names = Some rows \<Longrightarrow>
   sorted (thumb_flags rows) \<and> (thumb \<longrightarrow> set (thumb_flags rows) \<subseteq> {True})"
  by (induction names arbitrary: i thumb rows) (fastforce simp: Let_def split: if_splits bind_splits)+

lemma dump_traps_defined:
  "p + 32 * (i + length names) \<le> length m \<Longrightarrow> p + 8 \<le> length m \<Longrightarrow>
   \<exists>rows. dump_traps m p False invalid i thumb names = Some rows"
proof (induction names arbitrary: i thumb)
  case (Cons name names)
  have "\<exists>rows. dump_traps m p False invalid (i + 1) t names = Some rows" for t
    using Cons by simp
  then show ?case using Cons.prems by (auto simp: mem_simps Let_def bind_eq_Some_conv)
qed simp

text \<open>In a 32-bit kernel, once one trap is marked as thumb code, all later ones are.\<close>

theorem thumb_marker_sticks:
  "dumpMachTraps m p False = Some rows \<Longrightarrow> sorted (thumb_flags rows)"
  using dump_traps_sticky by (auto simp: dumpMachTraps_def split: bind_splits)

lemma thumb_marker_sticks_witness:
  "\<exists>rows. dumpMachTraps (replicate 4096 5) 0 False = Some rows \<and> sorted (thumb_flags rows)"
proof -
  let ?m = "replicate 4096 5 :: mem"
  obtain rows where "dumpMachTraps ?m 0 False = Some rows"
    using dump_traps_defined [of 0 0 mach_syscall_name_table ?m]
    by (auto simp: dumpMachTraps_def mem_simps length_mach_syscall_name_table)
  then show ?thesis using thumb_marker_sticks by blast
qed


end
