(* ===== verification/Joker_Sysctl.thy ===== *)
theory Joker_Sysctl
  imports Joker_Kernel
begin

text \<open>
  The sysctl listing of \<open>src/src/joker.c\<close>: \<open>sysctl_set\<close> is an array of pointers to \<open>sysctl_oid\<close>
  structures. Two passes from the end collect the names of the nodes (those without a handler), a
  third prints the rest with their dotted names. \<open>file_off\<close>, the file offset of an address
  (\<open>None\<close> for -1), and the section lookup are machlib's, parameters here.
\<close>

section \<open>The structures\<close>

record oid =
  oid_parent :: nat
  oid_arg1 :: nat
  oid_arg2 :: nat
  oid_name :: nat
  oid_handler :: nat
  oid_fmt :: nat
  oid_descr :: nat

definition read_oid :: "bool \<Rightarrow> mem \<Rightarrow> nat \<Rightarrow> oid option" where
  "read_oid is64 m p =
     (let at = rd_ptr is64 m in do {
        parent \<leftarrow> at p;
        arg1 \<leftarrow> at (p + (if is64 then 24 else 16));
        arg2 \<leftarrow> rd_le 4 m (p + (if is64 then 32 else 20));
        name \<leftarrow> at (p + (if is64 then 40 else 24));
        handler \<leftarrow> at (p + (if is64 then 48 else 28));
        fmt \<leftarrow> at (p + (if is64 then 56 else 32));
        descr \<leftarrow> at (p + (if is64 then 64 else 36));
        Some \<lparr>oid_parent = parent, oid_arg1 = arg1, oid_arg2 = arg2, oid_name = name,
              oid_handler = handler, oid_fmt = fmt, oid_descr = descr\<rparr>
      })"

section \<open>Namespaces\<close>

record namespace =
  ns_name :: mem
  ns_addr :: nat
  ns_resolved :: bool

definition addSysctlNamespace :: "namespace list \<Rightarrow> nat \<Rightarrow> mem \<Rightarrow> namespace list option" where
  "addSysctlNamespace nss addr name =
     (if length nss < 256
      then Some (nss @ [\<lparr>ns_name = name, ns_addr = addr, ns_resolved = \<not> strstr name (str ''0x'')\<rparr>])
      else None)"

definition getSysctlNamespaceName :: "namespace list \<Rightarrow> nat \<Rightarrow> mem option" where
  "getSysctlNamespaceName nss addr = map_option ns_name (find (\<lambda>ns. ns_addr ns = addr) nss)"

type_synonym file_off = "nat \<Rightarrow> nat option"

text \<open>The 1024 bytes of \<open>name\<close>.\<close>

definition in_1024 :: "mem \<Rightarrow> mem option" where
  "in_1024 name = (if length name < 1024 then Some name else None)"

definition sysctlName :: "file_off \<Rightarrow> bool \<Rightarrow> mem \<Rightarrow> namespace list \<Rightarrow> nat \<Rightarrow> mem option" where
  "sysctlName file_off is64 m nss ptr =
     (case file_off ptr of
        None \<Rightarrow> Some (str ''?'')
      | Some off \<Rightarrow> do {
          oid \<leftarrow> read_oid is64 m off;
          prefix \<leftarrow> (case getSysctlNamespaceName nss (oid_parent oid) of
             None \<Rightarrow> Some []
           | Some p \<Rightarrow> in_1024 (if p \<noteq> [] then p @ str ''.'' else []));
          case file_off (oid_name oid) of
            None \<Rightarrow> in_1024 (prefix @ str ''?'')
          | Some n \<Rightarrow> do { nm \<leftarrow> cstr_at m n; in_1024 (prefix @ nm) }
        })"

section \<open>The passes\<close>

datatype sysctl_item =
    Outside "nat option"
  | Sysctl nat mem mem nat mem nat nat nat

type_synonym section_info = "nat \<times> nat \<times> nat"

text \<open>Entry \<open>s\<close> of the set: its pointer, and the structure unless it is not inside.\<close>

definition sysctl_at :: "file_off \<Rightarrow> bool \<Rightarrow> mem \<Rightarrow> section_info \<Rightarrow> nat \<Rightarrow> (nat \<times> oid option) option" where
  "sysctl_at file_off is64 m sect s =
     (case sect of (addr, offset, sz) \<Rightarrow> do {
        ptr \<leftarrow> rd_ptr is64 m (offset + s * (if is64 then 8 else 4));
        let limit = (if is64 then offset + sz else (offset + sz) mod 2 ^ 32);
        case file_off ptr of
          None \<Rightarrow> Some (ptr, None)
        | Some off \<Rightarrow>
            if off > limit then Some (ptr, None)
            else do { oid \<leftarrow> read_oid is64 m off; Some (ptr, Some oid) }
      })"

text \<open>\<open>i = 0\<close>: only the parents of \<open>kperf\<close> names are entered, with an empty name; \<open>i = 1\<close>: all nodes.\<close>

definition node_step ::
  "file_off \<Rightarrow> bool \<Rightarrow> mem \<Rightarrow> section_info \<Rightarrow> nat \<Rightarrow> nat \<Rightarrow> namespace list \<Rightarrow> (sysctl_item list \<times> namespace list) option" where
  "node_step file_off is64 m sect i s nss = do {
     (ptr, entry) \<leftarrow> sysctl_at file_off is64 m sect s;
     case entry of
       None \<Rightarrow> Some ([Outside (Some ptr)], nss)
     | Some oid \<Rightarrow>
         if oid_handler oid \<noteq> 0 then Some ([], nss)
         else do {
           nsname \<leftarrow> sysctlName file_off is64 m nss ptr;
           nss' \<leftarrow> (if i = 0
              then (if strstr nsname (str ''kperf'') then addSysctlNamespace nss (oid_parent oid) [] else Some nss)
              else addSysctlNamespace nss (oid_arg1 oid) nsname);
           Some ([], nss')
         }
   }"

fun node_pass ::
  "file_off \<Rightarrow> bool \<Rightarrow> mem \<Rightarrow> section_info \<Rightarrow> nat \<Rightarrow> nat list \<Rightarrow> namespace list \<Rightarrow> (sysctl_item list \<times> namespace list) option" where
  "node_pass file_off is64 m sect i [] nss = Some ([], nss)"
| "node_pass file_off is64 m sect i (s # ss) nss = do {
     (xs, nss) \<leftarrow> node_step file_off is64 m sect i s nss;
     (ys, nss) \<leftarrow> node_pass file_off is64 m sect i ss nss;
     Some (xs @ ys, nss)
   }"

text \<open>The description is printed from wherever its offset points to.\<close>

definition leaf_step ::
  "file_off \<Rightarrow> bool \<Rightarrow> mem \<Rightarrow> section_info \<Rightarrow> namespace list \<Rightarrow> nat \<Rightarrow> sysctl_item list option" where
  "leaf_step file_off is64 m sect nss s = do {
     (ptr, entry) \<leftarrow> sysctl_at file_off is64 m sect s;
     case entry of
       None \<Rightarrow> Some [Outside None]
     | Some oid \<Rightarrow>
         if oid_handler oid = 0 then Some []
         else do {
           fmt \<leftarrow> (case file_off (oid_fmt oid) of None \<Rightarrow> Some (str ''?'') | Some f \<Rightarrow> cstr_at m f);
           name \<leftarrow> sysctlName file_off is64 m nss ptr;
           d \<leftarrow> file_off (oid_descr oid);
           descr \<leftarrow> cstr_at m d;
           Some [Sysctl ptr name descr (oid_handler oid) fmt (oid_parent oid) (oid_arg1 oid) (oid_arg2 oid)]
         }
   }"

fun leaf_pass ::
  "file_off \<Rightarrow> bool \<Rightarrow> mem \<Rightarrow> section_info \<Rightarrow> namespace list \<Rightarrow> nat list \<Rightarrow> sysctl_item list option" where
  "leaf_pass file_off is64 m sect nss [] = Some []"
| "leaf_pass file_off is64 m sect nss (s # ss) = do {
     xs \<leftarrow> leaf_step file_off is64 m sect nss s;
     ys \<leftarrow> leaf_pass file_off is64 m sect nss ss;
     Some (xs @ ys)
   }"

definition doSysctls ::
  "section_api \<Rightarrow> file_off \<Rightarrow> bool \<Rightarrow> mem \<Rightarrow> sysctl_item list option" where
  "doSysctls sects file_off is64 m =
     (case sects ''__DATA.__sysctl_set'' of
        None \<Rightarrow> Some []
      | Some (addr, offset, sz) \<Rightarrow>
          (let sect = (addr, offset, sz); n = sz div (if is64 then 8 else 4) in do {
             (xs, nss) \<leftarrow> node_pass file_off is64 m sect 0 (rev [0..<n]) [];
             (ys, nss) \<leftarrow> node_pass file_off is64 m sect 1 (rev [0..<n]) nss;
             zs \<leftarrow> leaf_pass file_off is64 m sect nss [0..<n];
             Some (xs @ ys @ zs)
           }))"

section \<open>The names that are printed\<close>

text \<open>A well-formed set of \<open>n\<close> entries with pointers \<open>ptr\<close>, structures \<open>ob\<close> and names \<open>nm\<close>, and the
  dotted name of every entry: that of its parent node, if it has one, and its own.\<close>

definition well_read :: "file_off \<Rightarrow> bool \<Rightarrow> mem \<Rightarrow> section_info \<Rightarrow> nat \<Rightarrow> (nat \<Rightarrow> nat) \<Rightarrow> (nat \<Rightarrow> oid) \<Rightarrow> (nat \<Rightarrow> mem) \<Rightarrow> bool" where
  "well_read file_off is64 m sect n ptr ob nm \<longleftrightarrow>
     (\<forall>s < n. sysctl_at file_off is64 m sect s = Some (ptr s, Some (ob s)) \<and>
        file_off (oid_name (ob s)) \<noteq> None \<and> cstr_at m (the (file_off (oid_name (ob s)))) = Some (nm s))"

abbreviation is_node :: "oid \<Rightarrow> bool" where
  "is_node e \<equiv> oid_handler e = 0"

definition parent_of :: "nat \<Rightarrow> (nat \<Rightarrow> oid) \<Rightarrow> nat \<Rightarrow> nat \<Rightarrow> bool" where
  "parent_of n ob s t \<longleftrightarrow> t < n \<and> is_node (ob t) \<and> oid_arg1 (ob t) = oid_parent (ob s)"

definition dotted :: "nat \<Rightarrow> (nat \<Rightarrow> oid) \<Rightarrow> (nat \<Rightarrow> mem) \<Rightarrow> (nat \<Rightarrow> mem) \<Rightarrow> bool" where
  "dotted n ob nm path \<longleftrightarrow>
     (\<forall>s < n. nm s \<noteq> [] \<and> length (path s) < 1024 \<and>
        ((\<exists>t. parent_of n ob s t \<and> (is_node (ob s) \<longrightarrow> s < t) \<and> path s = path t @ str ''.'' @ nm s) \<or>
         (\<nexists>t. parent_of n ob s t) \<and> path s = nm s))"

lemma dottedD:
  assumes "dotted n ob nm path" "s < n"
  shows "nm s \<noteq> []" "length (path s) < 1024" "length (nm s) \<le> length (path s)"
    "(\<exists>t. parent_of n ob s t \<and> (is_node (ob s) \<longrightarrow> s < t) \<and> path s = path t @ str ''.'' @ nm s) \<or>
     (\<nexists>t. parent_of n ob s t) \<and> path s = nm s"
proof -
  show *: "nm s \<noteq> []" "length (path s) < 1024"
    "(\<exists>t. parent_of n ob s t \<and> (is_node (ob s) \<longrightarrow> s < t) \<and> path s = path t @ str ''.'' @ nm s) \<or>
     (\<nexists>t. parent_of n ob s t) \<and> path s = nm s"
    using assms unfolding dotted_def by blast+
  show "length (nm s) \<le> length (path s)" using *(3) by (elim disjE exE conjE) simp_all
qed

definition small_set :: "nat \<Rightarrow> (nat \<Rightarrow> oid) \<Rightarrow> (nat \<Rightarrow> mem) \<Rightarrow> bool" where
  "small_set n ob nm \<longleftrightarrow>
     inj_on (\<lambda>s. oid_arg1 (ob s)) {s. s < n \<and> is_node (ob s)} \<and>
     length (filter (\<lambda>s. is_node (ob s)) [0..<n]) \<le> 256 \<and> (\<forall>s < n. \<not> strstr (nm s) (str ''kperf''))"

definition leaf_item :: "file_off \<Rightarrow> mem \<Rightarrow> nat \<Rightarrow> oid \<Rightarrow> mem \<Rightarrow> sysctl_item option" where
  "leaf_item file_off m ptr e name = do {
     fmt \<leftarrow> (case file_off (oid_fmt e) of None \<Rightarrow> Some (str ''?'') | Some f \<Rightarrow> cstr_at m f);
     d \<leftarrow> file_off (oid_descr e);
     descr \<leftarrow> cstr_at m d;
     Some (Sysctl ptr name descr (oid_handler e) fmt (oid_parent e) (oid_arg1 e) (oid_arg2 e))
   }"

fun listing_of :: "('a \<Rightarrow> 'b option) \<Rightarrow> 'a list \<Rightarrow> 'b list option" where
  "listing_of f [] = Some []"
| "listing_of f (x # xs) = do { y \<leftarrow> f x; ys \<leftarrow> listing_of f xs; Some (y # ys) }"

definition node_entry :: "(nat \<Rightarrow> oid) \<Rightarrow> (nat \<Rightarrow> mem) \<Rightarrow> nat \<Rightarrow> namespace" where
  "node_entry ob path s = \<lparr>ns_name = path s, ns_addr = oid_arg1 (ob s), ns_resolved = \<not> strstr (path s) (str ''0x'')\<rparr>"

definition entries_from :: "nat \<Rightarrow> (nat \<Rightarrow> oid) \<Rightarrow> (nat \<Rightarrow> mem) \<Rightarrow> nat \<Rightarrow> namespace list" where
  "entries_from n ob path k = map (node_entry ob path) (filter (\<lambda>s. is_node (ob s)) (rev [k..<n]))"

lemma entries_from_Suc:
  "k < n \<Longrightarrow> entries_from n ob path k = entries_from n ob path (Suc k) @ (if is_node (ob k) then [node_entry ob path k] else [])"
  by (simp add: entries_from_def upt_conv_Cons)

lemma entries_from_end: "entries_from n ob path n = []"
  by (simp add: entries_from_def)

lemma length_entries_from:
  "k \<le> n \<Longrightarrow> length (entries_from n ob path k) \<le> length (filter (\<lambda>s. is_node (ob s)) [0..<n])"
  using upt_add_eq_append [of 0 k "n - k"] by (simp add: entries_from_def rev_filter [symmetric])

lemma lookup_none:
  "(\<And>t. k \<le> t \<Longrightarrow> t < n \<Longrightarrow> is_node (ob t) \<Longrightarrow> oid_arg1 (ob t) \<noteq> a) \<Longrightarrow>
   getSysctlNamespaceName (entries_from n ob path k) a = None"
  by (auto simp: getSysctlNamespaceName_def entries_from_def find_None_iff node_entry_def)

lemma lookup_some:
  assumes "k \<le> t" "t < n" "is_node (ob t)" "inj_on (\<lambda>s. oid_arg1 (ob s)) {s. s < n \<and> is_node (ob s)}"
  shows "getSysctlNamespaceName (entries_from n ob path k) (oid_arg1 (ob t)) = Some (path t)"
proof -
  let ?P = "\<lambda>ns. ns_addr ns = oid_arg1 (ob t)"
  have "find ?P (entries_from n ob path k) \<noteq> None"
    using assms(1-3) by (auto simp: find_None_iff entries_from_def node_entry_def)
  then obtain ns where ns: "find ?P (entries_from n ob path k) = Some ns" by auto
  then have "ns \<in> set (entries_from n ob path k)" "?P ns" by (auto simp: find_Some_iff)
  then obtain u where u: "u < n" "is_node (ob u)" "ns = node_entry ob path u" "oid_arg1 (ob u) = oid_arg1 (ob t)"
    by (auto simp: entries_from_def node_entry_def)
  then have "u = t" using assms by (auto dest: inj_onD)
  then show ?thesis using ns u by (simp add: getSysctlNamespaceName_def node_entry_def)
qed

lemma sysctl_at_inside:
  "sysctl_at file_off is64 m sect s = Some (p, Some e) \<Longrightarrow> \<exists>off. file_off p = Some off \<and> read_oid is64 m off = Some e"
  by (auto simp: sysctl_at_def Let_def split: prod.splits bind_splits option.splits if_splits)

lemma sysctlName_entry:
  assumes "well_read file_off is64 m sect n ptr ob nm" "s < n"
  shows "sysctlName file_off is64 m nss (ptr s) = do {
     prefix \<leftarrow> (case getSysctlNamespaceName nss (oid_parent (ob s)) of
             None \<Rightarrow> Some []
           | Some p \<Rightarrow> in_1024 (if p \<noteq> [] then p @ str ''.'' else []));
     in_1024 (prefix @ nm s) }"
  using assms sysctl_at_inside [of file_off is64 m sect s "ptr s" "ob s"]
  by (auto simp: well_read_def sysctlName_def split: option.splits)

lemma sysctlName_path:
  assumes "well_read file_off is64 m sect n ptr ob nm" "dotted n ob nm path" "small_set n ob nm"
    and "s < n" "k = (if is_node (ob s) then Suc s else 0)"
  shows "sysctlName file_off is64 m (entries_from n ob path k) (ptr s) = Some (path s)"
  using dottedD(4) [OF assms(2,4)]
proof (elim disjE exE conjE)
  fix t
  assume t: "parent_of n ob s t" "is_node (ob s) \<longrightarrow> s < t" "path s = path t @ str ''.'' @ nm s"
  then have "k \<le> t" "t < n" "is_node (ob t)" "oid_arg1 (ob t) = oid_parent (ob s)"
    using assms(5) by (auto simp: parent_of_def)
  then have "getSysctlNamespaceName (entries_from n ob path k) (oid_parent (ob s)) = Some (path t)"
    using lookup_some [of k t n ob path] assms(3) by (simp add: small_set_def)
  moreover have "path t \<noteq> []" using dottedD(1,3) [OF assms(2) \<open>t < n\<close>] by auto
  moreover have "length (path t @ str ''.'' @ nm s) < 1024" using dottedD(2) [OF assms(2,4)] t(3) by metis
  ultimately show ?thesis unfolding t(3) by (simp add: sysctlName_entry [OF assms(1,4)] in_1024_def)
next
  assume "\<nexists>t. parent_of n ob s t" "path s = nm s"
  then have "getSysctlNamespaceName (entries_from n ob path k) (oid_parent (ob s)) = None"
    by (intro lookup_none) (auto simp: parent_of_def)
  then show ?thesis using dottedD(2) [OF assms(2,4)] \<open>path s = nm s\<close>
    by (simp add: sysctlName_entry [OF assms(1,4)] in_1024_def)
qed

lemma first_pass:
  assumes "well_read file_off is64 m sect n ptr ob nm" "dotted n ob nm path" "small_set n ob nm"
  shows "set ss \<subseteq> {0..<n} \<Longrightarrow> node_pass file_off is64 m sect 0 ss [] = Some ([], [])"
proof (induction ss)
  case (Cons s ss)
  have "length (nm s) < 1024" using dottedD(2,3) [OF assms(2), of s] Cons.prems by simp
  then have "sysctlName file_off is64 m [] (ptr s) = Some (nm s)"
    using sysctlName_entry [OF assms(1), of s "[]"] Cons.prems by (simp add: getSysctlNamespaceName_def in_1024_def)
  then have "node_step file_off is64 m sect 0 s [] = Some ([], [])"
    using assms Cons.prems by (auto simp: node_step_def well_read_def small_set_def)
  then show ?case using Cons by simp
qed simp

lemma second_pass:
  assumes "well_read file_off is64 m sect n ptr ob nm" "dotted n ob nm path" "small_set n ob nm"
  shows "k \<le> n \<Longrightarrow> node_pass file_off is64 m sect 1 (rev [0..<k]) (entries_from n ob path k) =
    Some ([], entries_from n ob path 0)"
proof (induction k)
  case (Suc k)
  then have k: "k < n" by simp
  have entry: "sysctl_at file_off is64 m sect k = Some (ptr k, Some (ob k))" using assms(1) k by (simp add: well_read_def)
  have "length (entries_from n ob path (Suc k)) < 256" if "is_node (ob k)"
    using length_entries_from [of k n ob path] entries_from_Suc [OF k, of ob path] that assms(3) k
    by (simp add: small_set_def)
  moreover have "sysctlName file_off is64 m (entries_from n ob path (Suc k)) (ptr k) = Some (path k)" if "is_node (ob k)"
    using sysctlName_path [OF assms k, of "Suc k"] that by simp
  ultimately have "node_step file_off is64 m sect 1 k (entries_from n ob path (Suc k)) = Some ([], entries_from n ob path k)"
    using entries_from_Suc [OF k, of ob path]
    by (simp add: node_step_def entry addSysctlNamespace_def node_entry_def)
  then show ?case using Suc by simp
qed simp

lemma third_pass:
  assumes "well_read file_off is64 m sect n ptr ob nm" "dotted n ob nm path" "small_set n ob nm"
  shows "set ss \<subseteq> {0..<n} \<Longrightarrow> leaf_pass file_off is64 m sect (entries_from n ob path 0) ss =
    listing_of (\<lambda>s. leaf_item file_off m (ptr s) (ob s) (path s)) (filter (\<lambda>s. \<not> is_node (ob s)) ss)"
proof (induction ss)
  case (Cons s ss)
  have entry: "sysctl_at file_off is64 m sect s = Some (ptr s, Some (ob s))"
    using assms(1) Cons.prems by (simp add: well_read_def)
  show ?case
  proof (cases "is_node (ob s)")
    case True
    then show ?thesis using Cons entry by (simp add: leaf_step_def)
  next
    case False
    then have "sysctlName file_off is64 m (entries_from n ob path 0) (ptr s) = Some (path s)"
      using sysctlName_path [OF assms, of s 0] Cons.prems by simp
    then show ?thesis using Cons entry False
      by (auto simp: leaf_step_def leaf_item_def split: bind_splits option.splits)
  qed
qed simp

text \<open>C28: every leaf is printed once, in the order of the set, with its full dotted name, when
  parents come behind their child nodes and at most 256 nodes exist.\<close>

theorem doSysctls_names:
  assumes "sects ''__DATA.__sysctl_set'' = Some sect" "n = snd (snd sect) div (if is64 then 8 else 4)"
    and "well_read file_off is64 m sect n ptr ob nm" "dotted n ob nm path" "small_set n ob nm"
  shows "doSysctls sects file_off is64 m =
    listing_of (\<lambda>s. leaf_item file_off m (ptr s) (ob s) (path s)) (filter (\<lambda>s. \<not> is_node (ob s)) [0..<n])"
proof -
  obtain addr offset sz where sect: "sect = (addr, offset, sz)" by (cases sect)
  have n: "sz div (if is64 then 8 else 4) = n" using assms(2) sect by simp
  show ?thesis
    using assms(1) first_pass [OF assms(3-5), of "rev [0..<n]"] second_pass [OF assms(3-5), of n]
      third_pass [OF assms(3-5), of "[0..<n]"]
    unfolding doSysctls_def Let_def sect by (simp add: n entries_from_end)
qed

definition oid_word :: "byte \<Rightarrow> mem" where
  "oid_word b = [b, 0, 0, 0, 0, 0, 0, 0]"

definition oid_image :: mem where
  "oid_image = concat (map oid_word [200, 0, 0, 7, 0, 146, 9, 150, 148]) @
     concat (map oid_word [0, 0, 0, 200, 0, 144, 0, 150, 148]) @ [97, 0, 98, 0, 100, 0, 102, 0] @ oid_word 0 @ oid_word 72"

lemma doSysctls_names_witness:
  "doSysctls (\<lambda>_. Some (0, 152, 16)) Some True oid_image =
     Some [Sysctl 0 [97, 46, 98] [100] 9 [102] 200 7 0]"
proof -
  define leaf where "leaf = \<lparr>oid_parent = 200, oid_arg1 = 7, oid_arg2 = 0, oid_name = 146, oid_handler = 9, oid_fmt = 150, oid_descr = 148\<rparr>"
  define node where "node = \<lparr>oid_parent = 0, oid_arg1 = 200, oid_arg2 = 0, oid_name = 144, oid_handler = 0, oid_fmt = 150, oid_descr = 148\<rparr>"
  define ob where "ob = (\<lambda>s :: nat. if s = 0 then leaf else node)"
  define ptr where "ptr = (\<lambda>s :: nat. if s = 0 then 0 else 72 :: nat)"
  define nm where "nm = (\<lambda>s :: nat. if s = 0 then [98] else [97] :: mem)"
  define path where "path = (\<lambda>s :: nat. if s = 0 then [97, 46, 98] else [97] :: mem)"
  have two: "s < 2 \<longleftrightarrow> s = 0 \<or> s = (1 :: nat)" for s by auto
  have "read_oid True oid_image 0 = Some leaf" "read_oid True oid_image 72 = Some node"
    by (simp_all add: read_oid_def rd_ptr_def rd_le_def slice_def oid_image_def oid_word_def leaf_def node_def)
  moreover have "rd_ptr True oid_image 152 = Some 0" "rd_ptr True oid_image 160 = Some 72"
    by (simp_all add: rd_ptr_def rd_le_def slice_def oid_image_def oid_word_def)
  moreover have strs: "cstr_at oid_image 144 = Some [97]" "cstr_at oid_image 146 = Some [98]"
      "cstr_at oid_image 148 = Some [100]" "cstr_at oid_image 150 = Some [102]"
    by (simp_all add: cstr_at_def oid_image_def oid_word_def)
  ultimately have "well_read Some True oid_image (0, 152, 16) 2 ptr ob nm"
    by (simp add: well_read_def two sysctl_at_def ob_def ptr_def nm_def leaf_def node_def)
  moreover have "dotted 2 ob nm path"
    by (auto simp: dotted_def two parent_of_def ob_def nm_def path_def leaf_def node_def str_def)
  moreover have "small_set 2 ob nm"
    by (auto simp: small_set_def two ob_def nm_def leaf_def node_def strstr_def str_def inj_on_def upt_rec)
  ultimately have "doSysctls (\<lambda>_. Some (0, 152, 16)) Some True oid_image =
      listing_of (\<lambda>s. leaf_item Some oid_image (ptr s) (ob s) (path s)) (filter (\<lambda>s. \<not> is_node (ob s)) [0..<2])"
    using doSysctls_names [of "\<lambda>_. Some (0, 152, 16)" "(0, 152, 16)" 2 True Some oid_image ptr ob nm path] by simp
  then show ?thesis
    using strs by (simp add: upt_rec leaf_item_def ob_def ptr_def path_def leaf_def node_def)
qed

end
