(* ===== verification/Joker_Syscalls.thy ===== *)
theory Joker_Syscalls
  imports Joker_Kernel
begin

text \<open>
  What \<open>main\<close> of \<open>src/src/joker.c\<close> finds out about a kernel itself: the release from its source version, the
  search for exception vectors and the system call table, and the listing of the system calls. The address of a
  file offset (\<open>findAddressOfOffset\<close>) and the sections come from machlib and are parameters.
\<close>

section \<open>The release\<close>

record release =
  xnu24xx :: bool
  xnu27xx :: bool
  xnu32xx :: bool
  xnu37xx :: bool
  xnu3757_and_later :: bool

definition unknown_release :: release where
  "unknown_release = \<lparr>xnu24xx = False, xnu27xx = False, xnu32xx = False, xnu37xx = False, xnu3757_and_later = False\<rparr>"

text \<open>The chain of tests, from the newest release down: the first version reached counts.\<close>

definition releases :: "(nat \<times> string \<times> string \<times> release) list" where
  "releases =
     [(3789, ''iOS 10.x (b7+)'', ''OS X (Sorry, \"MacOS\" 10.12b7)'', unknown_release\<lparr>xnu37xx := True, xnu3757_and_later := True\<rparr>),
      (3777, ''iOS 10.x (b3+)'', ''OS X (Sorry, \"MacOS\" 10.12b3)'', unknown_release\<lparr>xnu37xx := True, xnu3757_and_later := True\<rparr>),
      (3757, ''iOS 10.x (b2+)'', ''OS X (Sorry, \"MacOS\" 10.12)'', unknown_release\<lparr>xnu37xx := True, xnu3757_and_later := True\<rparr>),
      (3705, ''iOS 10.x'', ''OS X (Sorry, \"MacOS\" 10.12)'', unknown_release\<lparr>xnu37xx := True\<rparr>),
      (3216, ''iOS 9.x'', ''OS X 10.11'', unknown_release\<lparr>xnu32xx := True\<rparr>),
      (2780, ''iOS 8.x'', ''OS X 10.10'', unknown_release\<lparr>xnu27xx := True\<rparr>)]"

definition release_of :: "bool \<Rightarrow> bool \<Rightarrow> bool \<Rightarrow> nat option \<Rightarrow> release \<times> string" where
  "release_of xnu is64 iOS svc =
     (case svc of
        None \<Rightarrow> (unknown_release, [])
      | Some version \<Rightarrow>
          (let v = version div 2 ^ 40 in
           if \<not> xnu \<or> v < 2423 then (unknown_release, [])
           else case find (\<lambda>r. fst r \<le> v) releases of
             None \<Rightarrow> (unknown_release\<lparr>xnu24xx := True\<rparr>, [])
           | Some (_, ios_name, osx_name, r) \<Rightarrow>
               (r, ''This is a '' @ (if is64 then ''64'' else ''32'') @ ''-bit kernel from '' @
                  (if iOS then ios_name else osx_name) @ '', or later '')))"

definition from_27xx :: "release \<Rightarrow> bool" where
  "from_27xx r \<longleftrightarrow> xnu27xx r \<or> xnu32xx r \<or> xnu37xx r"

section \<open>Signatures\<close>

definition XNUSIG :: mem where "XNUSIG = str ''/xnu-''"

definition ARMExcVector :: mem where
  "ARMExcVector = [0x09, 0xf0, 0xa0, 0xe1, 0xfe, 0xff, 0xff, 0xea]"

definition ARM64_exception_vector_base :: mem where
  "ARM64_exception_vector_base = [0x01, 0x52, 0x38, 0xd5]"

definition SIG1 :: mem where
  "SIG1 = replicate 8 0 @ [1, 0, 0, 0] @ replicate 4 0 @ [1, 0, 0, 0]"

definition SIG1_SUF :: mem where
  "SIG1_SUF = replicate 12 0 @ [4, 0, 0, 0]"

definition SIG1_IOS7X :: mem where
  "SIG1_IOS7X = replicate 8 0 @ [1, 0, 0, 0] @ replicate 4 0"

definition SIG2_IOS7X :: mem where
  "SIG2_IOS7X = replicate 12 0 @ [1, 0, 4, 0]"

definition SIG1_IOS8X :: mem where
  "SIG1_IOS8X = replicate 4 0 @ [1, 0, 4, 0]"

definition SIG1_AFTER_0x18_IOS8X :: mem where
  "SIG1_AFTER_0x18_IOS8X = [6, 0, 0, 0, 3, 0, 0x0c, 0]"

definition SIG_SYSCALL_3 :: mem where
  "SIG_SYSCALL_3 = [6, 0, 0, 0, 3, 0, 0x0c, 0]"

text \<open>\<open>memcmp\<close> with a signature, and several of them joined by \<open>&&\<close>.\<close>

definition here :: "mem \<Rightarrow> nat \<Rightarrow> mem \<Rightarrow> bool option" where
  "here m i sig = map_option (\<lambda>bytes. bytes = sig) (slice m i (length sig))"

fun all_here :: "mem \<Rightarrow> (nat \<times> mem) list \<Rightarrow> bool option" where
  "all_here m [] = Some True"
| "all_here m ((i, sig) # sigs) = do {
     h \<leftarrow> here m i sig;
     if h then all_here m sigs else Some False
   }"

section \<open>The search\<close>

datatype joker_item =
    XnuVersion mem
  | ArmVector int nat
  | Arm64Vector int nat
  | SysentFound int nat
  | NamesAt nat
  | SyscallsAt nat
  | SysentOffset int
  | Suppressing nat nat
  | Syscall nat string nat bool

text \<open>Positions are relative to the start of the file; \<open>sysentAddr\<close> is \<open>None\<close> while it is uninitialised.\<close>

record search =
  xnuSig :: bool
  sysent :: "int option"
  sysentAddr :: "nat option"
  said :: "joker_item list"

definition find_version :: "mem \<Rightarrow> nat \<Rightarrow> search \<Rightarrow> mem option option" where
  "find_version m i st =
     (if xnuSig st then Some None
      else do {
        h \<leftarrow> here m i XNUSIG;
        if h then map_option (\<lambda>s. Some (takeWhile (\<lambda>b. b \<noteq> of_char CHR ''/'') s)) (cstrn_at m (i + length XNUSIG) 40)
        else Some None
      })"

definition find_vectors :: "(int \<Rightarrow> nat) \<Rightarrow> bool \<Rightarrow> mem \<Rightarrow> nat \<Rightarrow> search \<Rightarrow> search option" where
  "find_vectors addr showUNIX m i st = do {
     arm \<leftarrow> here m i ARMExcVector;
     let st = (if arm then st\<lparr>sysentAddr := Some (addr (int i - 28)),
           said := said st @ (if showUNIX then [ArmVector (int i - 28) (addr (int i - 28))] else [])\<rparr> else st);
     arm64 \<leftarrow> here m i ARM64_exception_vector_base;
     Some (if arm64 \<and> i mod 0x1000 = 8
           then st\<lparr>said := said st @ [Arm64Vector (int i - 8) (addr (int i - 8))]\<rparr> else st)
   }"

definition find_table :: "(int \<Rightarrow> nat) \<Rightarrow> release \<Rightarrow> mem \<Rightarrow> nat \<Rightarrow> search \<Rightarrow> search option" where
  "find_table addr r m i st =
     (if from_27xx r then do {
        h \<leftarrow> all_here m [(i, SIG1_IOS8X), (i + 0x18, SIG1_AFTER_0x18_IOS8X)];
        let at = int i - 0x10;
        Some (if h then st\<lparr>sysentAddr := Some (addr at), said := said st @ [SysentFound at (addr at)], sysent := Some at\<rparr>
              else st)
      }
      else do {
        a \<leftarrow> all_here m [(i, SIG1), (i + 24, SIG1_SUF)];
        b \<leftarrow> all_here m [(i, SIG1_IOS7X), (i + 20, SIG2_IOS7X), (i + 40, SIG1_IOS7X)];
        Some (if a \<or> b then st\<lparr>sysent := Some (int i - 24)\<rparr> else st)
      })"

text \<open>The loop over all bytes but the last 50; with \<open>-v\<close> the program ends at the version (\<open>Inr\<close>).\<close>

fun search_from ::
  "(int \<Rightarrow> nat) \<Rightarrow> release \<Rightarrow> bool \<Rightarrow> bool \<Rightarrow> mem \<Rightarrow> nat list \<Rightarrow> search \<Rightarrow> (search + joker_item list) option" where
  "search_from addr r showVersion showUNIX m [] st = Some (Inl st)"
| "search_from addr r showVersion showUNIX m (i # is) st = do {
     v \<leftarrow> find_version m i st;
     case v of
       Some text \<Rightarrow>
         if showVersion then Some (Inr (said st @ [XnuVersion text]))
         else do {
           st \<leftarrow> find_vectors addr showUNIX m i (st\<lparr>xnuSig := True\<rparr>);
           st \<leftarrow> find_table addr r m i st;
           search_from addr r showVersion showUNIX m is st
         }
     | None \<Rightarrow> do {
           st \<leftarrow> find_vectors addr showUNIX m i st;
           st \<leftarrow> find_table addr r m i st;
           search_from addr r showVersion showUNIX m is st
         }
   }"

definition search_kernel ::
  "(int \<Rightarrow> nat) \<Rightarrow> release \<Rightarrow> bool \<Rightarrow> bool \<Rightarrow> bool \<Rightarrow> mem \<Rightarrow> nat \<Rightarrow> (search + joker_item list) option" where
  "search_kernel addr r xnu showVersion showUNIX m filesize =
     search_from addr r showVersion showUNIX m (if xnu then [0..<filesize - 50] else [])
       \<lparr>xnuSig = False, sysent = None, sysentAddr = None, said = []\<rparr>"

text \<open>In 64-bit kernels: the signature of system call 3, in steps of 8 through the constants. \<open>None\<close> inside: the
  program returns because there is no such section.\<close>

fun sysent_in :: "mem \<Rightarrow> nat \<Rightarrow> nat list \<Rightarrow> nat option option" where
  "sysent_in m offset [] = Some None"
| "sysent_in m offset (i # is) = do {
     h \<leftarrow> here m (offset + i) SIG_SYSCALL_3;
     if h then Some (Some i) else sysent_in m offset is
   }"

definition sysent_fallback :: "section_api \<Rightarrow> mem \<Rightarrow> bool \<Rightarrow> search \<Rightarrow> search option option" where
  "sysent_fallback sects m is64 st =
     (if sysent st \<noteq> None \<or> \<not> is64 then Some (Some st)
      else case const_section sects of
        None \<Rightarrow> Some None
      | Some (addr, offset, sz) \<Rightarrow> do {
          hit \<leftarrow> sysent_in m offset (word_steps True sz);
          Some (Some (case hit of
              None \<Rightarrow> st
            | Some i \<Rightarrow> st\<lparr>sysent := Some (int (offset + i) - 0x10 - 3 * 0x18),
                sysentAddr := Some (nat ((int (addr + i) - 0x10 - 3 * 0x18) mod 2 ^ 64))\<rparr>))
        })"

section \<open>The listing\<close>

definition maxsyscall :: "release \<Rightarrow> nat" where
  "maxsyscall r =
     (if xnu37xx r then 521 else if xnu32xx r then 500 else if xnu27xx r then 489 else if xnu24xx r then 454 else 443)"

definition rd_at :: "nat \<Rightarrow> mem \<Rightarrow> int \<Rightarrow> nat option" where
  "rd_at w m i = (if 0 \<le> i then rd_le w m (nat i) else None)"

text \<open>An \<open>int\<close> that is stored in 64 bits.\<close>

definition rd_int :: "mem \<Rightarrow> int \<Rightarrow> nat option" where
  "rd_int m i = map_option (\<lambda>v. if v < 2 ^ 31 then v else v + 2 ^ 64 - 2 ^ 32) (rd_at 4 m i)"

definition suppressed :: "release \<Rightarrow> bool \<Rightarrow> mem \<Rightarrow> int \<Rightarrow> (nat \<times> nat) option" where
  "suppressed r is64 m s = do {
     enosys \<leftarrow> rd_int m (if from_27xx r then s + 0x60 else s + 20 + 24 * 4);
     old \<leftarrow> rd_int m (if from_27xx r then s + 0x60 + 30 * 12 else s + 20 + 24 * 4);
     if is64 then do { enosys \<leftarrow> rd_at 8 m s; old \<leftarrow> rd_at 8 m (s + 8 * 8 * 3); Some (enosys, old) }
     else Some (enosys, old)
   }"

definition stride :: "release \<Rightarrow> bool \<Rightarrow> int" where
  "stride r is64 = (if is64 then 0x18 else if from_27xx r then 12 else if xnu24xx r then 20 else 24)"

definition handler_of :: "release \<Rightarrow> bool \<Rightarrow> mem \<Rightarrow> int \<Rightarrow> nat \<Rightarrow> nat option" where
  "handler_of r is64 m s i = do {
     addr \<leftarrow> rd_int m (s + 20 + stride r is64 * int i);
     addr \<leftarrow> (if from_27xx r then rd_int m (s + stride r is64 * int i) else Some addr);
     if is64 then rd_at 8 m (s + stride r is64 * int i) else Some addr
   }"

fun syscall_rows :: "release \<Rightarrow> bool \<Rightarrow> mem \<Rightarrow> int \<Rightarrow> nat \<times> nat \<Rightarrow> (nat \<times> string) list \<Rightarrow> joker_item list option" where
  "syscall_rows r is64 m s skip [] = Some []"
| "syscall_rows r is64 m s skip ((i, name) # rest) = do {
     addr \<leftarrow> handler_of r is64 m s i;
     let thumb = (\<not> is64 \<and> addr mod 4 = 1);
     rows \<leftarrow> syscall_rows r is64 m s skip rest;
     Some (if addr = fst skip \<or> addr = snd skip then rows
           else Syscall i name (if thumb then addr - 1 else addr) thumb # rows)
   }"

text \<open>The numbers behind the search loop: \<open>i\<close> is where it stopped.\<close>

definition list_syscalls :: "release \<Rightarrow> bool \<Rightarrow> mem \<Rightarrow> nat \<Rightarrow> search \<Rightarrow> joker_item list option" where
  "list_syscalls r is64 m i st =
     (case sysent st of
        None \<Rightarrow> Some []
      | Some s \<Rightarrow> do {
          names \<leftarrow> here m i (str ''syscall'' @ [0] @ str ''exit'');
          addr \<leftarrow> sysentAddr st;
          skip \<leftarrow> suppressed r is64 m s;
          rows \<leftarrow> syscall_rows r is64 m s skip (zip [0..<maxsyscall r] syscall_names);
          Some ((if names then [NamesAt i] else []) @ [SyscallsAt addr] @ (if is64 then [SysentOffset s] else []) @
            Suppressing (fst skip) (snd skip) # rows)
        })"

section \<open>What is listed\<close>

text \<open>A 64-bit table: entries of 24 bytes that start with the address of the handler.\<close>

definition table_bytes :: "(nat \<times> mem) list \<Rightarrow> mem" where
  "table_bytes es = concat (map (\<lambda>e. le_bytes 8 (fst e) @ snd e) es)"

definition good_table :: "(nat \<times> mem) list \<Rightarrow> bool" where
  "good_table es \<longleftrightarrow> (\<forall>e \<in> set es. fst e < 2 ^ 64 \<and> length (snd e) = 16)"

lemma table_length: "good_table es \<Longrightarrow> length (table_bytes es) = 24 * length es"
  by (induction es) (auto simp: table_bytes_def good_table_def)

lemma table_split:
  assumes "k < length es"
  shows "table_bytes es = table_bytes (take k es) @ le_bytes 8 (fst (es ! k)) @ snd (es ! k) @ table_bytes (drop (Suc k) es)"
proof -
  have "table_bytes es = table_bytes (take k es @ es ! k # drop (Suc k) es)" using id_take_nth_drop [OF assms] by simp
  then show ?thesis by (simp add: table_bytes_def)
qed

lemma good_table_take: "good_table es \<Longrightarrow> good_table (take k es)"
  by (auto simp: good_table_def dest: in_set_takeD)

lemma handler_at:
  assumes "good_table es" "k < length es"
  shows "rd_at 8 (pre @ table_bytes es @ post) (int (length pre) + 24 * int k) = Some (fst (es ! k))"
proof -
  let ?pre = "pre @ table_bytes (take k es)"
  have "fst (es ! k) < 256 ^ 8" using assms nth_mem [OF assms(2)] by (auto simp: good_table_def)
  then have "rd_le 8 (?pre @ le_bytes 8 (fst (es ! k)) @ snd (es ! k) @ table_bytes (drop (Suc k) es) @ post) (length pre + 24 * k) =
      Some (fst (es ! k))"
    by (rule rd_le_bytes) (use assms table_length [OF good_table_take [OF assms(1)], of k] in simp)
  then show ?thesis using table_split [OF assms(2)] by (simp add: rd_at_def nat_add_distrib nat_mult_distrib)
qed

lemma rd_int_in: "0 \<le> i \<Longrightarrow> nat i + 4 \<le> length m \<Longrightarrow> \<exists>v. rd_int m i = Some v"
  by (simp add: rd_int_def rd_at_def rd_le_in)

lemma handlers_64:
  assumes "good_table es" "k < length es"
  shows "handler_of r True (pre @ table_bytes es @ post) (int (length pre)) k = Some (fst (es ! k))"
proof -
  let ?m = "pre @ table_bytes es @ post" and ?s = "int (length pre)"
  have len: "length ?m = length pre + 24 * length es + length post" using table_length [OF assms(1)] by simp
  have a: "\<exists>v. rd_int ?m (?s + 20 + 24 * int k) = Some v" "\<exists>v. rd_int ?m (?s + 24 * int k) = Some v"
    by (rule rd_int_in; use assms(2) len in \<open>simp add: nat_add_distrib nat_mult_distrib\<close>)+
  then show ?thesis using handler_at [OF assms] by (auto simp: handler_of_def stride_def)
qed

lemma suppressed_64:
  assumes "good_table es" "443 \<le> length es"
  shows "suppressed r True (pre @ table_bytes es @ post) (int (length pre)) = Some (fst (es ! 0), fst (es ! 8))"
proof -
  let ?m = "pre @ table_bytes es @ post" and ?s = "int (length pre)"
  have len: "length ?m = length pre + 24 * length es + length post" using table_length [OF assms(1)] by simp
  have zero: "0 < length es" and eight: "8 < length es" using assms(2) by linarith+
  have "\<exists>v. rd_int ?m (?s + k) = Some v" if "k \<in> {0x60, 20 + 24 * 4, 0x60 + 30 * 12}" for k
    by (rule rd_int_in) (use that assms(2) len in auto)
  then have "\<exists>v. rd_int ?m (?s + 0x60) = Some v" "\<exists>v. rd_int ?m (?s + 20 + 24 * 4) = Some v" "\<exists>v. rd_int ?m (?s + 0x60 + 30 * 12) = Some v"
    by (simp_all add: add.assoc)
  moreover have "rd_at 8 ?m ?s = Some (fst (es ! 0))" "rd_at 8 ?m (?s + 8 * 8 * 3) = Some (fst (es ! 8))"
    using handler_at [OF assms(1) zero, of pre post] handler_at [OF assms(1) eight, of pre post] by simp_all
  ultimately show ?thesis by (auto simp: suppressed_def)
qed

definition shown_rows :: "(nat \<times> mem) list \<Rightarrow> (nat \<times> string) list \<Rightarrow> joker_item list" where
  "shown_rows es names =
     map (\<lambda>(k, name). Syscall k name (fst (es ! k)) False)
       (filter (\<lambda>(k, name). fst (es ! k) \<noteq> fst (es ! 0) \<and> fst (es ! k) \<noteq> fst (es ! 8)) names)"

lemma rows_64:
  assumes "good_table es"
  shows "\<forall>n \<in> set names. fst n < length es \<Longrightarrow>
    syscall_rows r True (pre @ table_bytes es @ post) (int (length pre)) (fst (es ! 0), fst (es ! 8)) names = Some (shown_rows es names)"
  using handlers_64 [OF assms] by (induction names) (auto simp: shown_rows_def)

lemma maxsyscall_ge: "443 \<le> maxsyscall r"
  by (simp add: maxsyscall_def)

lemma zip_upt_lookup: "n \<le> length xs \<Longrightarrow> zip [0..<n] xs = map (\<lambda>k. (k, xs ! k)) [0..<n]"
  by (rule nth_equalityI) simp_all

lemma list_syscalls_64:
  assumes "good_table es" "maxsyscall r \<le> length es" "sysent st = Some (int (length pre))" "sysentAddr st = Some a"
    and "i + 12 \<le> length (pre @ table_bytes es @ post)"
  shows "\<exists>title. list_syscalls r True (pre @ table_bytes es @ post) i st = Some (title @ [SyscallsAt a, SysentOffset (int (length pre)),
      Suppressing (fst (es ! 0)) (fst (es ! 8))] @ shown_rows es (zip [0..<maxsyscall r] syscall_names)) \<and> set title \<subseteq> {NamesAt i}"
proof -
  have "\<exists>b. here (pre @ table_bytes es @ post) i (str ''syscall'' @ [0] @ str ''exit'') = Some b"
    using assms(5) by (simp add: here_def slice_def str_def)
  moreover have "\<forall>n \<in> set (zip [0..<maxsyscall r] syscall_names). fst n < length es"
    using assms(2) by (auto dest: set_zip_leftD)
  ultimately show ?thesis
    using suppressed_64 [OF assms(1), of r pre post] rows_64 [OF assms(1)] assms maxsyscall_ge [of r]
    by (auto simp: list_syscalls_def)
qed

text \<open>The table is found by the bytes of entry 3, the first time they stand on a step of the search.\<close>

lemma sysent_in_first:
  "j < n \<Longrightarrow> here m (offset + 8 * j) SIG_SYSCALL_3 = Some True \<Longrightarrow>
    \<forall>k. j0 \<le> k \<and> k < j \<longrightarrow> here m (offset + 8 * k) SIG_SYSCALL_3 = Some False \<Longrightarrow> j0 \<le> j \<Longrightarrow>
    sysent_in m offset (map (\<lambda>k. k * 8) [j0..<n]) = Some (Some (8 * j))"
proof (induction "j - j0" arbitrary: j0)
  case 0
  then show ?case by (simp add: upt_conv_Cons mult.commute)
next
  case (Suc d)
  then have "[j0..<n] = j0 # [Suc j0..<n]" "here m (offset + 8 * j0) SIG_SYSCALL_3 = Some False" by (auto simp: upt_conv_Cons)
  then show ?case using Suc.hyps(1) [of "Suc j0"] Suc.hyps(2) Suc.prems by (simp add: mult.commute)
qed

definition marked_table :: "mem \<Rightarrow> mem \<Rightarrow> nat \<Rightarrow> nat \<Rightarrow> nat \<Rightarrow> (nat \<times> mem) list \<Rightarrow> bool" where
  "marked_table m pre offset sz j es \<longleftrightarrow> good_table es \<and> 521 \<le> length es \<and> drop 8 (snd (es ! 3)) = SIG_SYSCALL_3 \<and>
     offset + 8 * j = length pre + 88 \<and> 8 * j < sz \<and>
     (\<forall>k < j. here m (offset + 8 * k) SIG_SYSCALL_3 = Some False)"

lemma here_mid: "length a = i \<Longrightarrow> here (a @ sig @ b) i sig = Some True"
  by (auto simp: here_def slice_def)

lemma fallback_found:
  assumes "marked_table (pre @ table_bytes es @ post) pre offset sz j es" "const_section sects = Some (addr, offset, sz)"
    and "sysent st = None"
  shows "sysent_fallback sects (pre @ table_bytes es @ post) True st = Some (Some (st\<lparr>sysent := Some (int (length pre)),
    sysentAddr := Some (nat ((int addr + int (length pre) - int offset) mod 2 ^ 64))\<rparr>))"
proof -
  let ?m = "pre @ table_bytes es @ post"
  have es: "good_table es" "3 < length es" "drop 8 (snd (es ! 3)) = SIG_SYSCALL_3" "offset + 8 * j = length pre + 88" "8 * j < sz"
    using assms(1) by (auto simp: marked_table_def)
  have l: "length (snd (es ! 3)) = 16" "length (table_bytes (take 3 es)) = 72"
    using es(1,2) nth_mem [OF es(2)] table_length [OF good_table_take [OF es(1)], of 3] by (auto simp: good_table_def)
  have "?m = (pre @ table_bytes (take 3 es) @ le_bytes 8 (fst (es ! 3)) @ take 8 (snd (es ! 3))) @ SIG_SYSCALL_3 @
      table_bytes (drop 4 es) @ post"
    using table_split [OF es(2)] append_take_drop_id [of 8 "snd (es ! 3)"] es(3) by simp
  then have "here ?m (offset + 8 * j) SIG_SYSCALL_3 = Some True"
    by (simp only:) (rule here_mid, use l es(4) in simp)
  moreover have "j < (sz + 7) div 8" using es(5) by simp
  ultimately have "sysent_in ?m offset (word_steps True sz) = Some (Some (8 * j))"
    using sysent_in_first [of j "(sz + 7) div 8" ?m offset 0] assms(1) by (auto simp: word_steps_def marked_table_def add.commute)
  moreover have at: "int offset + 8 * int j - 88 = int (length pre)"
    "int addr + 8 * int j - 88 = int addr + int (length pre) - int offset" using es(4) by linarith+
  ultimately show ?thesis using assms(2,3) by (simp add: sysent_fallback_def at)
qed

lemma length_syscall_names: "length syscall_names = 522"
  by (simp add: syscall_names_def syscall_names_1_def syscall_names_2_def syscall_names_3_def syscall_names_4_def)

text \<open>The numbers whose handler is neither that of system call 0 nor that of system call 8.\<close>

definition own_handler :: "(nat \<times> mem) list \<Rightarrow> nat \<Rightarrow> bool" where
  "own_handler es k \<longleftrightarrow> fst (es ! k) \<notin> {fst (es ! 0), fst (es ! 8)}"

lemma shown_rows_named:
  "n \<le> 522 \<Longrightarrow> shown_rows es (zip [0..<n] syscall_names) =
     map (\<lambda>k. Syscall k (syscall_names ! k) (fst (es ! k)) False) (filter (own_handler es) [0..<n])"
  by (simp add: zip_upt_lookup length_syscall_names shown_rows_def filter_map o_def own_handler_def [abs_def])

text \<open>C29: When the search over a 64-bit kernel has found no table, the table is recovered from the constants by the bytes of
  system call 3, and the listing shows its address, its file offset, the two suppressed handlers, and then, for every
  number below the release's maximum, the name and handler of each system call that has a handler of its own.\<close>

theorem syscalls_listed:
  assumes "marked_table (pre @ table_bytes es @ post) pre offset sz j es" "const_section sects = Some (addr, offset, sz)"
    and "sysent st = None" "i + 12 \<le> length (pre @ table_bytes es @ post)" "offset \<le> addr + length pre"
    and "addr + length pre - offset < 2 ^ 64"
  shows "\<exists>st' title.
    sysent_fallback sects (pre @ table_bytes es @ post) True st = Some (Some st') \<and>
    list_syscalls r True (pre @ table_bytes es @ post) i st' =
      Some (title @ [SyscallsAt (addr + length pre - offset), SysentOffset (int (length pre)), Suppressing (fst (es ! 0)) (fst (es ! 8))] @
        map (\<lambda>k. Syscall k (syscall_names ! k) (fst (es ! k)) False) (filter (own_handler es) [0..<maxsyscall r])) \<and>
    set title \<subseteq> {NamesAt i}"
proof -
  have "good_table es" "maxsyscall r \<le> length es" "maxsyscall r \<le> 522"
    using assms(1) by (auto simp: marked_table_def maxsyscall_def)
  moreover have "nat ((int addr + int (length pre) - int offset) mod 2 ^ 64) = addr + length pre - offset"
    using assms(5,6) by (simp flip: of_nat_add of_nat_diff)
  ultimately show ?thesis
    using fallback_found [OF assms(1-3)] list_syscalls_64 [of es r _ pre "addr + length pre - offset" i post] assms(4)
    by (simp add: shown_rows_named)
qed

text \<open>A table with three kinds of handler, of which only \<open>read\<close> has its own.\<close>

definition small_entry :: "nat \<Rightarrow> nat \<times> mem" where
  "small_entry k = (if k < 3 then 7 else if k = 3 then 9 else 8, if k = 3 then replicate 8 0 @ SIG_SYSCALL_3 else replicate 16 0)"

definition small_sysent :: "(nat \<times> mem) list" where
  "small_sysent = map small_entry [0..<521]"

lemma small_sysent_nth: "k < 521 \<Longrightarrow> small_sysent ! k = small_entry k"
  by (simp add: small_sysent_def)

lemma length_small_sysent: "length small_sysent = 521"
  by (simp add: small_sysent_def)

lemma small_sysent_good: "good_table small_sysent"
  by (auto simp: good_table_def small_sysent_def small_entry_def SIG_SYSCALL_3_def)

lemma small_sysent_own: "filter (own_handler small_sysent) [0..<443] = [3]"
proof -
  have "[0..<443] = [0..<3] @ 3 # [4..<(443::nat)]" using upt_add_eq_append [of 0 3 440] by (simp add: upt_conv_Cons)
  moreover have "own_handler small_sysent k \<longleftrightarrow> k = 3" if "k < 443" for k
    using that by (auto simp: own_handler_def small_sysent_nth small_entry_def)
  ultimately show ?thesis by (auto simp: filter_empty_conv)
qed

lemma small_sysent_marked: "marked_table ([] @ table_bytes small_sysent @ []) [] 80 16 1 small_sysent"
proof -
  have "slice (table_bytes small_sysent) 80 8 = Some (replicate 8 0)"
    using table_split [of 3 small_sysent] table_length [OF good_table_take [OF small_sysent_good], of 3]
    by (simp add: slice_def length_small_sysent small_sysent_nth small_entry_def)
  moreover have "hd SIG_SYSCALL_3 \<noteq> hd (replicate 8 0)" by (simp add: SIG_SYSCALL_3_def)
  then have "replicate 8 0 \<noteq> SIG_SYSCALL_3" by metis
  moreover have "length SIG_SYSCALL_3 = 8" by (simp add: SIG_SYSCALL_3_def)
  ultimately have "here (table_bytes small_sysent) 80 SIG_SYSCALL_3 = Some False" by (auto simp: here_def)
  then show ?thesis
    using small_sysent_good by (simp add: marked_table_def length_small_sysent small_sysent_nth small_entry_def)
qed

lemma syscalls_listed_witness:
  "\<exists>st' title.
    sysent_fallback (\<lambda>_. Some (0x1050, 80, 16)) (table_bytes small_sysent) True \<lparr>xnuSig = False, sysent = None, sysentAddr = None, said = []\<rparr> =
      Some (Some st') \<and>
    list_syscalls unknown_release True (table_bytes small_sysent) 20 st' =
      Some (title @ [SyscallsAt 0x1000, SysentOffset 0, Suppressing 7 8, Syscall 3 ''read'' 9 False]) \<and> set title \<subseteq> {NamesAt 20}"
proof -
  have "const_section (\<lambda>_. Some (0x1050, 80, 16)) = Some (0x1050, 80, 16)" by (simp add: const_section_def)
  moreover have "length (table_bytes small_sysent) = 12504"
    using table_length [OF small_sysent_good] by (simp add: length_small_sysent)
  moreover have "syscall_names ! 3 = ''read''" by (simp add: syscall_names_def syscall_names_1_def)
  moreover have "maxsyscall unknown_release = 443" by (simp add: maxsyscall_def unknown_release_def)
  ultimately show ?thesis
    using syscalls_listed [OF small_sysent_marked, of "\<lambda>_. Some (0x1050, 80, 16)" "0x1050"
        "\<lparr>xnuSig = False, sysent = None, sysentAddr = None, said = []\<rparr>" 20 unknown_release]
    by (simp add: small_sysent_own small_sysent_nth small_entry_def)
qed

end
