(* ===== verification/Joker_Cache.thy ===== *)
theory Joker_Cache
  imports Joker_Kernel Lzss_Roundtrip
begin

text \<open>
  Kernel caches in \<open>src/src/joker.c\<close>: \<open>tryLZSS\<close> decompresses one with the decoder of \<open>lzss.c\<close>; the
  sandbox extension's operation names and profiles, the MAC policies of an extension, and the second
  method of \<open>doKexts\<close>, which cuts the prelinked text at the Mach-O magics. Sections, the section of
  an address and an extension's load commands come from machlib and are parameters. Output lines are
  items, as printed without \<open>-j\<close>; notes on standard error are left out, but for the warning about the
  distance of profiles. Sandbox and policies exist for 64-bit images only.
\<close>

section \<open>Searching memory\<close>

text \<open>\<open>memmem (m + start, len, needle)\<close>: the offset of the first hit. A search that runs past the memory
  without a hit is undefined.\<close>

definition memmem_at :: "mem \<Rightarrow> nat \<Rightarrow> nat \<Rightarrow> mem \<Rightarrow> nat option option" where
  "memmem_at m start len needle =
     (case memmem (take len (drop start m)) needle of
        Some k \<Rightarrow> Some (Some (start + k))
      | None \<Rightarrow> if start + len \<le> length m then Some None else None)"

section \<open>Compressed kernel caches\<close>

text \<open>\<open>found\<close> is the KPP image and what is written of it to \<open>/tmp/kpp\<close>; the search starts at 0x2000 and
  covers the size of the whole file.\<close>

definition find_kpp :: "mem \<Rightarrow> nat \<Rightarrow> nat option option" where
  "find_kpp m filesize = do {
     found \<leftarrow> memmem_at m 0x2000 filesize (str ''__IMAGEE'');
     case found of
       None \<Rightarrow> Some None
     | Some f \<Rightarrow> memmem_at m (f - 0x1000) 0x1000 [0xCF, 0xFA, 0xED, 0xFE]
   }"

text \<open>Files are written: their paths and contents, in order.\<close>

type_synonym files = "(string \<times> mem) list"

datatype lzss_result =
    NotCompressed
  | ExitWith nat files
  | Decompressed mem files

text \<open>The KPP image is saved from its magic to the end of the file; the program ends if that file cannot be opened. An
  image that begins behind the end of the file, whose length would be negative, is undefined.\<close>

definition save_kpp :: "(string \<Rightarrow> bool) \<Rightarrow> mem \<Rightarrow> nat \<Rightarrow> nat option \<Rightarrow> files option option" where
  "save_kpp can_write m filesize kpp =
     (case kpp of
        None \<Rightarrow> Some (Some [])
      | Some k \<Rightarrow>
          if \<not> can_write ''/tmp/kpp'' then Some None
          else if k \<le> filesize then map_option (\<lambda>image. Some [(''/tmp/kpp'', image)]) (slice m k (filesize - k))
          else None)"

text \<open>With \<open>-dec\<close> the buffer of the announced size is written; what the decoder has not filled of it is undefined. A
  file that cannot be opened is only reported.\<close>

definition save_kernel :: "(string \<Rightarrow> bool) \<Rightarrow> bool \<Rightarrow> mem \<Rightarrow> nat \<Rightarrow> files option" where
  "save_kernel can_write dec out usize =
     (if dec \<and> can_write ''/tmp/kernel''
      then if length out = usize then Some [(''/tmp/kernel'', out)] else None
      else Some [])"

text \<open>The file is searched as a C string for the header, 24 bytes with big-endian sizes at 12 and 16.
  The compressed kernel starts one byte before its magic, within the 1024 bytes from offset 64. The
  output has to fit the announced size. \<open>dec\<close> is the global \<open>g_dec\<close>.\<close>

definition tryLZSS :: "(nat \<Rightarrow> byte) \<Rightarrow> (string \<Rightarrow> bool) \<Rightarrow> bool \<Rightarrow> mem \<Rightarrow> nat \<Rightarrow> lzss_result option" where
  "tryLZSS garbage can_write dec m filesize =
     (case memmem (takeWhile (\<lambda>b. b \<noteq> 0) m) (str ''complzss'') of
        None \<Rightarrow> if 0 \<in> set m then Some NotCompressed else None
      | Some h \<Rightarrow> do {
          hdr \<leftarrow> slice m h 24;
          usize \<leftarrow> rd_be 4 m (h + 12);
          csize \<leftarrow> rd_be 4 m (h + 16);
          kpp \<leftarrow> find_kpp m filesize;
          saved \<leftarrow> save_kpp can_write m filesize kpp;
          case saved of
            None \<Rightarrow> Some (ExitWith 3 [])
          | Some files \<Rightarrow> do {
              feed \<leftarrow> memmem_at m 64 1024 [0xCF, 0xFA, 0xED];
              case feed of
                None \<Rightarrow> Some (ExitWith 5 files)
              | Some p \<Rightarrow> do {
                  src \<leftarrow> slice m (p - 1) csize;
                  out \<leftarrow> decompress_lzss garbage src;
                  if length out \<le> usize then do {
                    kernel \<leftarrow> save_kernel can_write dec out usize;
                    Some (Decompressed out (files @ kernel))
                  }
                  else None
                }
            }
        })"

section \<open>Sandbox operations and profiles\<close>

definition MAX_SB_OPERATION_NAMES :: nat where
  "MAX_SB_OPERATION_NAMES = 200"

text \<open>Names follow each other until one that contains \<open>system-swap\<close>.\<close>

fun op_names :: "nat \<Rightarrow> mem \<Rightarrow> nat \<Rightarrow> mem list option" where
  "op_names 0 m pos = Some []"
| "op_names (Suc n) m pos = do {
     nm \<leftarrow> cstr_at m pos;
     if strstr nm (str ''system-swap'') then Some [nm]
     else map_option (Cons nm) (op_names n m (pos + length nm + 1))
   }"

text \<open>\<open>None\<close> inside is the return value 1.\<close>

definition doSandboxOperationNames :: "section_api \<Rightarrow> mem \<Rightarrow> string \<Rightarrow> mem list option option" where
  "doSandboxOperationNames sects m sname =
     (case sects sname of
        None \<Rightarrow> Some None
      | Some (addr, off, sz) \<Rightarrow> do {
          pos \<leftarrow> memmem_at m off sz (str ''default'' @ [0]);
          case pos of
            None \<Rightarrow> Some None
          | Some p \<Rightarrow> do {
              first \<leftarrow> cstr_at m p;
              rest \<leftarrow> op_names (MAX_SB_OPERATION_NAMES - 1) m (p + length first + 1);
              Some (Some (first # rest))
            }
        })"

definition profile_size :: "mem list \<Rightarrow> nat" where
  "profile_size ops = length ops + 2"

datatype verdict = Deny | Allow | Raw nat nat "nat option"

datatype profile_item =
    Header nat nat nat
  | Profile nat nat mem
  | Apart nat
  | Op mem mem verdict
  | NoName

text \<open>The rule of operation \<open>op\<close>: two halfwords at eight times the halfword of the profile.\<close>

definition show_rule :: "mem \<Rightarrow> nat \<Rightarrow> nat \<Rightarrow> nat \<Rightarrow> nat \<Rightarrow> verdict option" where
  "show_rule m profiles addr prof op = do {
     i \<leftarrow> rd_le 2 m (prof + 2 * (2 + op));
     first \<leftarrow> rd_le 2 m (profiles + i * 8);
     second \<leftarrow> rd_le 2 m (profiles + i * 8 + 2);
     Some (if first = 1 \<and> second = 5 then Deny
           else if first = 1 \<and> second = 0 then Allow
           else Raw first second (if second > 0x6400 then Some ((addr + second * 8) mod 2 ^ 64) else None))
   }"

fun show_rules :: "mem \<Rightarrow> nat \<Rightarrow> nat \<Rightarrow> nat \<Rightarrow> mem \<Rightarrow> nat \<Rightarrow> mem list \<Rightarrow> profile_item list option" where
  "show_rules m profiles addr prof name op [] = Some []"
| "show_rules m profiles addr prof name op (o1 # ops) = do {
     v \<leftarrow> show_rule m profiles addr prof op;
     xs \<leftarrow> show_rules m profiles addr prof name (op + 1) ops;
     Some (Op name o1 v # xs)
   }"

text \<open>The state is the number of profiles seen, the position and the previous position. A profile without
  name does not count.\<close>

definition profile_body ::
  "mem \<Rightarrow> nat \<Rightarrow> nat \<Rightarrow> mem list \<Rightarrow> nat \<Rightarrow> nat \<times> nat \<times> nat option \<times> profile_item list
     \<Rightarrow> (nat \<times> nat \<times> nat option \<times> profile_item list + profile_item list) option" where
  "profile_body m profiles addr ops num st =
     (case st of (n, prof, last_prof, out) \<Rightarrow>
        if \<not> n < num then Some (Inr out)
        else do {
          h \<leftarrow> rd_le 2 m prof;
          name \<leftarrow> cstr_at m (profiles + h * 8 + 4);
          if name \<noteq> [] then do {
            let apart = (case last_prof of None \<Rightarrow> []
              | Some l \<Rightarrow> if prof - l \<noteq> 2 * profile_size ops then [Apart ((prof - l) div 2)] else []);
            rules \<leftarrow> show_rules m profiles addr prof name 0 ops;
            Some (Inl (n + 1, prof + 2 * profile_size ops, Some prof,
                       out @ [Profile h ((addr + h * 8) mod 2 ^ 64) name] @ apart @ rules))
          }
          else Some (Inl (n, prof + 2 * profile_size ops, last_prof, out @ [NoName]))
        })"

text \<open>The profiles start behind the second 16 zero bytes; the second search covers the size of the
  section again, from the first hit on.\<close>

definition doSandboxProfiles :: "nat \<Rightarrow> section_api \<Rightarrow> mem \<Rightarrow> string \<Rightarrow> mem list \<Rightarrow> profile_item list option option" where
  "doSandboxProfiles fuel sects m sname ops = do {
     (addr, off, sz) \<leftarrow> sects sname;
     z1 \<leftarrow> memmem_at m off sz (replicate 16 0);
     p1 \<leftarrow> z1;
     z2 \<leftarrow> memmem_at m (p1 + 16) sz (replicate 16 0);
     case z2 of
       None \<Rightarrow> Some None
     | Some p2 \<Rightarrow> do {
         let profiles = p2 + 16;
         let addr = (addr + (profiles - off)) mod 2 ^ 64;
         num \<leftarrow> rd_le 2 m (profiles + 10);
         items \<leftarrow> loop fuel (profile_body m profiles addr ops num) (0, profiles + 12, None, []);
         Some (Some (Header profiles addr num # items))
       }
   }"

section \<open>Policies\<close>

text \<open>\<open>getPtr\<close>: the offset of an address in the image, through the section that contains it.\<close>

definition getPtr :: "(nat \<Rightarrow> (nat \<times> nat) option) \<Rightarrow> nat \<Rightarrow> nat option" where
  "getPtr sect_of ptr =
     (if ptr = 0 then None
      else case sect_of ptr of
             None \<Rightarrow> None
           | Some (addr, off) \<Rightarrow> if off = 0 then None else Some (ptr - addr + off))"

datatype policy_item = Policy mem nat "(nat \<times> (nat \<times> string \<times> nat) list) option"

text \<open>The word at \<open>p\<close> may be the name of a policy, the first of the words of its configuration; operations
  (word 4) and load flags (word 5) follow. A null pointer is printed or read without a test.\<close>

definition policy_at :: "(nat \<Rightarrow> (nat \<times> nat) option) \<Rightarrow> mem \<Rightarrow> nat \<times> nat \<times> nat \<Rightarrow> nat \<Rightarrow> policy_item list option" where
  "policy_at sect_of m tc p =
     (case tc of (taddr, toff, tsize) \<Rightarrow> do {
        w \<leftarrow> rd_le 8 m p;
        if w \<noteq> 0 \<and> taddr < w \<and> w < taddr + tsize then do {
          s \<leftarrow> cstr_at m (toff + (w - taddr));
          if s = str ''AMFI'' \<or> s = str ''Sandbox'' then do {
            np \<leftarrow> getPtr sect_of w;
            name \<leftarrow> cstr_at m np;
            ops \<leftarrow> rd_le 8 m (p + 32);
            flags \<leftarrow> rd_le 8 m (p + 40);
            listed \<leftarrow> (if ops AND 0xffffff8000000000 = 0xffffff8000000000 then do {
                         q \<leftarrow> getPtr sect_of ops;
                         l \<leftarrow> dumpOps m q;
                         Some (Some (ops, l))
                       }
                       else Some None);
            Some [Policy name flags listed]
          }
          else Some []
        }
        else Some []
      })"

fun policies_at :: "(nat \<Rightarrow> (nat \<times> nat) option) \<Rightarrow> mem \<Rightarrow> nat \<times> nat \<times> nat \<Rightarrow> nat list \<Rightarrow> policy_item list option" where
  "policies_at sect_of m tc [] = Some []"
| "policies_at sect_of m tc (p # ps) = do {
     xs \<leftarrow> policy_at sect_of m tc p;
     ys \<leftarrow> policies_at sect_of m tc ps;
     Some (xs @ ys)
   }"

definition doPolicyOps ::
  "section_api \<Rightarrow> (nat \<Rightarrow> (nat \<times> nat) option) \<Rightarrow> mem \<Rightarrow> string \<Rightarrow> policy_item list option" where
  "doPolicyOps sects sect_of m sname =
     (case (sects ''__TEXT.__cstring'', sects sname) of
        (Some tc, Some (addr, off, sz)) \<Rightarrow> policies_at sect_of m tc (map (\<lambda>i. off + 8 * i) [0..<sz div 8])
      | _ \<Rightarrow> Some [])"

section \<open>Kernel extensions\<close>

text \<open>What machlib says about an extension: offset and size of \<open>__DATA.__data\<close>, the offset of
  \<open>__DATA_CONST.__const\<close>, and the source version.\<close>

record kext_info =
  data_off :: nat
  data_size :: nat
  const_off :: nat
  version :: "nat option"

text \<open>The bundle name is the last one that starts with \<open>com.apple.\<close>, or the first that is the sandbox's.
  The remaining size is never reduced. The fuel bounds the number of hits.\<close>

fun last_bundle :: "nat \<Rightarrow> mem \<Rightarrow> nat \<Rightarrow> nat \<Rightarrow> nat option" where
  "last_bundle 0 m sz b = None"
| "last_bundle (Suc fuel) m sz b = do {
     s \<leftarrow> cstr_at m b;
     if s = str ''com.apple.security.sandbox'' then Some b
     else do {
       next \<leftarrow> memmem_at m (b + 1) sz (str ''com.apple.'');
       case next of None \<Rightarrow> Some b | Some b' \<Rightarrow> last_bundle fuel m sz b'
     }
   }"

definition version_text :: "nat \<Rightarrow> string" where
  "version_text v = ''('' @ show_nat (v div 2 ^ 40) @ ''.'' @ show_nat (v div 2 ^ 30 mod 1024) @ ''.'' @
     show_nat (v div 2 ^ 20 mod 1024) @ ''.'' @ show_nat (v div 2 ^ 10 mod 1024) @ ''.'' @ show_nat (v mod 1024) @ '')''"

text \<open>The name in its buffer of 1024 bytes; without a source version a null pointer is read. What the
  function prints besides for AMFI and the sandbox (policies and profiles) is left out.\<close>

definition identifyKextNew :: "kext_info \<Rightarrow> mem \<Rightarrow> nat \<Rightarrow> nat \<Rightarrow> mem option option" where
  "identifyKextNew info m kext sz =
     (if sz < 0x1000 then Some (Some (str ''this kext is too small!'' @ [0x0A]))
      else if data_size info > sz then Some None
      else do {
        first \<leftarrow> memmem_at m ((if const_off info \<noteq> 0 then 0 else kext) + data_off info) (data_size info) (str ''com.apple.'');
        case first of
          None \<Rightarrow> Some None
        | Some b \<Rightarrow> do {
            l \<leftarrow> last_bundle (length m + 1) m (data_size info) b;
            name \<leftarrow> cstr_at m l;
            v \<leftarrow> version info;
            let full = name @ str (version_text v);
            if length full < 1024 then Some (Some full) else None
          }
      })"

datatype kext_item = Kext nat mem nat nat

text \<open>A magic opens an extension when none is open; at a further one, if it is an extension too and not
  longer than the remaining size, the open one is listed. The skip advances by one byte more.\<close>

definition kext_body ::
  "(nat \<Rightarrow> kext_info) \<Rightarrow> mem \<Rightarrow> bool \<Rightarrow> nat \<Rightarrow> nat \<Rightarrow> nat \<times> nat \<times> nat \<times> kext_item list
     \<Rightarrow> (nat \<times> nat \<times> nat \<times> kext_item list + kext_item list) option" where
  "kext_body info m is64 offset sz st =
     (case st of (i, prev, k, out) \<Rightarrow>
        if \<not> i < sz then Some (Inr out)
        else do {
          magic \<leftarrow> rd_le 4 m (offset + i);
          if magic \<noteq> (if is64 then 0xfeedfacf else 0xfeedface) then Some (Inl (i + 0x1000, prev, k, out))
          else if prev = 0 then Some (Inl (i + 0x1000, offset + i, k, out))
          else do {
            let ksize = offset + i - prev;
            filetype \<leftarrow> rd_le 4 m (offset + i + 12);
            if filetype \<noteq> 0xb then Some (Inl (i + 0x1000, prev, k, out))
            else if ksize + i > sz then Some (Inl (i + 1 + 0x1000, prev, k, out))
            else do {
              new \<leftarrow> identifyKextNew (info prev) m prev ksize;
              ident \<leftarrow> (case new of
                  Some n \<Rightarrow> Some n
                | None \<Rightarrow> do {
                    old \<leftarrow> identifyKext (drop prev m) ksize;
                    Some (case old of Some n \<Rightarrow> str n | None \<Rightarrow> str ''unrecognized.or.unhandledyet.Please.Report.Me'')
                  });
              Some (Inl (i + 0x1000, offset + i, k + 1, out @ [Kext k ident prev ksize]))
            }
          }
        })"

definition doKexts_dump :: "section_api \<Rightarrow> (nat \<Rightarrow> kext_info) \<Rightarrow> mem \<Rightarrow> bool \<Rightarrow> kext_item list option" where
  "doKexts_dump sects info m is64 =
     (case sects ''__PRELINK_TEXT.__text'' of
        None \<Rightarrow> Some []
      | Some (addr, offset, sz) \<Rightarrow> loop (sz + 1) (kext_body info m is64 offset sz) (0, 0, 1, []))"

section \<open>What is found\<close>

text \<open>A kernel cache: anything, the header, anything, and the compressed kernel.\<close>

definition cache_header :: "nat \<Rightarrow> nat \<Rightarrow> mem \<Rightarrow> mem \<Rightarrow> mem" where
  "cache_header usize csize u1 u2 =
     str ''complzss'' @ u1 @ rev (le_bytes 4 usize) @ rev (le_bytes 4 csize) @ u2"

lemma rd_be_mid:
  "v < 256 ^ n \<Longrightarrow> length pre = k \<Longrightarrow> rd_be n (pre @ rev (le_bytes n v) @ post) k = Some v"
  by (auto simp: rd_be_def be_val_def slice_def le_val_le_bytes)

text \<open>A kernel cache whose compressed part decodes to a kernel, as everything written by
  \<open>compress_lzss\<close> does (\<open>lzss_roundtrip\<close>), is found by its header and magic and decompressed to that
  kernel; what is written is the KPP image, if there is one, and with \<open>-dec\<close> the kernel.\<close>

definition kpp_file :: "mem \<Rightarrow> nat \<Rightarrow> nat option \<Rightarrow> files" where
  "kpp_file m filesize kpp = (case kpp of None \<Rightarrow> [] | Some k \<Rightarrow> [(''/tmp/kpp'', take (filesize - k) (drop k m))])"

definition kernel_file :: "bool \<Rightarrow> mem \<Rightarrow> files" where
  "kernel_file written X = (if written then [(''/tmp/kernel'', X)] else [])"

lemma save_kpp_file:
  assumes "filesize \<le> length m" "\<forall>k. kpp = Some k \<longrightarrow> k \<le> filesize"
  shows "save_kpp can_write m filesize kpp =
    Some (if kpp \<noteq> None \<and> \<not> can_write ''/tmp/kpp'' then None else Some (kpp_file m filesize kpp))"
  using assms by (auto simp: save_kpp_def kpp_file_def slice_def split: option.splits)

theorem tryLZSS_kernel:
  assumes "decompress_lzss garbage c = Some X" "length X < 2 ^ 32" "length c < 2 ^ 32"
    and "length u1 = 4" "length u2 = 4"
    and "m = pre @ cache_header (length X) (length c) u1 u2 @ mid @ c @ rest"
    and "memmem (takeWhile (\<lambda>b. b \<noteq> 0) m) (str ''complzss'') = Some (length pre)"
    and "memmem_at m 64 1024 [0xCF, 0xFA, 0xED] = Some (Some (length pre + 24 + length mid + 1))"
    and "find_kpp m filesize = Some kpp" "filesize \<le> length m" "\<forall>k. kpp = Some k \<longrightarrow> k \<le> filesize"
  shows "tryLZSS garbage can_write dec m filesize =
    Some (if kpp \<noteq> None \<and> \<not> can_write ''/tmp/kpp'' then ExitWith 3 []
          else Decompressed X (kpp_file m filesize kpp @ kernel_file (dec \<and> can_write ''/tmp/kernel'') X))"
proof -
  let ?s = "str ''complzss''" and ?h = "length pre"
  have s: "length ?s = 8" by (simp add: str_def)
  obtain hdr where hdr: "slice m ?h 24 = Some hdr"
    using assms(4,5) s by (simp add: assms(6) slice_def cache_header_def)
  have usize: "rd_be 4 m (?h + 12) = Some (length X)"
    using rd_be_mid [of "length X" 4 "pre @ ?s @ u1" "?h + 12" "rev (le_bytes 4 (length c)) @ u2 @ mid @ c @ rest"] assms(2,4) s
    by (simp add: assms(6) cache_header_def)
  have csize: "rd_be 4 m (?h + 16) = Some (length c)"
    using rd_be_mid [of "length c" 4 "pre @ ?s @ u1 @ rev (le_bytes 4 (length X))" "?h + 16" "u2 @ mid @ c @ rest"] assms(3,4) s
    by (simp add: assms(6) cache_header_def)
  have src: "slice m (?h + 24 + length mid + 1 - 1) (length c) = Some c"
    using assms(4,5) s by (simp add: assms(6) slice_def cache_header_def)
  have kernel: "save_kernel can_write dec X (length X) = Some (kernel_file (dec \<and> can_write ''/tmp/kernel'') X)"
    by (simp add: save_kernel_def kernel_file_def)
  show ?thesis
    unfolding tryLZSS_def assms(7) option.case hdr usize csize assms(9)
    using src assms(1,8) kernel save_kpp_file [OF assms(10,11), of can_write] by auto
qed

lemma memmem_zeros: "memmem (replicate n 0) (x # xs) = None" if "x \<noteq> 0"
  using that by (induction n) auto

text \<open>Sandbox operations: the names are those of the table.\<close>

lemma cstr_mid: "0 \<notin> set x \<Longrightarrow> length pre = k \<Longrightarrow> cstr_at (pre @ x @ 0 # post) k = Some x"
  by (induction x) (auto simp: cstr_at_def)

lemma op_names_mid:
  assumes "list_all (\<lambda>x. 0 \<notin> set x \<and> \<not> strstr x (str ''system-swap'')) xs" "0 \<notin> set l" "strstr l (str ''system-swap'')"
  shows "length pre = k \<Longrightarrow> length xs < n \<Longrightarrow>
    op_names n (pre @ concat (map (\<lambda>x. x @ [0]) (xs @ [l])) @ post) k = Some (xs @ [l])"
  using assms(1)
proof (induction xs arbitrary: n pre k)
  case Nil
  then obtain j where "n = Suc j" by (cases n) auto
  then show ?case using assms(2,3) Nil cstr_mid [of l pre k post] by simp
next
  case (Cons x xs)
  then obtain j where n: "n = Suc j" by (cases n) auto
  have "op_names j ((pre @ x @ [0]) @ concat (map (\<lambda>x. x @ [0]) (xs @ [l])) @ post) (k + length x + 1) = Some (xs @ [l])"
    using Cons.prems n by (intro Cons.IH) auto
  then show ?case
    using Cons.prems n cstr_mid [of x pre k "concat (map (\<lambda>x. x @ [0]) (xs @ [l])) @ post"] by simp
qed

definition name_table :: "mem list \<Rightarrow> mem" where
  "name_table ns = concat (map (\<lambda>x. x @ [0]) ns)"

text \<open>The operation names are \<open>default\<close> and the strings of the table behind it up to the one with
  \<open>system-swap\<close>, each once and in order.\<close>

theorem sandbox_operation_names:
  assumes "sects sname = Some (addr, off, sz)"
    and "memmem_at m off sz (str ''default'' @ [0]) = Some (Some p)"
    and "m = pre @ name_table ((pre0 @ str ''default'') # xs @ [l]) @ post" "length pre + length pre0 = p"
    and "list_all (\<lambda>x. 0 \<notin> set x \<and> \<not> strstr x (str ''system-swap'')) xs" "0 \<notin> set l" "strstr l (str ''system-swap'')"
    and "length xs < 199"
  shows "doSandboxOperationNames sects m sname = Some (Some (str ''default'' # xs @ [l]))"
proof -
  let ?d = "str ''default''"
  have d: "0 \<notin> set ?d" by (simp add: str_def)
  have m: "m = (pre @ pre0) @ ?d @ 0 # concat (map (\<lambda>x. x @ [0]) (xs @ [l])) @ post"
    using assms(3) by (simp add: name_table_def)
  have "cstr_at m p = Some ?d"
    using cstr_mid [OF d, of "pre @ pre0" p] assms(4) by (simp add: m)
  moreover have "op_names 199 m (p + length ?d + 1) = Some (xs @ [l])"
    using op_names_mid [OF assms(5-7), of "pre @ pre0 @ ?d @ [0]" "p + length ?d + 1" 199 post] assms(4,8) by (simp add: m)
  ultimately show ?thesis using assms(1,2) by (simp add: doSandboxOperationNames_def MAX_SB_OPERATION_NAMES_def)
qed

lemma sandbox_operation_names_witness:
  "doSandboxOperationNames (\<lambda>_. Some (0, 0, 32))
     (name_table ((str ''x'' @ str ''default'') # [str ''file''] @ [str ''system-swap'']) @ [1, 2]) ''__TEXT.__cstring'' =
   Some (Some [str ''default'', str ''file'', str ''system-swap''])"
proof -
  let ?m = "[] @ name_table ((str ''x'' @ str ''default'') # [str ''file''] @ [str ''system-swap'']) @ [1, 2]"
  have "memmem_at ?m 0 32 (str ''default'' @ [0]) = Some (Some 1)"
    by (simp add: memmem_at_def name_table_def str_def)
  moreover have "strstr (str ''system-swap'') (str ''system-swap'')" using strstr_append [of "[]" _ "[]"] by simp
  moreover have "\<not> strstr (str ''file'') (str ''system-swap'')" by (simp add: strstr_def str_def)
  ultimately show ?thesis
    using sandbox_operation_names [of "\<lambda>_. Some (0, 0, 32)" "''__TEXT.__cstring''" 0 0 32 ?m 1 "[]" "str ''x''" "[str ''file'']" "str ''system-swap''" "[1, 2]"]
    by (simp add: str_def)
qed

text \<open>The walk over the prelinked text ends: its position increases in every round.\<close>

interpretation kext_walk: progress_loop "\<lambda>_. True" "\<lambda>(i, prev, k, out). sz - i" "kext_body info m is64 offset sz" "\<lambda>_. True"
  for info m is64 offset sz
  by unfold_locales (auto simp: kext_body_def Let_def split: prod.splits if_splits bind_splits option.splits)

lemma doKexts_terminates:
  "sz < fuel \<Longrightarrow> loop fuel (kext_body info m is64 offset sz) (0, 0, 1, []) =
     loop (sz + 1) (kext_body info m is64 offset sz) (0, 0, 1, [])"
  by (rule kext_walk.fuel_irrelevant) auto

end
