(* ===== verification/Joker_Extract.thy ===== *)
theory Joker_Extract
  imports Prelude
begin

text \<open>
  Kernel extensions written to files by \<open>src/src/joker.c\<close>: \<open>doKextract\<close> cuts an extension out of a kernel cache, up
  to the next Mach-O magic; a split extension is put together from its segments, whose load commands are patched to
  the new file offsets. \<open>symbolicateKextStubs\<close> lists the kernel symbols behind the stubs of an extension.
  The load commands of the copy (\<open>loadCommands\<close>), sections, the closest symbol and the disassembler come from machlib
  and are parameters. Files are smaller than 2 GB and can be written. Notes on standard error are left out.
\<close>

section \<open>Cutting an extension out\<close>

definition MH_MAGIC :: nat where "MH_MAGIC = 0xfeedface"

definition MH_MAGIC_64 :: nat where "MH_MAGIC_64 = 0xfeedfacf"

definition LC_SEGMENT_64 :: nat where "LC_SEGMENT_64 = 0x19"

definition put_le :: "nat \<Rightarrow> mem \<Rightarrow> nat \<Rightarrow> nat \<Rightarrow> mem option" where
  "put_le n m i v = (if i + n \<le> length m then Some (take i m @ le_bytes n v @ drop (i + n) m) else None)"

text \<open>The first of the positions with the same magic; the search does not end before the memory does.\<close>

fun next_magic :: "mem \<Rightarrow> mem \<Rightarrow> nat list \<Rightarrow> nat option" where
  "next_magic m magic [] = None"
| "next_magic m magic (p # ps) = do {
     bytes \<leftarrow> slice m p 4;
     if bytes = magic then Some p else next_magic m magic ps
   }"

text \<open>The sections \<open>q\<close>, \<open>q + 80\<close>, and so on of a segment that moves from \<open>fileoff\<close> to \<open>off\<close>; a section without an
  offset keeps it. Offsets have 32 bits.\<close>

fun patch_sections :: "nat \<Rightarrow> nat \<Rightarrow> mem \<Rightarrow> nat \<Rightarrow> nat \<Rightarrow> mem option" where
  "patch_sections fileoff off copy q 0 = Some copy"
| "patch_sections fileoff off copy q (Suc n) = do {
     sec \<leftarrow> rd_le 4 copy (q + 48);
     copy \<leftarrow> (if sec = 0 then Some copy
              else put_le 4 copy (q + 48) (nat ((int sec - (int fileoff - int off)) mod 2 ^ 32)));
     patch_sections fileoff off copy (q + 80) n
   }"

text \<open>Where a segment's bytes are: at its file offset from the extension, or in \<open>__PRELINK_DATA.__data\<close>
  (address, offset, size) when its address is in there.\<close>

definition segment_source :: "nat \<times> nat \<times> nat \<Rightarrow> nat \<Rightarrow> nat \<Rightarrow> nat \<Rightarrow> nat" where
  "segment_source prelink pos vmaddr fileoff =
     (case prelink of (addr, offset, sz) \<Rightarrow>
        if addr \<le> vmaddr \<and> vmaddr \<le> (addr + sz) mod 2 ^ 64 then offset + (vmaddr - addr) else pos + fileoff)"

text \<open>The copy of the extension, whose load command \<open>p\<close> is patched, and the file so far. The padding fills the page, or
  adds a whole one.\<close>

definition extract_segment :: "nat \<times> nat \<times> nat \<Rightarrow> mem \<Rightarrow> nat \<Rightarrow> nat \<Rightarrow> mem \<times> mem \<Rightarrow> (mem \<times> mem) option" where
  "extract_segment prelink m pos p st =
     (case st of (copy, out) \<Rightarrow> do {
        cmd \<leftarrow> rd_le 4 copy p;
        if cmd \<noteq> LC_SEGMENT_64 then Some (copy, out)
        else do {
          vmaddr \<leftarrow> rd_le 8 copy (p + 24);
          fileoff \<leftarrow> rd_le 8 copy (p + 40);
          filesize \<leftarrow> rd_le 8 copy (p + 48);
          bytes \<leftarrow> slice m (segment_source prelink pos vmaddr fileoff) filesize;
          copy \<leftarrow> put_le 8 copy (p + 40) (length out);
          nsects \<leftarrow> rd_le 4 copy (p + 64);
          copy \<leftarrow> patch_sections fileoff (length out) copy (p + 72) nsects;
          let out = out @ bytes;
          Some (copy, if out = [] then out else out @ replicate (0x1000 - length out mod 0x1000) 0)
        }
      })"

fun extract_segments :: "nat \<times> nat \<times> nat \<Rightarrow> mem \<Rightarrow> nat \<Rightarrow> nat list \<Rightarrow> mem \<times> mem \<Rightarrow> (mem \<times> mem) option" where
  "extract_segments prelink m pos [] st = Some st"
| "extract_segments prelink m pos (p # ps) st = do {
     st \<leftarrow> extract_segment prelink m pos p st;
     extract_segments prelink m pos ps st
   }"

datatype extraction =
    NoMagic nat
  | KextFile mem mem

text \<open>\<open>const_off\<close> and \<open>commands\<close> are the offset of \<open>__DATA_CONST.__const\<close> and the load commands of the copy.\<close>

definition doKextract ::
  "nat \<times> nat \<times> nat \<Rightarrow> bool \<Rightarrow> (mem \<Rightarrow> nat) \<Rightarrow> (mem \<Rightarrow> nat list) \<Rightarrow> mem \<Rightarrow> mem \<Rightarrow> nat \<Rightarrow> mem \<Rightarrow> extraction option" where
  "doKextract prelink later const_off commands dir m pos name = do {
     magic \<leftarrow> rd_le 4 m pos;
     if magic \<noteq> MH_MAGIC \<and> magic \<noteq> MH_MAGIC_64 then Some (NoMagic magic)
     else do {
       next \<leftarrow> next_magic m (le_bytes 4 magic) (map (\<lambda>k. pos + 0x1000 + 0x10 * k) [0..<length m]);
       copy \<leftarrow> slice m pos (next - pos);
       let dumped = take 1023 (dir @ str ''/'' @ name @ str ''.kext'');
       if const_off copy \<noteq> 0 \<or> later then do {
         (patched, out) \<leftarrow> extract_segments prelink m pos (commands copy) (copy, []);
         header \<leftarrow> slice patched 0 4096;
         Some (KextFile dumped (header @ drop 4096 out))
       }
       else Some (KextFile dumped copy)
     }
   }"

section \<open>Stubs\<close>

text \<open>A stub is three instructions: \<open>ADRP\<close>, \<open>LDR\<close> and \<open>BR\<close>. The disassembler gives mnemonic and immediate of a word at an
  address. Sections are (address, offset, size), zeros for one that does not exist.\<close>

type_synonym disassembler = "nat \<Rightarrow> nat \<Rightarrow> string \<times> nat"
type_synonym sections = "string \<Rightarrow> nat \<times> nat \<times> nat"

datatype stub_item =
    Stub nat mem
  | UnknownStub nat

definition stubs_section :: "sections \<Rightarrow> nat \<times> nat \<times> nat" where
  "stubs_section sects =
     (case sects ''__TEXT.__stubs'' of (addr, offset, sz) \<Rightarrow>
        if sz = 0 then sects ''__TEXT_EXEC.__stubs'' else (addr, offset, sz))"

definition got_section :: "sections \<Rightarrow> nat \<times> nat \<times> nat" where
  "got_section sects =
     (case sects ''__DATA.__got'' of (addr, offset, sz) \<Rightarrow>
        if sz = 0 then sects ''__DATA_CONST.__got'' else (addr, offset, sz))"

text \<open>The line of the stub at \<open>pos\<close>, if there is one. The end of the table counts as inside. A split extension is read from
  its file; else the table's entry is found by its address (\<open>resolve\<close>), which has to be mapped. The name of a stub that
  has no symbol is the address of the entry in memory. Both buffers have 1024 bytes.\<close>

definition stub_at ::
  "disassembler \<Rightarrow> (nat \<Rightarrow> mem option) \<Rightarrow> (nat \<Rightarrow> nat option) \<Rightarrow> bool \<Rightarrow> mem \<Rightarrow> nat \<times> nat \<times> nat \<Rightarrow> nat \<times> nat \<times> nat \<Rightarrow> nat
     \<Rightarrow> stub_item option option" where
  "stub_at dis closest resolve split f stubs got pos =
     (case stubs of (addr, offset, _) \<Rightarrow> case got of (got_addr, got_off, got_size) \<Rightarrow> do {
        w1 \<leftarrow> rd_le 4 f (offset + pos);
        w2 \<leftarrow> rd_le 4 f (offset + pos + 4);
        w3 \<leftarrow> rd_le 4 f (offset + pos + 8);
        let (m1, reg) = dis w1 (addr + pos);
        let (m2, off) = dis w2 (addr + pos + 4);
        let (m3, _) = dis w3 (addr + pos + 8);
        let stub = (reg + off) mod 2 ^ 64;
        if m1 \<noteq> ''ADRP'' \<or> m2 \<noteq> ''LDR'' \<or> m3 \<noteq> ''BR'' then Some None
        else if \<not> (got_addr \<le> stub \<and> stub \<le> (got_addr + got_size) mod 2 ^ 64) then Some None
        else do {
          target \<leftarrow> (if split then rd_le 8 f (stub - got_addr + got_off) else resolve stub);
          case closest target of
            None \<Rightarrow> Some (Some (UnknownStub (addr + pos)))
          | Some s \<Rightarrow>
              if length s < 1024 \<and> length (show_hex (addr + pos)) + length s + 7 < 1024 then Some (Some (Stub (addr + pos) s))
              else None
        }
      })"

fun stub_items :: "(nat \<Rightarrow> stub_item option option) \<Rightarrow> nat list \<Rightarrow> stub_item list option" where
  "stub_items at [] = Some []"
| "stub_items at (pos # ps) = do {
     item \<leftarrow> at pos;
     items \<leftarrow> stub_items at ps;
     Some ((case item of None \<Rightarrow> [] | Some i \<Rightarrow> [i]) @ items)
   }"

text \<open>The lines for the companion file; \<open>None\<close> inside: there are no stubs.\<close>

definition symbolicateKextStubs ::
  "disassembler \<Rightarrow> (nat \<Rightarrow> mem option) \<Rightarrow> (nat \<Rightarrow> nat option) \<Rightarrow> sections \<Rightarrow> bool \<Rightarrow> mem \<Rightarrow> stub_item list option option" where
  "symbolicateKextStubs dis closest resolve sects split f =
     (case stubs_section sects of (addr, offset, sz) \<Rightarrow>
        if sz = 0 then Some None
        else map_option Some (stub_items (stub_at dis closest resolve split f (addr, offset, sz) (got_section sects))
          (map (\<lambda>k. 12 * k) [0..<(sz + 11) div 12])))"

section \<open>Unchanged parts of a patched copy\<close>

definition same_upto :: "nat \<Rightarrow> mem \<Rightarrow> mem \<Rightarrow> bool" where
  "same_upto lo c c' \<longleftrightarrow> length c' = length c \<and> take lo c' = take lo c"

definition same_from :: "nat \<Rightarrow> mem \<Rightarrow> mem \<Rightarrow> bool" where
  "same_from lo c c' \<longleftrightarrow> length c' = length c \<and> drop lo c' = drop lo c"

named_theorems patch_simps \<open>what a patch leaves alone\<close>

lemma same_refl [patch_simps]: "same_upto lo c c" "same_from lo c c"
  by (simp_all add: same_upto_def same_from_def)

lemma same_length: "same_upto lo c c' \<Longrightarrow> length c' = length c" "same_from lo c c' \<Longrightarrow> length c' = length c"
  by (simp_all add: same_upto_def same_from_def)

lemma same_upto_trans: "same_upto lo c c' \<Longrightarrow> same_upto lo' c' c'' \<Longrightarrow> k \<le> lo \<Longrightarrow> k \<le> lo' \<Longrightarrow> same_upto k c c''"
  by (auto simp: same_upto_def) (metis min.absorb1 take_take)

lemma same_from_trans: "same_from lo c c' \<Longrightarrow> same_from lo' c' c'' \<Longrightarrow> lo \<le> k \<Longrightarrow> lo' \<le> k \<Longrightarrow> same_from k c c''"
  by (auto simp: same_from_def) (metis drop_drop le_add_diff_inverse2)

lemma same_upto_mono: "same_upto lo c c' \<Longrightarrow> k \<le> lo \<Longrightarrow> same_upto k c c'"
  using same_upto_trans [OF same_refl(1)] by blast

lemma same_from_mono: "same_from lo c c' \<Longrightarrow> lo \<le> k \<Longrightarrow> same_from k c c'"
  using same_from_trans [OF same_refl(2)] by blast

lemma rd_same_upto: "same_upto lo c c' \<Longrightarrow> i + n \<le> lo \<Longrightarrow> rd_le n c' i = rd_le n c i"
proof -
  assume same: "same_upto lo c c'" and "i + n \<le> lo"
  then have "take n (drop i c') = take n (drop i (take lo c'))" "take n (drop i c) = take n (drop i (take lo c))"
    by (simp_all add: drop_take)
  then show ?thesis using same by (simp add: rd_le_def slice_def same_upto_def)
qed

lemma rd_same_from: "same_from lo c c' \<Longrightarrow> lo \<le> i \<Longrightarrow> rd_le n c' i = rd_le n c i"
proof -
  assume same: "same_from lo c c'" and "lo \<le> i"
  then have "drop i c' = drop i c" unfolding same_from_def by (metis drop_drop le_add_diff_inverse2)
  then show ?thesis using same by (simp add: rd_le_def slice_def same_from_def)
qed

lemma put_le_same:
  assumes "i + n \<le> length c"
  shows "\<exists>c'. put_le n c i v = Some c' \<and> same_upto i c c' \<and> same_from (i + n) c c' \<and> (v < 256 ^ n \<longrightarrow> rd_le n c' i = Some v)"
  using assms rd_le_bytes [of v n "take i c" i "drop (i + n) c"] by (simp add: put_le_def same_upto_def same_from_def)

lemma patch_sections_moves:
  "q + 80 * n \<le> length c \<Longrightarrow>
   \<exists>c'. patch_sections fileoff off c q n = Some c' \<and> same_upto q c c' \<and> same_from (q + 80 * n) c c' \<and>
     (\<forall>s < n. \<forall>d. rd_le 4 c (q + 80 * s + 48) = Some d \<and> d \<noteq> 0 \<longrightarrow>
        rd_le 4 c' (q + 80 * s + 48) = Some (nat ((int d - (int fileoff - int off)) mod 2 ^ 32)))"
proof (induction n arbitrary: c q)
  case 0
  then show ?case by (simp add: patch_simps)
next
  case (Suc n)
  obtain d where d: "rd_le 4 c (q + 48) = Some d" using Suc.prems by (simp add: mem_simps)
  let ?v = "nat ((int d - (int fileoff - int off)) mod 2 ^ 32)"
  have "?v < 256 ^ 4" by simp
  then obtain c1 where c1: "(if d = 0 then Some c else put_le 4 c (q + 48) ?v) = Some c1" "same_upto (q + 48) c c1" "same_from (q + 52) c c1"
      "d \<noteq> 0 \<Longrightarrow> rd_le 4 c1 (q + 48) = Some ?v"
    using put_le_same [of "q + 48" 4 c ?v] Suc.prems by (cases "d = 0") (auto simp: patch_simps add.commute)
  obtain c' where c': "patch_sections fileoff off c1 (q + 80) n = Some c'" "same_upto (q + 80) c1 c'" "same_from (q + 80 + 80 * n) c1 c'"
      and moved: "\<And>s d. s < n \<Longrightarrow> rd_le 4 c1 (q + 80 + 80 * s + 48) = Some d \<Longrightarrow> d \<noteq> 0 \<Longrightarrow>
        rd_le 4 c' (q + 80 + 80 * s + 48) = Some (nat ((int d - (int fileoff - int off)) mod 2 ^ 32))"
    using Suc.IH [of "q + 80" c1] Suc.prems same_length(1) [OF c1(2)] by auto
  have "rd_le 4 c' (q + 80 * s + 48) = Some (nat ((int e - (int fileoff - int off)) mod 2 ^ 32))"
    if "s < Suc n" "rd_le 4 c (q + 80 * s + 48) = Some e" "e \<noteq> 0" for s e
  proof (cases s)
    case 0
    then show ?thesis using that d c1(4) rd_same_upto [OF c'(2), of "q + 48" 4] by simp
  next
    case (Suc t)
    then have at: "q + 80 * s + 48 = q + 80 + 80 * t + 48" "t < n" using that by simp_all
    then show ?thesis using that(2,3) moved [OF at(2)] rd_same_from [OF c1(3), of "q + 80 + 80 * t + 48" 4] by simp
  qed
  moreover have "same_upto q c c'" "same_from (q + 80 * Suc n) c c'"
    by (rule same_upto_trans [OF c1(2) c'(2)] same_from_trans [OF c1(3) c'(3)]; simp)+
  ultimately show ?case using d c1(1) c'(1) by auto
qed

section \<open>An extension that is put together\<close>

text \<open>The load commands stand one behind the other, in the first 4096 bytes; a segment is followed by its sections.\<close>

definition is_segment :: "mem \<Rightarrow> nat \<Rightarrow> bool" where
  "is_segment c p \<longleftrightarrow> rd_le 4 c p = Some LC_SEGMENT_64"

definition field :: "nat \<Rightarrow> mem \<Rightarrow> nat \<Rightarrow> nat" where
  "field n c i = the (rd_le n c i)"

definition extent :: "mem \<Rightarrow> nat \<Rightarrow> nat" where
  "extent c p = (if is_segment c p then 72 + 80 * field 4 c (p + 64) else 8)"

fun laid_out :: "mem \<Rightarrow> nat \<Rightarrow> nat list \<Rightarrow> bool" where
  "laid_out c lo [] \<longleftrightarrow> lo \<le> 4096"
| "laid_out c lo (p # ps) \<longleftrightarrow> lo \<le> p \<and> laid_out c (p + extent c p) ps"

definition source_of :: "nat \<times> nat \<times> nat \<Rightarrow> nat \<Rightarrow> mem \<Rightarrow> nat \<Rightarrow> nat" where
  "source_of prelink pos c p = segment_source prelink pos (field 8 c (p + 24)) (field 8 c (p + 40))"

text \<open>What holds of a segment of the copy \<open>c\<close> in the patched copy \<open>c'\<close>: it has a new offset at a page of the file
  \<open>out\<close>, its bytes stand there, and the offset of every section has moved by the same distance.\<close>

definition moved_to :: "nat \<times> nat \<times> nat \<Rightarrow> mem \<Rightarrow> nat \<Rightarrow> mem \<Rightarrow> mem \<Rightarrow> mem \<Rightarrow> nat \<Rightarrow> nat \<Rightarrow> bool" where
  "moved_to prelink m pos c c' out p off \<longleftrightarrow>
     rd_le 8 c' (p + 40) = Some off \<and> 0x1000 dvd off \<and>
     slice out off (field 8 c (p + 48)) = slice m (source_of prelink pos c p) (field 8 c (p + 48)) \<and>
     (\<forall>s < field 4 c (p + 64). \<forall>d. rd_le 4 c (p + 72 + 80 * s + 48) = Some d \<and> d \<noteq> 0 \<longrightarrow>
        rd_le 4 c' (p + 72 + 80 * s + 48) = Some (nat ((int d - (int (field 8 c (p + 40)) - int off)) mod 2 ^ 32)))"

lemma laid_out_le: "laid_out c lo ps \<Longrightarrow> lo \<le> 4096"
  by (induction ps arbitrary: lo) fastforce+

lemma laid_out_from: "laid_out c lo ps \<Longrightarrow> p \<in> set ps \<Longrightarrow> lo \<le> p"
  by (induction ps arbitrary: lo) fastforce+

lemma same_fields:
  assumes "same_from lo c c'" "lo \<le> p"
  shows "field n c' (p + k) = field n c (p + k)" "is_segment c' p = is_segment c p" "extent c' p = extent c p"
    "source_of prelink pos c' p = source_of prelink pos c p"
  using rd_same_from [OF assms(1)] assms(2) by (simp_all add: field_def is_segment_def extent_def source_of_def)

lemma laid_out_same: "same_from lo c c' \<Longrightarrow> laid_out c lo ps \<Longrightarrow> laid_out c' lo ps"
proof (induction ps arbitrary: lo)
  case (Cons p ps)
  then have "same_from (p + extent c p) c c'" using same_from_mono [OF Cons.prems(1)] by simp
  then show ?case using Cons same_fields(3) [OF Cons.prems(1)] by auto
qed simp

text \<open>The segments need their bytes in the cache; the file stays below \<open>2 ^ 64\<close>.\<close>

definition readable :: "nat \<times> nat \<times> nat \<Rightarrow> mem \<Rightarrow> nat \<Rightarrow> mem \<Rightarrow> nat \<Rightarrow> bool" where
  "readable prelink m pos c p \<longleftrightarrow> is_segment c p \<longrightarrow> source_of prelink pos c p + field 8 c (p + 48) \<le> length m"

text \<open>The segments are placed one behind the other, each on the page after the one in which the last ended.\<close>

definition next_page :: "nat \<Rightarrow> nat" where
  "next_page n = (if n = 0 then 0 else 0x1000 * (n div 0x1000 + 1))"

fun placed :: "mem \<Rightarrow> nat \<Rightarrow> nat list \<Rightarrow> (nat \<times> nat) list" where
  "placed c off [] = []"
| "placed c off (p # ps) =
     (if is_segment c p then (p, off) # placed c (next_page (off + field 8 c (p + 48))) ps else placed c off ps)"

lemma placed_in: "(q, off) \<in> set (placed c at ps) \<Longrightarrow> q \<in> set ps \<and> is_segment c q"
  by (induction ps arbitrary: at) (auto split: if_splits)

lemma placed_same:
  "\<forall>q \<in> set ps. is_segment c q = is_segment c' q \<and> field 8 c (q + 48) = field 8 c' (q + 48) \<Longrightarrow> placed c at ps = placed c' at ps"
  by (induction ps arbitrary: at) auto

lemma next_page_dvd: "0x1000 dvd next_page n"
  by (simp add: next_page_def)

lemma page_filled: "n \<noteq> 0 \<Longrightarrow> n + (0x1000 - n mod 0x1000) = next_page n"
proof -
  assume "n \<noteq> 0"
  moreover have shift: "a + (0x1000 - r) = 0x1000 * (q + 1)" if "0x1000 * q + r = a" "r < 0x1000" for a q r :: nat
    using that by auto
  have "n + (0x1000 - n mod 0x1000) = 0x1000 * (n div 0x1000 + 1)" by (rule shift) simp_all
  ultimately show ?thesis by (simp add: next_page_def)
qed

lemma segment_moved:
  assumes "is_segment c p" "p + extent c p \<le> length c" "readable prelink m pos c p" "length out < 256 ^ 8" "0x1000 dvd length out"
  shows "\<exists>c1 new. extract_segment prelink m pos p (c, out) = Some (c1, out @ new) \<and> length (out @ new) = next_page (length out + field 8 c (p + 48)) \<and>
    length new \<le> field 8 c (p + 48) + 0x1000 \<and> same_upto p c c1 \<and> same_from (p + extent c p) c c1 \<and>
    moved_to prelink m pos c c1 (out @ new) p (length out)"
proof -
  let ?n = "field 4 c (p + 64)" and ?size = "field 8 c (p + 48)" and ?src = "source_of prelink pos c p"
  have len: "p + 72 + 80 * ?n \<le> length c" using assms(1,2) by (simp add: extent_def)
  have fields: "rd_le 8 c (p + 24) = Some (field 8 c (p + 24))" "rd_le 8 c (p + 40) = Some (field 8 c (p + 40))"
    "rd_le 8 c (p + 48) = Some ?size" "rd_le 4 c (p + 64) = Some ?n" using len by (simp_all add: field_def mem_simps)
  obtain bytes where bytes: "slice m ?src ?size = Some bytes" "length bytes = ?size"
    using assms(1,3) by (auto simp: readable_def slice_def)
  obtain c0 where c0: "put_le 8 c (p + 40) (length out) = Some c0" "same_upto (p + 40) c c0" "same_from (p + 48) c c0"
      "rd_le 8 c0 (p + 40) = Some (length out)" using put_le_same [of "p + 40" 8 c "length out"] len assms(4) by (auto simp: add.commute [of 48])
  obtain c1 where c1: "patch_sections (field 8 c (p + 40)) (length out) c0 (p + 72) ?n = Some c1" "same_upto (p + 72) c0 c1"
      "same_from (p + 72 + 80 * ?n) c0 c1" and sects: "\<And>s d. s < ?n \<Longrightarrow> rd_le 4 c0 (p + 72 + 80 * s + 48) = Some d \<Longrightarrow> d \<noteq> 0 \<Longrightarrow>
        rd_le 4 c1 (p + 72 + 80 * s + 48) = Some (nat ((int d - (int (field 8 c (p + 40)) - int (length out))) mod 2 ^ 32))"
    using patch_sections_moves [of "p + 72" ?n c0 "field 8 c (p + 40)" "length out"] len same_length(1) [OF c0(2)] by auto
  let ?pad = "if out @ bytes = [] then [] else replicate (0x1000 - length (out @ bytes) mod 0x1000) 0"
  have n: "rd_le 4 c0 (p + 64) = Some ?n" using rd_same_from [OF c0(3), of "p + 64" 4] fields(4) by simp
  have "extract_segment prelink m pos p (c, out) = Some (c1, out @ bytes @ ?pad)"
    using assms(1) fields bytes(1) c0(1) c1(1) n by (simp add: extract_segment_def is_segment_def source_of_def Let_def)
  moreover have "length (out @ bytes @ ?pad) = next_page (length out + ?size)"
    using page_filled [of "length out + length bytes"] bytes(2) by (auto simp: add.assoc next_page_def)
  moreover have "length (bytes @ ?pad) \<le> ?size + 0x1000" using bytes(2) by simp
  moreover have "same_upto p c c1" using same_upto_trans [OF c0(2) c1(2)] by simp
  moreover have "same_from (p + extent c p) c c1"
    using same_from_trans [OF c0(3) c1(3), of "p + extent c p"] assms(1) by (simp add: extent_def)
  moreover have "moved_to prelink m pos c c1 (out @ bytes @ ?pad) p (length out)"
    using bytes c0(4) assms(5) rd_same_upto [OF c1(2), of "p + 40" 8] sects rd_same_from [OF c0(3)]
    by (simp add: moved_to_def slice_def)
  ultimately show ?thesis by blast
qed

lemma moved_to_later:
  assumes "moved_to prelink m pos c c1 out p off" "same_upto (p + extent c p) c1 c'" "is_segment c p"
    "slice m (source_of prelink pos c p) (field 8 c (p + 48)) \<noteq> None"
  shows "moved_to prelink m pos c c' (out @ more) p off"
proof -
  have "rd_le 8 c' (p + 40) = rd_le 8 c1 (p + 40)"
    "\<And>s. s < field 4 c (p + 64) \<Longrightarrow> rd_le 4 c' (p + 72 + 80 * s + 48) = rd_le 4 c1 (p + 72 + 80 * s + 48)"
    using assms(2,3) by (auto intro!: rd_same_upto simp: extent_def)
  moreover have "slice (out @ more) off (field 8 c (p + 48)) = slice out off (field 8 c (p + 48))"
    using assms(1,4) by (auto simp: moved_to_def slice_def split: if_splits)
  ultimately show ?thesis using assms(1) by (simp add: moved_to_def)
qed

lemma moved_to_same:
  assumes "moved_to prelink m pos c1 c' out p off" "same_from lo c c1" "lo \<le> p"
  shows "moved_to prelink m pos c c' out p off"
  using assms(1) same_fields [OF assms(2,3)] rd_same_from [OF assms(2)] assms(3) by (simp add: moved_to_def)

definition room :: "mem \<Rightarrow> nat list \<Rightarrow> nat" where
  "room c ps = sum_list (map (\<lambda>p. if is_segment c p then field 8 c (p + 48) + 0x1000 else 0) ps)"

lemma segments_moved:
  assumes "laid_out c lo ps" "4096 \<le> length c" "\<forall>p \<in> set ps. readable prelink m pos c p"
    and "length out + room c ps < 256 ^ 8" "0x1000 dvd length out"
  shows "\<exists>c' rest. extract_segments prelink m pos ps (c, out) = Some (c', out @ rest) \<and> same_upto lo c c' \<and>
    (\<forall>(p, off) \<in> set (placed c (length out) ps). moved_to prelink m pos c c' (out @ rest) p off)"
  using assms
proof (induction ps arbitrary: c lo out)
  case Nil
  then show ?case by (auto simp: patch_simps)
next
  case (Cons p ps)
  let ?hi = "p + extent c p"
  have lo: "lo \<le> p" "laid_out c ?hi ps" "?hi \<le> length c" using Cons.prems(1,2) laid_out_le [of c ?hi ps] by auto
  have cmd: "rd_le 4 c p \<noteq> None"
    using lo(3) by (cases "is_segment c p") (auto simp: extent_def is_segment_def mem_simps)
  obtain c1 new where step: "extract_segment prelink m pos p (c, out) = Some (c1, out @ new)" "0x1000 dvd length (out @ new)"
      "length (out @ new) = (if is_segment c p then next_page (length out + field 8 c (p + 48)) else length out)"
      "length new \<le> (if is_segment c p then field 8 c (p + 48) + 0x1000 else 0)" "same_upto p c c1" "same_from ?hi c c1"
      "is_segment c p \<Longrightarrow> moved_to prelink m pos c c1 (out @ new) p (length out)"
  proof (cases "is_segment c p")
    case True
    then show ?thesis using segment_moved [OF True lo(3), of prelink m pos out] Cons.prems(3-5) that next_page_dvd by auto
  next
    case False
    then have "extract_segment prelink m pos p (c, out) = Some (c, out @ [])"
      using cmd by (auto simp: extract_segment_def is_segment_def)
    then show ?thesis using that [of c "[]"] False Cons.prems(5) by (auto simp: patch_simps)
  qed
  have same: "field n c1 (q + k) = field n c (q + k)" "is_segment c1 q = is_segment c q"
    "source_of prelink pos c1 q = source_of prelink pos c q" if "q \<in> set ps" for q n k
    using same_fields [OF step(6) laid_out_from [OF lo(2) that]] by auto
  have "map (\<lambda>p. if is_segment c1 p then field 8 c1 (p + 48) + 0x1000 else 0) ps =
      map (\<lambda>p. if is_segment c p then field 8 c (p + 48) + 0x1000 else 0) ps" using same by simp
  then have room: "room c1 ps = room c ps" unfolding room_def by (rule arg_cong)
  have ready: "4096 \<le> length c1" "\<forall>q \<in> set ps. readable prelink m pos c1 q" "length (out @ new) + room c1 ps < 256 ^ 8"
    using Cons.prems(2-4) same_length(1) [OF step(5)] same step(4) room by (auto simp: readable_def room_def split: if_splits)
  obtain c' rest where rest: "extract_segments prelink m pos ps (c1, out @ new) = Some (c', (out @ new) @ rest)" "same_upto ?hi c1 c'"
      "\<And>q off. (q, off) \<in> set (placed c1 (length (out @ new)) ps) \<Longrightarrow> moved_to prelink m pos c1 c' ((out @ new) @ rest) q off"
    using Cons.IH [OF laid_out_same [OF step(6) lo(2)] ready step(2)] by blast
  have later: "moved_to prelink m pos c c' (out @ new @ rest) q off" if "(q, off) \<in> set (placed c (length (out @ new)) ps)" for q off
  proof -
    have "moved_to prelink m pos c1 c' ((out @ new) @ rest) q off" using rest(3) that placed_same [of ps c1 c] same by simp
    from moved_to_same [OF this step(6) laid_out_from [OF lo(2)]] that placed_in show ?thesis by auto
  qed
  have first: "moved_to prelink m pos c c' (out @ new @ rest) p (length out)" if "is_segment c p"
    using moved_to_later [OF step(7) [OF that] rest(2) that, of rest] Cons.prems(3) that by (auto simp: readable_def slice_def)
  have "moved_to prelink m pos c c' (out @ new @ rest) q off" if "(q, off) \<in> set (placed c (length out) (p # ps))" for q off
    using that first later step(3) by (auto split: if_splits)
  moreover have "same_upto lo c c'" using same_upto_trans [OF step(5) rest(2)] lo(1) by simp
  ultimately show ?case using step(1) rest(1) by (intro exI [of _ c'] exI [of _ "new @ rest"]) auto
qed

lemma laid_out_within: "laid_out c lo ps \<Longrightarrow> p \<in> set ps \<Longrightarrow> p + extent c p \<le> 4096"
  by (induction ps arbitrary: lo) (auto dest: laid_out_le)

lemma next_magic_first:
  "slice m (at k) 4 = Some magic \<Longrightarrow> \<forall>i. j \<le> i \<and> i < k \<longrightarrow> (\<exists>b. slice m (at i) 4 = Some b \<and> b \<noteq> magic) \<Longrightarrow> j \<le> k \<Longrightarrow> k < n \<Longrightarrow>
    next_magic m magic (map at [j..<n]) = Some (at k)"
proof (induction "k - j" arbitrary: j)
  case 0
  then show ?case by (simp add: upt_conv_Cons)
next
  case (Suc d)
  then obtain b where "slice m (at j) 4 = Some b" "b \<noteq> magic" by auto
  then show ?case using Suc.hyps(1) [of "Suc j"] Suc.hyps(2) Suc.prems by (simp add: upt_conv_Cons)
qed

text \<open>The extension at \<open>pos\<close> reaches up to the first further magic, \<open>len\<close> bytes on.\<close>

definition kext_at :: "mem \<Rightarrow> nat \<Rightarrow> nat \<Rightarrow> bool" where
  "kext_at m pos len \<longleftrightarrow> 0x1000 \<le> len \<and> 0x10 dvd len \<and> pos + len + 4 \<le> length m \<and>
     take 4 (drop pos m) \<in> {le_bytes 4 MH_MAGIC, le_bytes 4 MH_MAGIC_64} \<and>
     take 4 (drop (pos + len) m) = take 4 (drop pos m) \<and>
     (\<forall>i. 0x1000 + 0x10 * i < len \<longrightarrow> take 4 (drop (pos + 0x1000 + 0x10 * i) m) \<noteq> take 4 (drop pos m))"

lemma kext_cut:
  assumes "kext_at m pos len"
  shows "\<exists>magic. rd_le 4 m pos = Some magic \<and> magic \<in> {MH_MAGIC, MH_MAGIC_64} \<and>
    next_magic m (le_bytes 4 magic) (map (\<lambda>k. pos + 0x1000 + 0x10 * k) [0..<length m]) = Some (pos + len) \<and>
    slice m pos len = Some (take len (drop pos m))"
proof -
  define k where "k = (len - 0x1000) div 0x10"
  have k: "len = 0x1000 + 0x10 * k" using assms by (auto simp: kext_at_def k_def)
  let ?magic = "le_val (take 4 (drop pos m))"
  have bytes: "le_bytes 4 ?magic = take 4 (drop pos m)" using assms by (intro le_bytes_le_val) (auto simp: kext_at_def)
  have "?magic \<in> {MH_MAGIC, MH_MAGIC_64}" using assms by (auto simp: kext_at_def le_val_le_bytes MH_MAGIC_def MH_MAGIC_64_def)
  moreover have "next_magic m (le_bytes 4 ?magic) (map (\<lambda>k. pos + 0x1000 + 0x10 * k) [0..<length m]) = Some (pos + 0x1000 + 0x10 * k)"
    by (rule next_magic_first) (use assms in \<open>auto simp: kext_at_def slice_def bytes k add.assoc\<close>)
  ultimately show ?thesis using assms by (auto simp: kext_at_def mem_simps k)
qed

text \<open>A segment in the file: as \<open>moved_to\<close>, where the first page holds the patched load commands.\<close>

definition in_place :: "nat \<times> nat \<times> nat \<Rightarrow> mem \<Rightarrow> nat \<Rightarrow> mem \<Rightarrow> mem \<Rightarrow> nat \<Rightarrow> nat \<Rightarrow> bool" where
  "in_place prelink m pos c kext p off \<longleftrightarrow>
     rd_le 8 kext (p + 40) = Some off \<and> 0x1000 dvd off \<and>
     (off \<noteq> 0 \<longrightarrow> slice kext off (field 8 c (p + 48)) = slice m (source_of prelink pos c p) (field 8 c (p + 48))) \<and>
     (\<forall>s < field 4 c (p + 64). \<forall>d. rd_le 4 c (p + 72 + 80 * s + 48) = Some d \<and> d \<noteq> 0 \<longrightarrow>
        rd_le 4 kext (p + 72 + 80 * s + 48) = Some (nat ((int d - (int (field 8 c (p + 40)) - int off)) mod 2 ^ 32)))"

lemma rd_header: "i + n \<le> k \<Longrightarrow> k \<le> length c \<Longrightarrow> rd_le n (take k c @ rest) i = rd_le n c i"
  by (simp add: rd_le_def slice_def drop_take)

lemma moved_in_place:
  assumes "moved_to prelink m pos c c' out p off" "is_segment c p" "readable prelink m pos c p" "p + extent c p \<le> 4096" "4096 \<le> length c'"
  shows "in_place prelink m pos c (take 4096 c' @ drop 4096 out) p off"
proof -
  have "slice (take 4096 c' @ drop 4096 out) off (field 8 c (p + 48)) = slice out off (field 8 c (p + 48))" if "off \<noteq> 0"
  proof -
    have "4096 \<le> off" using that assms(1) by (auto simp: moved_to_def dest: dvd_imp_le)
    moreover have "off + field 8 c (p + 48) \<le> length out"
      using assms(1-3) by (auto simp: moved_to_def readable_def slice_def split: if_splits)
    ultimately show ?thesis using assms(5) by (auto simp: slice_def)
  qed
  then show ?thesis using assms by (auto simp: moved_to_def in_place_def rd_header extent_def)
qed

text \<open>C31: A split kernel extension is written to the file of its name so that the file is consistent: the segments
  are placed one behind the other on pages of their own, where their bytes from the cache stand (the first page holds the
  patched load commands), their load commands say so, and each section keeps its distance to the start of its segment.\<close>

theorem kext_split_consistent:
  assumes "kext_at m pos len" "c = take len (drop pos m)" "const_off c \<noteq> 0 \<or> later"
    and "laid_out c 0 (commands c)" "\<forall>p \<in> set (commands c). readable prelink m pos c p" "room c (commands c) < 2 ^ 31"
  shows "\<exists>kext. doKextract prelink later const_off commands dir m pos name =
      Some (KextFile (take 1023 (dir @ str ''/'' @ name @ str ''.kext'')) kext) \<and>
    (\<forall>(p, off) \<in> set (placed c 0 (commands c)). in_place prelink m pos c kext p off)"
proof -
  obtain magic where magic: "rd_le 4 m pos = Some magic" "magic \<in> {MH_MAGIC, MH_MAGIC_64}" "slice m pos len = Some c"
      "next_magic m (le_bytes 4 magic) (map (\<lambda>k. pos + 0x1000 + 0x10 * k) [0..<length m]) = Some (pos + len)"
    using kext_cut [OF assms(1)] assms(2) by blast
  have len: "4096 \<le> length c" using assms(1,2) by (auto simp: kext_at_def)
  obtain c' out where out: "extract_segments prelink m pos (commands c) (c, []) = Some (c', out)" "same_upto 0 c c'"
      "\<And>p off. (p, off) \<in> set (placed c 0 (commands c)) \<Longrightarrow> moved_to prelink m pos c c' out p off"
    using segments_moved [OF assms(4) len assms(5), of "[]"] assms(6) by fastforce
  have len': "4096 \<le> length c'" using len same_length(1) [OF out(2)] by simp
  have "in_place prelink m pos c (take 4096 c' @ drop 4096 out) p off" if "(p, off) \<in> set (placed c 0 (commands c))" for p off
    using moved_in_place [OF out(3) [OF that]] placed_in [OF that] laid_out_within [OF assms(4)] len' assms(5) by blast
  moreover have "doKextract prelink later const_off commands dir m pos name =
      Some (KextFile (take 1023 (dir @ str ''/'' @ name @ str ''.kext'')) (take 4096 c' @ drop 4096 out))"
    using magic assms(3) out(1) len' by (auto simp: doKextract_def slice_def [of c'])
  ultimately show ?thesis by blast
qed

text \<open>A cache with an extension of two segments, of which the second, with one section, stands elsewhere.\<close>

definition small_commands :: mem where
  "small_commands = le_bytes 4 MH_MAGIC_64 @ replicate 28 0 @
     (le_bytes 4 0x19 @ replicate 20 0 @ le_bytes 8 1 @ replicate 16 0 @ le_bytes 8 8 @ replicate 16 0) @
     (le_bytes 4 0x19 @ replicate 20 0 @ le_bytes 8 1 @ replicate 8 0 @ le_bytes 8 0x1004 @ le_bytes 8 4 @ replicate 8 0 @ le_bytes 4 1 @ replicate 4 0) @
     (replicate 48 0 @ le_bytes 4 0x1006 @ replicate 28 0)"

definition small_kext :: mem where
  "small_kext = small_commands @ replicate 3840 0 @ le_bytes 4 MH_MAGIC_64 @ [1, 2, 3, 4]"

lemma small_field: "i + n \<le> 256 \<Longrightarrow> rd_le n (take 0x1000 small_kext) i = rd_le n small_commands i"
proof -
  have "length small_commands = 256" by (simp add: small_commands_def)
  then show "i + n \<le> 256 \<Longrightarrow> ?thesis" by (simp add: small_kext_def rd_le_def slice_def)
qed

lemma le_val_zeros: "le_val (replicate n 0) = 0"
  by (induction n) auto

lemma small_commands_read:
  "rd_le 4 small_commands 32 = Some 0x19" "rd_le 4 small_commands 104 = Some 0x19"
  "rd_le 8 small_commands 56 = Some 1" "rd_le 8 small_commands 128 = Some 1"
  "rd_le 8 small_commands 72 = Some 0" "rd_le 8 small_commands 144 = Some 0x1004"
  "rd_le 8 small_commands 80 = Some 8" "rd_le 8 small_commands 152 = Some 4"
  "rd_le 4 small_commands 96 = Some 0" "rd_le 4 small_commands 168 = Some 1" "rd_le 4 small_commands 224 = Some 0x1006"
  by (simp_all add: small_commands_def rd_le_def slice_def le_val_le_bytes le_val_zeros)

lemma small_kext_at: "kext_at small_kext 0 0x1000"
proof -
  have "length small_commands = 256" by (simp add: small_commands_def)
  then show ?thesis
    by (simp add: kext_at_def small_kext_def) (simp add: small_commands_def MH_MAGIC_def MH_MAGIC_64_def)
qed

lemma small_layout:
  "is_segment (take 0x1000 small_kext) 32" "is_segment (take 0x1000 small_kext) 104"
  "extent (take 0x1000 small_kext) 32 = 72" "extent (take 0x1000 small_kext) 104 = 152"
  "source_of (0, 0, 0) 0 (take 0x1000 small_kext) 32 = 0" "source_of (0, 0, 0) 0 (take 0x1000 small_kext) 104 = 0x1004"
  "field 8 (take 0x1000 small_kext) 80 = 8" "field 8 (take 0x1000 small_kext) 152 = 4"
  "field 4 (take 0x1000 small_kext) 96 = 0" "field 4 (take 0x1000 small_kext) 168 = 1" "field 8 (take 0x1000 small_kext) 144 = 0x1004"
  by (simp_all add: is_segment_def extent_def source_of_def field_def segment_source_def small_field small_commands_read LC_SEGMENT_64_def)

lemma kext_split_consistent_witness:
  "\<exists>kext. doKextract (0, 0, 0) False (\<lambda>_. 1) (\<lambda>_. [32, 104]) (str ''/tmp'') small_kext 0 (str ''a'') =
      Some (KextFile (str ''/tmp/a.kext'') kext) \<and>
    rd_le 8 kext 144 = Some 0x1000 \<and> slice kext 0x1000 4 = Some [1, 2, 3, 4] \<and> rd_le 4 kext 224 = Some 0x1002"
proof -
  let ?c = "take 0x1000 small_kext"
  have len: "length small_kext = 4104" by (simp add: small_kext_def small_commands_def)
  have "placed ?c 0 [32, 104] = [(32, 0), (104, 0x1000)]" by (simp add: small_layout next_page_def)
  moreover have "laid_out ?c 0 [32, 104]" "room ?c [32, 104] < 2 ^ 31" by (simp_all add: small_layout room_def)
  moreover have "\<forall>p \<in> set [32, 104]. readable (0, 0, 0) small_kext 0 ?c p" by (simp add: readable_def small_layout len)
  moreover have "slice small_kext 0x1004 4 = Some [1, 2, 3, 4]" by (simp add: small_kext_def small_commands_def slice_def)
  ultimately show ?thesis
    using kext_split_consistent [OF small_kext_at, of ?c "\<lambda>_. 1" False "\<lambda>_. [32, 104]" "(0, 0, 0)" "str ''/tmp''" "str ''a''"]
    by (auto simp: in_place_def small_layout small_field small_commands_read str_def)
qed

end
