(* ===== verification/Joker_Plist.thy ===== *)
theory Joker_Plist
  imports Joker_Extract
begin

text \<open>
  The first method of \<open>doKexts\<close> in \<open>src/src/joker.c\<close>, which reads the names, identifiers and load addresses of the
  kernel extensions out of the property list of the kernel cache, with \<open>strstr\<close>. With a name, the extensions that match
  are extracted.
\<close>

section \<open>Searching the property list\<close>

text \<open>\<open>strstr\<close> and \<open>strnstr\<close> at an offset of the file: the offset of the hit.\<close>

definition strstr_at :: "mem \<Rightarrow> nat \<Rightarrow> string \<Rightarrow> nat option option" where
  "strstr_at m i needle = do { s \<leftarrow> cstr_at m i; Some (map_option (\<lambda>k. i + k) (memmem s (str needle))) }"

definition strnstr_at :: "mem \<Rightarrow> nat \<Rightarrow> string \<Rightarrow> nat \<Rightarrow> nat option option" where
  "strnstr_at m i needle n = do { s \<leftarrow> cstr_at m i; Some (map_option (\<lambda>k. i + k) (memmem (take n s) (str needle))) }"

text \<open>The text between the key at \<open>i\<close> and the end of its string at \<open>temp\<close>: behind the attributes if there is an \<open>ID\<close>, else
  \<open>skip\<close> bytes on. It goes into a buffer of 2560 bytes; a negative length overflows it.\<close>

definition value_text :: "mem \<Rightarrow> nat \<Rightarrow> nat \<Rightarrow> nat \<Rightarrow> mem option" where
  "value_text m i skip temp = do {
     attributes \<leftarrow> strnstr_at m i ''ID=\"'' (temp - i);
     start \<leftarrow> (case attributes of
         None \<Rightarrow> Some (i + skip)
       | Some a \<Rightarrow> do { close \<leftarrow> strstr_at m (a + 5) ''\">''; map_option (\<lambda>c. c + 2) close });
     if start \<le> temp \<and> temp - start < 2560 then slice m start (temp - start) else None
   }"

section \<open>The first method\<close>

datatype plist_item =
    PlistKext mem mem
  | PlistId mem
  | FoundKext mem nat int
  | Extracted extraction
  | BadAddress

datatype kext_exit = Listed | ExitKexts nat

record plist_state =
  kextNamePtr :: "nat option"
  kexts :: nat
  later_now :: bool
  shown :: "plist_item list"

text \<open>\<open>sscanf\<close> with \<open>%llx\<close> of a text that starts with \<open>0x\<close>; without a digit behind it nothing is stored.\<close>

definition is_hex :: "byte \<Rightarrow> bool" where
  "is_hex b \<longleftrightarrow> b \<in> set (str ''0123456789abcdefABCDEF'')"

definition hex_value :: "byte \<Rightarrow> nat" where
  "hex_value b = (if b < 0x3A then unat b - 48 else if b < 0x61 then unat b - 55 else unat b - 87)"

definition scan_llx :: "mem \<Rightarrow> nat option" where
  "scan_llx s =
     (let ds = takeWhile is_hex (drop 2 s) in
      if ds = [] then None else Some (foldl (\<lambda>a d. 16 * a + hex_value d) 0 ds))"

text \<open>The extraction of an extension (\<open>later\<close>, position, name), which also returns what the symbolication of its stubs
  sets \<open>xnu3757_and_later\<close> to.\<close>

type_synonym extractor = "bool \<Rightarrow> nat \<Rightarrow> mem \<Rightarrow> (extraction \<times> bool) option"

definition plist_extract :: "extractor \<Rightarrow> int \<Rightarrow> mem \<Rightarrow> mem \<Rightarrow> mem \<Rightarrow> bool \<Rightarrow> (plist_item list \<times> bool) option" where
  "plist_extract extract correction loadAddr name this later =
     (if this = str ''all'' \<or> strstr this name then
        (case scan_llx loadAddr of
           None \<Rightarrow> Some ([BadAddress], later)
         | Some addr \<Rightarrow>
             if int addr < correction then None
             else do {
               (e, later) \<leftarrow> extract later (nat (int addr - correction)) name;
               Some ([FoundKext name addr (int addr - correction), Extracted e], later)
             })
      else Some ([], later))"

text \<open>The identifier behind \<open>temp\<close>. Only 256 bytes of the buffer are cleared: a longer identifier keeps the end of
  \<open>name\<close>, if that was longer.\<close>

definition plist_identifier ::
  "extractor \<Rightarrow> int \<Rightarrow> mem \<Rightarrow> mem option \<Rightarrow> nat \<Rightarrow> mem \<Rightarrow> mem \<Rightarrow> bool \<Rightarrow> (nat \<times> plist_item list \<times> bool) option" where
  "plist_identifier extract correction m this temp loadAddr name later = do {
     key \<leftarrow> strstr_at m temp ''CFBundleIdentifier'';
     case key of
       None \<Rightarrow> Some (temp, [], later)
     | Some i \<Rightarrow> do {
         close \<leftarrow> strstr_at m i ''</string>'';
         temp \<leftarrow> close;
         ident \<leftarrow> value_text m i 32 temp;
         let ident = ident @ (if length ident < 256 then [] else drop (length ident) name);
         case this of
           None \<Rightarrow> Some (temp, [PlistId ident], later)
         | Some this \<Rightarrow> do {
             (items, later) \<leftarrow> plist_extract extract correction loadAddr ident this later;
             Some (temp, items, later)
           }
       }
   }"

definition plist_body ::
  "extractor \<Rightarrow> int \<Rightarrow> mem \<Rightarrow> bool \<Rightarrow> mem option \<Rightarrow> plist_state \<Rightarrow> (plist_state + kext_exit \<times> plist_state) option" where
  "plist_body extract correction m is64 this st =
     (case kextNamePtr st of
        None \<Rightarrow> Some (Inr (Listed, st))
      | Some i \<Rightarrow> do {
          close \<leftarrow> strstr_at m i ''</string>'';
          prelinkAddr \<leftarrow> strstr_at m i ''_PrelinkExecutableLoadAddr'';
          case prelinkAddr of
            None \<Rightarrow> Some (Inr (Listed, st))
          | Some p \<Rightarrow> do {
              number \<leftarrow> strstr_at m p ''0x'';
              loadAddrPtr \<leftarrow> number;
              temp \<leftarrow> close;
              name \<leftarrow> value_text m i 26 temp;
              loadAddr \<leftarrow> cstrn_at m loadAddrPtr (if is64 then 18 else 10);
              let line = (if this = None then [PlistKext loadAddr name] else []);
              (temp, items, l) \<leftarrow> plist_identifier extract correction m this (temp + 10) loadAddr name (later_now st);
              if BadAddress \<in> set items then Some (Inr (ExitKexts 3, st\<lparr>shown := shown st @ line @ items\<rparr>))
              else do {
                next \<leftarrow> strstr_at m temp ''CFBundleName</key>'';
                Some (Inl \<lparr>kextNamePtr = next, kexts = kexts st + 1, later_now = l, shown = shown st @ line @ items\<rparr>)
              }
            }
        })"

definition plist_kexts ::
  "extractor \<Rightarrow> int \<Rightarrow> mem \<Rightarrow> bool \<Rightarrow> mem option \<Rightarrow> nat \<Rightarrow> bool \<Rightarrow> (kext_exit \<times> plist_state) option" where
  "plist_kexts extract correction m is64 this offset l = do {
     first \<leftarrow> strstr_at m offset ''CFBundleName</key>'';
     loop (length m + 1) (plist_body extract correction m is64 this) \<lparr>kextNamePtr = first, kexts = 0, later_now = l, shown = []\<rparr>
   }"

section \<open>What is listed\<close>

text \<open>A text that \<open>n\<close> follows has no earlier \<open>n\<close>.\<close>

definition clear :: "mem \<Rightarrow> string \<Rightarrow> bool" where
  "clear a n \<longleftrightarrow> memmem (a @ butlast (str n)) (str n) = None"

lemma memmem_clear:
  assumes "clear a n" "n \<noteq> []"
  shows "memmem (a @ str n @ b) (str n) = Some (length a)"
proof -
  let ?n = "str n" and ?h = "a @ str n @ b"
  have n: "?n \<noteq> []" "length ?n = length (butlast ?n) + 1" using assms(2) by (simp_all add: str_def)
  have at: "take (length ?n) (drop (length a) ?h) = ?n" by simp
  have early: "take (length ?n) (drop j ?h) \<noteq> ?n" if "j < length a" for j
  proof -
    have "j + length ?n \<le> length (a @ butlast ?n)" using that n(2) by simp
    moreover have "?h = (a @ butlast ?n) @ last ?n # b" using n(1) by (cases ?n rule: rev_cases) auto
    moreover have "take k (drop j (x @ y)) = take k (drop j x)" if "j + k \<le> length x" for k x and y :: mem using that by simp
    ultimately have "take (length ?n) (drop j ?h) = take (length ?n) (drop j (a @ butlast ?n))" by metis
    then show ?thesis using memmem_None [of "a @ butlast ?n" ?n j] assms(1) by (simp add: clear_def)
  qed
  obtain k where k: "memmem ?h ?n = Some k" using memmem_None [of ?h ?n "length a"] at by fastforce
  then have "k \<le> length a" using memmem_Some [OF k] at by (meson linorder_not_le)
  moreover have "\<not> k < length a" using early memmem_Some [OF k] by blast
  ultimately show ?thesis using k by simp
qed

lemma clear_none: "clear a n \<Longrightarrow> memmem a (str n) = None"
proof (rule ccontr)
  assume "clear a n" "memmem a (str n) \<noteq> None"
  then have "strstr (a @ butlast (str n)) (str n)" unfolding strstr_iff strstr_def [symmetric] by (metis append.assoc)
  then show False using \<open>clear a n\<close> by (simp add: strstr_def clear_def)
qed

lemma cstr_of_split: "cstr_of xs = Some (a @ b) \<Longrightarrow> cstr_of (drop (length a) xs) = Some b \<and> length a \<le> length xs \<and> take (length a) xs = a"
proof (induction a arbitrary: xs)
  case (Cons x a)
  then show ?case by (cases xs) (auto split: if_splits)
qed simp

lemma cstr_skip: "cstr_at m i = Some (a @ b) \<Longrightarrow> cstr_at m (i + length a) = Some b"
  using cstr_of_split [of "drop i m" a b] by (simp add: cstr_at_def add.commute)

lemma cstr_slice: "cstr_at m i = Some (a @ b) \<Longrightarrow> i \<le> length m \<Longrightarrow> slice m i (length a) = Some a"
  using cstr_of_split [of "drop i m" a b] by (auto simp: cstr_at_def slice_def)

lemma cstr_inside: "cstr_at m i = Some s \<Longrightarrow> i + length s < length m"
proof -
  have "cstr_of xs = Some s \<Longrightarrow> length s < length xs" for xs
    by (induction xs arbitrary: s) (auto split: if_splits)
  then show "cstr_at m i = Some s \<Longrightarrow> ?thesis" by (fastforce simp: cstr_at_def)
qed

lemma strstr_here: "cstr_at m i = Some (a @ str n @ b) \<Longrightarrow> clear a n \<Longrightarrow> n \<noteq> [] \<Longrightarrow> strstr_at m i n = Some (Some (i + length a))"
  by (simp add: strstr_at_def memmem_clear)

lemma strstr_absent: "cstr_at m i = Some a \<Longrightarrow> clear a n \<Longrightarrow> strstr_at m i n = Some None"
  by (simp add: strstr_at_def clear_none)

text \<open>The value of a key, in a string with or without the attribute \<open>ID\<close>.\<close>

fun open_tag :: "mem option \<Rightarrow> mem" where
  "open_tag None = str ''<string>''"
| "open_tag (Some n) = str ''<string ID=\"'' @ n @ str ''\">''"

fun good_tag :: "mem \<Rightarrow> mem option \<Rightarrow> mem \<Rightarrow> bool" where
  "good_tag key None value \<longleftrightarrow> clear (key @ str ''<string>'' @ value) ''ID=\"''"
| "good_tag key (Some n) value \<longleftrightarrow> n \<noteq> [] \<and> clear (key @ str ''<string '') ''ID=\"'' \<and> clear (tl n) ''\">''"

lemma value_read:
  assumes s: "cstr_at m i = Some (key @ open_tag t @ value @ b)" and "good_tag key t value" "length value < 2560"
  shows "value_text m i (length key + 8) (i + length (key @ open_tag t @ value)) = Some value"
proof -
  have at: "slice m (i + length (key @ open_tag t)) (length value) = Some value"
    using cstr_slice [OF cstr_skip [of m i "key @ open_tag t" "value @ b"]] cstr_inside [OF s] s by simp
  have taken: "take (length (key @ open_tag t @ value)) (key @ open_tag t @ value @ b) = key @ open_tag t @ value" by simp
  show ?thesis
  proof (cases t)
    case None
    then have "memmem (key @ open_tag t @ value) (str ''ID=\"'') = None" by (intro clear_none) (use assms(2) in simp)
    moreover have "length (open_tag t) = 8" by (simp add: None str_def)
    moreover have "strnstr_at m i ''ID=\"'' (length (key @ open_tag t @ value)) = Some None"
      unfolding strnstr_at_def s using taken calculation(1) by simp
    ultimately show ?thesis using at assms(3) by (simp add: value_text_def ac_simps)
  next
    case (Some n)
    let ?a = "i + length key + 8"
    obtain d ds where n: "n = d # ds" using assms(2) Some by (cases n) auto
    have tag: "open_tag t = str ''<string '' @ str ''ID=\"'' @ n @ str ''\">''" using Some by (simp add: str_def)
    have "memmem ((key @ str ''<string '') @ str ''ID=\"'' @ n @ str ''\">'' @ value) (str ''ID=\"'') = Some (length (key @ str ''<string ''))"
      by (rule memmem_clear) (use assms(2) Some in simp_all)
    then have "strnstr_at m i ''ID=\"'' (length (key @ open_tag t @ value)) = Some (Some ?a)"
      using taken by (simp add: strnstr_at_def s tag) (simp add: str_def)
    moreover have skip: "i + length (key @ str ''<string ID=\"'' @ [d]) = ?a + 5" by (simp add: str_def)
    have "key @ open_tag t @ value @ b = (key @ str ''<string ID=\"'' @ [d]) @ ds @ str ''\">'' @ value @ b"
      by (simp add: Some n)
    then have "cstr_at m (?a + 5) = Some (ds @ str ''\">'' @ value @ b)"
      using cstr_skip [of m i "key @ str ''<string ID=\"'' @ [d]" "ds @ str ''\">'' @ value @ b"] s skip by simp
    then have "strstr_at m (?a + 5) ''\">'' = Some (Some (?a + 5 + length ds))" by (rule strstr_here) (use assms(2) Some n in simp_all)
    moreover have "length (open_tag t) = length ds + 15" by (simp add: Some n str_def)
    ultimately show ?thesis using at assms(3) by (simp add: value_text_def ac_simps)
  qed
qed

text \<open>An extension's part of the property list: its name, its load address, its identifier, and what stands between.\<close>

record plist_entry =
  name_tag :: "mem option"
  bundle_name :: mem
  gap_address :: mem
  gap_number :: mem
  digits :: mem
  gap_identifier :: mem
  id_tag :: "mem option"
  bundle_id :: mem
  gap_next :: mem

definition name_part :: "plist_entry \<Rightarrow> mem" where
  "name_part e = str ''CFBundleName</key>'' @ open_tag (name_tag e) @ bundle_name e"

definition address_part :: "plist_entry \<Rightarrow> mem" where
  "address_part e = str ''</string>'' @ gap_address e @ str ''_PrelinkExecutableLoadAddr'' @ gap_number e @ str ''0x'' @ digits e @ gap_identifier e"

definition id_part :: "plist_entry \<Rightarrow> mem" where
  "id_part e = str ''CFBundleIdentifier</key>'' @ open_tag (id_tag e) @ bundle_id e"

definition next_part :: "plist_entry \<Rightarrow> mem" where
  "next_part e = str ''</string>'' @ gap_next e"

definition entry_text :: "plist_entry \<Rightarrow> mem" where
  "entry_text e = name_part e @ address_part e @ id_part e @ next_part e"

text \<open>Each text that is searched for stands nowhere else on the way to where it is meant.\<close>

definition good_entry :: "bool \<Rightarrow> plist_entry \<Rightarrow> bool" where
  "good_entry is64 e \<longleftrightarrow>
     length (digits e) = (if is64 then 16 else 8) \<and> length (bundle_name e) < 2560 \<and> length (bundle_id e) < 256 \<and>
     good_tag (str ''CFBundleName</key>'') (name_tag e) (bundle_name e) \<and>
     good_tag (str ''CFBundleIdentifier</key>'') (id_tag e) (bundle_id e) \<and>
     clear (name_part e) ''</string>'' \<and> clear (id_part e) ''</string>'' \<and>
     clear (name_part e @ str ''</string>'' @ gap_address e) ''_PrelinkExecutableLoadAddr'' \<and>
     clear (str ''_PrelinkExecutableLoadAddr'' @ gap_number e) ''0x'' \<and>
     clear (drop 10 (address_part e)) ''CFBundleIdentifier'' \<and> clear (next_part e) ''CFBundleName</key>''"

lemma cstrn_of_cstr: "cstr_of xs = Some s \<Longrightarrow> cstrn_of n xs = Some (take n s)"
proof (induction n xs arbitrary: s rule: cstrn_of.induct)
  case (3 n b bs)
  then show ?case by (auto split: if_splits)
qed auto

lemma cstrn_here: "cstr_at m i = Some s \<Longrightarrow> cstrn_at m i n = Some (take n s)"
  by (simp add: cstr_at_def cstrn_at_def cstrn_of_cstr)

definition entry_items :: "plist_entry \<Rightarrow> plist_item list" where
  "entry_items e = [PlistKext (str ''0x'' @ digits e) (bundle_name e), PlistId (bundle_id e)]"

lemma name_found:
  assumes "good_entry is64 e" "cstr_at m i = Some (entry_text e @ rest)"
  shows "strstr_at m i ''</string>'' = Some (Some (i + length (name_part e)))"
    "value_text m i 26 (i + length (name_part e)) = Some (bundle_name e)"
proof -
  show "strstr_at m i ''</string>'' = Some (Some (i + length (name_part e)))"
    by (rule strstr_here [of _ _ _ _ "gap_address e @ str ''_PrelinkExecutableLoadAddr'' @ gap_number e @ str ''0x'' @ digits e @
        gap_identifier e @ id_part e @ next_part e @ rest"])
      (use assms in \<open>simp_all add: entry_text_def address_part_def good_entry_def\<close>)
  show "value_text m i 26 (i + length (name_part e)) = Some (bundle_name e)"
    using value_read [of m i "str ''CFBundleName</key>''" "name_tag e" "bundle_name e" "address_part e @ id_part e @ next_part e @ rest"] assms
    by (simp add: entry_text_def name_part_def good_entry_def str_def)
qed

lemma address_found:
  assumes "good_entry is64 e" "cstr_at m i = Some (entry_text e @ rest)"
  shows "\<exists>p q. strstr_at m i ''_PrelinkExecutableLoadAddr'' = Some (Some p) \<and> strstr_at m p ''0x'' = Some (Some q) \<and>
    cstrn_at m q (if is64 then 18 else 10) = Some (str ''0x'' @ digits e)"
proof -
  let ?a = "name_part e @ str ''</string>'' @ gap_address e" and ?n = "str ''_PrelinkExecutableLoadAddr'' @ gap_number e"
  let ?b = "digits e @ gap_identifier e @ id_part e @ next_part e @ rest"
  have whole: "cstr_at m i = Some (?a @ ?n @ str ''0x'' @ ?b)" using assms(2) by (simp add: entry_text_def address_part_def)
  then have p: "strstr_at m i ''_PrelinkExecutableLoadAddr'' = Some (Some (i + length ?a))"
    by (intro strstr_here [of _ _ _ _ "gap_number e @ str ''0x'' @ ?b"]) (use assms(1) in \<open>simp_all add: good_entry_def\<close>)
  have "cstr_at m (i + length ?a) = Some (?n @ str ''0x'' @ ?b)" using cstr_skip [OF whole] .
  then have q: "strstr_at m (i + length ?a) ''0x'' = Some (Some (i + length ?a + length ?n))"
    by (rule strstr_here) (use assms(1) in \<open>simp_all add: good_entry_def\<close>)
  have "cstr_at m (i + length ?a + length ?n) = Some (str ''0x'' @ ?b)"
    using cstr_skip [of m "i + length ?a" ?n] cstr_skip [OF whole] by simp
  then have "cstrn_at m (i + length ?a + length ?n) (if is64 then 18 else 10) = Some (str ''0x'' @ digits e)"
    using assms(1) by (auto simp: cstrn_here good_entry_def str_def)
  then show ?thesis using p q by blast
qed

lemma id_found:
  assumes "good_entry is64 e" "cstr_at m i = Some (entry_text e @ rest)"
  shows "\<exists>k. strstr_at m (i + length (name_part e) + 10) ''CFBundleIdentifier'' = Some (Some k) \<and>
    strstr_at m k ''</string>'' = Some (Some (i + length (name_part e @ address_part e @ id_part e))) \<and>
    value_text m k 32 (i + length (name_part e @ address_part e @ id_part e)) = Some (bundle_id e)"
proof -
  let ?i = "i + length (name_part e)" and ?k = "i + length (name_part e @ address_part e)"
  have ten: "10 \<le> length (address_part e)" by (simp add: address_part_def str_def)
  have whole: "cstr_at m i = Some (name_part e @ take 10 (address_part e) @ drop 10 (address_part e) @ id_part e @ next_part e @ rest)"
    using assms(2) append_take_drop_id [of 10 "address_part e"] by (simp only: entry_text_def append.assoc [symmetric])
  have "cstr_at m (?i + 10) = Some (drop 10 (address_part e) @ id_part e @ next_part e @ rest)"
    using cstr_skip [of m i "name_part e @ take 10 (address_part e)"] whole ten by (simp add: add.assoc)
  then have "cstr_at m (?i + 10) = Some (drop 10 (address_part e) @ str ''CFBundleIdentifier'' @
      str ''</key>'' @ open_tag (id_tag e) @ bundle_id e @ next_part e @ rest)" by (simp add: id_part_def str_def)
  then have "strstr_at m (?i + 10) ''CFBundleIdentifier'' = Some (Some (?i + 10 + length (drop 10 (address_part e))))"
    by (rule strstr_here) (use assms(1) in \<open>simp_all add: good_entry_def\<close>)
  then have k: "strstr_at m (?i + 10) ''CFBundleIdentifier'' = Some (Some ?k)" using ten by simp
  have at: "cstr_at m ?k = Some (id_part e @ next_part e @ rest)"
    using cstr_skip [of m i "name_part e @ address_part e"] assms(2) by (simp add: entry_text_def)
  then have "strstr_at m ?k ''</string>'' = Some (Some (?k + length (id_part e)))"
    by (intro strstr_here [of _ _ _ _ "gap_next e @ rest"]) (use assms(1) in \<open>simp_all add: good_entry_def next_part_def\<close>)
  moreover have "value_text m ?k 32 (?k + length (id_part e)) = Some (bundle_id e)"
    using value_read [of m ?k "str ''CFBundleIdentifier</key>''" "id_tag e" "bundle_id e" "next_part e @ rest"] assms(1) at
    by (simp add: id_part_def good_entry_def str_def)
  ultimately show ?thesis using k by (auto simp: add.assoc)
qed

lemma plist_step:
  assumes "good_entry is64 e" "cstr_at m i = Some (entry_text e @ rest)" "kextNamePtr st = Some i"
    and "strstr_at m (i + length (name_part e @ address_part e @ id_part e)) ''CFBundleName</key>'' = Some next"
  shows "plist_body extract correction m is64 None st =
    Some (Inl (st\<lparr>kextNamePtr := next, kexts := kexts st + 1, shown := shown st @ entry_items e\<rparr>))"
proof -
  obtain p q where "strstr_at m i ''_PrelinkExecutableLoadAddr'' = Some (Some p)" "strstr_at m p ''0x'' = Some (Some q)"
      "cstrn_at m q (if is64 then 18 else 10) = Some (str ''0x'' @ digits e)" using address_found [OF assms(1,2)] by blast
  moreover obtain k where "strstr_at m (i + length (name_part e) + 10) ''CFBundleIdentifier'' = Some (Some k)"
      "strstr_at m k ''</string>'' = Some (Some (i + length (name_part e @ address_part e @ id_part e)))"
      "value_text m k 32 (i + length (name_part e @ address_part e @ id_part e)) = Some (bundle_id e)" using id_found [OF assms(1,2)] by blast
  moreover have "length (bundle_id e) < 256" using assms(1) by (simp add: good_entry_def)
  ultimately show ?thesis
    using name_found [OF assms(1,2)] assms(3,4) by (simp add: plist_body_def plist_identifier_def entry_items_def)
qed

lemma next_found:
  assumes "good_entry is64 e" "cstr_at m i = Some (entry_text e @ concat (map entry_text es))"
  shows "strstr_at m (i + length (name_part e @ address_part e @ id_part e)) ''CFBundleName</key>'' =
    Some (if es = [] then None else Some (i + length (entry_text e)))"
proof -
  let ?j = "i + length (name_part e @ address_part e @ id_part e)"
  have j: "cstr_at m ?j = Some (next_part e @ concat (map entry_text es))"
    using cstr_skip [of m i "name_part e @ address_part e @ id_part e"] assms(2) by (simp add: entry_text_def)
  show ?thesis
  proof (cases es)
    case Nil
    then show ?thesis using strstr_absent [of m ?j "next_part e"] j assms(1) by (simp add: good_entry_def)
  next
    case (Cons f fs)
    then have "cstr_at m ?j = Some (next_part e @ str ''CFBundleName</key>'' @ open_tag (name_tag f) @ bundle_name f @ address_part f @
        id_part f @ next_part f @ concat (map entry_text fs))" using j by (simp add: entry_text_def name_part_def)
    then have "strstr_at m ?j ''CFBundleName</key>'' = Some (Some (?j + length (next_part e)))"
      by (rule strstr_here) (use assms(1) in \<open>simp_all add: good_entry_def\<close>)
    then show ?thesis using Cons by (simp add: entry_text_def ac_simps)
  qed
qed

lemma plist_loop:
  "\<forall>e \<in> set es. good_entry is64 e \<Longrightarrow> cstr_at m i = Some (concat (map entry_text es)) \<Longrightarrow>
   kextNamePtr st = (if es = [] then None else Some i) \<Longrightarrow> length es < fuel \<Longrightarrow>
   loop fuel (plist_body extract correction m is64 None) st =
     Some (Listed, st\<lparr>kextNamePtr := None, kexts := kexts st + length es, shown := shown st @ concat (map entry_items es)\<rparr>)"
proof (induction es arbitrary: i st fuel)
  case Nil
  then obtain f where "fuel = Suc f" by (cases fuel) auto
  then show ?case using Nil by (simp add: plist_body_def)
next
  case (Cons e es)
  then obtain f where f: "fuel = Suc f" "length es < f" by (cases fuel) auto
  have e: "good_entry is64 e" "cstr_at m i = Some (entry_text e @ concat (map entry_text es))" "kextNamePtr st = Some i"
    using Cons.prems by simp_all
  let ?st = "st\<lparr>kextNamePtr := if es = [] then None else Some (i + length (entry_text e)), kexts := kexts st + 1,
      shown := shown st @ entry_items e\<rparr>"
  have "cstr_at m (i + length (entry_text e)) = Some (concat (map entry_text es))" by (rule cstr_skip [OF e(2)])
  then have "loop f (plist_body extract correction m is64 None) ?st =
      Some (Listed, ?st\<lparr>kextNamePtr := None, kexts := kexts ?st + length es, shown := shown ?st @ concat (map entry_items es)\<rparr>)"
    by (rule Cons.IH [rotated]) (use Cons.prems(1) f(2) in simp_all)
  moreover have "plist_body extract correction m is64 None st = Some (Inl ?st)"
    using plist_step [OF e next_found [OF e(1,2)]] by simp
  ultimately show ?case by (simp add: f(1))
qed

lemma entries_length: "length es \<le> length (concat (map entry_text es))"
  by (induction es) (auto simp: entry_text_def name_part_def str_def)

lemma plist_kexts_listed:
  assumes "cstr_at m offset = Some (intro @ concat (map entry_text es))" "clear intro ''CFBundleName</key>''"
    and "\<forall>e \<in> set es. good_entry is64 e"
  shows "plist_kexts extract correction m is64 None offset l = Some (Listed,
    \<lparr>kextNamePtr = None, kexts = length es, later_now = l, shown = concat (map entry_items es)\<rparr>)"
proof -
  let ?i = "offset + length intro"
  have i: "cstr_at m ?i = Some (concat (map entry_text es))" by (rule cstr_skip [OF assms(1)])
  have "strstr_at m offset ''CFBundleName</key>'' = Some (if es = [] then None else Some ?i)"
  proof (cases es)
    case Nil
    then show ?thesis using strstr_absent assms(1,2) by simp
  next
    case (Cons e fs)
    then have "cstr_at m offset = Some (intro @ str ''CFBundleName</key>'' @ open_tag (name_tag e) @ bundle_name e @ address_part e @
        id_part e @ next_part e @ concat (map entry_text fs))" using assms(1) by (simp add: entry_text_def name_part_def)
    then show ?thesis using Cons strstr_here assms(2) by simp
  qed
  moreover have fuel: "length es < length m + 1" using cstr_inside [OF assms(1)] entries_length [of es] by simp
  let ?st = "\<lparr>kextNamePtr = if es = [] then None else Some ?i, kexts = 0, later_now = l, shown = []\<rparr>"
  have "loop (length m + 1) (plist_body extract correction m is64 None) ?st =
      Some (Listed, ?st\<lparr>kextNamePtr := None, kexts := kexts ?st + length es, shown := shown ?st @ concat (map entry_items es)\<rparr>)"
    by (rule plist_loop [OF assms(3) i _ fuel]) simp
  ultimately show ?thesis by (simp add: plist_kexts_def del: loop.simps)
qed

text \<open>An entry with an \<open>ID\<close> in the identifier's tag.\<close>

definition sample_entry :: plist_entry where
  "sample_entry = \<lparr>name_tag = None, bundle_name = str ''a'', gap_address = str ''<'', gap_number = str ''>'',
     digits = str ''fffffff012345678'', gap_identifier = str ''<'', id_tag = Some (str ''1''), bundle_id = str ''b'', gap_next = str ''<''\<rparr>"

lemma sample_entry_good: "good_entry True sample_entry"
  by code_simp

lemma sample_entry_text: "0 \<notin> set (entry_text sample_entry)"
  by code_simp

end
