(* ===== verification/Joker_Kexts.thy ===== *)
theory Joker_Kexts
  imports Joker_Cache Joker_Plist
begin

text \<open>
  \<open>doKexts\<close> of \<open>src/src/joker.c\<close>: when the first method (\<open>plist_kexts\<close>) finds 50 extensions or fewer, the second one
  (\<open>doKexts_dump\<close>) follows. With a name, the extensions that match are extracted (\<open>doKextract\<close>).
  Sections and load commands come from machlib and are parameters. Notes on standard error are left out.
\<close>

section \<open>Both methods\<close>

text \<open>With a name, the second method extracts what it would list: the text has to be part of the identification, which
  may set \<open>xnu3757_and_later\<close> too (\<open>has_const\<close>: the extension at a position has the section \<open>__DATA_CONST.__const\<close>).\<close>

fun extract_kexts ::
  "extractor \<Rightarrow> (nat \<Rightarrow> kext_info) \<Rightarrow> (nat \<Rightarrow> bool) \<Rightarrow> mem \<Rightarrow> mem \<Rightarrow> bool \<Rightarrow> kext_item list \<Rightarrow> (extraction list \<times> bool) option" where
  "extract_kexts extract info has_const m this later [] = Some ([], later)"
| "extract_kexts extract info has_const m this later (Kext k ident prev ksize # ks) = do {
     new \<leftarrow> identifyKextNew (info prev) m prev ksize;
     let policies = (case new of Some n \<Rightarrow> strstr n (str ''AppleMobileFile'') \<or> strstr n (str ''sandbox'') | None \<Rightarrow> False);
     let later = (if policies then has_const prev else later);
     (es, later) \<leftarrow> (if this = str ''all'' \<or> strstr ident this
        then do {
          (e, later) \<leftarrow> extract later prev (takeWhile (\<lambda>b. b \<noteq> of_char CHR ''('') ident);
          Some ([e], later)
        }
        else Some ([], later));
     (rest, later) \<leftarrow> extract_kexts extract info has_const m this later ks;
     Some (es @ rest, later)
   }"

datatype kexts_item =
    FromPlist plist_item
  | FromDump kext_item
  | ExtractedDump extraction

definition doKexts ::
  "extractor \<Rightarrow> section_api \<Rightarrow> (nat \<Rightarrow> kext_info) \<Rightarrow> (nat \<Rightarrow> bool) \<Rightarrow> mem \<Rightarrow> bool \<Rightarrow> mem option \<Rightarrow> nat \<Rightarrow> bool
     \<Rightarrow> (kext_exit \<times> kexts_item list) option" where
  "doKexts extract sects info has_const m is64 this method later =
     (case (sects ''__PRELINK_INFO.__info'', sects ''__PRELINK_TEXT.__text'') of
        (Some (_, offset, _), Some (text_addr, text_offset, _)) \<Rightarrow> do {
          (ended, st) \<leftarrow>
            (if method = 1 then plist_kexts extract (int text_addr - int text_offset) m is64 this offset later
             else do { _ \<leftarrow> cstr_at m offset; Some (Listed, \<lparr>kextNamePtr = None, kexts = 0, later_now = later, shown = []\<rparr>) });
          let listed = map FromPlist (shown st);
          if ended \<noteq> Listed \<or> method = 1 \<and> kexts st > 50 then Some (ended, listed)
          else do {
            ks \<leftarrow> doKexts_dump sects info m is64;
            case this of
              None \<Rightarrow> Some (Listed, listed @ map FromDump ks)
            | Some this \<Rightarrow> do {
                (es, _) \<leftarrow> extract_kexts extract info has_const m this (later_now st) ks;
                Some (Listed, listed @ map ExtractedDump es)
              }
          }
        }
      | _ \<Rightarrow> Some (Listed, []))"

section \<open>What is listed\<close>

text \<open>C32: With more than 50 extensions in the property list of a kernel cache, and each text that is searched for only
  where it is meant, \<open>doKexts\<close> lists for each of them in turn its load address, its name, with or without an attribute
  in the tag, and its identifier, and nothing else.\<close>

theorem kexts_listed:
  assumes "sects ''__PRELINK_INFO.__info'' = Some (a, offset, sz)" "sects ''__PRELINK_TEXT.__text'' = Some prelinked"
    and "cstr_at m offset = Some (intro @ concat (map entry_text es))" "clear intro ''CFBundleName</key>''"
    and "\<forall>e \<in> set es. good_entry is64 e" "50 < length es"
  shows "doKexts extract sects info has_const m is64 None 1 later =
    Some (Listed, concat (map (\<lambda>e. [FromPlist (PlistKext (str ''0x'' @ digits e) (bundle_name e)), FromPlist (PlistId (bundle_id e))]) es))"
proof -
  have "map FromPlist (concat (map entry_items es)) =
      concat (map (\<lambda>e. [FromPlist (PlistKext (str ''0x'' @ digits e) (bundle_name e)), FromPlist (PlistId (bundle_id e))]) es)"
    by (induction es) (simp_all add: entry_items_def)
  then show ?thesis
    using plist_kexts_listed [OF assms(3-5)] assms(1,2,6) by (simp add: doKexts_def split: prod.splits)
qed

lemma kexts_listed_witness:
  "doKexts (\<lambda>_ _ _. None) (\<lambda>_. Some (0, 0, 16)) (\<lambda>_. \<lparr>data_off = 0, data_size = 0, const_off = 0, version = None\<rparr>) (\<lambda>_. False) (concat (replicate 51 (entry_text sample_entry)) @ [0]) True None 1 False =
    Some (Listed, concat (replicate 51 [FromPlist (PlistKext (str ''0xfffffff012345678'') (str ''a'')), FromPlist (PlistId (str ''b''))]))"
proof -
  let ?m = "concat (replicate 51 (entry_text sample_entry)) @ [0]"
  have "0 \<notin> set (concat (replicate 51 (entry_text sample_entry)))" using sample_entry_text by auto
  then have "cstr_at ?m 0 = Some ([] @ concat (map entry_text (replicate 51 sample_entry)))"
    using cstr_mid [of _ "[]" 0 "[]"] by simp
  moreover have "clear [] ''CFBundleName</key>''" by code_simp
  moreover have "\<forall>e \<in> set (replicate 51 sample_entry). good_entry True e" using sample_entry_good by simp
  ultimately show ?thesis
    using kexts_listed [of "\<lambda>_. Some (0, 0, 16)" 0 0 16 _ ?m "[]" "replicate 51 sample_entry" True "\<lambda>_ _ _. None" "\<lambda>_. \<lparr>data_off = 0, data_size = 0, const_off = 0, version = None\<rparr>" "\<lambda>_. False" False]
    by (simp add: sample_entry_def str_def)
qed

end
