(* ===== verification/Joker_Main.thy ===== *)
theory Joker_Main
  imports Joker_Sysctl Joker_Syscalls Joker_Kexts
begin

text \<open>
  \<open>main\<close> of \<open>src/src/joker.c\<close>: the options, the formats that are told apart by their magic, with kernel caches
  decompressed first and the files written on the way, and the order of the reports; and \<open>function_identifier\<close>, which recognises kernel functions by the
  strings they are called with. What machlib says about an image is a record of parameters. The companion file of \<open>-j\<close>
  and notes on standard error are left out.
\<close>

section \<open>Functions recognised by an argument\<close>

text \<open>A string is compared as a whole or, for \<open>IOLog\<close>, by its prefix. The registers 0 to 3 hold the arguments, register 32
  the address of the called function.\<close>

datatype arg_test = Exactly string | StartsWith string

fun arg_matches :: "arg_test \<Rightarrow> mem \<Rightarrow> bool" where
  "arg_matches (Exactly t) s \<longleftrightarrow> s = str t"
| "arg_matches (StartsWith t) s \<longleftrightarrow> prefix_of (str t) s"

definition panic_format :: arg_test where
  "panic_format = Exactly ''\"%s[KERNEL]: %s\"''"

definition functions_r0 :: "(arg_test \<times> string) list" where
  "functions_r0 =
     [(Exactly ''IOBSD'', ''__ZN9IOService15publishResourceEPKcP8OSObject''), (StartsWith ''BSD root: %s,'', ''_IOLog''),
      (Exactly ''#size-cells'', ''__ZN8OSSymbol17withCStringNoCopyEPKc''), (Exactly ''-zp'', ''_PE_Parse_boot_argn''),
      (Exactly ''hw.memsize'', ''_PE_get_default'')]"

definition functions_r1 :: "(arg_test \<times> string) list" where
  "functions_r1 = [(Exactly ''OSMalloc_tag'', ''_lck_grp_alloc_init''), (Exactly ''vm_swap_data'', ''_lck_grp_init'')]"

definition functions_r2 :: "(arg_test \<times> string) list" where
  "functions_r2 = [(Exactly ''Jettisoning kext bootstrap segments.'', ''_OSKextLog'')]"

definition functions_r3 :: "(arg_test \<times> string) list" where
  "functions_r3 = [(Exactly ''vstruct zone'', ''_zinit'')]"

text \<open>The section that holds an address, and the string at it.\<close>

definition recognised ::
  "(nat \<Rightarrow> string option) \<Rightarrow> (nat \<Rightarrow> mem) \<Rightarrow> nat \<Rightarrow> (arg_test \<times> string) list \<Rightarrow> string list" where
  "recognised section_at string_at r functions =
     (if r > 0xfffffff000000000 \<and> section_at r = Some ''__TEXT.__cstring''
      then map snd (filter (\<lambda>(test, _). arg_matches test (string_at r)) functions) else [])"

text \<open>The symbols that are added, in order, and whether \<open>panic\<close> has been seen.\<close>

definition function_identifier ::
  "(nat \<Rightarrow> string option) \<Rightarrow> (nat \<Rightarrow> mem) \<Rightarrow> (nat \<Rightarrow> nat) \<Rightarrow> bool \<Rightarrow> (string \<times> nat) list \<times> bool" where
  "function_identifier section_at string_at regs panic =
     (let r0 = recognised section_at string_at (regs 0) ((if panic then [] else [(panic_format, ''_panic'')]) @ functions_r0);
          names = r0 @ recognised section_at string_at (regs 3) functions_r3 @
            recognised section_at string_at (regs 2) functions_r2 @ recognised section_at string_at (regs 1) functions_r1
      in (map (\<lambda>name. (name, regs 32)) names, panic \<or> ''_panic'' \<in> set r0))"

section \<open>Options\<close>

record joker_opts =
  showVersion :: bool
  showUNIX :: bool
  showMach :: bool
  showKexts :: bool
  showSysctls :: bool
  kextName :: "mem option"
  g_dec :: bool
  wantJToolOut :: bool

definition joker_no_opts :: joker_opts where
  "joker_no_opts = \<lparr>showVersion = False, showUNIX = False, showMach = False, showKexts = False, showSysctls = False,
     kextName = None, g_dec = False, wantJToolOut = False\<rparr>"

text \<open>Each argument but the last one; the name after \<open>-K\<close> may be the file.\<close>

definition joker_option :: "mem list \<Rightarrow> joker_opts \<Rightarrow> nat \<Rightarrow> joker_opts" where
  "joker_option argv opts k =
     (let a = argv ! k in
      if a = str ''-k'' then opts\<lparr>showKexts := True, showUNIX := False, showMach := False\<rparr>
      else if a = str ''-K'' then opts\<lparr>kextName := Some (argv ! (k + 1)), showUNIX := False, showMach := False\<rparr>
      else if a = str ''-S'' then opts\<lparr>showSysctls := True\<rparr>
      else if a = str ''-a'' then opts\<lparr>showSysctls := True, showKexts := True, showUNIX := True, showMach := True\<rparr>
      else if a = str ''-m'' then opts\<lparr>showMach := True\<rparr>
      else if a = str ''-s'' then opts\<lparr>showUNIX := True\<rparr>
      else if a = str ''-dec'' then opts\<lparr>g_dec := True\<rparr>
      else if a = str ''-j'' then opts\<lparr>wantJToolOut := True\<rparr>
      else opts)"

definition joker_options :: "mem list \<Rightarrow> joker_opts" where
  "joker_options argv =
     foldl (joker_option argv) (joker_no_opts\<lparr>showVersion := prefix_of (str ''-v'') (argv ! 1)\<rparr>) [1..<length argv - 1]"

section \<open>Formats\<close>

text \<open>An image with its kind and size, or an exit.\<close>

record image =
  bytes_of :: mem
  size_of :: nat
  is_64 :: bool
  is_iOS :: bool

text \<open>A kernel cache is decompressed, and what comes out of it examined in turn. The files that are written come first.\<close>

partial_function (option) examine ::
  "(nat \<Rightarrow> byte) \<Rightarrow> (string \<Rightarrow> bool) \<Rightarrow> bool \<Rightarrow> mem \<Rightarrow> nat \<Rightarrow> (files \<times> (nat + image)) option" where
  "examine garbage can_write dec m filesize = do {
     cputype \<leftarrow> rd_le 4 m 4;
     magic \<leftarrow> rd_le 4 m 0;
     let iOS = (cputype = 12 \<or> cputype = 16777228);
     if magic = 0x496d6733 then Some ([], Inl 0)
     else if magic = MH_MAGIC then Some ([], Inr \<lparr>bytes_of = m, size_of = filesize, is_64 = False, is_iOS = iOS\<rparr>)
     else if magic = MH_MAGIC_64 then Some ([], Inr \<lparr>bytes_of = m, size_of = filesize, is_64 = True, is_iOS = iOS\<rparr>)
     else if magic = 0xbebafeca then Some ([], Inl 5)
     else do {
       r \<leftarrow> tryLZSS garbage can_write dec m filesize;
       case r of
         NotCompressed \<Rightarrow> Some ([], Inl 6)
       | ExitWith n written \<Rightarrow> Some (written, Inl n)
       | Decompressed out written \<Rightarrow> do {
           (later, opened) \<leftarrow> examine garbage can_write dec out (length out);
           Some (written @ later, opened)
         }
     }
   }"

section \<open>The reports\<close>

text \<open>What machlib says about an image: its sections, the address of a file offset and the reverse, the source version,
  whether it has symbols, and its extensions by their position; and about the copy of an extension: the offset of
  \<open>__DATA_CONST.__const\<close> (and whether it exists), the load commands, and whether there are stubs.\<close>

record machlib =
  sects_of :: "mem \<Rightarrow> section_api"
  addr_at :: "mem \<Rightarrow> int \<Rightarrow> nat"
  offset_at :: "mem \<Rightarrow> file_off"
  source_version :: "mem \<Rightarrow> nat option"
  has_symbols :: "mem \<Rightarrow> bool"
  kext_at_pos :: "mem \<Rightarrow> nat \<Rightarrow> kext_info"
  kext_const :: "mem \<Rightarrow> nat \<Rightarrow> bool"
  copy_const_off :: "mem \<Rightarrow> nat"
  copy_const :: "mem \<Rightarrow> bool"
  load_commands :: "mem \<Rightarrow> nat list"
  copy_stubs :: "mem \<Rightarrow> bool"

text \<open>The environment: \<open>JOKER_DIR\<close> or \<open>/tmp\<close>, and \<open>METH2\<close>.\<close>

record environment =
  joker_dir :: mem
  meth2 :: bool

datatype main_item =
    Release string
  | ThisIs mem
  | SourceVersion string
  | NoSourceVersion
  | NoSymbols
  | Found joker_item
  | Traps trap_listing
  | Mig mig_item
  | Sysctl sysctl_item
  | Kexts kexts_item

definition prelink_data :: "machlib \<Rightarrow> mem \<Rightarrow> nat \<times> nat \<times> nat" where
  "prelink_data lib m = (case sects_of lib m ''__PRELINK_DATA.__data'' of None \<Rightarrow> (0, 0, 0) | Some s \<Rightarrow> s)"

text \<open>After an extension with stubs has been written, \<open>xnu3757_and_later\<close> says whether its copy has the section.\<close>

definition kextractor :: "machlib \<Rightarrow> environment \<Rightarrow> mem \<Rightarrow> extractor" where
  "kextractor lib env m = (\<lambda>later pos name. do {
     e \<leftarrow> doKextract (prelink_data lib m) later (copy_const_off lib) (load_commands lib) (joker_dir env) m pos name;
     Some (e, case e of NoMagic _ \<Rightarrow> later | KextFile _ kext \<Rightarrow> (if copy_stubs lib kext then copy_const lib kext else later))
   })"

text \<open>A file of at most 2000000 bytes is taken for an extension.\<close>

definition identify_image :: "machlib \<Rightarrow> image \<Rightarrow> bool \<Rightarrow> main_item list option" where
  "identify_image lib img xnu = do {
     first \<leftarrow> (if xnu then Some (case source_version lib (bytes_of img) of
                 Some v \<Rightarrow> [SourceVersion (version_text v)]
               | None \<Rightarrow> [NoSourceVersion])
              else do {
                name \<leftarrow> identifyKextNew (kext_at_pos lib (bytes_of img) 0) (bytes_of img) 0 (size_of img);
                map_option (\<lambda>n. [ThisIs n]) name
              });
     Some (first @ (if \<not> has_symbols lib (bytes_of img) \<and> xnu then [NoSymbols] else []))
   }"

definition kernel_tables ::
  "machlib \<Rightarrow> joker_opts \<Rightarrow> release \<Rightarrow> image \<Rightarrow> nat \<Rightarrow> search \<Rightarrow> main_item list option" where
  "kernel_tables lib opts r img i st =
     (let m = bytes_of img; sects = sects_of lib m in do {
        traps \<leftarrow> (if showMach opts then doMachTraps sects m (is_64 img) else Some None);
        mig \<leftarrow> (if showMach opts then doMIG sects m (is_64 img) else Some []);
        syscalls \<leftarrow> (if showUNIX opts then list_syscalls r (is_64 img) m i st else Some []);
        Some ((case traps of None \<Rightarrow> [] | Some t \<Rightarrow> [Traps t]) @ map Mig mig @ map Found syscalls)
      })"

definition kernel_lists ::
  "machlib \<Rightarrow> environment \<Rightarrow> joker_opts \<Rightarrow> release \<Rightarrow> image \<Rightarrow> (nat \<times> main_item list) option" where
  "kernel_lists lib env opts r img =
     (let m = bytes_of img; sects = sects_of lib m in do {
        sysctls \<leftarrow> (if showSysctls opts then doSysctls sects (offset_at lib m) (is_64 img) m else Some []);
        (ended, kexts) \<leftarrow>
          (if kextName opts \<noteq> None \<or> showKexts opts
           then doKexts (kextractor lib env m) sects (kext_at_pos lib m) (kext_const lib m) m (is_64 img) (kextName opts)
             (if xnu37xx r \<and> \<not> meth2 env then 1 else 2) (xnu3757_and_later r)
           else Some (Listed, []));
        Some (case ended of Listed \<Rightarrow> 0 | ExitKexts n \<Rightarrow> n, map Sysctl sysctls @ map Kexts kexts)
      })"

text \<open>The exit code and the lines. The search ends the program with \<open>-v\<close>; without a constant section there is nothing
  behind it.\<close>

definition joker_image :: "machlib \<Rightarrow> environment \<Rightarrow> joker_opts \<Rightarrow> image \<Rightarrow> (nat \<times> main_item list) option" where
  "joker_image lib env opts img =
     (let m = bytes_of img; xnu = size_of img > 2000000;
          (r, title) = release_of xnu (is_64 img) (is_iOS img) (source_version lib m);
          release = (if title = [] then [] else [Release title])
      in do {
        ident \<leftarrow> identify_image lib img xnu;
        searched \<leftarrow> search_kernel (addr_at lib m) r xnu (showVersion opts) (showUNIX opts) m (size_of img);
        case searched of
          Inr items \<Rightarrow> Some (0, release @ ident @ map Found items)
        | Inl st \<Rightarrow> do {
            found \<leftarrow> sysent_fallback (sects_of lib m) m (is_64 img) st;
            let intro = release @ ident @ map Found (said st);
            case found of
              None \<Rightarrow> Some (0, intro)
            | Some st \<Rightarrow> do {
                tables \<leftarrow> kernel_tables lib opts r img (if xnu then size_of img - 50 else 0) st;
                (code, lists) \<leftarrow> kernel_lists lib env opts r img;
                Some (code, intro @ tables @ lists)
              }
          }
      })"

text \<open>\<open>joker\<close> with its arguments, on the mapped file and its size: the exit code, the lines, and the files that
  \<open>tryLZSS\<close> has written (the files of extensions are lines of their own). Without an argument it shows its usage.\<close>

definition joker ::
  "machlib \<Rightarrow> environment \<Rightarrow> (nat \<Rightarrow> byte) \<Rightarrow> (string \<Rightarrow> bool) \<Rightarrow> mem list \<Rightarrow> mem \<Rightarrow> nat
     \<Rightarrow> (nat \<times> main_item list \<times> files) option" where
  "joker lib env garbage can_write argv m filesize =
     (if length argv < 2 then Some (0, [], [])
      else do {
        let opts = joker_options argv;
        (written, opened) \<leftarrow> examine garbage can_write (g_dec opts) m filesize;
        case opened of
          Inl code \<Rightarrow> Some (code, [], written)
        | Inr img \<Rightarrow> do {
            (code, items) \<leftarrow> joker_image lib env opts img;
            Some (code, items, written)
          }
      })"

section \<open>What the options mean\<close>

text \<open>Of the arguments in one of two sets, the last one counts.\<close>

definition last_switch :: "mem set \<Rightarrow> mem set \<Rightarrow> mem list \<Rightarrow> bool" where
  "last_switch on off args = (case find (\<lambda>a. a \<in> on \<or> a \<in> off) (rev args) of None \<Rightarrow> False | Some a \<Rightarrow> a \<in> on)"

lemma last_switch_simps [simp]:
  "\<not> last_switch on off []"
  "last_switch on off (args @ [a]) \<longleftrightarrow> a \<in> on \<or> a \<notin> off \<and> last_switch on off args"
  by (auto simp: last_switch_def)

definition kext_options :: "mem set" where
  "kext_options = {str ''-k'', str ''-K''}"

lemma option_flags:
  "showMach (joker_option argv opts k) \<longleftrightarrow>
     argv ! k \<in> {str ''-m'', str ''-a''} \<or> argv ! k \<notin> kext_options \<and> showMach opts"
  "showUNIX (joker_option argv opts k) \<longleftrightarrow>
     argv ! k \<in> {str ''-s'', str ''-a''} \<or> argv ! k \<notin> kext_options \<and> showUNIX opts"
  by (auto simp: joker_option_def Let_def kext_options_def str_def)

lemma options_so_far:
  "\<not> showMach opts \<Longrightarrow> showMach (foldl (joker_option argv) opts [1..<n]) \<longleftrightarrow>
     last_switch {str ''-m'', str ''-a''} kext_options (map ((!) argv) [1..<n])"
  "\<not> showUNIX opts \<Longrightarrow> showUNIX (foldl (joker_option argv) opts [1..<n]) \<longleftrightarrow>
     last_switch {str ''-s'', str ''-a''} kext_options (map ((!) argv) [1..<n])"
  by (induction n) (auto simp: option_flags)

lemma dec_so_far: "g_dec (foldl (joker_option argv) opts ks) \<longleftrightarrow> g_dec opts \<or> str ''-dec'' \<in> (!) argv ` set ks"
  by (induction ks arbitrary: opts) (auto simp: joker_option_def Let_def str_def)

lemma between_arguments: "map ((!) argv) [1..<length argv - 1] = butlast (tl argv)" if "2 \<le> length argv"
  by (rule nth_equalityI) (use that in \<open>simp_all add: nth_butlast nth_tl\<close>)

lemma dec_option:
  assumes "2 \<le> length argv"
  shows "g_dec (joker_options argv) \<longleftrightarrow> str ''-dec'' \<in> set (butlast (tl argv))"
proof -
  have "(!) argv ` set [1..<length argv - 1] = set (butlast (tl argv))"
    using arg_cong [OF between_arguments [OF assms], of set] by (simp only: set_map)
  then show ?thesis by (simp add: joker_options_def dec_so_far joker_no_opts_def del: set_upt)
qed

text \<open>Between the program's name and the file, \<open>-m\<close> and \<open>-s\<close> switch the tables on and \<open>-a\<close> both, and a later \<open>-k\<close> or
  \<open>-K\<close> switches them off again.\<close>

theorem table_options:
  assumes "2 \<le> length argv"
  shows "(showMach (joker_options argv) \<longleftrightarrow> last_switch {str ''-m'', str ''-a''} kext_options (butlast (tl argv))) \<and>
    (showUNIX (joker_options argv) \<longleftrightarrow> last_switch {str ''-s'', str ''-a''} kext_options (butlast (tl argv)))"
proof -
  show ?thesis using between_arguments [OF assms] by (simp add: joker_options_def options_so_far [unfolded One_nat_def] joker_no_opts_def)
qed

lemma table_options_witness:
  "showUNIX (joker_options [str ''joker'', str ''-k'', str ''-s'', str ''kernel'']) \<and>
    \<not> showUNIX (joker_options [str ''joker'', str ''-s'', str ''-k'', str ''kernel''])"
  using table_options [of "[str ''joker'', str ''-k'', str ''-s'', str ''kernel'']"] table_options [of "[str ''joker'', str ''-s'', str ''-k'', str ''kernel'']"]
  by (simp add: last_switch_def kext_options_def str_def)

section \<open>Compressed kernels\<close>

text \<open>C30: A kernel cache whose compressed part decodes to a kernel, as everything written by \<open>compress_lzss\<close> does
  (\<open>lzss_roundtrip\<close>), is handled like the kernel itself: whatever the arguments and the environment, the exit code and the
  reports are the same. The only other effects are files: a KPP image in the cache is saved to \<open>/tmp/kpp\<close>, from its magic to
  the end of the cache, and with \<open>-dec\<close> the kernel to \<open>/tmp/kernel\<close> if that can be opened. If there is a KPP image and
  \<open>/tmp/kpp\<close> cannot be opened, the program ends with code 3, without any report.\<close>

theorem cache_like_kernel:
  assumes "decompress_lzss garbage c = Some X" "length X < 2 ^ 32" "length c < 2 ^ 32" "length u1 = 4" "length u2 = 4"
    and "m = pre @ cache_header (length X) (length c) u1 u2 @ mid @ c @ rest"
    and "memmem (takeWhile (\<lambda>b. b \<noteq> 0) m) (str ''complzss'') = Some (length pre)"
    and "memmem_at m 64 1024 [0xCF, 0xFA, 0xED] = Some (Some (length pre + 24 + length mid + 1))"
    and "find_kpp m filesize = Some kpp" "filesize \<le> length m" "\<forall>k. kpp = Some k \<longrightarrow> k \<le> filesize"
    and "le_val (take 4 m) \<notin> {0x496d6733, MH_MAGIC, MH_MAGIC_64, 0xbebafeca}" "2 \<le> length argv"
  shows "joker lib env garbage can_write argv m filesize =
    (if kpp \<noteq> None \<and> \<not> can_write ''/tmp/kpp'' then Some (3, [], [])
     else map_option (\<lambda>(code, items, written). (code, items,
         (case kpp of None \<Rightarrow> [] | Some k \<Rightarrow> [(''/tmp/kpp'', take (filesize - k) (drop k m))]) @
         (if str ''-dec'' \<in> set (butlast (tl argv)) \<and> can_write ''/tmp/kernel'' then [(''/tmp/kernel'', X)] else []) @ written))
       (joker lib env garbage can_write argv X (length X)))"
proof -
  let ?dec = "g_dec (joker_options argv)"
  have "8 \<le> length m" using assms(6) by (simp add: cache_header_def)
  then have "examine garbage can_write ?dec m filesize = (if kpp \<noteq> None \<and> \<not> can_write ''/tmp/kpp'' then Some ([], Inl 3)
      else map_option (apfst ((@) (kpp_file m filesize kpp @ kernel_file (?dec \<and> can_write ''/tmp/kernel'') X)))
        (examine garbage can_write ?dec X (length X)))"
    using assms(12) tryLZSS_kernel [OF assms(1-11), of can_write ?dec]
    by (subst examine.simps) (auto simp: rd_le_in case_prod_unfold map_conv_bind_option split: Option.bind_split)
  then show ?thesis
    using assms(13)
    by (cases "examine garbage can_write ?dec X (length X)")
      (auto simp: joker_def Let_def dec_option kpp_file_def kernel_file_def map_conv_bind_option split: sum.split option.split
        Option.bind_split)
qed

text \<open>A cache with the first 8 bytes of a Mach-O.\<close>

definition tiny_kernel :: mem where
  "tiny_kernel = [0xCF, 0xFA, 0xED, 0xFE, 0x0C, 0, 0, 1]"

definition tiny_cache :: mem where
  "tiny_cache = cache_header 8 9 [1, 1, 1, 1] [1, 1, 1, 1] @ replicate 40 0 @ (255 # tiny_kernel) @ replicate 8300 0"

definition no_lib :: machlib where
  "no_lib = \<lparr>sects_of = (\<lambda>_ _. None), addr_at = (\<lambda>_ _. 0), offset_at = (\<lambda>_ _. None), source_version = (\<lambda>_. None), has_symbols = (\<lambda>_. False),
     kext_at_pos = (\<lambda>_ _. \<lparr>data_off = 0, data_size = 0, const_off = 0, version = None\<rparr>), kext_const = (\<lambda>_ _. False), copy_const_off = (\<lambda>_. 0),
     copy_const = (\<lambda>_. False), load_commands = (\<lambda>_. []), copy_stubs = (\<lambda>_. False)\<rparr>"

lemma tiny_cache_facts:
  "decompress_lzss (\<lambda>_. 0) (255 # tiny_kernel) = Some tiny_kernel"
  "memmem (takeWhile (\<lambda>b. b \<noteq> 0) tiny_cache) (str ''complzss'') = Some (length ([] :: mem))"
  "memmem_at tiny_cache 64 1024 [0xCF, 0xFA, 0xED] = Some (Some (length ([] :: mem) + 24 + length (replicate 40 (0 :: byte)) + 1))"
  "find_kpp tiny_cache 100 = Some None" "length tiny_cache = 8373"
proof -
  have "pack (map Lit tiny_kernel) = 255 # tiny_kernel" by (simp add: tiny_kernel_def pack.simps pack_group_def)
  then show "decompress_lzss (\<lambda>_. 0) (255 # tiny_kernel) = Some tiny_kernel"
    using decompress_pack [of "map Lit tiny_kernel" "\<lambda>_. 0"] by (simp add: tiny_kernel_def dec_init_def emit1_def)
  show len: "length tiny_cache = 8373" by (simp add: tiny_cache_def tiny_kernel_def cache_header_def str_def)
  show "memmem (takeWhile (\<lambda>b. b \<noteq> 0) tiny_cache) (str ''complzss'') = Some (length ([] :: mem))"
    by (simp add: tiny_cache_def cache_header_def str_def)
  have "drop 64 tiny_cache = 255 # tiny_kernel @ replicate 8300 0" by (simp add: tiny_cache_def cache_header_def str_def)
  then show "memmem_at tiny_cache 64 1024 [0xCF, 0xFA, 0xED] = Some (Some (length ([] :: mem) + 24 + length (replicate 40 (0 :: byte)) + 1))"
    by (simp add: memmem_at_def tiny_kernel_def)
  have "drop 0x2000 tiny_cache = replicate 181 0" by (simp add: tiny_cache_def tiny_kernel_def cache_header_def str_def)
  then show "find_kpp tiny_cache 100 = Some None"
    using memmem_zeros [of "95 :: byte" 100] len by (simp add: find_kpp_def memmem_at_def str_def)
qed

lemma cache_like_kernel_witness:
  "joker no_lib \<lparr>joker_dir = [], meth2 = False\<rparr> (\<lambda>_. 0) (\<lambda>path. path = ''/tmp/kernel'') [[], str ''-dec'', []] tiny_cache 100 =
    Some (0, [ThisIs (str ''this kext is too small!'' @ [0x0A])], [(''/tmp/kernel'', tiny_kernel)])"
proof -
  let ?env = "\<lparr>joker_dir = [], meth2 = False\<rparr>" and ?can = "\<lambda>path. path = ''/tmp/kernel''" and ?argv = "[[], str ''-dec'', []]"
  have l: "length tiny_kernel = 8" "length (255 # tiny_kernel) = 9" by (simp_all add: tiny_kernel_def)
  have m: "tiny_cache = [] @ cache_header (length tiny_kernel) (length (255 # tiny_kernel)) [1, 1, 1, 1] [1, 1, 1, 1] @
      replicate 40 0 @ (255 # tiny_kernel) @ replicate 8300 0"
    by (simp only: l tiny_cache_def append_Nil)
  have magic: "le_val (take 4 tiny_cache) \<notin> {0x496d6733, MH_MAGIC, MH_MAGIC_64, 0xbebafeca}"
    by (simp add: tiny_cache_def cache_header_def str_def MH_MAGIC_def MH_MAGIC_64_def)
  have "examine (\<lambda>_. 0) ?can True tiny_kernel (length tiny_kernel) =
      Some ([], Inr \<lparr>bytes_of = tiny_kernel, size_of = 8, is_64 = True, is_iOS = True\<rparr>)"
    by (subst examine.simps) (simp add: tiny_kernel_def rd_le_def slice_def MH_MAGIC_def MH_MAGIC_64_def)
  then have kernel: "joker no_lib ?env (\<lambda>_. 0) ?can ?argv tiny_kernel (length tiny_kernel) =
      Some (0, [ThisIs (str ''this kext is too small!'' @ [0x0A])], [])"
    by (simp add: joker_def joker_image_def identify_image_def identifyKextNew_def search_kernel_def sysent_fallback_def
        const_section_def release_of_def no_lib_def dec_option)
  show ?thesis
    using cache_like_kernel [OF tiny_cache_facts(1) _ _ _ _ m tiny_cache_facts(2-4) _ _ magic, of ?argv no_lib ?env ?can] kernel
    by (simp add: tiny_cache_facts(5) l)
qed

end
