(* ===== verification/Ioreg_Print.thy ===== *)
theory Ioreg_Print
  imports Prelude
begin

text \<open>
  The output side of the registry explorer \<open>src/src/ioreg.c\<close>: the clipping printer behind \<open>print\<close> and
  \<open>println\<close>, and \<open>cfshow\<close>, which prints property values. The traversal never reads what was printed, so
  its functions return the calls they make (\<open>call list\<close>) and how they end; \<open>run_calls\<close> is the printer
  they run on. Property values are CoreFoundation objects, the datatype \<open>cf\<close>.
\<close>

section \<open>The printer\<close>

text \<open>\<open>Printf\<close> is a call of \<open>printf\<close> itself, which goes past the buffer.\<close>

datatype call = Print string | Println string | Printf string

text \<open>\<open>printbufsize\<close>, \<open>printbufleft\<close>, \<open>printbufclip\<close> and standard output.\<close>

record printer =
  buf_size :: nat
  buf_left :: nat
  buf_clip :: bool
  screen :: string

definition printinit :: "nat \<Rightarrow> printer" where
  "printinit width = \<lparr>buf_size = width, buf_left = width, buf_clip = False, screen = []\<rparr>"

definition blank_newline :: "char \<Rightarrow> char" where
  "blank_newline c = (if c = CHR 0x0A then CHR '' '' else c)"

text \<open>The formatted text \<open>s\<close>: \<open>vsnprintf\<close> keeps \<open>printbufleft - 1\<close> of its characters and returns its
  length.\<close>

definition printva :: "string \<Rightarrow> printer \<Rightarrow> printer" where
  "printva s p =
     (if buf_size p \<noteq> 0 then
        let printbuf = map blank_newline (take (buf_left p - 1) s);
            p = p\<lparr>screen := screen p @ printbuf\<rparr>;
            count = length s
        in if count \<ge> buf_left p
           then p\<lparr>buf_clip := True, buf_left := buf_left p - (buf_left p - 1)\<rparr>
           else p\<lparr>buf_left := buf_left p - count\<rparr>
      else p\<lparr>screen := screen p @ s\<rparr>)"

definition println :: "string \<Rightarrow> printer \<Rightarrow> printer" where
  "println s p =
     (let p = printva s p;
          p = (if buf_clip p then p\<lparr>screen := screen p @ ''$''\<rparr> else p);
          p = p\<lparr>screen := screen p @ [CHR 0x0A]\<rparr>
      in p\<lparr>buf_clip := False, buf_left := buf_size p\<rparr>)"

fun run_call :: "call \<Rightarrow> printer \<Rightarrow> printer" where
  "run_call (Print s) p = printva s p"
| "run_call (Println s) p = println s p"
| "run_call (Printf s) p = p\<lparr>screen := screen p @ s\<rparr>"

definition run_calls :: "call list \<Rightarrow> printer \<Rightarrow> printer" where
  "run_calls cs p = fold run_call cs p"

section \<open>How a function ends\<close>

text \<open>A failed \<open>assertion\<close> prints its message and exits; \<open>Undefined\<close> is undefined behaviour; \<open>Endless\<close>
  is a loop that ran out of fuel. \<open>None\<close>: the function returns.\<close>

datatype stop = Failed string | Undefined | Endless

type_synonym io = "call list \<times> stop option"

definition says :: "call list \<Rightarrow> io" where
  "says cs = (cs, None)"

definition halt :: "stop \<Rightarrow> io" where
  "halt e = ([], Some e)"

definition and_then :: "io \<Rightarrow> io \<Rightarrow> io" where
  "and_then m n = (case snd m of None \<Rightarrow> (fst m @ fst n, snd n) | Some e \<Rightarrow> m)"

fun in_turn :: "io list \<Rightarrow> io" where
  "in_turn [] = says []"
| "in_turn (m # ms) = and_then m (in_turn ms)"

definition assertion :: "bool \<Rightarrow> string \<Rightarrow> io" where
  "assertion b msg = (if b then says [] else halt (Failed msg))"

definition with_value :: "'a option \<Rightarrow> stop \<Rightarrow> ('a \<Rightarrow> io) \<Rightarrow> io" where
  "with_value v e f = (case v of None \<Rightarrow> halt e | Some x \<Rightarrow> f x)"

named_theorems io_simps \<open>sequencing of printing functions\<close>

lemma says_then [io_simps]:
  "and_then (says cs) (says ds) = says (cs @ ds)" "and_then (halt e) m = halt e"
  "and_then m (says []) = m" "and_then (says []) m = m"
  by (cases m; auto simp: and_then_def says_def halt_def split: option.splits)+

lemma and_then_assoc: "and_then (and_then l m) n = and_then l (and_then m n)"
  by (auto simp: and_then_def split: option.splits)

lemma in_turn_append [io_simps]: "in_turn (ms @ ns) = and_then (in_turn ms) (in_turn ns)"
  by (induction ms) (auto simp: io_simps and_then_assoc)

lemma in_turn_says [io_simps]: "in_turn (map (\<lambda>x. says (f x)) xs) = says (concat (map f xs))"
  by (induction xs) (auto simp: io_simps)

lemma assertion_holds [io_simps]: "assertion True msg = says []"
  by (simp add: assertion_def)

lemma with_value_simps [io_simps]: "with_value (Some x) e f = f x" "with_value None e f = halt e"
  by (simp_all add: with_value_def)

section \<open>Lines\<close>

text \<open>What a line has to look like: its counted characters up to the width less one, with the
  characters of \<open>Printf\<close> in between, then a dollar sign when some are missing.\<close>

fun counted :: "call list \<Rightarrow> nat" where
  "counted [] = 0"
| "counted (Print s # cs) = length s + counted cs"
| "counted (Println s # cs) = length s + counted cs"
| "counted (Printf s # cs) = counted cs"

fun clipped :: "nat \<Rightarrow> call list \<Rightarrow> string" where
  "clipped n [] = []"
| "clipped n (Print s # cs) = map blank_newline (take n s) @ clipped (n - length s) cs"
| "clipped n (Println s # cs) = map blank_newline (take n s) @ clipped (n - length s) cs"
| "clipped n (Printf s # cs) = s @ clipped n cs"

fun plain_text :: "call list \<Rightarrow> string" where
  "plain_text [] = []"
| "plain_text (Print s # cs) = s @ plain_text cs"
| "plain_text (Println s # cs) = s @ plain_text cs"
| "plain_text (Printf s # cs) = s @ plain_text cs"

fun is_open :: "call \<Rightarrow> bool" where
  "is_open (Println s) = False"
| "is_open c = True"

definition line_text :: "nat \<Rightarrow> call list \<Rightarrow> string" where
  "line_text w cs =
     (if w = 0 then plain_text cs
      else clipped (w - 1) cs @ (if counted cs < w then [] else ''$''))"

definition fresh :: "nat \<Rightarrow> printer \<Rightarrow> bool" where
  "fresh w p \<longleftrightarrow> buf_size p = w \<and> buf_left p = w \<and> \<not> buf_clip p"

lemma fresh_printinit: "fresh w (printinit w)"
  by (simp add: fresh_def printinit_def)

text \<open>What \<open>print\<close> keeps in the buffer's variables.\<close>

definition midline :: "nat \<Rightarrow> nat \<Rightarrow> bool \<Rightarrow> printer \<Rightarrow> bool" where
  "midline w n clip p \<longleftrightarrow> buf_size p = Suc w \<and> buf_left p = Suc n \<and> buf_clip p = clip"

lemma run_call_midline:
  assumes "midline w n clip p" "is_open c" "clip \<longrightarrow> n = 0"
  shows "midline w (n - counted [c]) (clip \<or> counted [c] > n) (run_call c p)"
    "screen (run_call c p) = screen p @ clipped n [c]"
  using assms by (cases c; auto simp: midline_def printva_def Let_def)+

lemma run_calls_midline:
  assumes "midline w n clip p" "list_all is_open cs" "clip \<longrightarrow> n = 0"
  shows "midline w (n - counted cs) (clip \<or> counted cs > n) (run_calls cs p)
    \<and> screen (run_calls cs p) = screen p @ clipped n cs"
  using assms
proof (induction cs arbitrary: n clip p)
  case (Cons c cs)
  let ?k = "counted [c]"
  have c: "midline w (n - ?k) (clip \<or> ?k > n) (run_call c p)" "screen (run_call c p) = screen p @ clipped n [c]"
    using run_call_midline [OF Cons.prems(1)] Cons.prems by simp_all
  have k: "counted (c # cs) = ?k + counted cs" "clipped n (c # cs) = clipped n [c] @ clipped (n - ?k) cs"
    by (cases c; simp)+
  have "(clip \<or> ?k > n) \<longrightarrow> n - ?k = 0" using Cons.prems(3) by auto
  from Cons.IH [OF c(1) _ this] Cons.prems(2)
  have "midline w (n - ?k - counted cs) ((clip \<or> ?k > n) \<or> counted cs > n - ?k) (run_calls cs (run_call c p))"
    "screen (run_calls cs (run_call c p)) = screen p @ clipped n [c] @ clipped (n - ?k) cs"
    by (simp_all add: c(2))
  moreover have "((clip \<or> ?k > n) \<or> counted cs > n - ?k) = (clip \<or> counted (c # cs) > n)"
    by (auto simp: k(1))
  ultimately show ?case by (simp add: run_calls_def k)
qed (auto simp: run_calls_def)

lemma run_calls_unlimited:
  "buf_size p = 0 \<Longrightarrow> list_all is_open cs \<Longrightarrow>
   run_calls cs p = p\<lparr>screen := screen p @ plain_text cs\<rparr>"
proof (induction cs arbitrary: p)
  case (Cons c cs)
  then show ?case by (cases c) (auto simp: run_calls_def printva_def)
qed (simp add: run_calls_def)

lemma plain_append [simp]:
  "plain_text (cs @ ds) = plain_text cs @ plain_text ds" "counted (cs @ ds) = counted cs + counted ds"
  by (induction cs rule: plain_text.induct) auto

lemma clipped_append [simp]: "clipped n (cs @ ds) = clipped n cs @ clipped (n - counted cs) ds"
  by (induction n cs rule: clipped.induct) auto

lemma line_correct:
  assumes "fresh w p" "list_all is_open cs"
  shows "screen (run_calls (cs @ [Println s]) p) = screen p @ line_text w (cs @ [Println s]) @ [CHR 0x0A]
    \<and> fresh w (run_calls (cs @ [Println s]) p)"
proof (cases w)
  case 0
  then show ?thesis using assms run_calls_unlimited [of p cs]
    by (simp add: fresh_def run_calls_def println_def printva_def line_text_def Let_def)
next
  case (Suc n)
  let ?q = "run_calls cs p"
  have "midline n n False p" using assms(1) Suc by (simp add: fresh_def midline_def)
  then have q: "midline n (n - counted cs) (counted cs > n) ?q" "screen ?q = screen p @ clipped n cs"
    using run_calls_midline [of n n False p cs] assms(2) by simp_all
  have "run_calls (cs @ [Println s]) p = println s ?q" by (simp add: run_calls_def)
  then show ?thesis using q Suc
    by (auto simp: midline_def fresh_def println_def printva_def line_text_def Let_def)
qed

text \<open>The contract of a line printer, and what follows for a text of several lines.\<close>

fun split_lines :: "call list \<Rightarrow> call list list \<times> call list" where
  "split_lines [] = ([], [])"
| "split_lines (c # cs) =
     (let (ls, rest) = split_lines cs
      in if is_open c then (case ls of [] \<Rightarrow> ([], c # rest) | l # ls' \<Rightarrow> ((c # l) # ls', rest))
         else ([c] # ls, rest))"

locale line_printer =
  fixes put :: "call list \<Rightarrow> 's \<Rightarrow> 's" and shown :: "'s \<Rightarrow> string"
    and at_start :: "'s \<Rightarrow> bool" and fit :: "call list \<Rightarrow> string"
  assumes put_append: "put (cs @ ds) s = put ds (put cs s)"
    and put_nil: "put [] s = s"
    and put_line: "at_start s \<Longrightarrow> list_all is_open cs \<Longrightarrow>
      shown (put (cs @ [Println t]) s) = shown s @ fit (cs @ [Println t]) @ [CHR 0x0A]
        \<and> at_start (put (cs @ [Println t]) s)"
begin

lemma put_lines:
  "at_start s \<Longrightarrow> list_all (\<lambda>l. \<exists>cs t. l = cs @ [Println t] \<and> list_all is_open cs) ls \<Longrightarrow>
   shown (put (concat ls) s) = shown s @ concat (map (\<lambda>l. fit l @ [CHR 0x0A]) ls)
     \<and> at_start (put (concat ls) s)"
proof (induction ls arbitrary: s)
  case (Cons l ls)
  then obtain cs t where "l = cs @ [Println t]" "list_all is_open cs" by auto
  then show ?case using Cons put_line [of s cs t] put_append [of l "concat ls" s] by auto
qed (simp add: put_nil)

end

interpretation clip_printer: line_printer run_calls screen "fresh w" "line_text w" for w
  using line_correct by unfold_locales (auto simp: run_calls_def)

lemma split_lines_spec:
  "split_lines cs = (ls, rest) \<Longrightarrow> cs = concat ls @ rest \<and> list_all is_open rest \<and>
     list_all (\<lambda>l. \<exists>ds t. l = ds @ [Println t] \<and> list_all is_open ds) ls"
proof (induction cs arbitrary: ls rest)
  case (Cons c cs)
  obtain ls1 rest1 where s: "split_lines cs = (ls1, rest1)" by (cases "split_lines cs")
  note IH = Cons.IH [OF s]
  show ?case
  proof (cases "is_open c")
    case True
    show ?thesis
    proof (cases ls1)
      case (Cons l ls2)
      then obtain ds t where "l = ds @ [Println t]" "list_all is_open ds" using IH by auto
      then have "c # l = (c # ds) @ [Println t]" "list_all is_open (c # ds)" using True by auto
      then show ?thesis using IH Cons.prems s True Cons by auto
    qed (use IH Cons.prems s True in auto)
  next
    case False
    then obtain t where "c = Println t" by (cases c) auto
    then have "[c] = [] @ [Println t]" by simp
    then show ?thesis using IH Cons.prems s False
      by (auto simp del: append.simps intro!: exI [of _ "[]"])
  qed
qed simp

text \<open>C23: whatever is printed appears line by line, each line complete when it is shorter than the
  width (or the width is 0), else cut to one character less and marked with a dollar sign.\<close>

theorem lines_clipped:
  assumes "split_lines cs = (ls, [])"
  shows "screen (run_calls cs (printinit w)) = concat (map (\<lambda>l. line_text w l @ [CHR 0x0A]) ls)"
  using clip_printer.put_lines [of w "printinit w" ls] split_lines_spec [OF assms]
  by (simp add: fresh_printinit) (simp add: printinit_def)

lemma lines_clipped_witness:
  "screen (run_calls [Print ''abc'', Printf ''*'', Println ''defg'', Println ''ab''] (printinit 5)) =
     ''abc*d$'' @ [CHR 0x0A] @ ''ab'' @ [CHR 0x0A]"
proof -
  have "split_lines [Print ''abc'', Printf ''*'', Println ''defg'', Println ''ab''] =
      ([[Print ''abc'', Printf ''*'', Println ''defg''], [Println ''ab'']], [])" by simp
  from lines_clipped [OF this, of 5] show ?thesis by (simp add: line_text_def blank_newline_def)
qed

lemma line_text_width: "0 < w \<Longrightarrow> list_all (\<lambda>c. \<nexists>s. c = Printf s) cs \<Longrightarrow> length (line_text w cs) \<le> w"
proof -
  have "length (clipped n cs) = min n (counted cs)" if "list_all (\<lambda>c. \<nexists>s. c = Printf s) cs" for n
    using that by (induction n cs rule: clipped.induct) auto
  moreover assume "0 < w" "list_all (\<lambda>c. \<nexists>s. c = Printf s) cs"
  ultimately show ?thesis by (simp add: line_text_def)
qed

end
