(* ===== verification/Ioreg_Values.thy ===== *)
theory Ioreg_Values
  imports Ioreg_Print
begin

text \<open>
  Property values and how \<open>cfshow\<close> of \<open>src/src/ioreg.c\<close> prints them. A CoreFoundation object is what its
  accessors return: a number is \<open>None\<close> when it is no \<open>long long\<close>, a string when it has no MacRoman form.
\<close>

datatype cf =
    CFArray "cf list"
  | CFBoolean bool
  | CFData mem
  | CFDictionary "(cf \<times> cf) list"
  | CFNumber "64 word option"
  | CFSet "cf list"
  | CFString "string option"
  | CFOther

section \<open>Colours and numbers\<close>

definition RED :: string where "RED = CHR 0x1B # ''[0;31m''"
definition CYAN :: string where "CYAN = CHR 0x1B # ''[0;36m''"
definition BOLD :: string where "BOLD = CHR 0x1B # ''[1;1m''"
definition NORMAL :: string where "NORMAL = CHR 0x1B # ''[0;0m''"

section \<open>Data\<close>

definition isprint :: "byte \<Rightarrow> bool" where
  "isprint b \<longleftrightarrow> 32 \<le> b \<and> b \<le> 126"

text \<open>The inner loop of the scan: printable and symbol characters are counted, the rest is returned.\<close>

fun ascii_run :: "mem \<Rightarrow> 32 word \<Rightarrow> 32 word \<Rightarrow> 32 word \<times> 32 word \<times> mem" where
  "ascii_run [] normal symbol = (normal, symbol, [])"
| "ascii_run (b # bs) normal symbol =
     (if isprint b then ascii_run bs (normal + 1) symbol
      else if 128 \<le> b \<and> b \<le> 254 then ascii_run bs normal (symbol + 1)
      else (normal, symbol, b # bs))"

lemma ascii_run_length: "ascii_run bs n s = (n', s', rest) \<Longrightarrow> length rest \<le> length bs"
  by (induction bs n s rule: ascii_run.induct) (auto split: if_splits)

text \<open>The scan for strings. \<open>padding\<close>: whether zeros in place of a new string are skipped, as
  \<open>printData\<close> does. The index of the code is the number of bytes before the returned rest.\<close>

function string_scan :: "bool \<Rightarrow> mem \<Rightarrow> 32 word \<Rightarrow> 32 word \<Rightarrow> 32 word \<times> 32 word \<times> mem" where
  "string_scan padding [] normal symbol = (normal, symbol, [])"
| "string_scan padding (b # bs) normal symbol =
     (if b = 0 then (normal, symbol, if padding then dropWhile (\<lambda>b. b = 0) (b # bs) else b # bs)
      else case ascii_run (b # bs) normal symbol of
             (normal', symbol', []) \<Rightarrow> (normal', symbol', [])
           | (normal', symbol', c # rest) \<Rightarrow>
               if c = 0 then string_scan padding rest normal' symbol' else (normal', symbol', c # rest))"
  by pat_completeness auto
termination
  by (relation "measure (\<lambda>(p, bs, n, s). length bs)")
    (simp, auto simp del: ascii_run.simps dest!: ascii_run_length [OF sym])

definition is_strings :: "bool \<Rightarrow> bool \<Rightarrow> mem \<Rightarrow> bool" where
  "is_strings cfshowhex padding bytes =
     (let (normal, symbol, rest) = string_scan padding bytes 0 0;
          index = (if drop_bit 2 normal < symbol then 0
                   else if length bytes = 1 then 0
                   else if cfshowhex then 0
                   else length bytes - length rest)
      in index \<ge> length bytes \<and> normal \<noteq> 0)"

fun quoted_strings :: "mem \<Rightarrow> nat \<Rightarrow> bool \<Rightarrow> call list" where
  "quoted_strings [] index quoted = (if quoted then [Print [CHR 0x22]] else [])"
| "quoted_strings (b # bs) index quoted =
     (if b \<noteq> 0 then
        (if quoted then [] else [Print (if index \<noteq> 0 then CHR '','' # [CHR 0x22] else [CHR 0x22])]) @
        Print [char_of (unat b)] # quoted_strings bs (index + 1) True
      else if quoted then Print [CHR 0x22] # quoted_strings bs (index + 1) False
      else [])"

definition hex_bytes :: "mem \<Rightarrow> call list" where
  "hex_bytes bytes = map (\<lambda>b. Print (show_hex_pad 2 (unat b))) bytes"

definition cfdatashow :: "bool \<Rightarrow> mem \<Rightarrow> call list" where
  "cfdatashow cfshowhex bytes =
     [Print ''<''] @
     (if is_strings cfshowhex False bytes then quoted_strings bytes 0 False else hex_bytes bytes) @
     [Print ''>'']"

section \<open>Objects\<close>

definition cfbooleanshow :: "bool \<Rightarrow> call list" where
  "cfbooleanshow b = [Print (if b then ''Yes'' else ''No'')]"

definition cfnumbershow :: "bool \<Rightarrow> 64 word option \<Rightarrow> call list" where
  "cfnumbershow cfshowhex number =
     (case number of
        None \<Rightarrow> []
      | Some n \<Rightarrow> if cfshowhex then [Print (''0x'' @ show_hex (unat n))] else [Print (show_nat (unat n))])"

definition cfstringshow :: "string option \<Rightarrow> call list" where
  "cfstringshow s = (case s of None \<Rightarrow> [] | Some c \<Rightarrow> [Print ([CHR 0x22] @ c @ [CHR 0x22])])"

text \<open>The applier functions get the flag \<open>first\<close> and what each value prints.\<close>

fun appliers :: "bool \<Rightarrow> call list list \<Rightarrow> call list" where
  "appliers first [] = []"
| "appliers first (cs # css) = (if first then [] else [Print '','']) @ cs @ appliers False css"

definition cfarrayshow :: "call list list \<Rightarrow> call list" where
  "cfarrayshow vs = [Print ''(''] @ appliers True vs @ [Print '')'']"

definition cfsetshow :: "call list list \<Rightarrow> call list" where
  "cfsetshow vs = [Print ''[''] @ appliers True vs @ [Print '']'']"

definition cfdictionaryshowapplier :: "call list \<times> call list \<Rightarrow> call list" where
  "cfdictionaryshowapplier kv = fst kv @ [Print ''='', Printf RED] @ snd kv @ [Printf NORMAL]"

definition cfdictionaryshow :: "(call list \<times> call list) list \<Rightarrow> call list" where
  "cfdictionaryshow kvs = [Print ''{''] @ appliers True (map cfdictionaryshowapplier kvs) @ [Print ''}'']"

primrec cfshow :: "bool \<Rightarrow> cf \<Rightarrow> call list" where
  "cfshow hex (CFArray vs) = cfarrayshow (map (cfshow hex) vs)"
| "cfshow hex (CFBoolean b) = cfbooleanshow b"
| "cfshow hex (CFData bytes) = cfdatashow hex bytes"
| "cfshow hex (CFDictionary kvs) = cfdictionaryshow (map (map_prod (cfshow hex) (cfshow hex)) kvs)"
| "cfshow hex (CFNumber n) = cfnumbershow hex n"
| "cfshow hex (CFSet vs) = cfsetshow (map (cfshow hex) vs)"
| "cfshow hex (CFString s) = cfstringshow s"
| "cfshow hex CFOther = [Print ''<unknown object>'']"

section \<open>Strings in data\<close>

text \<open>Strings packed with a zero between two of them.\<close>

fun packed :: "mem list \<Rightarrow> mem" where
  "packed [] = []"
| "packed [s] = s"
| "packed (s # t # ss) = s @ 0 # packed (t # ss)"

definition good_string :: "mem \<Rightarrow> bool" where
  "good_string s \<longleftrightarrow> s \<noteq> [] \<and> list_all isprint s"

definition quote :: "mem \<Rightarrow> string" where
  "quote s = [CHR 0x22] @ map (\<lambda>b. char_of (unat b)) s @ [CHR 0x22]"

fun commas :: "string list \<Rightarrow> string" where
  "commas [] = []"
| "commas [s] = s"
| "commas (s # t # ss) = s @ '','' @ commas (t # ss)"

lemma isprint_facts: "isprint b \<Longrightarrow> b \<noteq> 0" "\<not> isprint 0"
  by (auto simp: isprint_def)

lemma ascii_run_string:
  "list_all isprint s \<Longrightarrow> ascii_run (s @ rest) n m = ascii_run rest (n + of_nat (length s)) m"
  by (induction s arbitrary: n) (auto simp: algebra_simps)

lemma ascii_run_zero: "ascii_run (0 # bs) n m = (n, m, 0 # bs)"
  by (simp add: isprint_facts)

lemma string_scan_step:
  assumes "good_string s"
  shows "string_scan p (s @ 0 # bs) n m = string_scan p bs (n + of_nat (length s)) m"
    "string_scan p s n m = (n + of_nat (length s), m, [])"
proof -
  obtain b t where s: "s = b # t" "b \<noteq> 0" using assms isprint_facts by (cases s) (auto simp: good_string_def)
  have l: "list_all isprint s" using assms by (simp add: good_string_def)
  show "string_scan p (s @ 0 # bs) n m = string_scan p bs (n + of_nat (length s)) m"
    using ascii_run_string [OF l, of "0 # bs" n m] ascii_run_zero s by simp
  show "string_scan p s n m = (n + of_nat (length s), m, [])"
    using ascii_run_string [OF l, of "[]" n m] s by simp
qed

fun text_count :: "mem list \<Rightarrow> nat" where
  "text_count [] = 0"
| "text_count (s # ss) = length s + text_count ss"

lemma string_scan_packed:
  "ss \<noteq> [] \<Longrightarrow> list_all good_string ss \<Longrightarrow>
   string_scan p (packed ss @ replicate k 0) n m =
     (n + of_nat (text_count ss), m, if p then [] else replicate (k - 1) 0)"
proof (induction ss arbitrary: n rule: packed.induct)
  case (2 s)
  show ?case
  proof (cases k)
    case (Suc j)
    have "dropWhile (\<lambda>b. b = 0) (replicate i (0 :: byte)) = []" for i by (induction i) auto
    then have "string_scan p (replicate j 0) n' m = (n', m, if p then [] else replicate j 0)" for n'
      by (cases j) auto
    then show ?thesis using 2 Suc string_scan_step(1) [of s p "replicate j 0" n m] by simp
  qed (use 2 string_scan_step in simp)
next
  case (3 s t ss)
  then show ?case
    using string_scan_step(1) [of s p "packed (t # ss) @ replicate k 0" n m] by (simp add: algebra_simps)
qed simp

lemma text_count_le: "text_count ss \<le> length (packed ss)"
  by (induction ss rule: packed.induct) auto

lemma is_strings_packed:
  assumes "ss \<noteq> []" "list_all good_string ss" "length (packed ss) + k < 2 ^ 32" "length (packed ss) + k \<noteq> 1"
  shows "is_strings False p (packed ss @ replicate k 0) \<longleftrightarrow> p \<or> k \<le> 1"
proof -
  have pos: "0 < text_count ss" using assms(1,2) by (cases ss) (auto simp: good_string_def)
  then have "length (packed ss) \<noteq> 0" using text_count_le [of ss] by linarith
  moreover have "(of_nat (text_count ss) :: 32 word) \<noteq> 0"
  proof -
    have "unat (of_nat (text_count ss) :: 32 word) = text_count ss"
      using assms(3) text_count_le [of ss] by (simp add: unat_of_nat take_bit_eq_mod)
    then show ?thesis using pos by auto
  qed
  ultimately show ?thesis
    using assms(4) by (auto simp: is_strings_def string_scan_packed [OF assms(1,2)] Let_def)
qed

lemma quoted_run:
  "list_all isprint s \<Longrightarrow>
   plain_text (quoted_strings (s @ rest) i True) =
     map (\<lambda>b. char_of (unat b)) s @ plain_text (quoted_strings rest (i + length s) True)"
  by (induction s arbitrary: i) (auto simp: isprint_facts)

lemma quoted_string:
  assumes "good_string s"
  shows "plain_text (quoted_strings (s @ rest) i False) =
    (if i \<noteq> 0 then '','' else []) @ [CHR 0x22] @ map (\<lambda>b. char_of (unat b)) s @
    plain_text (quoted_strings rest (i + length s) True)"
proof -
  obtain b t where "s = b # t" "b \<noteq> 0" "list_all isprint t"
    using assms isprint_facts by (cases s) (auto simp: good_string_def)
  then show ?thesis using quoted_run [of t rest "i + 1"] by simp
qed

lemma quoted_packed:
  "ss \<noteq> [] \<Longrightarrow> list_all good_string ss \<Longrightarrow>
   plain_text (quoted_strings (packed ss @ replicate k 0) i False) =
     (if i \<noteq> 0 then '','' else []) @ commas (map quote ss)"
proof (induction ss arbitrary: i rule: packed.induct)
  case (2 s)
  have "plain_text (quoted_strings (replicate k 0) j True) = [CHR 0x22]" for j
  proof (cases k)
    case (Suc k')
    then show ?thesis by (cases k') auto
  qed simp
  then show ?case using 2 quoted_string [of s "replicate k 0" i] by (simp add: quote_def)
next
  case (3 s t ss)
  then show ?case using quoted_string [of s "0 # packed (t # ss) @ replicate k 0" i] by (simp add: quote_def)
qed simp

definition hex_text :: "mem \<Rightarrow> string" where
  "hex_text bytes = concat (map (\<lambda>b. show_hex_pad 2 (unat b)) bytes)"

lemma plain_hex_bytes: "plain_text (hex_bytes bytes) = hex_text bytes"
  by (induction bytes) (auto simp: hex_bytes_def hex_text_def)

text \<open>\<open>cfdatashow\<close> prints packed strings as strings, in order, when they are followed by at most one
  zero; with more padding, which its comment calls valid, all bytes come out in hexadecimal.\<close>

theorem cfdatashow_strings:
  assumes "ss \<noteq> []" "list_all good_string ss" "length (packed ss) + k < 2 ^ 32" "length (packed ss) + k \<noteq> 1"
  shows "plain_text (cfdatashow False (packed ss @ replicate k 0)) =
    ''<'' @ (if k \<le> 1 then commas (map quote ss) else hex_text (packed ss @ replicate k 0)) @ ''>''"
  using is_strings_packed [OF assms, of False] quoted_packed [OF assms(1,2), of k 0]
  by (simp add: cfdatashow_def plain_hex_bytes)

lemma cfdatashow_strings_witness:
  "plain_text (cfdatashow False [97, 98, 0, 99]) = ''<'' @ [CHR 0x22] @ ''ab'' @ [CHR 0x22] @ '','' @ [CHR 0x22] @ ''c'' @ [CHR 0x22] @ ''>'' \<and>
   plain_text (cfdatashow False [97, 98, 0, 0]) = ''<61620000>''"
proof -
  have c: "char_of (97 :: nat) = CHR ''a''" "char_of (98 :: nat) = CHR ''b''" "char_of (99 :: nat) = CHR ''c''" by code_simp+
  have h: "hex_text [97, 98, 0, 0] = ''61620000''" by code_simp
  have "list_all good_string [[97, 98], [99]]" "list_all good_string [[97, 98]]"
    by (simp_all add: good_string_def isprint_def)
  moreover have "replicate 2 0 = [0, 0 :: byte]" by (simp add: numeral_2_eq_2)
  ultimately show ?thesis
    using cfdatashow_strings [of "[[97, 98], [99]]" 0] cfdatashow_strings [of "[[97, 98]]" 2]
    by (simp add: quote_def c h)
qed

end
