(* ===== verification/Ioreg_Registry.thy ===== *)
theory Ioreg_Registry
  imports Ioreg_Values
begin

text \<open>
  What the registry explorer works on: the options, the registry, a parameter whose entries hold what
  IOKit answers about them, and \<open>indent\<close>, which draws the branches of the tree from \<open>stackOfBits\<close>.
  The registry does not change while the program runs.
\<close>

section \<open>Options\<close>

text \<open>\<open>struct options\<close>; a null pointer is \<open>None\<close>, \<open>depth\<close> and \<open>width\<close> are below \<open>2 ^ 32\<close>.\<close>

record options =
  archive_opt :: bool
  bold_opt :: bool
  format_opt :: bool
  hex_opt :: bool
  inheritance_opt :: bool
  list_opt :: bool
  root_opt :: bool
  tree_opt :: bool
  class_opt :: "string option"
  depth_opt :: nat
  key_opt :: "string option"
  name_opt :: "string option"
  plane_opt :: string
  width_opt :: nat
  open_opt :: bool

text \<open>The values \<open>main\<close> assigns first, with the width of the screen (0 when there is none). It does not
  assign \<open>open\<close>, which keeps the value it happens to have.\<close>

definition initial_options :: "string \<Rightarrow> bool \<Rightarrow> nat \<Rightarrow> options" where
  "initial_options kIOServicePlane garbage ws_col =
     \<lparr>archive_opt = False, bold_opt = False, format_opt = False, hex_opt = False, inheritance_opt = False,
      list_opt = False, root_opt = False, tree_opt = False, class_opt = None, depth_opt = 0, key_opt = None,
      name_opt = None, plane_opt = kIOServicePlane, width_opt = ws_col, open_opt = garbage\<rparr>"

section \<open>The registry\<close>

text \<open>An entry of the device tree plane: its name, the property search that goes up to its parents, and
  its path.\<close>

record dt_entry =
  dt_name :: "string option"
  dt_search :: "string \<Rightarrow> cf option"
  dt_path :: "string option"

text \<open>An entry, with what the calls about it return (\<open>None\<close>: they fail).\<close>

record reg_entry =
  e_name :: "string option"
  e_location :: "string option"
  e_class :: "string option"
  e_id :: "64 word option"
  e_conforms :: "string \<Rightarrow> bool"
  e_busy :: "(64 word \<times> 32 word \<times> 64 word) option"
  e_retain :: "32 word"
  e_properties :: "(string \<times> cf) list option"
  e_property :: "string \<Rightarrow> cf option"
  e_dt :: dt_entry
  e_dt_parent :: "dt_entry option"

text \<open>A service with the children its iterator returns; \<open>None\<close> when there is no iterator.\<close>

datatype service = Service (entry_of: reg_entry) (children_of: "service list option")

text \<open>Other calls into the system, and the constants of its headers: \<open>fast_cstring\<close> tells whether
  \<open>CFStringGetCStringPtr\<close> returns a pointer, \<open>is_utf8\<close> whether \<open>CFStringCreateWithCString\<close> makes a string;
  the bold strings are those of the terminal.\<close>

record iokit =
  superclass :: "string \<Rightarrow> string option"
  fast_cstring :: "string \<Rightarrow> bool"
  is_utf8 :: "string \<Rightarrow> bool"
  boldon :: string
  boldoff :: string
  can_open :: "string \<Rightarrow> bool"
  find_phandle :: "32 word \<Rightarrow> dt_entry option"
  kIOServiceRegisteredState :: "64 word"
  kIOServiceMatchedState :: "64 word"
  kIOServiceInactiveState :: "64 word"
  kMicrosecondScale :: "64 word"

text \<open>For examples: an entry that has a name and a class and nothing else.\<close>

definition named_entry :: "string \<Rightarrow> string \<Rightarrow> reg_entry" where
  "named_entry name class =
     \<lparr>e_name = Some name, e_location = None, e_class = Some class, e_id = Some 1, e_conforms = (\<lambda>c. c = class),
      e_busy = None, e_retain = 1, e_properties = Some [], e_property = (\<lambda>k. None),
      e_dt = \<lparr>dt_name = None, dt_search = (\<lambda>k. None), dt_path = None\<rparr>, e_dt_parent = None\<rparr>"

record ctx =
  c_service :: reg_entry
  c_depth :: nat
  c_bits :: "64 word"
  c_options :: options

definition add32 :: "nat \<Rightarrow> nat \<Rightarrow> nat" where
  "add32 a b = (a + b) mod 2 ^ 32"

section \<open>Indentation\<close>

text \<open>\<open>a << n\<close> on \<open>int\<close>, then converted to \<open>UInt64\<close>. Shifting into the sign bit gives what compilers
  give; a shift by the width or more is undefined.\<close>

definition int_shl :: "32 word \<Rightarrow> nat \<Rightarrow> 64 word option" where
  "int_shl a n = (if n < 32 then Some (scast (push_bit n a)) else None)"

definition indent_column :: "64 word \<Rightarrow> nat \<Rightarrow> io" where
  "indent_column stackOfBits index =
     with_value (int_shl 1 index) Undefined
       (\<lambda>m. says [Print (if stackOfBits AND m \<noteq> 0 then ''| '' else ''  '')])"

definition indent :: "bool \<Rightarrow> nat \<Rightarrow> 64 word \<Rightarrow> io" where
  "indent isNode serviceDepth stackOfBits =
     (if isNode then
        and_then (in_turn (map (indent_column stackOfBits) [0..<serviceDepth])) (says [Print ''+-o ''])
      else in_turn (map (indent_column stackOfBits) [0..<serviceDepth + 2]))"

lemma scast_exp:
  assumes "n < 31"
  shows "(scast (2 ^ n :: 32 word) :: 64 word) = 2 ^ n"
proof (rule bit_word_eqI)
  fix i assume i: "i < LENGTH(64)"
  show "bit (scast (2 ^ n :: 32 word) :: 64 word) i \<longleftrightarrow> bit (2 ^ n :: 64 word) i"
    using assms i by (auto simp: bit_simps)
qed

lemma int_shl_1: "n < 31 \<Longrightarrow> int_shl 1 n = Some (2 ^ n)"
  by (simp add: int_shl_def scast_exp)

lemma int_shl_2: "n < 30 \<Longrightarrow> int_shl 2 n = Some (2 ^ Suc n)"
  using scast_exp [of "Suc n"] by (simp add: int_shl_def push_bit_eq_mult mult.commute)

lemma and_exp: "(w :: 64 word) AND 2 ^ i \<noteq> 0 \<longleftrightarrow> i < 64 \<and> bit w i"
  using bit_imp_le_length [of w i] by (auto simp: and_exp_eq_0_iff_not_bit)

definition column_text :: "bool \<Rightarrow> string" where
  "column_text b = (if b then ''| '' else ''  '')"

lemma indent_column_bit: "i < 31 \<Longrightarrow> indent_column bits i = says [Print (column_text (bit bits i))]"
  by (simp add: indent_column_def int_shl_1 with_value_def and_exp column_text_def)

lemma in_turn_cong: "(\<And>x. x \<in> set xs \<Longrightarrow> f x = g x) \<Longrightarrow> in_turn (map f xs) = in_turn (map g xs)"
  by (induction xs) auto

text \<open>For depths whose shifts fit.\<close>

lemma indent_node:
  "d < 32 \<Longrightarrow> indent True d bits =
    says (map (\<lambda>i. Print (column_text (bit bits i))) [0..<d] @ [Print ''+-o ''])"
  using in_turn_cong [of "[0..<d]" "indent_column bits" "\<lambda>i. says [Print (column_text (bit bits i))]"]
  by (simp add: indent_def indent_column_bit io_simps concat_map_singleton)

lemma indent_item:
  assumes "d < 30"
  shows "indent False d bits = says (map (\<lambda>i. Print (column_text (bit bits i))) [0..<d + 2])"
proof -
  have "in_turn (map (indent_column bits) [0..<d + 2]) =
      in_turn (map (\<lambda>i. says [Print (column_text (bit bits i))]) [0..<d + 2])"
    using assms by (intro in_turn_cong indent_column_bit) (simp only: set_upt atLeastLessThan_iff, linarith)
  then show ?thesis
    unfolding indent_def if_False in_turn_says by (simp only: concat_map_singleton)
qed

abbreviation indent_ctx :: "ctx \<Rightarrow> io" where
  "indent_ctx c \<equiv> indent False (c_depth c) (c_bits c)"

end
