(* ===== verification/Ioreg_Format.thy ===== *)
theory Ioreg_Format
  imports Ioreg_Registry
begin

text \<open>
  The smart formatting of \<open>src/src/ioreg.c\<close> (option \<open>-f\<close>): \<open>printProp\<close> chooses a decoder by the name of the
  property; \<open>printData\<close> shows all other data as strings or as a hexadecimal dump as wide as the screen.
\<close>

section \<open>Cells\<close>

text \<open>\<open>p[i]\<close> for a \<open>UInt32 *\<close> at the start of the data; reading behind the data is undefined.\<close>

definition cell :: "mem \<Rightarrow> nat \<Rightarrow> 32 word option" where
  "cell m i = map_option of_nat (rd_le 4 m (4 * i))"

definition show_pad :: "nat \<Rightarrow> nat \<Rightarrow> string" where
  "show_pad k n = replicate (k - length (show_nat n)) CHR ''0'' @ show_nat n"

definition data_of :: "cf \<Rightarrow> mem option" where
  "data_of v = (case v of CFData m \<Rightarrow> Some m | _ \<Rightarrow> None)"

definition getRecursivePropValue :: "dt_entry \<Rightarrow> string \<Rightarrow> stop + int" where
  "getRecursivePropValue e propertyName =
     (case dt_search e propertyName of
        None \<Rightarrow> Inl (Failed ''unable to get properties'')
      | Some ptr \<Rightarrow>
          (case Option.bind (data_of ptr) (\<lambda>m. cell m 0) of
             None \<Rightarrow> Inl Undefined
           | Some w \<Rightarrow> Inr (sint w)))"

definition with_result :: "stop + 'a \<Rightarrow> ('a \<Rightarrow> io) \<Rightarrow> io" where
  "with_result r f = (case r of Inl e \<Rightarrow> halt e | Inr x \<Rightarrow> f x)"

lemma with_result_simps [io_simps]: "with_result (Inr x) f = f x" "with_result (Inl e) f = halt e"
  by (simp_all add: with_result_def)

text \<open>A sum of \<open>SInt32\<close>s, undefined on overflow.\<close>

definition sint_sum :: "int list \<Rightarrow> stop + int" where
  "sint_sum xs =
     (if \<forall>n \<in> set [0..<length xs + 1]. - (2 ^ 31) \<le> sum_list (take n xs) \<and> sum_list (take n xs) < 2 ^ 31
      then Inr (sum_list xs) else Inl Undefined)"

section \<open>Addresses\<close>

definition address_type :: "32 word \<Rightarrow> string" where
  "address_type tmpCell =
     (case unat (drop_bit 24 (tmpCell AND 0x03000000)) of
        0 \<Rightarrow> ''Config''
      | Suc 0 \<Rightarrow> ''I/O''
      | Suc (Suc 0) \<Rightarrow> ''Mem''
      | Suc (Suc (Suc 0)) \<Rightarrow> ''64-bit''
      | _ \<Rightarrow> ''?'')"

definition hex8 :: "32 word \<Rightarrow> string" where
  "hex8 w = show_hex_pad 8 (unat w)"

text \<open>The four lines of a \<open>struct physAddrProperty\<close>.\<close>

definition phys_lines :: "nat \<Rightarrow> 32 word \<Rightarrow> 32 word \<Rightarrow> 32 word \<Rightarrow> 32 word \<Rightarrow> 32 word \<Rightarrow> string list" where
  "phys_lines count physHi physMid physLo sizeHi sizeLo =
     (let bus = drop_bit 16 (physHi AND 0x00FF0000);
          device = drop_bit 11 (physHi AND 0x0000F800);
          func = drop_bit 8 (physHi AND 0x00000700);
          register = drop_bit 0 (physHi AND 0x000000FF);
          isAbsolute = (if physHi AND 0x80000000 \<noteq> 0 then ''abs'' else ''rel'');
          isPrefetch = (if physHi AND 0x40000000 \<noteq> 0 then '', prefetch'' else []);
          isAlias = (if physHi AND 0x20000000 \<noteq> 0 then '', alias'' else [])
      in [''    '' @ show_pad 2 count @ '': phys.hi: '' @ hex8 physHi @ '' phys.mid: '' @ hex8 physMid @
            '' phys.lo: '' @ hex8 physLo,
          ''        size.hi: '' @ hex8 sizeHi @ '' size.lo: '' @ hex8 sizeLo,
          ''        bus: '' @ show_nat (unat bus) @ '' dev: '' @ show_nat (unat device) @
            '' func: '' @ show_nat (unat func) @ '' reg: '' @ show_nat (unat register),
          ''        type: '' @ address_type physHi @ '' flags: '' @ isAbsolute @ isPrefetch @ isAlias])"

definition phys_entry :: "mem \<Rightarrow> ctx \<Rightarrow> nat \<Rightarrow> io" where
  "phys_entry m c count =
     with_value (cell m (5 * count)) Undefined (\<lambda>physHi.
     with_value (cell m (5 * count + 1)) Undefined (\<lambda>physMid.
     with_value (cell m (5 * count + 2)) Undefined (\<lambda>physLo.
     with_value (cell m (5 * count + 3)) Undefined (\<lambda>sizeHi.
     with_value (cell m (5 * count + 4)) Undefined (\<lambda>sizeLo.
       in_turn (map (\<lambda>line. and_then (indent_ctx c) (says [Println line]))
         (phys_lines count physHi physMid physLo sizeHi sizeLo)))))))"

definition printPhysAddr :: "cf \<Rightarrow> ctx \<Rightarrow> io" where
  "printPhysAddr value c =
     (case data_of value of
        None \<Rightarrow> halt (Failed ''invalid phys addr'')
      | Some m \<Rightarrow>
          if length m = 0 then says [Println ''<>'']
          else and_then (says [Println []]) (in_turn (map (phys_entry m c) [0..<length m div 20])))"

section \<open>Slot names\<close>

text \<open>The rounds from \<open>count\<close> on; \<open>ptr\<close> is the offset of \<open>bytePtr\<close> in the data.\<close>

fun slot_names :: "mem \<Rightarrow> ctx \<Rightarrow> 32 word \<Rightarrow> nat list \<Rightarrow> nat \<Rightarrow> io" where
  "slot_names m c avail_slots [] ptr = says []"
| "slot_names m c avail_slots (count # counts) ptr =
     (if avail_slots AND push_bit count 1 \<noteq> 0 then
        and_then (indent_ctx c)
          (with_value (cstr_at m ptr) Undefined (\<lambda>name.
             and_then (says [Println (''    '' @ show_pad 2 count @ '': '' @ map (\<lambda>b. char_of (unat b)) name)])
               (slot_names m c avail_slots counts (ptr + length name + 1))))
      else slot_names m c avail_slots counts ptr)"

definition printSlotNames :: "cf \<Rightarrow> ctx \<Rightarrow> io" where
  "printSlotNames value c =
     (case data_of value of
        None \<Rightarrow> halt (Failed ''invalid phys addr'')
      | Some m \<Rightarrow>
          if length m = 0 then says [Println ''<>'']
          else with_value (cell m 0) Undefined (\<lambda>avail_slots.
            if avail_slots = 0 then says [Println ''<>'']
            else and_then (says [Println []]) (slot_names m c avail_slots [0..<32] 4)))"

section \<open>Ranges\<close>

definition range_title :: "string \<Rightarrow> int \<Rightarrow> call list" where
  "range_title title count =
     [Print title] @
     (if count > 1 then
        [Print ''-''] @ map (\<lambda>i. Print (if int i = count then ''-------- '' else ''---------'')) [2..<nat count + 1]
      else [Print '' ''])"

definition print_cells :: "mem \<Rightarrow> nat \<Rightarrow> nat \<Rightarrow> io" where
  "print_cells m position n =
     in_turn (map (\<lambda>i. with_value (cell m (position + i)) Undefined (\<lambda>w. says [Print (hex8 w @ '' '')])) [0..<n])"

text \<open>\<open>length/(elemSize * sizeof(UInt32))\<close> in 64 bits, \<open>None\<close> for a division by zero.\<close>

definition range_count :: "nat \<Rightarrow> int \<Rightarrow> nat option" where
  "range_count len elemSize =
     (let d = nat (elemSize * 4 mod 2 ^ 64) in if d = 0 then None else Some (len div d))"

definition printPCIRanges :: "cf \<Rightarrow> ctx \<Rightarrow> io" where
  "printPCIRanges value c =
     (case data_of value of
        None \<Rightarrow> halt (Failed ''invalid ranges'')
      | Some m \<Rightarrow>
          if length m = 0 then says [Println ''<>'']
          else with_value (e_dt_parent (c_service c)) (Failed ''unable to get device tree parent'') (\<lambda>parentObj.
            with_result (getRecursivePropValue parentObj ''#address-cells'') (\<lambda>parentACells.
            with_result (getRecursivePropValue (e_dt (c_service c)) ''#address-cells'') (\<lambda>childACells.
            with_result (getRecursivePropValue (e_dt (c_service c)) ''#size-cells'') (\<lambda>childSCells.
            with_result (sint_sum [childACells, parentACells, childSCells]) (\<lambda>elemSize.
              in_turn
                [says [Println []], indent_ctx c,
                 says ([Print ''    ''] @ range_title ''-child--'' childACells @ range_title ''-parent-'' parentACells @
                   range_title ''-size---'' childSCells @ [Println []]),
                 with_value (range_count (length m) elemSize) Undefined (\<lambda>nRanges.
                   in_turn (map (\<lambda>j. in_turn
                     [indent_ctx c, says [Print ''    ''], print_cells m (j * nat elemSize) (nat elemSize), says [Println []]])
                     [0..<nRanges]))]))))))"

section \<open>Interrupts\<close>

text \<open>The path after its first colon.\<close>

definition makepath :: "dt_entry \<Rightarrow> stop + string" where
  "makepath target =
     (case dt_path target of
        None \<Rightarrow> Inl (Failed ''unable to get path'')
      | Some path \<Rightarrow>
          (case memmem path '':'' of
             None \<Rightarrow> Inl Undefined
           | Some k \<Rightarrow> Inr (drop (k + 1) path)))"

definition lookupPHandle :: "iokit \<Rightarrow> 32 word \<Rightarrow> dt_entry option" where
  "lookupPHandle env phandle = find_phandle env phandle"

definition cell_sum :: "dt_entry \<Rightarrow> stop + int" where
  "cell_sum e =
     (case getRecursivePropValue e ''#address-cells'' of
        Inl err \<Rightarrow> Inl err
      | Inr a \<Rightarrow>
          (case getRecursivePropValue e ''#interrupt-cells'' of
             Inl err \<Rightarrow> Inl err
           | Inr b \<Rightarrow> sint_sum [a, b]))"

text \<open>The table walk from the cell \<open>position\<close> on. Each round takes at least the handle.\<close>

fun interrupt_map :: "nat \<Rightarrow> iokit \<Rightarrow> mem \<Rightarrow> ctx \<Rightarrow> int \<Rightarrow> nat \<Rightarrow> nat \<Rightarrow> io" where
  "interrupt_map 0 env m c childCells position count = halt Endless"
| "interrupt_map (Suc fuel) env m c childCells position count =
     (if position < length m div 4 then
        in_turn
          [indent_ctx c, says [Print (''    '' @ show_pad 2 count @ '': ''), Print ''  child: ''],
           print_cells m position (nat childCells), says [Println []],
           (let position = position + nat childCells in
            with_value (cell m position) Undefined (\<lambda>phandle.
            with_value (lookupPHandle env phandle) (Failed ''error looking up phandle'') (\<lambda>intParent.
            with_result (cell_sum intParent) (\<lambda>parentCells.
            with_result (makepath intParent) (\<lambda>path.
              in_turn
                [indent_ctx c, says [Println (''        phandle: '' @ hex8 phandle @ '' ('' @ path @ '')'')],
                 indent_ctx c, says [Print ''         parent: ''],
                 print_cells m (position + 1) (nat parentCells), says [Println []],
                 interrupt_map fuel env m c childCells (position + 1 + nat parentCells) (count + 1)])))))]
      else says [])"

definition printInterruptMap :: "iokit \<Rightarrow> cf \<Rightarrow> ctx \<Rightarrow> io" where
  "printInterruptMap env value c =
     with_result (cell_sum (e_dt (c_service c))) (\<lambda>childCells.
     with_value (data_of value) Undefined (\<lambda>m.
       and_then (says [Println []]) (interrupt_map (length m + 1) env m c childCells 0 0)))"

text \<open>\<open>count\<close> is the number of cells before \<open>position\<close>, so both are one variable.\<close>

fun interrupts :: "nat \<Rightarrow> mem \<Rightarrow> ctx \<Rightarrow> nat \<Rightarrow> nat \<Rightarrow> io" where
  "interrupts 0 m c position index = halt Endless"
| "interrupts (Suc fuel) m c position index =
     (if position < length m div 4 then
        and_then (and_then (indent_ctx c) (says [Print (''    '' @ show_pad 2 index @ '': '')]))
          (with_value (cell m position) Undefined (\<lambda>w.
             if position + 1 < length m div 4 then
               with_value (cell m (position + 1)) Undefined (\<lambda>s.
                 and_then
                   (says ([Print (''specifier: '' @ hex8 w @ '' (vector: '' @ show_hex_pad 2 (unat (w AND 0xFF)) @
                             '') sense: '' @ hex8 s @ '' ('')] @
                          (if s AND 2 \<noteq> 0 then
                             [Print (''HyperTransport vector: '' @ show_hex_pad 4 (unat (drop_bit 16 s AND 0xFFFF)) @ '', '')]
                           else []) @
                          [Println ((if s AND 1 \<noteq> 0 then ''level'' else ''edge'') @ '')'')]))
                   (interrupts fuel m c (position + 2) (index + 1)))
             else
               and_then (says [Println (''parent interrupt-map entry: '' @ hex8 w)])
                 (interrupts fuel m c (position + 1) (index + 1))))
      else says [])"

definition printInterrupts :: "cf \<Rightarrow> ctx \<Rightarrow> io" where
  "printInterrupts value c =
     with_value (data_of value) Undefined (\<lambda>m.
       and_then (says [Println []]) (interrupts (length m + 1) m c 0 0))"

definition printInterruptParent :: "iokit \<Rightarrow> cf \<Rightarrow> ctx \<Rightarrow> io" where
  "printInterruptParent env value c =
     with_value (Option.bind (data_of value) (\<lambda>m. cell m 0)) Undefined (\<lambda>pHandleValue.
       case lookupPHandle env pHandleValue of
         None \<Rightarrow> says []
       | Some parentRegEntry \<Rightarrow>
           with_result (makepath parentRegEntry) (\<lambda>path.
             says ([Print (''<'' @ hex8 pHandleValue @ ''>'')] @
               (if path \<noteq> [] then [Print ('' ('' @ path @ '')'')] else []) @ [Println []])))"

section \<open>Data\<close>

definition ToAscii :: "nat \<Rightarrow> char" where
  "ToAscii nibble =
     (let nibble = nibble mod 16
      in if nibble \<le> 9 then char_of (nibble + 48) else char_of (nibble - 10 + 65))"

text \<open>The offset is written from its last digit at position 7 back to the front.\<close>

fun offset_digits :: "nat \<Rightarrow> string" where
  "offset_digits offsetCopy =
     (if offsetCopy = 0 then [] else offset_digits (offsetCopy div 16) @ [ToAscii (offsetCopy mod 16)])"

declare offset_digits.simps [simp del]

definition dump_byte :: "byte \<Rightarrow> string" where
  "dump_byte b = [CHR '' '', ToAscii (unat (drop_bit 4 (b AND 0xF0))), ToAscii (unat (b AND 0x0F))]"

definition dump_char :: "byte \<Rightarrow> char" where
  "dump_char b = (if b < 32 \<or> b > 126 then CHR ''.'' else char_of (unat b))"

text \<open>The text of \<open>work\<close> for the \<open>bytes\<close> at \<open>offset\<close>.\<close>

definition work_line :: "nat \<Rightarrow> nat \<Rightarrow> mem \<Rightarrow> string" where
  "work_line bytesPerLine offset bytes =
     replicate (8 - length (offset_digits offset)) CHR ''0'' @ offset_digits offset @ '':'' @
     concat (map dump_byte bytes) @ concat (replicate (bytesPerLine - length bytes) ''   '') @ '' '' @
     map dump_char bytes"

definition bytesPerLine :: "ctx \<Rightarrow> nat" where
  "bytesPerLine c =
     (let n = nat ((int (width_opt (c_options c)) - 20 - 2 * int (c_depth c)) mod 2 ^ 32) div 4
      in if n > 32 then 32 else n)"

text \<open>\<open>offset\<close> is a \<open>UInt32\<close>.\<close>

fun dump_lines :: "nat \<Rightarrow> mem \<Rightarrow> ctx \<Rightarrow> nat \<Rightarrow> io" where
  "dump_lines 0 bytes c offset = halt Endless"
| "dump_lines (Suc fuel) bytes c offset =
     (if offset < length bytes then
        let nBytesToDraw = (if add32 offset (bytesPerLine c) \<le> length bytes then bytesPerLine c
                            else length bytes - offset)
        in and_then (and_then (says [Println []]) (indent_ctx c))
             (and_then (says [Print (''    '' @ work_line (bytesPerLine c) offset (take nBytesToDraw (drop offset bytes)))])
               (dump_lines fuel bytes c (add32 offset (bytesPerLine c))))
      else says [])"

text \<open>\<open>fuel\<close> bounds the number of dump lines.\<close>

definition printData :: "nat \<Rightarrow> mem \<Rightarrow> ctx \<Rightarrow> io" where
  "printData fuel bytes c =
     and_then
       (if is_strings (hex_opt (c_options c)) True bytes then
          says ([Print ''<''] @ quoted_strings bytes 0 False @ [Print ''>''])
        else if length bytes > 8 then dump_lines fuel bytes c 0
        else says ([Print ''<''] @ hex_bytes bytes @ [Print ''>'']))
       (says [Println []])"

section \<open>Choosing the format\<close>

definition printProp :: "iokit \<Rightarrow> string \<Rightarrow> cf \<Rightarrow> ctx \<Rightarrow> io" where
  "printProp env key value c =
     (let other = (case value of
                     CFData bytes \<Rightarrow> printData (length bytes + 1) bytes c
                   | _ \<Rightarrow> says (cfshow (hex_opt (c_options c)) value @ [Println []]))
      in if key = ''reg'' then
           (case e_dt_parent (c_service c) of
              None \<Rightarrow> other
            | Some parentObj \<Rightarrow>
                with_value (dt_name parentObj) (Failed ''could not get name of parent'') (\<lambda>parentName.
                  if take 3 parentName = ''pci'' then printPhysAddr value c else other))
         else if key = ''assigned-addresses'' then printPhysAddr value c
         else if key = ''slot-names'' then printSlotNames value c
         else if key = ''ranges'' then printPCIRanges value c
         else if key = ''interrupt-map'' then printInterruptMap env value c
         else if key = ''interrupts'' then printInterrupts value c
         else if key = ''interrupt-parent'' then printInterruptParent env value c
         else other)"

end
