(* ===== verification/Ioreg_Dump.thy ===== *)
theory Ioreg_Dump
  imports Ioreg_Format
begin

text \<open>
  What the formatted properties look like: strings and dumps (\<open>printData\<close>), the fields of physical
  addresses, slot names and the interrupt table.
\<close>

section \<open>Strings\<close>

text \<open>The formatted output of packed strings is the strings, whatever the padding.\<close>

theorem printData_strings:
  assumes "ss \<noteq> []" "list_all good_string ss" "length (packed ss) + k < 2 ^ 32" "length (packed ss) + k \<noteq> 1"
    and "\<not> hex_opt (c_options c)"
  shows "\<exists>cs. printData fuel (packed ss @ replicate k 0) c = says cs \<and>
    plain_text cs = ''<'' @ commas (map quote ss) @ ''>''"
  using is_strings_packed [OF assms(1-4), of True] quoted_packed [OF assms(1,2), of k 0] assms(5)
  by (auto simp: printData_def io_simps intro!: exI)

definition example_ctx :: "nat \<Rightarrow> ctx" where
  "example_ctx width =
     \<lparr>c_service = named_entry ''a'' ''b'', c_depth = 0, c_bits = 0,
      c_options = initial_options ''IOService'' False width\<rparr>"

lemma example_ctx_simps:
  "indent_ctx (example_ctx w) = says [Print ''  '', Print ''  '']" "c_depth (example_ctx w) = 0"
  "hex_opt (c_options (example_ctx w)) = False" "width_opt (c_options (example_ctx w)) = w"
  using indent_item [of 0 0]
  by (simp_all add: example_ctx_def initial_options_def column_text_def upt_rec)

lemma printData_strings_witness:
  "\<exists>cs. printData 1 [97, 98, 0, 0] (example_ctx 80) = says cs \<and>
    plain_text cs = ''<'' @ [CHR 0x22] @ ''ab'' @ [CHR 0x22] @ ''>''"
proof -
  have "char_of (97 :: nat) = CHR ''a''" "char_of (98 :: nat) = CHR ''b''" by code_simp+
  moreover have "list_all good_string [[97, 98]]" by (simp add: good_string_def isprint_def)
  moreover have "replicate 2 0 = [0, 0 :: byte]" by (simp add: numeral_2_eq_2)
  ultimately show ?thesis
    using printData_strings [of "[[97, 98]]" 2 "example_ctx 80" 1] by (simp add: quote_def example_ctx_simps)
qed

section \<open>Dumps\<close>

lemma offset_digits_length: "n < 16 ^ k \<Longrightarrow> length (offset_digits n) \<le> k"
proof (induction n arbitrary: k rule: offset_digits.induct)
  case (1 n)
  show ?case
  proof (cases "n = 0")
    case False
    then obtain j where k: "k = Suc j" using 1(2) by (cases k) auto
    then have "n div 16 < 16 ^ j" using 1(2) by (simp add: less_mult_imp_div_less)
    then show ?thesis using 1(1) [OF False] False k by (simp add: offset_digits.simps [of n])
  qed (simp add: offset_digits.simps)
qed

lemma concat_const_length: "(\<And>x. x \<in> set xs \<Longrightarrow> length (f x) = k) \<Longrightarrow> length (concat (map f xs)) = k * length xs"
  by (induction xs) auto

lemma bytesPerLine_le: "bytesPerLine c \<le> 32"
  by (simp add: bytesPerLine_def Let_def)

text \<open>A line of the dump, with its terminator, fits the 256 bytes of \<open>work\<close>; it always has the same
  width up to the characters.\<close>

theorem work_line_length:
  assumes "length bytes \<le> bytesPerLine c" "offset < 2 ^ 32"
  shows "length (work_line (bytesPerLine c) offset bytes) = 10 + 3 * bytesPerLine c + length bytes \<and>
    length (work_line (bytesPerLine c) offset bytes) + 1 < 256"
proof -
  have "length (concat (map dump_byte bytes)) = 3 * length bytes"
    by (rule concat_const_length) (simp add: dump_byte_def)
  moreover have "length (concat (replicate n ''   '')) = 3 * n" for n by (induction n) auto
  moreover have "length (offset_digits offset) \<le> 8" using offset_digits_length [of offset 8] assms(2) by simp
  ultimately have "length (work_line (bytesPerLine c) offset bytes) = 10 + 3 * bytesPerLine c + length bytes"
    using assms(1) by (simp add: work_line_def)
  then show ?thesis using bytesPerLine_le [of c] assms(1) by simp
qed

text \<open>The lines of the dump: \<open>n\<close> bytes each, the last one what is left.\<close>

function dump_chunks :: "nat \<Rightarrow> nat \<Rightarrow> mem \<Rightarrow> (nat \<times> mem) list" where
  "dump_chunks n offset bytes =
     (if n = 0 \<or> bytes = [] then []
      else (offset, take n bytes) # dump_chunks n (offset + n) (drop n bytes))"
  by pat_completeness auto
termination
  by (relation "measure (\<lambda>(n, offset, bytes). length bytes)") auto

declare dump_chunks.simps [simp del]

definition chunk_calls :: "call list \<Rightarrow> nat \<Rightarrow> nat \<times> mem \<Rightarrow> call list" where
  "chunk_calls ind n ch = [Println []] @ ind @ [Print (''    '' @ work_line n (fst ch) (snd ch))]"

lemma dump_lines_chunks:
  assumes "indent_ctx c = says ind" "bytesPerLine c = n" "0 < n" "length bytes + 32 < 2 ^ 32"
  shows "length bytes - offset < fuel \<Longrightarrow> dump_lines fuel bytes c offset =
    says (concat (map (chunk_calls ind n) (dump_chunks n offset (drop offset bytes))))"
proof (induction fuel arbitrary: offset)
  case (Suc fuel)
  show ?case
  proof (cases "offset < length bytes")
    case True
    have n: "n \<le> 32" using bytesPerLine_le [of c] assms(2) by simp
    have add: "add32 offset n = offset + n" using n True assms(4) by (simp add: add32_def)
    have "length bytes - (offset + n) < fuel" using Suc.prems True assms(3) by linarith
    note IH = Suc.IH [OF this]
    have "take (if offset + n \<le> length bytes then n else length bytes - offset) (drop offset bytes) = take n (drop offset bytes)"
      by simp
    then show ?thesis
      using True IH assms(1-3) dump_chunks.simps [of n offset "drop offset bytes"]
      by (simp add: add io_simps chunk_calls_def add.commute Let_def)
  next
    case False
    then show ?thesis by (simp add: dump_chunks.simps [of n offset "[]"] says_def)
  qed
qed simp

lemma dump_chunks_data: "0 < n \<Longrightarrow> concat (map snd (dump_chunks n offset bytes)) = bytes"
proof (induction n offset bytes rule: dump_chunks.induct)
  case (1 n offset bytes)
  then show ?case by (simp add: dump_chunks.simps [of n offset bytes])
qed

text \<open>C25: other data longer than 8 bytes is dumped completely, in order, in lines of as many bytes as the
  width allows; the dump ends.\<close>

theorem printData_dump:
  assumes "\<not> is_strings (hex_opt (c_options c)) True bytes" "8 < length bytes" "length bytes + 32 < 2 ^ 32"
    and "indent_ctx c = says ind" "24 + 2 * c_depth c \<le> width_opt (c_options c)" "width_opt (c_options c) < 2 ^ 32"
    and "bytesPerLine c = n" "length bytes < fuel"
  shows "printData fuel bytes c = says (concat (map (chunk_calls ind n) (dump_chunks n 0 bytes)) @ [Println []]) \<and>
    n = min 32 ((width_opt (c_options c) - 20 - 2 * c_depth c) div 4) \<and>
    concat (map snd (dump_chunks n 0 bytes)) = bytes"
proof -
  let ?w = "width_opt (c_options c)" and ?d = "c_depth c"
  have "nat ((int ?w - 20 - 2 * int ?d) mod 2 ^ 32) = ?w - 20 - 2 * ?d" using assms(5,6) by simp
  then have n: "n = min 32 ((?w - 20 - 2 * ?d) div 4)"
    using assms(7) by (auto simp: bytesPerLine_def Let_def)
  have pos: "0 < n" unfolding n using assms(5) by auto
  have "printData fuel bytes c = says (concat (map (chunk_calls ind n) (dump_chunks n 0 bytes)) @ [Println []])"
    using dump_lines_chunks [OF assms(4,7) pos assms(3), of 0 fuel] assms(1,2,8) by (simp add: printData_def io_simps)
  then show ?thesis using n dump_chunks_data [OF pos] by blast
qed

lemma dump_lines_endless:
  assumes "indent_ctx c = says ind" "bytesPerLine c = 0"
  shows "offset < length bytes \<Longrightarrow> offset < 2 ^ 32 \<Longrightarrow> snd (dump_lines fuel bytes c offset) = Some Endless"
proof (induction fuel)
  case (Suc fuel)
  have "add32 offset 0 = offset" using Suc.prems by (simp add: add32_def)
  then show ?case using Suc assms by (simp add: Let_def and_then_def says_def)
qed (simp add: halt_def)

text \<open>When the screen leaves less than the room of one byte, the dump never ends.\<close>

theorem printData_endless:
  assumes "\<not> is_strings (hex_opt (c_options c)) True bytes" "8 < length bytes" "indent_ctx c = says ind"
    and "20 + 2 * c_depth c \<le> width_opt (c_options c)" "width_opt (c_options c) < 24 + 2 * c_depth c"
    and "c_depth c < 2 ^ 30"
  shows "snd (printData fuel bytes c) = Some Endless"
proof -
  let ?n = "int (width_opt (c_options c)) - 20 - 2 * int (c_depth c)"
  have "0 \<le> ?n" "?n < 4" using assms(4,5) by auto
  then have "nat (?n mod 2 ^ 32) div 4 = 0" by (simp add: nat_less_iff)
  then have "bytesPerLine c = 0" by (simp add: bytesPerLine_def Let_def)
  moreover have "bytes \<noteq> []" using assms(2) by auto
  ultimately show ?thesis
    using dump_lines_endless [OF assms(3), of 0 bytes fuel] assms(1,2)
    by (simp add: printData_def and_then_def)
qed

lemma binary_data: "\<not> is_strings hex True (replicate (Suc n) 0)"
  by (simp add: is_strings_def Let_def)

lemma printData_dump_witness:
  "printData 21 (replicate 20 0) (example_ctx 80) =
     says (concat (map (chunk_calls [Print ''  '', Print ''  ''] 15) (dump_chunks 15 0 (replicate 20 0))) @ [Println []])
   \<and> concat (map snd (dump_chunks 15 0 (replicate 20 (0 :: byte)))) = replicate 20 0"
proof -
  have "bytesPerLine (example_ctx 80) = 15" by (simp add: bytesPerLine_def example_ctx_simps Let_def)
  then show ?thesis
    using printData_dump [of "example_ctx 80" "replicate 20 0" "[Print ''  '', Print ''  '']" 15 21]
      binary_data [of _ 19] example_ctx_simps(1) [of 80]
    by (simp add: example_ctx_simps)
qed

lemma printData_endless_witness:
  "\<forall>fuel. snd (printData fuel (replicate 20 0) (example_ctx 22)) = Some Endless"
  using printData_endless [of "example_ctx 22" "replicate 20 0" "[Print ''  '', Print ''  '']"]
    binary_data [of _ 19] example_ctx_simps(1) [of 22]
  by (simp add: example_ctx_simps)

lemma work_line_length_witness:
  "length (work_line (bytesPerLine (example_ctx 400)) 64 (replicate 32 0)) = 138"
proof -
  have "bytesPerLine (example_ctx 400) = 32" by (simp add: bytesPerLine_def example_ctx_simps Let_def)
  then show ?thesis using work_line_length [of "replicate 32 0" "example_ctx 400" 64] by simp
qed

end
