(* ===== verification/Ioreg_Cells.thy ===== *)
theory Ioreg_Cells
  imports Ioreg_Dump
begin

text \<open>
  Properties made of 32-bit cells: the fields of a physical address, the interrupt map and the list of
  interrupts, each decoded from its encoding.
\<close>

section \<open>Cells in data\<close>

definition cells_bytes :: "32 word list \<Rightarrow> mem" where
  "cells_bytes ws = concat (map (\<lambda>w. le_bytes 4 (unat w)) ws)"

lemma cells_bytes_simps [simp]:
  "cells_bytes [] = []" "cells_bytes (w # ws) = le_bytes 4 (unat w) @ cells_bytes ws"
  "cells_bytes (ws @ vs) = cells_bytes ws @ cells_bytes vs"
  by (simp_all add: cells_bytes_def)

lemma length_cells_bytes [simp]: "length (cells_bytes ws) = 4 * length ws"
  by (induction ws) auto

lemma unat_lt_256: "unat (w :: 32 word) < 256 ^ 4"
  using unsigned_less [of w, where 'a = nat] by simp

lemma cell_nth: "i < length ws \<Longrightarrow> cell (cells_bytes ws) i = Some (ws ! i)"
proof -
  assume i: "i < length ws"
  then have "ws = take i ws @ ws ! i # drop (Suc i) ws" by (simp add: id_take_nth_drop)
  then have "cells_bytes ws = cells_bytes (take i ws) @ le_bytes 4 (unat (ws ! i)) @ cells_bytes (drop (Suc i) ws)"
    by (metis cells_bytes_simps(2,3))
  moreover have "length (cells_bytes (take i ws)) = 4 * i" using i by simp
  ultimately show ?thesis using rd_le_bytes [OF unat_lt_256] by (simp add: cell_def)
qed

lemma cell_mid: "cell (cells_bytes (pre @ w # post)) (length pre) = Some w"
  using cell_nth [of "length pre" "pre @ w # post"] by simp

definition cells_calls :: "32 word list \<Rightarrow> call list" where
  "cells_calls ws = map (\<lambda>w. Print (hex8 w @ '' '')) ws"

lemma print_cells_mid:
  "print_cells (cells_bytes (pre @ ws @ post)) (length pre) (length ws) = says (cells_calls ws)"
proof -
  have "in_turn (map (\<lambda>i. with_value (cell (cells_bytes (pre @ ws @ post)) (length pre + i)) Undefined
          (\<lambda>w. says [Print (hex8 w @ '' '')])) [0..<length ws]) =
      in_turn (map (\<lambda>i. says [Print (hex8 (ws ! i) @ '' '')]) [0..<length ws])"
    by (rule in_turn_cong) (simp add: cell_nth io_simps nth_append del: cells_bytes_simps(3))
  also have "\<dots> = says (map (\<lambda>i. Print (hex8 (ws ! i) @ '' '')) [0..<length ws])"
    by (simp add: io_simps concat_map_singleton)
  also have "map (\<lambda>i. Print (hex8 (ws ! i) @ '' '')) [0..<length ws] = cells_calls ws"
    by (rule nth_equalityI) (simp_all add: cells_calls_def)
  finally show ?thesis by (simp add: print_cells_def)
qed

section \<open>Physical addresses\<close>

text \<open>The format of \<open>physHi\<close>: \<open>npt000ss bbbbbbbb dddddfff rrrrrrrr\<close>.\<close>

definition phys_hi :: "bool \<Rightarrow> bool \<Rightarrow> bool \<Rightarrow> nat \<Rightarrow> nat \<Rightarrow> nat \<Rightarrow> nat \<Rightarrow> nat \<Rightarrow> 32 word" where
  "phys_hi n p t ss b d f r =
     of_nat (((((((of_bool n * 2 + of_bool p) * 2 + of_bool t) * 32 + ss) * 256 + b) * 32 + d) * 8 + f) * 256 + r)"

lemma field_value: "unat (drop_bit k (w AND push_bit k (mask j) :: 32 word)) = unat w div 2 ^ k mod 2 ^ j"
proof -
  have "unat (drop_bit k (w AND push_bit k (mask j))) = take_bit j (drop_bit k (unat w))"
    by (rule bit_eqI) (auto simp: bit_simps bit_unsigned_iff dest: bit_imp_le_length)
  then show ?thesis by (simp add: take_bit_eq_mod drop_bit_eq_div)
qed

lemma flag_value: "w AND 2 ^ k \<noteq> (0 :: 32 word) \<longleftrightarrow> odd (unat w div 2 ^ k)"
  by (simp add: and_exp_eq_0_iff_not_bit bit_unsigned_iff bit_imp_le_length flip: bit_iff_odd)

lemma unat_of_nat_32: "x < 2 ^ 32 \<Longrightarrow> unat (of_nat x :: 32 word) = x"
  by (simp add: unat_of_nat take_bit_eq_mod)

lemma horner_mod: "b < m \<Longrightarrow> (x * m + b) mod m = (b :: nat)"
  by simp

lemma phys_hi_unat:
  assumes "ss < 4" "b < 256" "d < 32" "f < 8" "r < 256"
  shows "unat (phys_hi n p t ss b d f r) =
    ((((((of_bool n * 2 + of_bool p) * 2 + of_bool t) * 32 + ss) * 256 + b) * 32 + d) * 8 + f) * 256 + r"
proof -
  have "((((((of_bool n * 2 + of_bool p) * 2 + of_bool t) * 32 + ss) * 256 + b) * 32 + d) * 8 + f) * 256 + r < 2 ^ 32"
    using assms by (cases n; cases p; cases t) auto
  then show ?thesis unfolding phys_hi_def by (rule unat_of_nat_32)
qed

lemma phys_fields:
  assumes "ss < 4" "b < 256" "d < 32" "f < 8" "r < 256"
    and "w = phys_hi n p t ss b d f r"
  shows "unat (drop_bit 16 (w AND 0x00FF0000)) = b" "unat (drop_bit 11 (w AND 0x0000F800)) = d"
    "unat (drop_bit 8 (w AND 0x00000700)) = f" "unat (w AND 0x000000FF) = r"
    "unat (drop_bit 24 (w AND 0x03000000)) = ss"
    "w AND 0x80000000 \<noteq> 0 \<longleftrightarrow> n" "w AND 0x40000000 \<noteq> 0 \<longleftrightarrow> p" "w AND 0x20000000 \<noteq> 0 \<longleftrightarrow> t"
proof -
  define q where "q = (of_bool n * 2 + of_bool p) * 2 + (of_bool t :: nat)"
  have w: "unat w = ((((q * 32 + ss) * 256 + b) * 32 + d) * 8 + f) * 256 + r"
    unfolding assms(6) q_def by (rule phys_hi_unat [OF assms(1-5)])
  have d8: "unat w div 2 ^ 8 = (((q * 32 + ss) * 256 + b) * 32 + d) * 8 + f" using w assms by simp
  have d11: "unat w div 2 ^ 11 = ((q * 32 + ss) * 256 + b) * 32 + d"
    using arg_cong [OF d8, of "\<lambda>x. x div 2 ^ 3"] assms by (simp flip: div_mult2_eq)
  have d16: "unat w div 2 ^ 16 = (q * 32 + ss) * 256 + b"
    using arg_cong [OF d11, of "\<lambda>x. x div 2 ^ 5"] assms by (simp flip: div_mult2_eq)
  have d24: "unat w div 2 ^ 24 = q * 32 + ss"
    using arg_cong [OF d16, of "\<lambda>x. x div 2 ^ 8"] assms by (simp flip: div_mult2_eq)
  have d29: "unat w div 2 ^ 29 = q"
    using arg_cong [OF d24, of "\<lambda>x. x div 2 ^ 5"] assms by (simp flip: div_mult2_eq)
  have d30: "unat w div 2 ^ 30 = of_bool n * 2 + of_bool p"
    using arg_cong [OF d29, of "\<lambda>x. x div 2 ^ 1"] by (simp add: q_def flip: div_mult2_eq)
  have d31: "unat w div 2 ^ 31 = of_bool n"
    using arg_cong [OF d30, of "\<lambda>x. x div 2 ^ 1"] by (simp flip: div_mult2_eq)
  have b: "unat w div 2 ^ 16 mod 2 ^ 8 = b" unfolding d16
    using horner_mod [OF assms(2), of "q * 32 + ss"] by (simp only: power_numeral) (simp add: algebra_simps)
  have d: "unat w div 2 ^ 11 mod 2 ^ 5 = d" unfolding d11
    using horner_mod [OF assms(3), of "(q * 32 + ss) * 256 + b"] by (simp only: power_numeral) (simp add: algebra_simps)
  have f: "unat w div 2 ^ 8 mod 2 ^ 3 = f" unfolding d8
    using horner_mod [OF assms(4), of "((q * 32 + ss) * 256 + b) * 32 + d"] by (simp only: power_numeral) (simp add: algebra_simps)
  have r: "unat w div 2 ^ 0 mod 2 ^ 8 = r" unfolding w
    using horner_mod [OF assms(5), of "(((q * 32 + ss) * 256 + b) * 32 + d) * 8 + f"] by (simp only: power_numeral) (simp add: algebra_simps)
  have "(q * 32 + ss) mod 4 = ss" using horner_mod [of ss 4 "q * 8"] assms by (simp add: mult.commute)
  then have s: "unat w div 2 ^ 24 mod 2 ^ 2 = ss" unfolding d24 by (simp add: mult.commute)
  note masks = mask_eq_exp_minus_1 push_bit_eq_mult
  show "unat (drop_bit 16 (w AND 0x00FF0000)) = b" using field_value [of 16 w 8, unfolded b] by (simp add: masks)
  show "unat (drop_bit 11 (w AND 0x0000F800)) = d" using field_value [of 11 w 5, unfolded d] by (simp add: masks)
  show "unat (drop_bit 8 (w AND 0x00000700)) = f" using field_value [of 8 w 3, unfolded f] by (simp add: masks)
  show "unat (w AND 0x000000FF) = r" using field_value [of 0 w 8, unfolded r] by (simp add: masks)
  show "unat (drop_bit 24 (w AND 0x03000000)) = ss" using field_value [of 24 w 2, unfolded s] by (simp add: masks)
  show "w AND 0x80000000 \<noteq> 0 \<longleftrightarrow> n" using flag_value [of w 31] d31 by simp
  show "w AND 0x40000000 \<noteq> 0 \<longleftrightarrow> p" using flag_value [of w 30] d30 by simp
  show "w AND 0x20000000 \<noteq> 0 \<longleftrightarrow> t" using flag_value [of w 29] d29 by (simp add: q_def)
qed

lemma address_type_phys:
  assumes "unat (drop_bit 24 (w AND 0x03000000)) = ss" "ss < 4"
  shows "address_type w = [''Config'', ''I/O'', ''Mem'', ''64-bit''] ! ss"
proof -
  consider "ss = 0" | "ss = 1" | "ss = 2" | "ss = 3" using assms(2) by linarith
  then show ?thesis unfolding address_type_def assms(1) by cases (simp_all add: eval_nat_numeral)
qed

text \<open>The third and fourth line of an address show the fields its high word is made of, and its
  three flags.\<close>

theorem phys_lines_fields:
  assumes "ss < 4" "b < 256" "d < 32" "f < 8" "r < 256"
  shows "drop 2 (phys_lines i (phys_hi n p t ss b d f r) mid lo shi slo) =
    [''        bus: '' @ show_nat b @ '' dev: '' @ show_nat d @ '' func: '' @ show_nat f @ '' reg: '' @ show_nat r,
     ''        type: '' @ ([''Config'', ''I/O'', ''Mem'', ''64-bit''] ! ss) @ '' flags: '' @
       (if n then ''abs'' else ''rel'') @ (if p then '', prefetch'' else []) @ (if t then '', alias'' else [])]"
  using phys_fields [OF assms refl, of n p t] address_type_phys [OF phys_fields(5) [OF assms refl, of n p t] assms(1)]
  by (simp add: phys_lines_def Let_def)

lemma phys_lines_fields_witness:
  "drop 2 (phys_lines 0 (phys_hi True False False 2 1 31 7 16) 0 0 0 0) =
     [''        bus: '' @ show_nat 1 @ '' dev: '' @ show_nat 31 @ '' func: '' @ show_nat 7 @ '' reg: '' @ show_nat 16,
      ''        type: Mem flags: abs'']"
  using phys_lines_fields [of 2 1 31 7 16 0 True False False] by simp

section \<open>Interrupts\<close>

lemma length_cells_div [simp]: "length (cells_bytes ws) div 4 = length ws"
  by simp

text \<open>An entry of the interrupt map: the child's cells, the handle with the path it leads to, and the
  parent's cells.\<close>

type_synonym map_entry = "32 word list \<times> 32 word \<times> string \<times> 32 word list"

definition entry_cells :: "map_entry \<Rightarrow> 32 word list" where
  "entry_cells e = (case e of (child, phandle, path, parent) \<Rightarrow> child @ phandle # parent)"

definition good_entry :: "iokit \<Rightarrow> nat \<Rightarrow> map_entry \<Rightarrow> bool" where
  "good_entry env childCells e \<longleftrightarrow>
     (case e of (child, phandle, path, parent) \<Rightarrow>
        length child = childCells \<and>
        (case find_phandle env phandle of
           None \<Rightarrow> False
         | Some dt \<Rightarrow> cell_sum dt = Inr (int (length parent)) \<and> makepath dt = Inr path))"

definition map_entry_calls :: "call list \<Rightarrow> nat \<Rightarrow> map_entry \<Rightarrow> call list" where
  "map_entry_calls ind count e =
     (case e of (child, phandle, path, parent) \<Rightarrow>
        ind @ [Print (''    '' @ show_pad 2 count @ '': ''), Print ''  child: ''] @ cells_calls child @ [Println []] @
        ind @ [Println (''        phandle: '' @ hex8 phandle @ '' ('' @ path @ '')'')] @
        ind @ [Print ''         parent: ''] @ cells_calls parent @ [Println []])"

fun numbered :: "(nat \<Rightarrow> 'a \<Rightarrow> 'b list) \<Rightarrow> nat \<Rightarrow> 'a list \<Rightarrow> 'b list" where
  "numbered f i [] = []"
| "numbered f i (x # xs) = f i x @ numbered f (i + 1) xs"

lemma interrupt_map_entries:
  assumes "indent_ctx c = says ind" "list_all (good_entry env cc) es"
  shows "length es < fuel \<Longrightarrow>
    interrupt_map fuel env (cells_bytes (pre @ concat (map entry_cells es))) c (int cc) (length pre) count =
      says (numbered (map_entry_calls ind) count es)"
  using assms(2)
proof (induction fuel arbitrary: es pre count)
  case (Suc fuel)
  show ?case
  proof (cases es)
    case (Cons e es')
    obtain child phandle path parent where e: "e = (child, phandle, path, parent)" by (cases e)
    obtain dt where dt: "find_phandle env phandle = Some dt" "cell_sum dt = Inr (int (length parent))"
        "makepath dt = Inr path" "length child = cc"
      using Suc.prems(2) Cons e by (auto simp: good_entry_def split: option.splits)
    let ?rest = "concat (map entry_cells es')"
    let ?ws = "pre @ child @ phandle # parent @ ?rest"
    have ws: "pre @ concat (map entry_cells es) = ?ws" by (simp add: Cons e entry_cells_def)
    have child: "print_cells (cells_bytes ?ws) (length pre) cc = says (cells_calls child)"
      using print_cells_mid [of pre child "phandle # parent @ ?rest"] dt(4) by simp
    have handle: "cell (cells_bytes ?ws) (length pre + cc) = Some phandle"
      using cell_mid [of "pre @ child" phandle "parent @ ?rest"] dt(4) by simp
    have parent: "print_cells (cells_bytes ?ws) (length pre + cc + 1) (length parent) = says (cells_calls parent)"
      using print_cells_mid [of "pre @ child @ [phandle]" parent ?rest] dt(4) by simp
    have rest: "interrupt_map fuel env (cells_bytes ?ws) c (int cc) (length pre + cc + 1 + length parent) (count + 1) =
        says (numbered (map_entry_calls ind) (count + 1) es')"
      using Suc.IH [of es' "pre @ child @ phandle # parent" "count + 1"] Suc.prems Cons dt(4) by (simp add: add.assoc)
    have "length pre < length (cells_bytes ?ws) div 4" by simp
    then show ?thesis
      unfolding ws interrupt_map.simps Let_def nat_int
      by (simp only: if_True child handle io_simps lookupPHandle_def dt parent rest nat_int assms(1) in_turn.simps)
        (simp add: Cons e map_entry_calls_def [of ind count "(child, phandle, path, parent)"])
  qed (simp add: says_def)
qed simp

text \<open>The interrupt map is listed entry by entry, each with the cells of the child, the handle with
  its path and the cells of the parent; the walk ends and stays inside the table.\<close>

theorem interrupt_map_listed:
  assumes "indent_ctx c = says ind" "cell_sum (e_dt (c_service c)) = Inr (int cc)" "list_all (good_entry env cc) es"
  shows "printInterruptMap env (CFData (cells_bytes (concat (map entry_cells es)))) c =
    says ([Println []] @ numbered (map_entry_calls ind) 0 es)"
proof -
  have "length es \<le> length (concat (map entry_cells es))"
    by (induction es) (auto simp: entry_cells_def)
  then show ?thesis
    using interrupt_map_entries [OF assms(1,3), of _ "[]" 0] assms(2)
    by (simp add: printInterruptMap_def data_of_def io_simps del: interrupt_map.simps)
qed

text \<open>A map of one entry whose parent is the entry with handle 7.\<close>

definition example_dt :: "32 word \<Rightarrow> 32 word \<Rightarrow> dt_entry" where
  "example_dt acells icells =
     \<lparr>dt_name = Some ''mpic'',
      dt_search = (\<lambda>k. if k = ''#address-cells'' then Some (CFData (cells_bytes [acells]))
                       else Some (CFData (cells_bytes [icells]))),
      dt_path = Some ''p:/x''\<rparr>"

definition example_env :: iokit where
  "example_env =
     \<lparr>superclass = (\<lambda>c. None), fast_cstring = (\<lambda>s. True), is_utf8 = (\<lambda>s. True),
      boldon = [], boldoff = [], can_open = (\<lambda>n. False),
      find_phandle = (\<lambda>h. if h = 7 then Some (example_dt 0 2) else None),
      kIOServiceRegisteredState = 2, kIOServiceMatchedState = 4, kIOServiceInactiveState = 1, kMicrosecondScale = 1000\<rparr>"

lemma interrupt_map_listed_witness:
  "printInterruptMap example_env (CFData (cells_bytes [1, 7, 8, 9]))
      ((example_ctx 80)\<lparr>c_service := (named_entry ''a'' ''b'')\<lparr>e_dt := example_dt 0 1\<rparr>\<rparr>) =
    says ([Println []] @ numbered (map_entry_calls [Print ''  '', Print ''  '']) 0 [([1], 7, ''/x'', [8, 9])])"
proof -
  let ?c = "(example_ctx 80)\<lparr>c_service := (named_entry ''a'' ''b'')\<lparr>e_dt := example_dt 0 1\<rparr>\<rparr>"
  have cs: "cell_sum (example_dt 0 n) = Inr (sint n)" if "sint n < 100" "0 \<le> sint n" for n
    using that cell_nth [of 0 "[0]"] cell_nth [of 0 "[n]"]
    by (simp add: cell_sum_def getRecursivePropValue_def example_dt_def data_of_def sint_sum_def upt_rec)
  have "makepath (example_dt 0 2) = Inr ''/x''" by (simp add: makepath_def example_dt_def)
  then have "good_entry example_env 1 ([1], 7, ''/x'', [8, 9])"
    using cs [of 2] by (simp add: good_entry_def example_env_def)
  moreover have "indent_ctx ?c = says [Print ''  '', Print ''  '']" using example_ctx_simps(1) [of 80] by simp
  moreover have "cell_sum (e_dt (c_service ?c)) = Inr (int 1)" using cs [of 1] by simp
  ultimately show ?thesis
    using interrupt_map_listed [of ?c _ 1 example_env "[([1], 7, ''/x'', [8, 9])]"] by (simp add: entry_cells_def)
qed

end
