(* ===== verification/Ioreg_Tree.thy ===== *)
theory Ioreg_Tree
  imports Ioreg_Cells
begin

text \<open>
  The traversal of \<open>src/src/ioreg.c\<close>: \<open>compare\<close>, \<open>show\<close>, \<open>scan\<close> and \<open>search\<close>. The iterator over the
  children of a service is the list of the services it still returns.
\<close>

section \<open>Matching\<close>

text \<open>\<open>strlcat\<close> into an \<open>io_name_t\<close> of 128 characters.\<close>

definition strlcat_name :: "string \<Rightarrow> string \<Rightarrow> string" where
  "strlcat_name dst src = take 127 (dst @ src)"

definition compare :: "options \<Rightarrow> reg_entry \<Rightarrow> stop + bool" where
  "compare opts service =
     (if (case class_opt opts of None \<Rightarrow> False | Some class \<Rightarrow> \<not> e_conforms service class) then Inr False
      else if (case key_opt opts of None \<Rightarrow> False | Some key \<Rightarrow> e_property service key = None) then Inr False
      else let match = (class_opt opts \<noteq> None \<or> key_opt opts \<noteq> None) in
           case name_opt opts of
             None \<Rightarrow> Inr match
           | Some wanted \<Rightarrow>
               (case e_name service of
                  None \<Rightarrow> Inl (Failed ''can't obtain name'')
                | Some name \<Rightarrow>
                    let name = (if CHR ''@'' \<in> set wanted then
                                  (let name = strlcat_name name ''@'' in
                                   case e_location service of None \<Rightarrow> name | Some l \<Rightarrow> strlcat_name name l)
                                else name)
                    in if wanted \<noteq> name then Inr False else Inr True))"

section \<open>Inheritance\<close>

text \<open>The string holds at most 512 characters; every round adds at least the colon.\<close>

fun ancestry :: "nat \<Rightarrow> iokit \<Rightarrow> string \<Rightarrow> string \<Rightarrow> stop + string" where
  "ancestry 0 env curClass out = Inl Endless"
| "ancestry (Suc fuel) env curClass out =
     (case superclass env curClass of
        None \<Rightarrow> Inl Undefined
      | Some c \<Rightarrow>
          if c \<noteq> ''OSObject'' then
            (let out = c @ '':'' @ out
             in if length out > 512 then Inl Undefined else ancestry fuel env c out)
          else Inr out)"

definition createInheritanceString :: "iokit \<Rightarrow> string \<Rightarrow> stop + string" where
  "createInheritanceString env name = ancestry 514 env name name"

section \<open>Showing a service\<close>

definition show_name :: "iokit \<Rightarrow> options \<Rightarrow> string \<Rightarrow> call list" where
  "show_name env opts name =
     (if bold_opt opts then [Printf (boldon env)] else []) @
     [Printf CYAN, Print name, Printf NORMAL] @
     (if bold_opt opts then [Printf (boldoff env)] else [])"

text \<open>With \<open>-i\<close> the string of the ancestors is the format of the call.\<close>

definition show_class :: "iokit \<Rightarrow> options \<Rightarrow> reg_entry \<Rightarrow> string \<Rightarrow> io" where
  "show_class env opts service name =
     (if inheritance_opt opts then
        with_value (e_class service) Undefined (\<lambda>classCFStr.
        with_result (createInheritanceString env classCFStr) (\<lambda>aCStr.
          if \<not> fast_cstring env aCStr then says []
          else if CHR ''%'' \<in> set aCStr then halt Undefined
          else says [Print aCStr]))
      else with_value (e_class service) (Failed ''can't obtain class'') (\<lambda>class.
        says (if class \<noteq> name then [Print (class @ '' '')] else [])))"

definition show_busy :: "iokit \<Rightarrow> options \<Rightarrow> reg_entry \<Rightarrow> string \<Rightarrow> io" where
  "show_busy env opts service name =
     (if e_conforms service ''IOService'' then
        with_value (e_busy service) (Failed ''can't obtain state'') (\<lambda>(state, busy, accumulated_busy_time).
          says ([Print ('', '' @ (if state AND kIOServiceRegisteredState env \<noteq> 0 then [] else ''!'') @ ''r/'' @
                   (if state AND kIOServiceMatchedState env \<noteq> 0 then [] else ''!'') @ ''m/'' @
                   (if state AND kIOServiceInactiveState env \<noteq> 0 then ''in'' else []) @ ''a'')] @
                (if open_opt opts \<and> \<not> strstr name ''UserClient'' \<and> can_open env name
                 then [Printf ('','' @ BOLD @ ''reachable'' @ NORMAL)] else []) @
                [Print ('', busy '' @ show_nat (unat busy))] @
                (if accumulated_busy_time \<noteq> 0
                 then [Print ('' ('' @ show_int (sint (accumulated_busy_time div kMicrosecondScale env)) @ '' us)'')]
                 else [])))
      else says [])"

definition showitem :: "iokit \<Rightarrow> ctx \<Rightarrow> string \<times> cf \<Rightarrow> io" where
  "showitem env c item =
     (case item of (key, value) \<Rightarrow>
        let hex = hex_opt (c_options c) in
        in_turn
          [indent_ctx c, says [Print ''  ''], says (cfshow hex (CFString (Some key))), says [Print '' = '', Printf RED],
           (if format_opt (c_options c) then printProp env key value c
            else says (cfshow hex value @ [Println []])),
           says [Printf NORMAL]])"

definition show_properties :: "iokit \<Rightarrow> ctx \<Rightarrow> io" where
  "show_properties env c =
     in_turn
       [indent_ctx c, says [Println ''{''],
        with_value (e_properties (c_service c)) (Failed ''can't obtain properties'') (\<lambda>properties.
          in_turn (map (showitem env c) properties)),
        indent_ctx c, says [Println ''}''], indent_ctx c, says [Println []]]"

definition show_service :: "iokit \<Rightarrow> options \<Rightarrow> reg_entry \<Rightarrow> nat \<Rightarrow> 64 word \<Rightarrow> io" where
  "show_service env opts service serviceDepth stackOfBits =
     with_value (e_name service) (Failed ''can't obtain name'') (\<lambda>name.
       in_turn
         [indent True serviceDepth stackOfBits,
          says (show_name env opts name),
          says (case e_location service of None \<Rightarrow> [] | Some location \<Rightarrow> [Print (''@'' @ location)]),
          says [Printf '' <''],
          show_class env opts service name,
          says (case e_id service of None \<Rightarrow> [] | Some entryID \<Rightarrow> [Print (''id 0x'' @ show_hex (unat entryID))]),
          show_busy env opts service name,
          says [Print ('', retain '' @ show_nat (unat (e_retain service))), Println ''>''],
          with_result (if list_opt opts then Inr True else compare opts service) (\<lambda>match.
            if match then
              show_properties env
                \<lparr>c_service = service, c_depth = serviceDepth, c_bits = stackOfBits, c_options = opts\<rparr>
            else says [])])"

section \<open>The tree\<close>

text \<open>\<open>scan_children\<close> is the loop over the iterator.\<close>

fun scan :: "iokit \<Rightarrow> options \<Rightarrow> service \<Rightarrow> bool \<Rightarrow> nat \<Rightarrow> 64 word \<Rightarrow> io"
  and scan_children :: "iokit \<Rightarrow> options \<Rightarrow> service list \<Rightarrow> nat \<Rightarrow> 64 word \<Rightarrow> io" where
  "scan env opts (Service service None) hasMoreSiblings serviceDepth stackOfBits = says []"
| "scan env opts (Service service (Some children)) hasMoreSiblings serviceDepth stackOfBits =
     with_value (int_shl 1 serviceDepth) Undefined (\<lambda>own.
       let stackOfBits = (if hasMoreSiblings then stackOfBits OR own else stackOfBits AND NOT own);
           deeper = (depth_opt opts = 0 \<or> depth_opt opts > serviceDepth + 1)
       in with_value (if deeper then int_shl 2 serviceDepth else Some 0) Undefined (\<lambda>below.
            let stackOfBits =
                  (if deeper then if children \<noteq> [] then stackOfBits OR below else stackOfBits AND NOT below
                   else stackOfBits)
            in and_then (show_service env opts service serviceDepth stackOfBits)
                 (if deeper then scan_children env opts children serviceDepth stackOfBits else says [])))"
| "scan_children env opts [] serviceDepth stackOfBits = says []"
| "scan_children env opts (child # childUpNext) serviceDepth stackOfBits =
     and_then (scan env opts child (childUpNext \<noteq> []) (serviceDepth + 1) stackOfBits)
       (scan_children env opts childUpNext serviceDepth stackOfBits)"

section \<open>The search\<close>

definition MAX_DEPTH :: nat where
  "MAX_DEPTH = 64"

type_synonym objects = "nat \<Rightarrow> reg_entry option"

text \<open>What is printed for a match.\<close>

definition show_match :: "iokit \<Rightarrow> options \<Rightarrow> service \<Rightarrow> nat \<Rightarrow> objects \<Rightarrow> io" where
  "show_match env opts service serviceDepth stackOfObjects =
     and_then
       (if tree_opt opts then
          and_then
            (in_turn (map (\<lambda>index.
               with_value (Option.bind (arr_get MAX_DEPTH stackOfObjects index) id) Undefined (\<lambda>object.
               with_value (int_shl 2 index) Undefined (\<lambda>bits.
                 show_service env opts object index bits))) [0..<serviceDepth]))
            (scan env (if depth_opt opts \<noteq> 0 then opts\<lparr>depth_opt := add32 (depth_opt opts) serviceDepth\<rparr> else opts)
               service False serviceDepth 0)
        else scan env opts service False 0 0)
       (says [Println []])"

definition is_match :: "options \<Rightarrow> reg_entry \<Rightarrow> nat \<Rightarrow> nat \<Rightarrow> stop + bool" where
  "is_match opts service serviceHasMatchedDepth serviceDepth =
     (if serviceHasMatchedDepth < serviceDepth + 1 then compare opts service else Inr False)"

definition matched_depth :: "options \<Rightarrow> nat \<Rightarrow> nat" where
  "matched_depth opts serviceDepth =
     (if depth_opt opts \<noteq> 0 then add32 serviceDepth (depth_opt opts) else 2 ^ 32 - 1)"

fun search :: "iokit \<Rightarrow> options \<Rightarrow> service \<Rightarrow> nat \<Rightarrow> nat \<Rightarrow> objects \<Rightarrow> io \<times> objects"
  and search_children :: "iokit \<Rightarrow> options \<Rightarrow> service list \<Rightarrow> nat \<Rightarrow> nat \<Rightarrow> objects \<Rightarrow> io \<times> objects" where
  "search env opts (Service service children) hasMatchedDepth serviceDepth stackOfObjects =
     (case is_match opts service hasMatchedDepth serviceDepth of
        Inl e \<Rightarrow> (halt e, stackOfObjects)
      | Inr match \<Rightarrow>
          let out = (if match then show_match env opts (Service service children) serviceDepth stackOfObjects else says []);
              hasMatchedDepth = (if match then matched_depth opts serviceDepth else hasMatchedDepth)
          in case arr_set MAX_DEPTH stackOfObjects serviceDepth (Some service) of
               None \<Rightarrow> (and_then out (halt Undefined), stackOfObjects)
             | Some stackOfObjects \<Rightarrow>
                 (case children of
                    None \<Rightarrow> (out, stackOfObjects)
                  | Some cs \<Rightarrow>
                      let (rest, stackOfObjects) =
                            search_children env opts cs hasMatchedDepth serviceDepth stackOfObjects
                      in (and_then out rest, stackOfObjects)))"
| "search_children env opts [] hasMatchedDepth serviceDepth stackOfObjects = (says [], stackOfObjects)"
| "search_children env opts (child # childUpNext) hasMatchedDepth serviceDepth stackOfObjects =
     (let (first, stackOfObjects) = search env opts child hasMatchedDepth (serviceDepth + 1) stackOfObjects;
          (rest, stackOfObjects) = search_children env opts childUpNext hasMatchedDepth serviceDepth stackOfObjects
      in (and_then first rest, stackOfObjects))"

end
