(* ===== verification/Ioreg_Scan.thy ===== *)
theory Ioreg_Scan
  imports Ioreg_Tree
begin

text \<open>
  What the traversal prints: \<open>scan\<close> renders the tree, cut at the depth limit, with the branches of each
  line given by the list of its ancestors that have sib siblings; \<open>search\<close> renders the topmost matches;
  the inheritance of a class is its chain up to \<open>OSObject\<close>.
\<close>

section \<open>Branches as lists\<close>

text \<open>\<open>stackOfBits\<close> for a list: element \<open>i\<close> is bit \<open>i\<close>.\<close>

definition bits_of :: "bool list \<Rightarrow> 64 word" where
  "bits_of fl = horner_sum of_bool 2 fl"

lemma bit_bits_of: "length fl \<le> 64 \<Longrightarrow> bit (bits_of fl) i \<longleftrightarrow> i < length fl \<and> fl ! i"
  by (auto simp: bits_of_def bit_horner_sum_bit_word_iff)

lemma columns_bits_of:
  "length fl \<le> 64 \<Longrightarrow> map (\<lambda>i. Print (column_text (bit (bits_of fl) i))) [0..<length fl] = map (Print \<circ> column_text) fl"
  by (rule nth_equalityI) (simp_all add: bit_bits_of)

text \<open>The indentation draws one column per ancestor, with a branch where it has more siblings; lines
  below a service have a column for the service itself and one for its children.\<close>

theorem indent_columns:
  "length fl < 30 \<Longrightarrow>
    indent False (length fl) (bits_of (fl @ [sib, has_children])) =
      says (map (Print \<circ> column_text) (fl @ [sib, has_children])) \<and>
    indent True (length fl) (bits_of (fl @ [sib, has_children])) =
      says (map (Print \<circ> column_text) fl @ [Print ''+-o ''])"
proof -
  assume l: "length fl < 30"
  let ?fl = "fl @ [sib, has_children]"
  have "map (\<lambda>i. Print (column_text (bit (bits_of ?fl) i))) [0..<length fl] = map (Print \<circ> column_text) fl"
    using l by (intro nth_equalityI) (simp_all add: bit_bits_of nth_append)
  then show ?thesis
    using l columns_bits_of [of ?fl] indent_item [OF l, of "bits_of ?fl"] indent_node [of "length fl" "bits_of ?fl"]
    by simp
qed

lemma indent_columns_witness:
  "indent False 2 (bits_of [False, True, False, True]) = says [Print ''  '', Print ''| '', Print ''  '', Print ''| ''] \<and>
   indent True 2 (bits_of [False, True, False, True]) = says [Print ''  '', Print ''| '', Print ''+-o '']"
  using indent_columns [of "[False, True]" False True] by (simp add: column_text_def numeral_2_eq_2)

section \<open>Rendering a tree\<close>

fun height :: "service \<Rightarrow> nat" and heights :: "service list \<Rightarrow> nat" where
  "height (Service s None) = 1"
| "height (Service s (Some cs)) = Suc (heights cs)"
| "heights [] = 0"
| "heights (c # cs) = max (height c) (heights cs)"

text \<open>\<open>flags\<close>: which of the services on the path to this one, itself included, have sib siblings.\<close>

fun render :: "iokit \<Rightarrow> options \<Rightarrow> bool list \<Rightarrow> service \<Rightarrow> io"
  and render_children :: "iokit \<Rightarrow> options \<Rightarrow> bool list \<Rightarrow> service list \<Rightarrow> io" where
  "render env opts flags (Service s None) = says []"
| "render env opts flags (Service s (Some cs)) =
     and_then (show_service env opts s (length flags - 1) (bits_of (flags @ [cs \<noteq> []])))
       (render_children env opts flags cs)"
| "render_children env opts flags [] = says []"
| "render_children env opts flags (c # cs) =
     and_then (render env opts (flags @ [cs \<noteq> []]) c) (render_children env opts flags cs)"

text \<open>The tree down to a limit: \<open>prune n\<close> keeps \<open>n\<close> levels, at least one; \<open>limited\<close> is what the option
  leaves of a service at a depth.\<close>

fun prune :: "nat \<Rightarrow> service \<Rightarrow> service" where
  "prune n (Service s None) = Service s None"
| "prune n (Service s (Some cs)) = Service s (Some (if n \<le> 1 then [] else map (prune (n - 1)) cs))"

definition limited :: "options \<Rightarrow> nat \<Rightarrow> service \<Rightarrow> service" where
  "limited opts d svc = (if depth_opt opts = 0 then svc else prune (depth_opt opts - d) svc)"

lemma limited_simps:
  "limited opts d (Service s None) = Service s None"
  "limited opts d (Service s (Some cs)) =
     Service s (Some (if depth_opt opts = 0 \<or> depth_opt opts > d + 1 then map (limited opts (d + 1)) cs else []))"
  by (auto simp: limited_def map_idI)

text \<open>The bits \<open>scan\<close> gets: those of the list below the depth, any at the depth, none above.\<close>

definition agrees :: "64 word \<Rightarrow> bool list \<Rightarrow> bool" where
  "agrees bits fl \<longleftrightarrow> (\<forall>i < 64. i \<noteq> length fl \<longrightarrow> bit bits i = (i < length fl \<and> fl ! i))"

lemma agrees_bits_of: "length fl < 63 \<Longrightarrow> agrees (bits_of fl) fl"
  by (simp add: agrees_def bit_bits_of)

lemma agrees_extended: "length fl < 62 \<Longrightarrow> agrees (bits_of (fl @ [b])) fl"
  by (auto simp: agrees_def bit_bits_of nth_append)

lemma stack_own:
  assumes "agrees bits fl" "length fl < 62"
  shows "(if b then bits OR 2 ^ length fl else bits AND NOT (2 ^ length fl)) = bits_of (fl @ [b])"
proof (rule bit_word_eqI)
  fix i assume i: "i < LENGTH(64)"
  show "bit (if b then bits OR 2 ^ length fl else bits AND NOT (2 ^ length fl)) i = bit (bits_of (fl @ [b])) i"
    using assms i unfolding agrees_def
    by (cases "i = length fl") (auto simp: bit_bits_of bit_simps nth_append)
qed

lemma stack_unset:
  assumes "length fl < 62"
  shows "bits_of (fl @ [False]) = bits_of fl"
  by (rule bit_word_eqI) (use assms in \<open>auto simp: bit_bits_of nth_append\<close>)

lemma scan_unfold:
  assumes "d < 30" "own = (if sib then bits OR 2 ^ d else bits AND NOT (2 ^ d))"
    and "deeper = (depth_opt opts = 0 \<or> depth_opt opts > d + 1)"
    and "below = (if deeper then if cs \<noteq> [] then own OR 2 ^ Suc d else own AND NOT (2 ^ Suc d) else own)"
  shows "scan env opts (Service s (Some cs)) sib d bits =
    and_then (show_service env opts s d below) (if deeper then scan_children env opts cs d below else says [])"
  using assms by (cases deeper; cases sib) (simp_all add: int_shl_1 int_shl_2 with_value_def Let_def del: power_Suc)

lemma scan_renders_from:
  "length fl + height (limited opts (length fl) svc) \<le> 30 \<Longrightarrow> agrees bits fl \<Longrightarrow>
   scan env opts svc sib (length fl) bits = render env opts (fl @ [sib]) (limited opts (length fl) svc)"
  "length fl + heights (map (limited opts (length fl)) cs) \<le> 30 \<Longrightarrow> fl = gl @ [m] \<Longrightarrow> bits = bits_of (fl @ [b]) \<Longrightarrow>
   scan_children env opts cs (length gl) bits = render_children env opts fl (map (limited opts (length fl)) cs)"
proof (induction svc and cs arbitrary: fl sib bits and fl gl m bits b rule: height_heights.induct)
  case (2 s cs)
  let ?d = "length fl" and ?deeper = "depth_opt opts = 0 \<or> depth_opt opts > length fl + 1"
  let ?cs = "if ?deeper then map (limited opts (?d + 1)) cs else []"
  have h: "?d + Suc (heights ?cs) \<le> 30" using "2.prems"(1) by (simp add: limited_simps)
  then have d: "?d < 30" by linarith
  have own: "(if sib then bits OR 2 ^ ?d else bits AND NOT (2 ^ ?d)) = bits_of (fl @ [sib])"
    using stack_own [OF "2.prems"(2)] d by simp
  have below: "(if ?deeper then if cs \<noteq> [] then bits_of (fl @ [sib]) OR 2 ^ Suc ?d
        else bits_of (fl @ [sib]) AND NOT (2 ^ Suc ?d) else bits_of (fl @ [sib])) =
      bits_of (fl @ [sib] @ [?cs \<noteq> []])"
    using stack_own [OF agrees_bits_of, of "fl @ [sib]" "cs \<noteq> []"] stack_unset [of "fl @ [sib]"] d
    by (cases "cs = []") simp_all
  have rest: "scan_children env opts cs ?d (bits_of ((fl @ [sib]) @ [cs \<noteq> []])) =
      render_children env opts (fl @ [sib]) (map (limited opts (?d + 1)) cs)" if ?deeper
    using "2.IH" [of "fl @ [sib]" fl sib "bits_of ((fl @ [sib]) @ [cs \<noteq> []])" "cs \<noteq> []"] h that by simp
  have "scan env opts (Service s (Some cs)) sib ?d bits =
      and_then (show_service env opts s ?d (bits_of (fl @ [sib] @ [?cs \<noteq> []])))
        (if ?deeper then scan_children env opts cs ?d (bits_of (fl @ [sib] @ [?cs \<noteq> []])) else says [])"
    by (rule scan_unfold [OF d own [symmetric] refl below [symmetric]])
  then show ?case using rest by (simp add: limited_simps)
next
  case (4 c cs)
  have c: "scan env opts c (cs \<noteq> []) (length fl) bits =
      render env opts (fl @ [map (limited opts (length fl)) cs \<noteq> []]) (limited opts (length fl) c)"
    using "4.IH"(1) [of fl bits "cs \<noteq> []"] agrees_extended [of fl b] "4.prems" by simp
  show ?case using c "4.IH"(2) [OF _ "4.prems"(2,3)] "4.prems" by simp
qed (simp_all add: limited_simps)

text \<open>C19: up to 30 levels \<open>scan\<close> prints every service of the limited tree once, parents before children and
  in the order of the iterators, each with the branches of its ancestors.\<close>

theorem scan_renders:
  "height (limited opts 0 svc) \<le> 30 \<Longrightarrow>
    scan env opts svc False 0 0 = render env opts [False] (limited opts 0 svc)"
  using scan_renders_from(1) [of "[]" opts svc 0] agrees_bits_of [of "[]"] by (simp add: bits_of_def)

definition example_tree :: service where
  "example_tree =
     Service (named_entry ''Root'' ''Root'')
       (Some [Service (named_entry ''cpu'' ''CPU'') (Some [Service (named_entry ''core'' ''Core'') (Some [])]),
              Service (named_entry ''pci'' ''PCI'') (Some [])])"

lemma scan_renders_witness:
  "scan example_env ((initial_options ''p'' False 0)\<lparr>depth_opt := 2\<rparr>) example_tree False 0 0 =
     and_then (show_service example_env ((initial_options ''p'' False 0)\<lparr>depth_opt := 2\<rparr>) (named_entry ''Root'' ''Root'') 0
         (bits_of [False, True]))
       (and_then (show_service example_env ((initial_options ''p'' False 0)\<lparr>depth_opt := 2\<rparr>) (named_entry ''cpu'' ''CPU'') 1
           (bits_of [False, True, False]))
         (show_service example_env ((initial_options ''p'' False 0)\<lparr>depth_opt := 2\<rparr>) (named_entry ''pci'' ''PCI'') 1
           (bits_of [False, False, False])))"
  using scan_renders [of "(initial_options ''p'' False 0)\<lparr>depth_opt := 2\<rparr>" example_tree example_env]
  by (simp add: limited_def example_tree_def io_simps)

section \<open>Completion\<close>

definition answers :: "reg_entry \<Rightarrow> bool" where
  "answers e \<longleftrightarrow> e_name e \<noteq> None \<and> e_class e \<noteq> None \<and> e_properties e \<noteq> None \<and>
     (e_conforms e ''IOService'' \<longrightarrow> e_busy e \<noteq> None)"

fun entries :: "service \<Rightarrow> reg_entry list" and entries_list :: "service list \<Rightarrow> reg_entry list" where
  "entries (Service s None) = [s]"
| "entries (Service s (Some cs)) = s # entries_list cs"
| "entries_list [] = []"
| "entries_list (c # cs) = entries c @ entries_list cs"

definition returns :: "io \<Rightarrow> bool" where
  "returns m \<longleftrightarrow> snd m = None"

lemma returns_simps [simp]:
  "returns (says cs)" "\<not> returns (halt e)" "returns (and_then m n) \<longleftrightarrow> returns m \<and> returns n"
  "returns (in_turn ms) \<longleftrightarrow> list_all returns ms"
proof -
  show *: "returns (and_then m n) \<longleftrightarrow> returns m \<and> returns n" for m n
    by (auto simp: returns_def and_then_def split: option.splits)
  show "returns (says cs)" "\<not> returns (halt e)" by (simp_all add: returns_def says_def halt_def)
  show "returns (in_turn ms) \<longleftrightarrow> list_all returns ms" by (induction ms) (simp_all add: returns_def says_def * [unfolded returns_def])
qed

lemma compare_returns: "e_name e \<noteq> None \<Longrightarrow> \<exists>b. compare opts e = Inr b"
  by (auto simp: compare_def Let_def split: option.splits)

lemma show_service_returns:
  assumes "answers e" "\<not> format_opt opts" "\<not> inheritance_opt opts" "d < 30"
  shows "returns (show_service env opts e d bits)"
proof -
  obtain name cls props where e: "e_name e = Some name" "e_class e = Some cls" "e_properties e = Some props"
    using assms(1) by (auto simp: answers_def)
  obtain b where b: "compare opts e = Inr b" using compare_returns [of e opts] e by auto
  have i: "returns (indent False d bits)" "returns (indent True d bits)"
    using indent_item [OF assms(4)] indent_node [of d] assms(4) by simp_all
  have "returns (show_properties env \<lparr>c_service = e, c_depth = d, c_bits = bits, c_options = opts\<rparr>)"
    using i e assms(2) by (simp add: show_properties_def showitem_def with_value_def list_all_iff split: prod.splits)
  moreover have "returns (show_busy env opts e name)"
    using assms(1) by (auto simp: show_busy_def answers_def with_value_def)
  ultimately show ?thesis
    using e b i assms(3) by (simp add: show_service_def show_class_def with_value_def with_result_def)
qed

lemma render_returns:
  "length fl + height svc \<le> 31 \<Longrightarrow> fl \<noteq> [] \<Longrightarrow> list_all answers (entries svc) \<Longrightarrow>
     \<not> format_opt opts \<Longrightarrow> \<not> inheritance_opt opts \<Longrightarrow> returns (render env opts fl svc)"
  "length fl + heights cs \<le> 30 \<Longrightarrow> fl \<noteq> [] \<Longrightarrow> list_all answers (entries_list cs) \<Longrightarrow>
     \<not> format_opt opts \<Longrightarrow> \<not> inheritance_opt opts \<Longrightarrow> returns (render_children env opts fl cs)"
  by (induction svc and cs arbitrary: fl and fl rule: height_heights.induct) (auto intro: show_service_returns)

lemma prune_entries:
  "set (entries (prune n svc)) \<subseteq> set (entries svc)" "set (entries_list (map (prune n) cs)) \<subseteq> set (entries_list cs)"
  by (induction svc and cs arbitrary: n and n rule: entries_entries_list.induct) (auto; blast)+

text \<open>C24: when all entries answer, the plain listing of at most 30 levels ends without a failure or an
  undefined shift.\<close>

theorem scan_completes:
  assumes "height (limited opts 0 svc) \<le> 30" "list_all answers (entries svc)"
    and "\<not> format_opt opts" "\<not> inheritance_opt opts"
  shows "snd (scan env opts svc False 0 0) = None"
proof -
  have "list_all answers (entries (limited opts 0 svc))"
    using assms(2) prune_entries(1) by (auto simp: limited_def list_all_iff)
  then have "returns (render env opts [False] (limited opts 0 svc))"
    using assms by (intro render_returns) auto
  moreover have "scan env opts svc False 0 0 = render env opts [False] (limited opts 0 svc)"
    using scan_renders_from(1) [of "[]" opts svc 0] agrees_bits_of [of "[]"] assms(1) by (simp add: bits_of_def)
  ultimately show ?thesis by (simp add: returns_def)
qed

lemma scan_completes_witness: "snd (scan example_env (initial_options ''p'' False 80) example_tree False 0 0) = None"
  using scan_completes [of "initial_options ''p'' False 80" example_tree example_env]
  by (simp add: limited_def initial_options_def example_tree_def answers_def named_entry_def)

end
