(* ===== verification/Ioreg_Search.thy ===== *)
theory Ioreg_Search
  imports Ioreg_Scan
begin

text \<open>
  \<open>search\<close> finds the topmost matches, each with the path that leads to it, and the ancestors of a
  class.
\<close>

section \<open>Matches\<close>

text \<open>The matches with their ancestors, in preorder. Below a match only services from its matched depth on
  are compared again.\<close>

fun found :: "options \<Rightarrow> (reg_entry \<Rightarrow> bool) \<Rightarrow> reg_entry list \<Rightarrow> nat \<Rightarrow> service \<Rightarrow> (reg_entry list \<times> service) list"
  and found_in :: "options \<Rightarrow> (reg_entry \<Rightarrow> bool) \<Rightarrow> reg_entry list \<Rightarrow> nat \<Rightarrow> service list \<Rightarrow> (reg_entry list \<times> service) list" where
  "found opts m anc md (Service s cs) =
     (let hit = (md < length anc + 1 \<and> m s)
      in (if hit then [(anc, Service s cs)] else []) @
         (case cs of
            None \<Rightarrow> []
          | Some cs \<Rightarrow> found_in opts m (anc @ [s]) (if hit then matched_depth opts (length anc) else md) cs))"
| "found_in opts m anc md [] = []"
| "found_in opts m anc md (c # cs) = found opts m anc md c @ found_in opts m anc md cs"

fun topmost :: "(reg_entry \<Rightarrow> bool) \<Rightarrow> reg_entry list \<Rightarrow> service \<Rightarrow> (reg_entry list \<times> service) list"
  and topmost_in :: "(reg_entry \<Rightarrow> bool) \<Rightarrow> reg_entry list \<Rightarrow> service list \<Rightarrow> (reg_entry list \<times> service) list" where
  "topmost m anc (Service s cs) =
     (if m s then [(anc, Service s cs)]
      else case cs of None \<Rightarrow> [] | Some cs \<Rightarrow> topmost_in m (anc @ [s]) cs)"
| "topmost_in m anc [] = []"
| "topmost_in m anc (c # cs) = topmost m anc c @ topmost_in m anc cs"

text \<open>What is printed for a match when the stack holds its ancestors.\<close>

definition ancestors :: "reg_entry list \<Rightarrow> objects" where
  "ancestors anc i = (if i < length anc then Some (anc ! i) else None)"

definition show_found :: "iokit \<Rightarrow> options \<Rightarrow> reg_entry list \<times> service \<Rightarrow> io" where
  "show_found env opts f = show_match env opts (snd f) (length (fst f)) (ancestors (fst f))"

definition holds :: "objects \<Rightarrow> reg_entry list \<Rightarrow> bool" where
  "holds stack anc \<longleftrightarrow> (\<forall>i < length anc. stack i = Some (anc ! i))"

lemma show_match_stack:
  assumes "holds stack anc"
  shows "show_match env opts svc (length anc) stack = show_match env opts svc (length anc) (ancestors anc)"
proof -
  have "map (\<lambda>index. with_value (Option.bind (arr_get MAX_DEPTH stack index) id) Undefined (\<lambda>object.
               with_value (int_shl 2 index) Undefined (\<lambda>bits. show_service env opts object index bits))) [0..<length anc] =
        map (\<lambda>index. with_value (Option.bind (arr_get MAX_DEPTH (ancestors anc) index) id) Undefined (\<lambda>object.
               with_value (int_shl 2 index) Undefined (\<lambda>bits. show_service env opts object index bits))) [0..<length anc]"
    using assms by (intro map_cong) (auto simp: holds_def ancestors_def arr_get_def)
  then show ?thesis unfolding show_match_def by (rule arg_cong)
qed

lemma height_pos: "0 < height svc"
  by (cases svc rule: height.cases) auto

lemma search_found:
  "length anc + height svc \<le> 64 \<Longrightarrow> holds stack anc \<Longrightarrow> \<forall>e \<in> set (entries svc). compare opts e = Inr (m e) \<Longrightarrow>
     fst (search env opts svc md (length anc) stack) = in_turn (map (show_found env opts) (found opts m anc md svc)) \<and>
     holds (snd (search env opts svc md (length anc) stack)) anc"
  "Suc (length anc) + heights cs \<le> 64 \<Longrightarrow> holds stack (anc @ [s]) \<Longrightarrow> \<forall>e \<in> set (entries_list cs). compare opts e = Inr (m e) \<Longrightarrow>
     fst (search_children env opts cs md (length anc) stack) =
       in_turn (map (show_found env opts) (found_in opts m (anc @ [s]) md cs)) \<and>
     holds (snd (search_children env opts cs md (length anc) stack)) (anc @ [s])"
proof (induction svc and cs arbitrary: anc md stack and anc s md stack rule: height_heights.induct)
  case (1 s)
  let ?hit = "md < length anc + 1 \<and> m s"
  have "is_match opts s md (length anc) = Inr ?hit" using 1 by (simp add: is_match_def)
  moreover have "arr_set MAX_DEPTH stack (length anc) (Some s) = Some (stack(length anc := Some s))"
    using 1 by (simp add: MAX_DEPTH_def)
  moreover have "holds (stack(length anc := Some s)) anc" using 1 by (simp add: holds_def)
  ultimately show ?case using show_match_stack [OF 1(2)] by (auto simp: show_found_def Let_def io_simps fun_upd_def)
next
  case (2 s cs)
  let ?hit = "md < length anc + 1 \<and> m s" and ?stack = "stack(length anc := Some s)"
  let ?md = "if ?hit then matched_depth opts (length anc) else md"
  have "is_match opts s md (length anc) = Inr ?hit" using 2 by (simp add: is_match_def)
  moreover have "arr_set MAX_DEPTH stack (length anc) (Some s) = Some ?stack" using 2 by (simp add: MAX_DEPTH_def)
  moreover have "holds ?stack (anc @ [s])" using 2 by (simp add: holds_def nth_append less_Suc_eq)
  then have "fst (search_children env opts cs ?md (length anc) ?stack) =
        in_turn (map (show_found env opts) (found_in opts m (anc @ [s]) ?md cs)) \<and>
      holds (snd (search_children env opts cs ?md (length anc) ?stack)) (anc @ [s])"
    using "2.prems"(1,3) by (intro "2.IH") (simp_all add: fun_upd_def)
  moreover have "holds st anc" if "holds st (anc @ [s])" for st
    using that unfolding holds_def by (metis length_append less_SucI nth_append add.right_neutral add_Suc_right list.size(3,4))
  moreover have "show_match env opts (Service s (Some cs)) (length anc) stack = show_found env opts (anc, Service s (Some cs))"
    using show_match_stack [OF "2.prems"(2)] by (simp add: show_found_def)
  moreover obtain rest st where "search_children env opts cs ?md (length anc) ?stack = (rest, st)" by fastforce
  ultimately show ?case by (cases ?hit) (auto simp: Let_def io_simps)
next
  case (4 c cs)
  obtain first st where f: "search env opts c md (Suc (length anc)) stack = (first, st)" by fastforce
  obtain rest st' where r: "search_children env opts cs md (length anc) st = (rest, st')" by fastforce
  have "holds st (anc @ [s])" "first = in_turn (map (show_found env opts) (found opts m (anc @ [s]) md c))"
    using "4.IH"(1) [of "anc @ [s]" stack md] "4.prems" f by simp_all
  then show ?case using "4.IH"(2) [of anc st s md] "4.prems" f r by (simp add: Let_def io_simps)
qed (simp add: says_def)

lemma found_none:
  "length anc + height svc \<le> n \<Longrightarrow> n \<le> md \<Longrightarrow> found opts m anc md svc = []"
  "length anc + heights cs \<le> n \<Longrightarrow> n \<le> md \<Longrightarrow> found_in opts m anc md cs = []"
  by (induction svc and cs arbitrary: anc and anc rule: height_heights.induct) auto

lemma found_topmost:
  "length anc + height svc < 2 ^ 32 \<Longrightarrow> depth_opt opts = 0 \<Longrightarrow> found opts m anc 0 svc = topmost m anc svc"
  "length anc + heights cs < 2 ^ 32 \<Longrightarrow> depth_opt opts = 0 \<Longrightarrow> found_in opts m anc 0 cs = topmost_in m anc cs"
proof (induction svc and cs arbitrary: anc and anc rule: height_heights.induct)
  case (2 s cs)
  then show ?case
    using found_none(2) [of "anc @ [s]" cs "2 ^ 32 - 1" "2 ^ 32 - 1" opts m] by (auto simp: matched_depth_def)
qed auto

text \<open>C20: without a depth limit \<open>search\<close> prints the topmost matches, in preorder, each once with the path
  that leads to it, whatever the array holds at the start.\<close>

theorem search_topmost:
  assumes "height svc \<le> 64" "depth_opt opts = 0" "\<forall>e \<in> set (entries svc). compare opts e = Inr (m e)"
  shows "fst (search env opts svc 0 0 stack) = in_turn (map (show_found env opts) (topmost m [] svc))"
  using search_found(1) [of "[]" svc stack opts m env 0] found_topmost(1) [of "[]" svc opts m] assms
  by (simp add: holds_def)

lemma search_topmost_witness:
  "fst (search example_env ((initial_options ''p'' False 0)\<lparr>class_opt := Some ''Core''\<rparr>) example_tree 0 0 (\<lambda>i. None)) =
     show_found example_env ((initial_options ''p'' False 0)\<lparr>class_opt := Some ''Core''\<rparr>)
       ([named_entry ''Root'' ''Root'', named_entry ''cpu'' ''CPU''], Service (named_entry ''core'' ''Core'') (Some []))"
proof -
  let ?o = "(initial_options ''p'' False 0)\<lparr>class_opt := Some ''Core''\<rparr>"
  have "topmost (\<lambda>e. e_class e = Some ''Core'') [] example_tree =
      [([named_entry ''Root'' ''Root'', named_entry ''cpu'' ''CPU''], Service (named_entry ''core'' ''Core'') (Some []))]"
    by (simp add: example_tree_def named_entry_def)
  moreover have "\<forall>e \<in> set (entries example_tree). compare ?o e = Inr (e_class e = Some ''Core'')"
    by (simp add: example_tree_def compare_def initial_options_def named_entry_def)
  moreover have "height example_tree \<le> 64" "depth_opt ?o = 0" by (simp_all add: example_tree_def initial_options_def)
  ultimately show ?thesis using search_topmost [of example_tree ?o "\<lambda>e. e_class e = Some ''Core''"] by (simp add: io_simps)
qed

section \<open>Inheritance\<close>

fun colons :: "string list \<Rightarrow> string" where
  "colons [] = []"
| "colons [c] = c"
| "colons (c # d # cs) = c @ '':'' @ colons (d # cs)"

text \<open>The chain of a class: its superclasses up to the one below \<open>OSObject\<close>, nearest first.\<close>

fun chain :: "iokit \<Rightarrow> string \<Rightarrow> string list \<Rightarrow> bool" where
  "chain env c [] \<longleftrightarrow> superclass env c = Some ''OSObject''"
| "chain env c (d # ds) \<longleftrightarrow> superclass env c = Some d \<and> d \<noteq> ''OSObject'' \<and> chain env d ds"

lemma colons_append: "cs \<noteq> [] \<Longrightarrow> colons (rev ds @ cs) = foldl (\<lambda>out d. d @ '':'' @ out) (colons cs) ds"
proof (induction ds arbitrary: cs)
  case (Cons d ds)
  then obtain c cs' where "cs = c # cs'" by (cases cs) auto
  then show ?case using Cons.IH [of "d # cs"] by simp
qed simp

lemma foldl_length: "length out \<le> length (foldl (\<lambda>out d. d @ '':'' @ out) out ds)"
proof (induction ds arbitrary: out)
  case (Cons d ds)
  have "length out \<le> length (d @ '':'' @ out)" by simp
  also have "\<dots> \<le> length (foldl (\<lambda>out d. d @ '':'' @ out) (d @ '':'' @ out) ds)" by (rule Cons)
  finally show ?case by simp
qed simp

lemma ancestry_chain:
  "chain env c ds \<Longrightarrow> length (foldl (\<lambda>out d. d @ '':'' @ out) out ds) \<le> 512 \<Longrightarrow> length ds < fuel \<Longrightarrow>
   ancestry fuel env c out = Inr (foldl (\<lambda>out d. d @ '':'' @ out) out ds)"
proof (induction ds arbitrary: c out fuel)
  case Nil
  then show ?case by (cases fuel) auto
next
  case (Cons d ds)
  then obtain k where "fuel = Suc k" by (cases fuel) auto
  then show ?case
    using Cons foldl_length [of "d @ '':'' @ out" ds] by (simp add: Let_def)
qed

lemma foldl_count: "length ds \<le> length (foldl (\<lambda>out d. d @ '':'' @ out) out ds)"
proof (induction ds rule: rev_induct)
  case (snoc d ds)
  then show ?case by simp
qed simp

text \<open>The inheritance string is the chain of the superclasses below \<open>OSObject\<close>, the most general
  first, with colons.\<close>

theorem inheritance_chain:
  assumes "chain env c ds" "length (colons (rev ds @ [c])) \<le> 512"
  shows "createInheritanceString env c = Inr (colons (rev ds @ [c]))"
proof -
  have "colons (rev ds @ [c]) = foldl (\<lambda>out d. d @ '':'' @ out) c ds" using colons_append [of "[c]" ds] by simp
  then show ?thesis
    using ancestry_chain [OF assms(1), of c 514] foldl_count [of ds c] assms(2)
    by (simp add: createInheritanceString_def del: ancestry.simps)
qed

lemma inheritance_chain_witness:
  "createInheritanceString
     (example_env\<lparr>superclass := [''IOCPU'' \<mapsto> ''IOService'', ''IOService'' \<mapsto> ''IORegistryEntry'', ''IORegistryEntry'' \<mapsto> ''OSObject'']\<rparr>)
     ''IOCPU'' = Inr ''IORegistryEntry:IOService:IOCPU''"
  using inheritance_chain [of "example_env\<lparr>superclass := [''IOCPU'' \<mapsto> ''IOService'', ''IOService'' \<mapsto> ''IORegistryEntry'', ''IORegistryEntry'' \<mapsto> ''OSObject'']\<rparr>"
    "''IOCPU''" "[''IOService'', ''IORegistryEntry'']"] by simp

lemma ancestry_ends: "length out \<le> 512 \<Longrightarrow> 513 < fuel + length out \<Longrightarrow> ancestry fuel env c out \<noteq> Inl Endless"
proof (induction fuel arbitrary: c out)
  case (Suc fuel)
  show ?case
  proof (cases "superclass env c")
    case (Some d)
    have "513 < fuel + length (d @ '':'' @ out)" using Suc.prems by simp
    then show ?thesis using Suc.IH [of "d @ '':'' @ out" d] Some by (simp add: Let_def)
  qed simp
qed simp

end
