(* ===== verification/Ioreg_Archive.thy ===== *)
theory Ioreg_Archive
  imports Ioreg_Search "HOL-Library.AList"
begin

text \<open>
  The archive output of \<open>src/src/ioreg.c\<close> (option \<open>-a\<close>): a service becomes a dictionary with its
  properties, the keys of the registry and the array of its children. Dictionaries under construction
  are association lists with string keys; replacing a key keeps its place.
\<close>

section \<open>Dictionaries\<close>

type_synonym dict = "(string \<times> cf) list"

abbreviation CFDictionarySetValue :: "string \<Rightarrow> cf \<Rightarrow> dict \<Rightarrow> dict" where
  "CFDictionarySetValue \<equiv> AList.update"

definition to_cf :: "dict \<Rightarrow> cf" where
  "to_cf d = CFDictionary (map (\<lambda>(k, v). (CFString (Some k), v)) d)"

definition value_at :: "(cf \<times> cf) list \<Rightarrow> string \<Rightarrow> cf option" where
  "value_at kvs k = map_of kvs (CFString (Some k))"

lemma value_at_to_cf: "value_at (map (\<lambda>(k, v). (CFString (Some k), v)) d) k = map_of d k"
  by (induction d) (auto simp: value_at_def)

definition after :: "stop + 'a \<Rightarrow> ('a \<Rightarrow> stop + 'b) \<Rightarrow> stop + 'b" where
  "after r f = (case r of Inl e \<Rightarrow> Inl e | Inr x \<Rightarrow> f x)"

definition obtains_value :: "'a option \<Rightarrow> string \<Rightarrow> stop + 'a" where
  "obtains_value v msg = (case v of None \<Rightarrow> Inl (Failed msg) | Some x \<Rightarrow> Inr x)"

definition make_string :: "iokit \<Rightarrow> string \<Rightarrow> string \<Rightarrow> stop + cf" where
  "make_string env s msg = (if is_utf8 env s then Inr (CFString (Some s)) else Inl (Failed msg))"

lemma after_simps [simp]:
  "after (Inr x) f = f x" "after (Inl e) f = Inl e" "obtains_value (Some v) msg = Inr v"
  "is_utf8 env s \<Longrightarrow> make_string env s msg = Inr (CFString (Some s))"
  by (simp_all add: after_def obtains_value_def make_string_def)

section \<open>A service\<close>

definition archive_busy :: "reg_entry \<Rightarrow> dict \<Rightarrow> stop + dict" where
  "archive_busy service dictionary =
     (if e_conforms service ''IOService'' then
        after (obtains_value (e_busy service) ''can't obtain state'') (\<lambda>(state, busy, time).
          Inr (CFDictionarySetValue ''IOServiceBusyTime'' (CFNumber (Some time))
               (CFDictionarySetValue ''IOServiceBusyState'' (CFNumber (Some (scast busy)))
               (CFDictionarySetValue ''IOServiceState'' (CFNumber (Some state)) dictionary))))
      else Inr dictionary)"

text \<open>The class is obtained, but \<open>IOObjectClass\<close> is made from the name.\<close>

definition archive_service :: "iokit \<Rightarrow> options \<Rightarrow> reg_entry \<Rightarrow> stop + dict" where
  "archive_service env opts service =
     after (if list_opt opts then Inr True else compare opts service) (\<lambda>match.
     after (if match then obtains_value (e_properties service) ''can't obtain properties'' else Inr []) (\<lambda>dictionary.
     after (obtains_value (e_name service) ''can't obtain name'') (\<lambda>name.
     after (make_string env name ''can't create name'') (\<lambda>object.
     let dictionary = CFDictionarySetValue ''IORegistryEntryName'' object dictionary in
     after (case e_location service of
              None \<Rightarrow> Inr dictionary
            | Some location \<Rightarrow>
                after (make_string env location ''can't create location'') (\<lambda>object.
                  Inr (CFDictionarySetValue ''IORegistryEntryLocation'' object dictionary))) (\<lambda>dictionary.
     after (obtains_value (e_id service) ''can't obtain identifier'') (\<lambda>rid.
     let dictionary = CFDictionarySetValue ''IORegistryEntryID'' (CFNumber (Some rid)) dictionary in
     after (obtains_value (e_class service) ''can't obtain class'') (\<lambda>class.
     after (make_string env name ''can't create class'') (\<lambda>object.
     let dictionary = CFDictionarySetValue ''IOObjectClass'' object dictionary;
         dictionary = CFDictionarySetValue ''IOObjectRetainCount'' (CFNumber (Some (scast (e_retain service)))) dictionary
     in archive_busy service dictionary))))))))"

section \<open>The tree\<close>

text \<open>\<open>Inr None\<close> is the null pointer returned when there is no iterator.\<close>

fun archive_scan :: "iokit \<Rightarrow> options \<Rightarrow> service \<Rightarrow> nat \<Rightarrow> stop + dict option"
  and archive_children :: "iokit \<Rightarrow> options \<Rightarrow> service list \<Rightarrow> nat \<Rightarrow> stop + cf list" where
  "archive_scan env opts (Service service None) serviceDepth = Inr None"
| "archive_scan env opts (Service service (Some children)) serviceDepth =
     after (archive_service env opts service) (\<lambda>dictionary.
       if (depth_opt opts = 0 \<or> depth_opt opts > serviceDepth + 1) \<and> children \<noteq> [] then
         after (archive_children env opts children serviceDepth) (\<lambda>array.
           Inr (Some (CFDictionarySetValue ''IORegistryEntryChildren'' (CFArray array) dictionary)))
       else Inr (Some dictionary))"
| "archive_children env opts [] serviceDepth = Inr []"
| "archive_children env opts (child # childUpNext) serviceDepth =
     after (archive_scan env opts child (serviceDepth + 1)) (\<lambda>object.
       case object of
         None \<Rightarrow> Inl (Failed ''can't obtain child'')
       | Some d \<Rightarrow>
           after (archive_children env opts childUpNext serviceDepth) (\<lambda>array. Inr (to_cf d # array)))"

section \<open>The search\<close>

text \<open>The loop from \<open>index = serviceDepth\<close> down: each parent's dictionary gets the dictionary below it as
  its children.\<close>

fun archive_parents :: "iokit \<Rightarrow> options \<Rightarrow> objects \<Rightarrow> nat \<Rightarrow> dict \<Rightarrow> stop + dict" where
  "archive_parents env opts stackOfObjects 0 dictionary = Inr dictionary"
| "archive_parents env opts stackOfObjects (Suc index) dictionary =
     (case Option.bind (arr_get MAX_DEPTH stackOfObjects index) id of
        None \<Rightarrow> Inl Undefined
      | Some object \<Rightarrow>
          after (archive_service env opts object) (\<lambda>dictionary2.
            archive_parents env opts stackOfObjects index
              (CFDictionarySetValue ''IORegistryEntryChildren'' (to_cf dictionary) dictionary2)))"

text \<open>A match becomes an array of one dictionary; a null dictionary cannot be appended.\<close>

definition archive_match :: "iokit \<Rightarrow> options \<Rightarrow> service \<Rightarrow> nat \<Rightarrow> objects \<Rightarrow> stop + cf list" where
  "archive_match env opts service serviceDepth stackOfObjects =
     (if tree_opt opts then
        after (archive_scan env (if depth_opt opts \<noteq> 0 then opts\<lparr>depth_opt := add32 (depth_opt opts) serviceDepth\<rparr> else opts)
                 service serviceDepth) (\<lambda>d.
          case d of
            None \<Rightarrow> Inl Undefined
          | Some dictionary \<Rightarrow>
              after (archive_parents env opts stackOfObjects serviceDepth dictionary) (\<lambda>dictionary. Inr [to_cf dictionary]))
      else
        after (archive_scan env opts service 0) (\<lambda>d.
          case d of None \<Rightarrow> Inl Undefined | Some dictionary \<Rightarrow> Inr [to_cf dictionary]))"

definition append_array :: "cf list option \<Rightarrow> cf list option \<Rightarrow> cf list option" where
  "append_array array array2 =
     (case array2 of None \<Rightarrow> array | Some b \<Rightarrow> (case array of Some a \<Rightarrow> Some (a @ b) | None \<Rightarrow> Some b))"

fun archive_search :: "iokit \<Rightarrow> options \<Rightarrow> service \<Rightarrow> nat \<Rightarrow> nat \<Rightarrow> objects \<Rightarrow> (stop + cf list option) \<times> objects"
  and archive_search_children ::
    "iokit \<Rightarrow> options \<Rightarrow> service list \<Rightarrow> nat \<Rightarrow> nat \<Rightarrow> cf list option \<Rightarrow> objects \<Rightarrow> (stop + cf list option) \<times> objects" where
  "archive_search env opts (Service service children) hasMatchedDepth serviceDepth stackOfObjects =
     (case after (is_match opts service hasMatchedDepth serviceDepth) (\<lambda>match.
             if match then
               after (archive_match env opts (Service service children) serviceDepth stackOfObjects)
                 (\<lambda>array. Inr (Some array, matched_depth opts serviceDepth))
             else Inr (None, hasMatchedDepth)) of
        Inl e \<Rightarrow> (Inl e, stackOfObjects)
      | Inr (array, hasMatchedDepth) \<Rightarrow>
          (case arr_set MAX_DEPTH stackOfObjects serviceDepth (Some service) of
             None \<Rightarrow> (Inl Undefined, stackOfObjects)
           | Some stackOfObjects \<Rightarrow>
               (case children of
                  None \<Rightarrow> (Inr array, stackOfObjects)
                | Some cs \<Rightarrow> archive_search_children env opts cs hasMatchedDepth serviceDepth array stackOfObjects)))"
| "archive_search_children env opts [] hasMatchedDepth serviceDepth array stackOfObjects = (Inr array, stackOfObjects)"
| "archive_search_children env opts (child # childUpNext) hasMatchedDepth serviceDepth array stackOfObjects =
     (case archive_search env opts child hasMatchedDepth (serviceDepth + 1) stackOfObjects of
        (Inl e, stackOfObjects) \<Rightarrow> (Inl e, stackOfObjects)
      | (Inr array2, stackOfObjects) \<Rightarrow>
          archive_search_children env opts childUpNext hasMatchedDepth serviceDepth (append_array array array2) stackOfObjects)"

section \<open>What an archive is\<close>

text \<open>A property list of an entry: the keys of the registry with values of their types, and the children,
  if any, an array of such lists.\<close>

inductive entry_plist :: "cf \<Rightarrow> bool" where
  "value_at kvs ''IORegistryEntryName'' = Some (CFString (Some name)) \<Longrightarrow>
   value_at kvs ''IORegistryEntryID'' = Some (CFNumber (Some rid)) \<Longrightarrow>
   value_at kvs ''IOObjectClass'' = Some (CFString (Some class)) \<Longrightarrow>
   value_at kvs ''IOObjectRetainCount'' = Some (CFNumber (Some count)) \<Longrightarrow>
   (case value_at kvs ''IORegistryEntryChildren'' of
      None \<Rightarrow> True
    | Some v \<Rightarrow> (\<exists>vs. v = CFArray vs \<and> vs \<noteq> [] \<and> (\<forall>x \<in> set vs. entry_plist x))) \<Longrightarrow>
   entry_plist (CFDictionary kvs)"
monos option.case_eq_if

text \<open>A property list that describes a tree of services.\<close>

inductive represents :: "cf \<Rightarrow> service \<Rightarrow> bool" where
  "e_name s = Some name \<Longrightarrow> e_id s = Some rid \<Longrightarrow>
   value_at kvs ''IORegistryEntryName'' = Some (CFString (Some name)) \<Longrightarrow>
   value_at kvs ''IORegistryEntryID'' = Some (CFNumber (Some rid)) \<Longrightarrow>
   value_at kvs ''IOObjectClass'' = Some (CFString (Some name)) \<Longrightarrow>
   value_at kvs ''IOObjectRetainCount'' = Some (CFNumber (Some (scast (e_retain s)))) \<Longrightarrow>
   value_at kvs ''IORegistryEntryChildren'' = (if cs = [] then None else Some (CFArray vs)) \<Longrightarrow>
   list_all2 represents vs cs \<Longrightarrow>
   represents (CFDictionary kvs) (Service s (Some cs))"

inductive_cases entry_plistE: "entry_plist (CFDictionary kvs)"
inductive_cases representsE: "represents c (Service s (Some cs))"

lemma represents_typed: "represents c svc \<Longrightarrow> entry_plist c"
proof (induction rule: represents.induct)
  case (1 s name rid kvs cs vs)
  have "\<forall>x \<in> set vs. entry_plist x"
    using 1(8) by (auto simp: list_all2_conv_all_nth in_set_conv_nth)
  moreover have "length vs = length cs" using 1(8) by (rule list_all2_lengthD)
  ultimately show ?case using 1(3-7) by (intro entry_plist.intros) (auto split: if_splits)
qed

section \<open>Archiving answers\<close>

definition archivable :: "iokit \<Rightarrow> reg_entry \<Rightarrow> bool" where
  "archivable env e \<longleftrightarrow>
     (\<exists>name. e_name e = Some name \<and> is_utf8 env name) \<and> e_id e \<noteq> None \<and> e_class e \<noteq> None \<and>
     (\<forall>l. e_location e = Some l \<longrightarrow> is_utf8 env l) \<and>
     (e_conforms e ''IOService'' \<longrightarrow> e_busy e \<noteq> None) \<and>
     (\<exists>props. e_properties e = Some props \<and> ''IORegistryEntryChildren'' \<notin> fst ` set props)"

lemma archive_busy_keys:
  assumes "e_conforms e ''IOService'' \<longrightarrow> e_busy e \<noteq> None"
  obtains d' where "archive_busy e d = Inr d'"
    "\<And>k. k \<notin> {''IOServiceState'', ''IOServiceBusyState'', ''IOServiceBusyTime''} \<Longrightarrow> map_of d' k = map_of d k"
  using assms by (cases "e_conforms e ''IOService''") (fastforce simp: archive_busy_def update_conv)+

lemma archive_keys:
  assumes "archivable env e"
  obtains d name rid where "archive_service env opts e = Inr d" "e_name e = Some name" "e_id e = Some rid"
    "map_of d ''IORegistryEntryName'' = Some (CFString (Some name))"
    "map_of d ''IORegistryEntryID'' = Some (CFNumber (Some rid))"
    "map_of d ''IOObjectClass'' = Some (CFString (Some name))"
    "map_of d ''IOObjectRetainCount'' = Some (CFNumber (Some (scast (e_retain e))))"
    "map_of d ''IORegistryEntryChildren'' = None"
proof -
  obtain name rid cls props where e: "e_name e = Some name" "is_utf8 env name" "e_id e = Some rid"
      "e_class e = Some cls" "e_properties e = Some props" "''IORegistryEntryChildren'' \<notin> fst ` set props"
      "\<forall>l. e_location e = Some l \<longrightarrow> is_utf8 env l" "e_conforms e ''IOService'' \<longrightarrow> e_busy e \<noteq> None"
    using assms by (auto simp: archivable_def)
  obtain b where b: "compare opts e = Inr b" using compare_returns [of e opts] e(1) by auto
  define d0 where "d0 = (if list_opt opts \<or> b then props else [])"
  define d1 where "d1 = AList.update ''IORegistryEntryName'' (CFString (Some name)) d0"
  define d2 where "d2 = (case e_location e of None \<Rightarrow> d1 | Some l \<Rightarrow> AList.update ''IORegistryEntryLocation'' (CFString (Some l)) d1)"
  define d3 where "d3 = AList.update ''IOObjectRetainCount'' (CFNumber (Some (scast (e_retain e))))
    (AList.update ''IOObjectClass'' (CFString (Some name)) (AList.update ''IORegistryEntryID'' (CFNumber (Some rid)) d2))"
  have "archive_service env opts e = archive_busy e d3"
    using e b by (auto simp: archive_service_def d0_def d1_def d2_def d3_def Let_def split: option.split)
  moreover obtain d where "archive_busy e d3 = Inr d"
      and same: "\<And>k. k \<notin> {''IOServiceState'', ''IOServiceBusyState'', ''IOServiceBusyTime''} \<Longrightarrow> map_of d k = map_of d3 k"
    using archive_busy_keys [OF e(8)] by blast
  moreover have "map_of d0 ''IORegistryEntryChildren'' = None" using e(6) by (auto simp: d0_def map_of_eq_None_iff)
  then have "map_of d2 ''IORegistryEntryChildren'' = None" "map_of d2 ''IORegistryEntryName'' = Some (CFString (Some name))"
    by (auto simp: d2_def d1_def update_conv split: option.split)
  then have "map_of d3 ''IORegistryEntryName'' = Some (CFString (Some name))"
    "map_of d3 ''IORegistryEntryID'' = Some (CFNumber (Some rid))"
    "map_of d3 ''IOObjectClass'' = Some (CFString (Some name))"
    "map_of d3 ''IOObjectRetainCount'' = Some (CFNumber (Some (scast (e_retain e))))"
    "map_of d3 ''IORegistryEntryChildren'' = None"
    by (simp_all add: d3_def update_conv)
  ultimately show ?thesis using e(1,3) by (intro that [of d name rid]) simp_all
qed

text \<open>Every service has an iterator.\<close>

fun iterable :: "service \<Rightarrow> bool" where
  "iterable (Service s None) = False"
| "iterable (Service s (Some cs)) = list_all iterable cs"

lemma to_cf_represents:
  assumes "map_of d ''IORegistryEntryName'' = Some (CFString (Some name))" "e_name e = Some name" "e_id e = Some rid"
    "map_of d ''IORegistryEntryID'' = Some (CFNumber (Some rid))"
    "map_of d ''IOObjectClass'' = Some (CFString (Some name))"
    "map_of d ''IOObjectRetainCount'' = Some (CFNumber (Some (scast (e_retain e))))"
    "map_of d ''IORegistryEntryChildren'' = (if cs = [] then None else Some (CFArray vs))" "list_all2 represents vs cs"
  shows "represents (to_cf d) (Service e (Some cs))"
  using assms unfolding to_cf_def by (intro represents.intros) (simp_all add: value_at_to_cf)

lemma archive_scan_represents:
  "iterable (limited opts d svc) \<Longrightarrow> list_all (archivable env) (entries (limited opts d svc)) \<Longrightarrow>
     \<exists>dict. archive_scan env opts svc d = Inr (Some dict) \<and> represents (to_cf dict) (limited opts d svc)"
  "list_all iterable (map (limited opts (d + 1)) cs) \<Longrightarrow>
     list_all (archivable env) (entries_list (map (limited opts (d + 1)) cs)) \<Longrightarrow>
     \<exists>vs. archive_children env opts cs d = Inr vs \<and> list_all2 represents vs (map (limited opts (d + 1)) cs)"
proof (induction svc and cs arbitrary: d and d rule: height_heights.induct)
  case (2 s cs)
  let ?deeper = "depth_opt opts = 0 \<or> depth_opt opts > d + 1"
  have s: "archivable env s" using "2.prems"(2) by (simp add: limited_simps)
  obtain dict name rid where dict: "archive_service env opts s = Inr dict" "e_name s = Some name" "e_id s = Some rid"
      "map_of dict ''IORegistryEntryName'' = Some (CFString (Some name))"
      "map_of dict ''IORegistryEntryID'' = Some (CFNumber (Some rid))"
      "map_of dict ''IOObjectClass'' = Some (CFString (Some name))"
      "map_of dict ''IOObjectRetainCount'' = Some (CFNumber (Some (scast (e_retain s))))"
      "map_of dict ''IORegistryEntryChildren'' = None"
    using archive_keys [OF s] by metis
  show ?case
  proof (cases "?deeper \<and> cs \<noteq> []")
    case True
    then have "limited opts d (Service s (Some cs)) = Service s (Some (map (limited opts (d + 1)) cs))"
      by (simp add: limited_simps)
    moreover obtain vs where vs: "archive_children env opts cs d = Inr vs" "list_all2 represents vs (map (limited opts (d + 1)) cs)"
      using "2.IH" [of d] "2.prems" True by (auto simp: limited_simps)
    ultimately show ?thesis
      using True dict by (auto simp: update_conv intro!: to_cf_represents)
  next
    case False
    then have "limited opts d (Service s (Some cs)) = Service s (Some [])" by (auto simp: limited_simps)
    then show ?thesis using False dict by (auto intro!: to_cf_represents [where vs = "[]"])
  qed
next
  case (4 c cs)
  then obtain dict vs where "archive_scan env opts c (d + 1) = Inr (Some dict)" "represents (to_cf dict) (limited opts (d + 1) c)"
      "archive_children env opts cs d = Inr vs" "list_all2 represents vs (map (limited opts (d + 1)) cs)"
    by fastforce
  then show ?case by simp
qed (simp_all add: limited_simps)

text \<open>C21: the archive describes the limited tree: every service is a dictionary with its name, identifier and
  retain count, the name also in place of the class, and the array of its children in order.\<close>

theorem archive_represents:
  assumes "iterable (limited opts 0 svc)" "list_all (archivable env) (entries (limited opts 0 svc))"
  shows "\<exists>dict. archive_scan env opts svc 0 = Inr (Some dict) \<and> represents (to_cf dict) (limited opts 0 svc)"
  by (rule archive_scan_represents(1) [OF assms])

lemma archive_represents_witness:
  "\<exists>dict. archive_scan example_env (initial_options ''p'' False 0) example_tree 0 = Inr (Some dict) \<and>
     represents (to_cf dict) example_tree"
  using archive_represents [of "initial_options ''p'' False 0" example_tree example_env]
  by (simp add: limited_def initial_options_def example_tree_def archivable_def named_entry_def example_env_def)

section \<open>Types\<close>

lemma archive_scan_typed:
  "archive_scan env opts svc d = Inr (Some dict) \<Longrightarrow> list_all (archivable env) (entries svc) \<Longrightarrow> entry_plist (to_cf dict)"
  "archive_children env opts cs d = Inr vs \<Longrightarrow> list_all (archivable env) (entries_list cs) \<Longrightarrow>
     (\<forall>v \<in> set vs. entry_plist v) \<and> length vs = length cs"
proof (induction svc and cs arbitrary: d dict and d vs rule: height_heights.induct)
  case (2 s cs)
  have s: "archivable env s" using "2.prems"(2) by simp
  obtain dict0 name rid where dict0: "archive_service env opts s = Inr dict0" "e_name s = Some name" "e_id s = Some rid"
      "map_of dict0 ''IORegistryEntryName'' = Some (CFString (Some name))"
      "map_of dict0 ''IORegistryEntryID'' = Some (CFNumber (Some rid))"
      "map_of dict0 ''IOObjectClass'' = Some (CFString (Some name))"
      "map_of dict0 ''IOObjectRetainCount'' = Some (CFNumber (Some (scast (e_retain s))))"
      "map_of dict0 ''IORegistryEntryChildren'' = None"
    using archive_keys [OF s] by metis
  have typed: "entry_plist (to_cf d')" if "map_of d' ''IORegistryEntryChildren'' = None \<or>
      (\<exists>vs. map_of d' ''IORegistryEntryChildren'' = Some (CFArray vs) \<and> vs \<noteq> [] \<and> (\<forall>v \<in> set vs. entry_plist v))"
      "\<And>k. k \<noteq> ''IORegistryEntryChildren'' \<Longrightarrow> map_of d' k = map_of dict0 k" for d'
    using that dict0 unfolding to_cf_def by (intro entry_plist.intros) (auto simp: value_at_to_cf)
  show ?case
  proof (cases "(depth_opt opts = 0 \<or> depth_opt opts > d + 1) \<and> cs \<noteq> []")
    case True
    then obtain vs where vs: "archive_children env opts cs d = Inr vs"
        "dict = AList.update ''IORegistryEntryChildren'' (CFArray vs) dict0"
      using "2.prems"(1) dict0(1) by (cases "archive_children env opts cs d") auto
    moreover have "(\<forall>v \<in> set vs. entry_plist v) \<and> length vs = length cs"
      using "2.IH" [OF vs(1)] "2.prems"(2) by simp
    moreover from this True have "vs \<noteq> []" by auto
    ultimately show ?thesis by (intro typed) (auto simp: update_conv)
  next
    case False
    then have "dict = dict0" using "2.prems"(1) dict0(1) by auto
    then show ?thesis using typed dict0 by blast
  qed
next
  case (4 c cs)
  then obtain dict ws where "archive_scan env opts c (d + 1) = Inr (Some dict)" "archive_children env opts cs d = Inr ws"
      "vs = to_cf dict # ws"
    by (auto simp: after_def split: sum.splits option.splits)
  then show ?case using 4 by fastforce
qed (simp_all add: after_def)

lemma archive_match_typed:
  assumes "archive_match env opts svc d stack = Inr vs" "list_all (archivable env) (entries svc)" "\<not> tree_opt opts"
  shows "\<forall>v \<in> set vs. entry_plist v"
proof -
  obtain dict where "archive_scan env opts svc 0 = Inr (Some dict)" "vs = [to_cf dict]"
    using assms by (auto simp: archive_match_def after_def split: sum.splits option.splits)
  then show ?thesis using archive_scan_typed(1) assms(2) by auto
qed

definition typed_array :: "cf list option \<Rightarrow> bool" where
  "typed_array array \<longleftrightarrow> (case array of None \<Rightarrow> True | Some vs \<Rightarrow> \<forall>v \<in> set vs. entry_plist v)"

lemma typed_append: "typed_array a \<Longrightarrow> typed_array b \<Longrightarrow> typed_array (append_array a b)"
  by (auto simp: typed_array_def append_array_def split: option.splits)

lemma archive_search_typed_from:
  "list_all (archivable env) (entries svc) \<Longrightarrow> \<not> tree_opt opts \<Longrightarrow>
     archive_search env opts svc md d stack = (Inr array, st) \<Longrightarrow> typed_array array"
  "list_all (archivable env) (entries_list cs) \<Longrightarrow> \<not> tree_opt opts \<Longrightarrow> typed_array array0 \<Longrightarrow>
     archive_search_children env opts cs md d array0 stack = (Inr array, st) \<Longrightarrow> typed_array array"
proof (induction svc and cs arbitrary: md d stack array st and md d stack array0 array st rule: height_heights.induct)
  case (1 s)
  then show ?case
    using archive_match_typed [of env opts "Service s None" d stack]
    by (fastforce simp: after_def typed_array_def split: sum.splits option.splits if_splits)
next
  case (2 s cs)
  obtain array1 md1 where "archive_search_children env opts cs md1 d array1 (stack(d := Some s)) = (Inr array, st)"
      "typed_array array1"
    using "2.prems" archive_match_typed [of env opts "Service s (Some cs)" d stack]
    by (fastforce simp: after_def typed_array_def arr_set_def split: sum.splits option.splits if_splits)
  then show ?case using "2.IH" "2.prems"(1,2) by auto
next
  case (4 c cs)
  obtain array2 st2 where a2: "archive_search env opts c md (d + 1) stack = (Inr array2, st2)"
      "archive_search_children env opts cs md d (append_array array0 array2) st2 = (Inr array, st)"
    using "4.prems"(4) by (auto split: prod.splits sum.splits)
  have "typed_array array2" using "4.IH"(1) [OF _ "4.prems"(2) a2(1)] "4.prems"(1) by simp
  then have "typed_array (append_array array0 array2)" by (rule typed_append [OF "4.prems"(3)])
  then show ?case using "4.IH"(2) [OF _ "4.prems"(2) _ a2(2)] "4.prems"(1) by simp
qed simp

text \<open>C22: without \<open>-t\<close>, what the archived search returns is an array of well-typed entries: registry keys of
  the right types, children in arrays of such entries.\<close>

theorem archive_search_typed:
  assumes "list_all (archivable env) (entries svc)" "\<not> tree_opt opts"
    and "fst (archive_search env opts svc 0 0 stack) = Inr (Some vs)"
  shows "\<forall>v \<in> set vs. entry_plist v"
  using archive_search_typed_from(1) [OF assms(1,2), of 0 0 stack "Some vs"] assms(3)
  by (cases "archive_search env opts svc 0 0 stack") (auto simp: typed_array_def)

lemma archive_search_typed_witness:
  "\<exists>v. fst (archive_search example_env ((initial_options ''p'' False 0)\<lparr>class_opt := Some ''CPU''\<rparr>) example_tree 0 0 (\<lambda>i. None)) =
     Inr (Some [v]) \<and> entry_plist v"
proof -
  let ?o = "(initial_options ''p'' False 0)\<lparr>class_opt := Some ''CPU''\<rparr>"
  obtain v where "fst (archive_search example_env ?o example_tree 0 0 (\<lambda>i. None)) = Inr (Some [v])"
    by (auto simp: example_tree_def is_match_def compare_def initial_options_def named_entry_def matched_depth_def
        archive_match_def archive_service_def archive_busy_def example_env_def make_string_def MAX_DEPTH_def append_array_def Let_def)
  moreover have "list_all (archivable example_env) (entries example_tree)"
    by (simp add: example_tree_def archivable_def named_entry_def example_env_def)
  moreover have "\<not> tree_opt ?o" by (simp add: initial_options_def)
  ultimately show ?thesis using archive_search_typed [of example_env example_tree ?o] by auto
qed

text \<open>With \<open>-t\<close> the children of a parent are a dictionary instead of an array.\<close>

lemma archive_parents_children:
  "archive_parents env opts stack n dict = Inr d \<Longrightarrow>
   d = dict \<and> n = 0 \<or> (\<exists>d'. map_of d ''IORegistryEntryChildren'' = Some (to_cf d'))"
proof (induction env opts stack n dict rule: archive_parents.induct)
  case (2 env opts stack index dict)
  then obtain object dict2 where step: "Option.bind (arr_get MAX_DEPTH stack index) id = Some object"
      "archive_service env opts object = Inr dict2"
      "archive_parents env opts stack index (AList.update ''IORegistryEntryChildren'' (to_cf dict) dict2) = Inr d"
    by (auto simp: after_def split: option.splits sum.splits)
  then show ?case using "2.IH" by (fastforce simp: update_conv)
qed simp

text \<open>With \<open>-t\<close> a match below the root is archived with children that are a dictionary instead of an
  array, so the result is not well typed.\<close>

theorem archive_tree_mistyped:
  assumes "archive_match env opts svc d stack = Inr vs" "tree_opt opts" "0 < d"
  shows "\<forall>v \<in> set vs. \<not> entry_plist v"
proof -
  obtain dict0 dict where "archive_parents env opts stack d dict0 = Inr dict" "vs = [to_cf dict]"
    using assms by (auto simp: archive_match_def after_def split: sum.splits option.splits)
  moreover from this obtain d' where "map_of dict ''IORegistryEntryChildren'' = Some (to_cf d')"
    using archive_parents_children assms(3) by blast
  ultimately show ?thesis
    unfolding to_cf_def by (auto simp: value_at_to_cf elim!: entry_plistE)
qed

lemma archive_tree_mistyped_witness:
  "\<exists>v. archive_match example_env ((initial_options ''p'' False 0)\<lparr>tree_opt := True\<rparr>)
      (Service (named_entry ''cpu'' ''CPU'') (Some [])) 1 (ancestors [named_entry ''Root'' ''Root'']) = Inr [v] \<and> \<not> entry_plist v"
proof -
  let ?o = "(initial_options ''p'' False 0)\<lparr>tree_opt := True\<rparr>" and ?s = "Service (named_entry ''cpu'' ''CPU'') (Some [])"
  obtain v where "archive_match example_env ?o ?s 1 (ancestors [named_entry ''Root'' ''Root'']) = Inr [v]"
    by (auto simp: compare_def initial_options_def named_entry_def ancestors_def
        archive_match_def archive_service_def archive_busy_def example_env_def make_string_def MAX_DEPTH_def Let_def)
  then show ?thesis
    using archive_tree_mistyped [of example_env ?o ?s 1 "ancestors [named_entry ''Root'' ''Root'']" "[v]"] by auto
qed

end
