(* ===== verification/Ioreg_Main.thy ===== *)
theory Ioreg_Main
  imports Ioreg_Archive
begin

text \<open>
  The program of \<open>src/src/ioreg.c\<close>: the options and the choice between the four traversals.
\<close>

section \<open>Options\<close>

text \<open>\<open>getopt\<close> of the C library: the options with their arguments up to the first word that is none; a
  letter that is no option gives a question mark, a missing argument a colon. The first argument is what
  is left of the current word.\<close>

function getopt :: "(char \<Rightarrow> bool option) \<Rightarrow> string \<Rightarrow> string list \<Rightarrow> (char \<times> string) list" where
  "getopt spec [] [] = []"
| "getopt spec [] (a # args) =
     (if length a < 2 \<or> hd a \<noteq> CHR ''-'' \<or> a = ''--'' then [] else getopt spec (tl a) args)"
| "getopt spec (c # cs) args =
     (case spec c of
        None \<Rightarrow> (CHR ''?'', []) # getopt spec cs args
      | Some False \<Rightarrow> (c, []) # getopt spec cs args
      | Some True \<Rightarrow>
          if cs \<noteq> [] then (c, cs) # getopt spec [] args
          else case args of [] \<Rightarrow> [(CHR '':'', [])] | b # bs \<Rightarrow> (c, b) # getopt spec [] bs)"
  by pat_completeness auto
termination
  by (relation "measure (\<lambda>(spec, cs, args). length cs + sum_list (map (\<lambda>a. length a + 1) args))") auto

text \<open>The option string \<open>:abc:d:fik:ln:p:orsStw:x\<close>.\<close>

definition ioreg_spec :: "char \<Rightarrow> bool option" where
  "ioreg_spec c =
     (if c \<in> set ''cdknpw'' then Some True else if c \<in> set ''abfilorsStx'' then Some False else None)"

text \<open>\<open>atoi\<close>, undefined for a number that is no \<open>int\<close>, converted to \<open>UInt32\<close>.\<close>

definition uint32_arg :: "string \<Rightarrow> nat option" where
  "uint32_arg s = (if - (2 ^ 31) \<le> atoi s \<and> atoi s < 2 ^ 31 then Some (nat (atoi s mod 2 ^ 32)) else None)"

text \<open>The cases of the \<open>switch\<close>; \<open>Some None\<close> is \<open>usage\<close>, which leaves, and \<open>None\<close> is undefined.\<close>

definition set_option :: "char \<times> string \<Rightarrow> options \<Rightarrow> options option option" where
  "set_option a opts =
     (case a of (argument, optarg) \<Rightarrow>
        if argument = CHR ''a'' then Some (Some (opts\<lparr>archive_opt := True\<rparr>))
        else if argument = CHR ''b'' then Some (Some (opts\<lparr>bold_opt := True\<rparr>))
        else if argument = CHR ''c'' then Some (Some (opts\<lparr>class_opt := Some optarg\<rparr>))
        else if argument = CHR ''d'' then map_option (\<lambda>n. Some (opts\<lparr>depth_opt := n\<rparr>)) (uint32_arg optarg)
        else if argument = CHR ''f'' then Some (Some (opts\<lparr>format_opt := True\<rparr>))
        else if argument = CHR ''i'' then Some (Some (opts\<lparr>inheritance_opt := True\<rparr>))
        else if argument = CHR ''k'' then Some (Some (opts\<lparr>key_opt := Some optarg\<rparr>))
        else if argument = CHR ''l'' then Some (Some (opts\<lparr>list_opt := True\<rparr>))
        else if argument = CHR ''n'' then Some (Some (opts\<lparr>name_opt := Some optarg\<rparr>))
        else if argument = CHR ''p'' then Some (Some (opts\<lparr>plane_opt := optarg\<rparr>))
        else if argument = CHR ''r'' then Some (Some (opts\<lparr>root_opt := True\<rparr>))
        else if argument = CHR ''s'' \<or> argument = CHR ''S'' then Some (Some opts)
        else if argument = CHR ''o'' then Some (Some (opts\<lparr>open_opt := True\<rparr>))
        else if argument = CHR ''t'' then Some (Some (opts\<lparr>tree_opt := True\<rparr>))
        else if argument = CHR ''w'' then map_option (\<lambda>n. Some (opts\<lparr>width_opt := n\<rparr>)) (uint32_arg optarg)
        else if argument = CHR ''x'' then Some (Some (opts\<lparr>hex_opt := True\<rparr>))
        else Some None)"

fun set_options :: "(char \<times> string) list \<Rightarrow> options \<Rightarrow> options option option" where
  "set_options [] opts = Some (Some opts)"
| "set_options (a # as) opts =
     (case set_option a opts of None \<Rightarrow> None | Some None \<Rightarrow> Some None | Some (Some opts) \<Rightarrow> set_options as opts)"

definition parse_options :: "string list \<Rightarrow> options \<Rightarrow> options option option" where
  "parse_options args opts = set_options (getopt ioreg_spec [] args) opts"

section \<open>The program\<close>

text \<open>What comes out: text, or a property list on standard output (\<open>None\<close>: nothing is written), or anything.\<close>

datatype result = Text io nat | Plist "stop + cf option" | Undefined_arguments

text \<open>\<open>garbage\<close> is the value of the unassigned option, \<open>root\<close> the root of the registry.\<close>

definition ioreg_main :: "iokit \<Rightarrow> string \<Rightarrow> bool \<Rightarrow> nat \<Rightarrow> service option \<Rightarrow> string list \<Rightarrow> result" where
  "ioreg_main env kIOServicePlane garbage ws_col root args =
     (case parse_options args (initial_options kIOServicePlane garbage ws_col) of
        None \<Rightarrow> Undefined_arguments
      | Some None \<Rightarrow> Text (halt (Failed ''usage'')) 0
      | Some (Some opts) \<Rightarrow>
          if width_opt opts \<ge> 2 ^ 31 then Text (halt (Failed ''can't allocate buffer'')) 0
          else case root of
            None \<Rightarrow> Text (halt (Failed ''can't obtain I/O Kit's root service'')) (width_opt opts)
          | Some service \<Rightarrow>
              if archive_opt opts then
                Plist (if root_opt opts then
                         after (fst (archive_search env opts service 0 0 (\<lambda>i. None))) (\<lambda>array. Inr (map_option CFArray array))
                       else after (archive_scan env opts service 0) (\<lambda>d. Inr (map_option to_cf d)))
              else
                Text (if root_opt opts then fst (search env opts service 0 0 (\<lambda>i. None))
                      else scan env opts service False 0 0) (width_opt opts))"

definition ioreg_screen :: "result \<Rightarrow> string option" where
  "ioreg_screen out =
     (case out of
        Text (cs, stop) w \<Rightarrow> if stop = None then Some (screen (run_calls cs (printinit w))) else None
      | _ \<Rightarrow> None)"

section \<open>Command lines\<close>

text \<open>The arguments that ask for given options.\<close>

definition flag_arg :: "bool \<Rightarrow> char \<Rightarrow> string list" where
  "flag_arg b c = (if b then [[CHR ''-'', c]] else [])"

definition value_arg :: "string option \<Rightarrow> char \<Rightarrow> string list" where
  "value_arg v c = (case v of None \<Rightarrow> [] | Some s \<Rightarrow> [[CHR ''-'', c], s])"

text \<open>The numbers from \<open>2 ^ 31\<close> on are given as negative ones.\<close>

definition number_text :: "nat \<Rightarrow> string" where
  "number_text n = (if n < 2 ^ 31 then show_nat n else CHR ''-'' # show_nat (2 ^ 32 - n))"

definition args_of :: "options \<Rightarrow> string list" where
  "args_of opts =
     flag_arg (archive_opt opts) CHR ''a'' @ flag_arg (bold_opt opts) CHR ''b'' @ value_arg (class_opt opts) CHR ''c'' @
     value_arg (Some (number_text (depth_opt opts))) CHR ''d'' @ flag_arg (format_opt opts) CHR ''f'' @
     flag_arg (inheritance_opt opts) CHR ''i'' @ value_arg (key_opt opts) CHR ''k'' @ flag_arg (list_opt opts) CHR ''l'' @
     value_arg (name_opt opts) CHR ''n'' @ value_arg (Some (plane_opt opts)) CHR ''p'' @ flag_arg (root_opt opts) CHR ''r'' @
     flag_arg (open_opt opts) CHR ''o'' @ flag_arg (tree_opt opts) CHR ''t'' @
     value_arg (Some (number_text (width_opt opts))) CHR ''w'' @ flag_arg (hex_opt opts) CHR ''x''"

lemma digit_char_value:
  assumes "d < 10"
  shows "(of_char (digit_char d) :: int) = 48 + int d"
proof -
  have "(of_char (digit_char d) :: nat) = 48 + d" using assms by (simp add: digit_char_def)
  then have "(of_nat (of_char (digit_char d)) :: int) = 48 + int d" by simp
  then show ?thesis by (simp only: of_nat_of_char)
qed

lemma digits_value_append:
  "list_all (\<lambda>c. \<exists>d < 10. c = digit_char d) s \<Longrightarrow> digits_value n (s @ t) = digits_value (digits_value n s) t"
proof (induction s arbitrary: n)
  case (Cons c s)
  then obtain d where "d < 10" "c = digit_char d" by auto
  then show ?case using Cons by (simp add: digit_char_value Let_def)
qed simp

lemma digits_value_show_nat: "digits_value 0 (show_nat n) = int n"
proof (induction n rule: show_nat.induct)
  case (1 n)
  show ?case
  proof (cases "n < 10")
    case True
    then show ?thesis by (simp add: show_nat.simps digit_char_value Let_def)
  next
    case False
    have "digits_value 0 (show_nat (n div 10) @ [digit_char (n mod 10)]) = int n"
      using 1 [OF False] digits_value_append [of "show_nat (n div 10)" 0 "[digit_char (n mod 10)]"] show_nat_digits
      by (simp add: digit_char_value Let_def list_all_iff zdiv_int zmod_int)
    then show ?thesis using False by (simp add: show_nat.simps [of n])
  qed
qed

lemma show_nat_head: obtains d cs where "d < 10" "show_nat n = digit_char d # cs"
proof -
  have "show_nat n \<noteq> []" by (simp add: show_nat.simps)
  then obtain c cs where "show_nat n = c # cs" by (cases "show_nat n") auto
  moreover from this obtain d where "d < 10" "c = digit_char d" using show_nat_digits [of c n] by auto
  ultimately show ?thesis using that by blast
qed

lemma atoi_show_nat: "atoi (show_nat n) = int n"
proof -
  obtain d cs where d: "d < 10" "show_nat n = digit_char d # cs" by (rule show_nat_head)
  have v: "(of_char (digit_char d) :: int) = 48 + int d" using digit_char_value [OF d(1)] .
  then have "\<not> is_blank (digit_char d)" "digit_char d \<noteq> CHR ''-''" "digit_char d \<noteq> CHR ''+''"
    by (auto simp: is_blank_def)
  then show ?thesis using digits_value_show_nat [of n] d(2) by (simp add: atoi_def)
qed

lemma uint32_arg_number: "n < 2 ^ 32 \<Longrightarrow> uint32_arg (number_text n) = Some n"
proof (cases "n < 2 ^ 31")
  case True
  then show ?thesis by (simp add: uint32_arg_def number_text_def atoi_show_nat nat_mod_distrib)
next
  case False
  assume n: "n < 2 ^ 32"
  have "atoi (CHR ''-'' # show_nat k) = - int k" for k
    using digits_value_show_nat [of k] by (simp add: atoi_def is_blank_def)
  moreover have "- int (2 ^ 32 - n) mod 2 ^ 32 = int n"
  proof -
    have "- int (2 ^ 32 - n) = int n + - 1 * 2 ^ 32" using n by (simp add: of_nat_diff)
    then have "- int (2 ^ 32 - n) mod 2 ^ 32 = int n mod 2 ^ 32" by (simp only: mod_mult_self1)
    then show ?thesis using n by simp
  qed
  ultimately show ?thesis using False n by (simp add: uint32_arg_def number_text_def)
qed

lemma flag_step:
  assumes "ioreg_spec c = Some False" "c \<noteq> CHR ''-''" "\<And>os. set_option (c, []) os = Some (Some (f os))"
  shows "set_options (getopt ioreg_spec [] (flag_arg b c @ args)) os =
    set_options (getopt ioreg_spec [] args) (if b then f os else os)"
  using assms by (simp add: flag_arg_def)

lemma value_step:
  assumes "ioreg_spec c = Some True" "c \<noteq> CHR ''-''" "\<And>os s. set_option (c, s) os = Some (Some (f s os))"
  shows "set_options (getopt ioreg_spec [] (value_arg v c @ args)) os =
    set_options (getopt ioreg_spec [] args) (case v of None \<Rightarrow> os | Some s \<Rightarrow> f s os)"
  using assms by (simp add: value_arg_def split: option.split)

lemma number_step:
  assumes "n < 2 ^ 32" "ioreg_spec c = Some True" "c \<noteq> CHR ''-''"
    "\<And>os s. set_option (c, s) os = map_option (\<lambda>k. Some (f k os)) (uint32_arg s)"
  shows "set_options (getopt ioreg_spec [] (value_arg (Some (number_text n)) c @ args)) os =
    set_options (getopt ioreg_spec [] args) (f n os)"
  using assms uint32_arg_number by (simp add: value_arg_def)

text \<open>Each option as a change of its field.\<close>

lemma option_updates:
  "(if b then os\<lparr>archive_opt := True\<rparr> else os) = os\<lparr>archive_opt := archive_opt os \<or> b\<rparr>"
  "(if b then os\<lparr>bold_opt := True\<rparr> else os) = os\<lparr>bold_opt := bold_opt os \<or> b\<rparr>"
  "(if b then os\<lparr>format_opt := True\<rparr> else os) = os\<lparr>format_opt := format_opt os \<or> b\<rparr>"
  "(if b then os\<lparr>inheritance_opt := True\<rparr> else os) = os\<lparr>inheritance_opt := inheritance_opt os \<or> b\<rparr>"
  "(if b then os\<lparr>list_opt := True\<rparr> else os) = os\<lparr>list_opt := list_opt os \<or> b\<rparr>"
  "(if b then os\<lparr>root_opt := True\<rparr> else os) = os\<lparr>root_opt := root_opt os \<or> b\<rparr>"
  "(if b then os\<lparr>open_opt := True\<rparr> else os) = os\<lparr>open_opt := open_opt os \<or> b\<rparr>"
  "(if b then os\<lparr>tree_opt := True\<rparr> else os) = os\<lparr>tree_opt := tree_opt os \<or> b\<rparr>"
  "(if b then os\<lparr>hex_opt := True\<rparr> else os) = os\<lparr>hex_opt := hex_opt os \<or> b\<rparr>"
  "(case v of None \<Rightarrow> os | Some s \<Rightarrow> os\<lparr>class_opt := Some s\<rparr>) = os\<lparr>class_opt := if v = None then class_opt os else v\<rparr>"
  "(case v of None \<Rightarrow> os | Some s \<Rightarrow> os\<lparr>key_opt := Some s\<rparr>) = os\<lparr>key_opt := if v = None then key_opt os else v\<rparr>"
  "(case v of None \<Rightarrow> os | Some s \<Rightarrow> os\<lparr>name_opt := Some s\<rparr>) = os\<lparr>name_opt := if v = None then name_opt os else v\<rparr>"
  by (simp_all split: option.split)

lemmas arg_steps =
  flag_step [of "CHR ''a''" "\<lambda>os. os\<lparr>archive_opt := True\<rparr>", unfolded option_updates]
  flag_step [of "CHR ''b''" "\<lambda>os. os\<lparr>bold_opt := True\<rparr>", unfolded option_updates]
  flag_step [of "CHR ''f''" "\<lambda>os. os\<lparr>format_opt := True\<rparr>", unfolded option_updates]
  flag_step [of "CHR ''i''" "\<lambda>os. os\<lparr>inheritance_opt := True\<rparr>", unfolded option_updates]
  flag_step [of "CHR ''l''" "\<lambda>os. os\<lparr>list_opt := True\<rparr>", unfolded option_updates]
  flag_step [of "CHR ''r''" "\<lambda>os. os\<lparr>root_opt := True\<rparr>", unfolded option_updates]
  flag_step [of "CHR ''o''" "\<lambda>os. os\<lparr>open_opt := True\<rparr>", unfolded option_updates]
  flag_step [of "CHR ''t''" "\<lambda>os. os\<lparr>tree_opt := True\<rparr>", unfolded option_updates]
  flag_step [of "CHR ''x''" "\<lambda>os. os\<lparr>hex_opt := True\<rparr>" _ "[]", unfolded option_updates append_Nil2]
  value_step [of "CHR ''c''" "\<lambda>s os. os\<lparr>class_opt := Some s\<rparr>", unfolded option_updates]
  value_step [of "CHR ''k''" "\<lambda>s os. os\<lparr>key_opt := Some s\<rparr>", unfolded option_updates]
  value_step [of "CHR ''n''" "\<lambda>s os. os\<lparr>name_opt := Some s\<rparr>", unfolded option_updates]
  value_step [of "CHR ''p''" "\<lambda>s os. os\<lparr>plane_opt := s\<rparr>"]
  number_step [of _ "CHR ''d''" "\<lambda>n os. os\<lparr>depth_opt := n\<rparr>"]
  number_step [of _ "CHR ''w''" "\<lambda>n os. os\<lparr>width_opt := n\<rparr>"]

text \<open>C26: Parsing the arguments made from a setting of the options gives that setting, but for \<open>-o\<close>: the program never
  assigns that option before the arguments, so without \<open>-o\<close> it keeps the value that its memory happened to have.
  Depths and widths are 32-bit numbers; the upper half of them is given as negative numbers, because \<open>atoi\<close> returns
  an \<open>int\<close>.\<close>

theorem options_roundtrip:
  assumes "depth_opt opts < 2 ^ 32" "width_opt opts < 2 ^ 32"
  shows "parse_options (args_of opts) (initial_options plane garbage ws_col) =
    Some (Some (opts\<lparr>open_opt := open_opt opts \<or> garbage\<rparr>))"
proof -
  have "set_options (getopt ioreg_spec [] (args_of opts)) (initial_options plane garbage ws_col) =
      Some (Some (opts\<lparr>open_opt := open_opt opts \<or> garbage\<rparr>))"
    using assms unfolding args_of_def
    by (cases opts) (simp add: arg_steps ioreg_spec_def set_option_def initial_options_def del: getopt.simps(2), blast)
  then show ?thesis by (simp add: parse_options_def)
qed

lemma options_roundtrip_witness:
  "parse_options [''-c'', ''IOCPU'', ''-d'', ''3'', ''-p'', ''IODeviceTree'', ''-r'', ''-w'', ''-1''] (initial_options ''IOService'' True 0) =
     Some (Some ((initial_options ''IODeviceTree'' True 4294967295)\<lparr>class_opt := Some ''IOCPU'', depth_opt := 3, root_opt := True\<rparr>))"
proof -
  let ?o = "(initial_options ''IODeviceTree'' False 4294967295)\<lparr>class_opt := Some ''IOCPU'', depth_opt := 3, root_opt := True\<rparr>"
  have "show_nat 3 = ''3''" "show_nat 1 = ''1''" by code_simp+
  then have "args_of ?o = [''-c'', ''IOCPU'', ''-d'', ''3'', ''-p'', ''IODeviceTree'', ''-r'', ''-w'', ''-1'']"
    by (simp add: args_of_def flag_arg_def value_arg_def number_text_def initial_options_def)
  then show ?thesis using options_roundtrip [of ?o "''IOService''" True 0] by (simp add: initial_options_def)
qed

section \<open>The listing\<close>

text \<open>C18: without options the program prints the whole tree, line by line, each line fitted to the width of
  the screen.\<close>

theorem ioreg_listing:
  assumes "height root \<le> 30" "ws_col < 2 ^ 31"
    and "render env (initial_options plane garbage ws_col) [False] root = says cs" "split_lines cs = (ls, [])"
  shows "ioreg_screen (ioreg_main env plane garbage ws_col (Some root) []) =
    Some (concat (map (\<lambda>l. line_text ws_col l @ [CHR 0x0A]) ls))"
proof -
  let ?o = "initial_options plane garbage ws_col"
  have "limited ?o 0 root = root" by (simp add: limited_def initial_options_def)
  then have "scan env ?o root False 0 0 = says cs"
    using scan_renders_from(1) [of "[]" ?o root 0 env False] agrees_bits_of [of "[]"] assms(1,3) by (simp add: bits_of_def)
  moreover have "screen (run_calls cs (printinit ws_col)) = concat (map (\<lambda>l. line_text ws_col l @ [CHR 0x0A]) ls)"
    using clip_printer.put_lines [of ws_col "printinit ws_col" ls] split_lines_spec [OF assms(4)] fresh_printinit [of ws_col]
    by (simp add: printinit_def)
  ultimately show ?thesis
    using assms(2) by (simp add: ioreg_main_def parse_options_def ioreg_screen_def says_def initial_options_def)
qed

lemma ioreg_listing_witness:
  "ioreg_screen (ioreg_main example_env ''IOService'' False 20 (Some (Service (named_entry ''Root'' ''Root'') (Some []))) []) =
     Some (''+-o '' @ CYAN @ ''Root'' @ NORMAL @ '' <id 0x1, ret$'' @ [CHR 0x0A])"
proof -
  let ?line = "[Print ''+-o '', Printf CYAN, Print ''Root'', Printf NORMAL, Printf '' <'', Print ''id 0x1'', Print '', retain 1'', Println ''>'']"
  let ?root = "Service (named_entry ''Root'' ''Root'') (Some [])" and ?o = "initial_options ''IOService'' False 20"
  have "show_hex 1 = ''1''" "show_nat 1 = ''1''" by code_simp+
  then have "render example_env ?o [False] ?root = says ?line"
    by (simp add: show_service_def show_name_def show_class_def show_busy_def compare_def named_entry_def
        initial_options_def io_simps indent_node)
  moreover have "split_lines ?line = ([?line], [])" by simp
  moreover have "line_text 20 ?line = ''+-o '' @ CYAN @ ''Root'' @ NORMAL @ '' <id 0x1, ret$''"
    by (simp add: line_text_def blank_newline_def)
  moreover have "height ?root \<le> 30" "(20::nat) < 2 ^ 31" by simp_all
  ultimately show ?thesis using ioreg_listing [of ?root 20 example_env "''IOService''" False ?line "[?line]"] by simp
qed

end
