(* ===== verification/Dtize.thy ===== *)
theory Dtize
  imports Prelude
begin

text \<open>
  The device tree printer \<open>src/src/dtize.c\<close>: \<open>getDTNode\<close> reads a node, its properties and, recursively,
  its children from a file descriptor, and \<open>main\<close> skips the IM4P header first. A \<open>read\<close> that finds
  fewer bytes leaves the rest of its buffer as it was; bytes never written are indeterminate (\<open>None\<close>),
  and using one is undefined. Output lines are items.
\<close>

section \<open>Reading\<close>

type_synonym dbuf = "byte option list"

definition read_into :: "mem \<Rightarrow> nat \<Rightarrow> nat \<Rightarrow> dbuf \<Rightarrow> dbuf \<times> nat" where
  "read_into file pos n buf =
     (let bytes = take n (drop pos file)
      in (map Some bytes @ drop (length bytes) buf, pos + length bytes))"

fun known :: "dbuf \<Rightarrow> mem option" where
  "known [] = Some []"
| "known (x # xs) = do { b \<leftarrow> x; bs \<leftarrow> known xs; Some (b # bs) }"

fun known_str :: "dbuf \<Rightarrow> mem option" where
  "known_str [] = None"
| "known_str (x # xs) = do { b \<leftarrow> x; if b = 0 then Some [] else map_option (Cons b) (known_str xs) }"

text \<open>A \<open>uint32_t\<close> variable that is read into.\<close>

definition read_u32 :: "mem \<Rightarrow> nat \<Rightarrow> nat \<Rightarrow> (nat \<times> nat) option" where
  "read_u32 file pos v =
     (let (buf, pos') = read_into file pos 4 (map Some (le_bytes 4 v))
      in do { bs \<leftarrow> known buf; Some (le_val bs, pos') })"

section \<open>Properties\<close>

definition DEV_TREE_PROP_NAME_LEN :: nat where
  "DEV_TREE_PROP_NAME_LEN = 32"

definition DEV_TREE_PROP_VALUE_LEN :: nat where
  "DEV_TREE_PROP_VALUE_LEN = 8192"

definition PAD32 :: "nat \<Rightarrow> nat" where
  "PAD32 x = (x + 3) div 4 * 4"

datatype dt_value = IntVal int | NullVal | TextVal string

datatype dt_item =
    Total nat
  | Counts int int
  | Child nat
  | Property nat mem nat dt_value
  | Excessive nat nat

definition value_char :: "mem \<Rightarrow> nat \<Rightarrow> string" where
  "value_char bs j =
     (let b = bs ! j in
      if 0x20 \<le> b \<and> b < 0x7F then [char_of (unat b)]
      else if j = length bs - 1 \<and> b = 0 then []
      else [CHR 0x5C, CHR ''x'', hex_digit (unat b div 16), hex_digit (unat b mod 16)])"

definition show_value :: "mem \<Rightarrow> dt_value" where
  "show_value bs =
     (if length bs = 4 then IntVal (sint (of_nat (le_val bs) :: 32 word))
      else if bs = replicate (length bs) 0 then NullVal
      else TextVal (concat (map (value_char bs) [0..<length bs])))"

record dt_vars =
  name_buf :: dbuf
  value_buf :: dbuf
  len_flags :: nat

text \<open>One property: \<open>Inr\<close> is the exit on an excessive length. The four flag bits are masked out of the
  variable itself.\<close>

definition dt_property ::
  "mem \<Rightarrow> nat \<Rightarrow> dt_vars \<times> nat \<Rightarrow> (dt_item \<times> dt_vars \<times> nat + dt_item) option" where
  "dt_property file indent st =
     (case st of (vars, pos) \<Rightarrow> do {
        let (name, pos) = read_into file pos DEV_TREE_PROP_NAME_LEN (name_buf vars);
        (lf, pos) \<leftarrow> read_u32 file pos (len_flags vars);
        let len = lf mod 2 ^ 28;
        if len > DEV_TREE_PROP_VALUE_LEN then Some (Inr (Excessive pos len))
        else do {
          let (val, pos) = read_into file pos (PAD32 len) (value_buf vars);
          nm \<leftarrow> known_str name;
          bs \<leftarrow> known (take len val);
          Some (Inl (Property indent nm len (show_value bs),
                     \<lparr>name_buf = name, value_buf = val, len_flags = len\<rparr>, pos))
        }
      })"

text \<open>The counters \<open>p\<close> and \<open>c\<close> are of type \<open>int\<close>: counting past the largest one is undefined.\<close>

definition int_incr :: "nat \<Rightarrow> nat option" where
  "int_incr p = (if p + 1 < 2 ^ 31 then Some (p + 1) else None)"

text \<open>\<open>while (p < numProperties)\<close>, with the number of rounds left. Results: the items with the new file position, or
  with nothing once the program has exited.\<close>

fun dt_properties ::
  "mem \<Rightarrow> nat \<Rightarrow> nat \<Rightarrow> nat \<Rightarrow> dt_vars \<times> nat \<Rightarrow> (dt_item list \<times> nat option) option" where
  "dt_properties file indent p 0 st = Some ([], Some (snd st))"
| "dt_properties file indent p (Suc n) st = do {
     r \<leftarrow> dt_property file indent st;
     case r of
       Inr e \<Rightarrow> Some ([e], None)
     | Inl (i, st') \<Rightarrow> do {
         p' \<leftarrow> int_incr p;
         (is, end) \<leftarrow> dt_properties file indent p' n st';
         Some (i # is, end)
       }
   }"

text \<open>\<open>while (c < numChildren)\<close>, where \<open>node\<close> is the recursive call.\<close>

fun dt_children ::
  "(nat \<Rightarrow> (dt_item list \<times> nat option) option) \<Rightarrow> nat \<Rightarrow> nat \<Rightarrow> nat \<Rightarrow> (dt_item list \<times> nat option) option" where
  "dt_children node c 0 pos = Some ([], Some pos)"
| "dt_children node c (Suc n) pos = do {
     (xs, pos') \<leftarrow> node pos;
     case pos' of
       None \<Rightarrow> Some (Child c # xs, None)
     | Some p \<Rightarrow> do {
         c' \<leftarrow> int_incr c;
         (ys, end) \<leftarrow> dt_children node c' n p;
         Some (Child c # xs @ ys, end)
       }
   }"

text \<open>The fuel bounds the depth of the recursion.\<close>

fun getDTNode :: "nat \<Rightarrow> mem \<Rightarrow> nat \<Rightarrow> nat \<Rightarrow> (dt_item list \<times> nat option) option" where
  "getDTNode 0 file indent pos = None"
| "getDTNode (Suc fuel) file indent pos = do {
     (np, pos) \<leftarrow> read_u32 file pos 0;
     (nc, pos) \<leftarrow> read_u32 file pos 0;
     let hd = Counts (sint (of_nat np :: 32 word)) (sint (of_nat nc :: 32 word));
     (props, end) \<leftarrow> dt_properties file indent 0 np
       (\<lparr>name_buf = replicate DEV_TREE_PROP_NAME_LEN None,
         value_buf = replicate DEV_TREE_PROP_VALUE_LEN None, len_flags = 0\<rparr>, pos);
     case end of
       None \<Rightarrow> Some (hd # props, None)
     | Some p \<Rightarrow> do {
         (cs, end') \<leftarrow> dt_children (getDTNode fuel file (indent + 1)) 0 nc p;
         Some (hd # props @ cs, end')
       }
   }"

section \<open>The program\<close>

datatype dt_exit = Exit nat | Finished

text \<open>\<open>while (pos < totalLen)\<close>: \<open>pos\<close> starts at 53, afterwards it is the offset in the file.\<close>

definition dt_main_body ::
  "mem \<Rightarrow> nat \<Rightarrow> nat \<times> nat \<times> dt_item list \<Rightarrow> (nat \<times> nat \<times> dt_item list + dt_item list \<times> dt_exit) option" where
  "dt_main_body file len st =
     (case st of (pos, off, out) \<Rightarrow>
        if \<not> pos < len then Some (Inr (out, Finished))
        else do {
          (is, end) \<leftarrow> getDTNode (length file + 1) file 0 off;
          case end of
            None \<Rightarrow> Some (Inr (out @ is, Exit 0))
          | Some off' \<Rightarrow> Some (Inl (off', off', out @ is))
        })"

definition ntohl :: "nat \<Rightarrow> nat" where
  "ntohl v = be_val (le_bytes 4 v)"

text \<open>The header: 19 bytes, the last two a tag and a length, the description, the tag of an octet string
  with a length of three bytes. A negative length is an invalid request, which reads nothing.\<close>

definition dtize_main :: "nat \<Rightarrow> mem \<Rightarrow> (dt_item list \<times> dt_exit) option" where
  "dtize_main fuel file = do {
     let (buf, pos) = read_into file 0 19 (replicate 256 None);
     tag \<leftarrow> buf ! 17;
     if tag \<noteq> 0x16 then Some ([], Exit 5)
     else do {
       lenb \<leftarrow> buf ! 18;
       let (buf, pos) = read_into file pos (if unat lenb < 128 then unat lenb else 0) buf;
       let (buf, pos) = read_into file pos 2 buf;
       octets \<leftarrow> known (take 2 buf);
       if octets \<noteq> [0x04, 0x83] then Some ([], Exit 3)
       else do {
         let (tot, pos) = read_into file pos 3 [Some 0, Some 0, Some 0, Some 0];
         bs \<leftarrow> known tot;
         let len = ntohl (le_val bs * 256 mod 2 ^ 32);
         (is, e) \<leftarrow> loop fuel (dt_main_body file len) (53, pos, []);
         Some (Total len # is, e)
       }
     }
   }"

section \<open>What is printed\<close>

text \<open>A device tree, its flattened form and its listing. A property has a name, four flag bits, which share a word with
  the length, and a value.\<close>

record dt_prop =
  prop_name :: mem
  prop_flags :: nat
  prop_value :: mem

datatype dt_node = DTNode "dt_prop list" "dt_node list"

definition prop_bytes :: "dt_prop \<Rightarrow> mem" where
  "prop_bytes p = prop_name p @ replicate (DEV_TREE_PROP_NAME_LEN - length (prop_name p)) 0 @
     le_bytes 4 (prop_flags p * 2 ^ 28 + length (prop_value p)) @
     prop_value p @ replicate (PAD32 (length (prop_value p)) - length (prop_value p)) 0"

fun node_bytes :: "dt_node \<Rightarrow> mem" where
  "node_bytes (DTNode ps cs) = le_bytes 4 (length ps) @ le_bytes 4 (length cs) @
     concat (map prop_bytes ps) @ concat (map node_bytes cs)"

definition good_prop :: "dt_prop \<Rightarrow> bool" where
  "good_prop p \<longleftrightarrow> length (prop_name p) < DEV_TREE_PROP_NAME_LEN \<and> 0 \<notin> set (prop_name p) \<and> prop_flags p < 16 \<and>
     length (prop_value p) \<le> DEV_TREE_PROP_VALUE_LEN"

fun good_node :: "dt_node \<Rightarrow> bool" where
  "good_node (DTNode ps cs) \<longleftrightarrow> length ps < 2 ^ 31 \<and> length cs < 2 ^ 31 \<and> list_all good_prop ps \<and> list_all good_node cs"

definition prop_listing :: "nat \<Rightarrow> dt_prop \<Rightarrow> dt_item" where
  "prop_listing d p = Property d (prop_name p) (length (prop_value p)) (show_value (prop_value p))"

fun children_listing :: "(dt_node \<Rightarrow> dt_item list) \<Rightarrow> nat \<Rightarrow> dt_node list \<Rightarrow> dt_item list" where
  "children_listing f c [] = []"
| "children_listing f c (n # ns) = Child c # f n @ children_listing f (c + 1) ns"

lemma children_listing_cong [fundef_cong]:
  "cs = ds \<Longrightarrow> (\<And>n. n \<in> set ds \<Longrightarrow> f n = g n) \<Longrightarrow> c = d \<Longrightarrow> children_listing f c cs = children_listing g d ds"
  by (induction ds arbitrary: c d cs) auto

fun node_listing :: "nat \<Rightarrow> dt_node \<Rightarrow> dt_item list" where
  "node_listing d (DTNode ps cs) = Counts (int (length ps)) (int (length cs)) #
     map (prop_listing d) ps @ children_listing (node_listing (d + 1)) 0 cs"

fun node_height :: "dt_node \<Rightarrow> nat" where
  "node_height (DTNode ps cs) = Suc (Max (insert 0 (set (map node_height cs))))"

lemma read_into_mid:
  "length pre = k \<Longrightarrow> length xs = n \<Longrightarrow> read_into (pre @ xs @ post) k n buf = (map Some xs @ drop n buf, k + n)"
  by (auto simp: read_into_def)

lemma known_Some [simp]: "known (map Some xs) = Some xs"
  by (induction xs) auto

lemma known_str_Some: "0 \<notin> set xs \<Longrightarrow> known_str (map Some xs @ Some 0 # ys) = Some xs"
  by (induction xs) auto

lemma read_u32_mid:
  assumes "length pre = k" "v < 2 ^ 32"
  shows "read_u32 (pre @ le_bytes 4 v @ post) k w = Some (v, k + 4)"
  using assms le_val_le_bytes [of v 4]
  by (simp add: read_u32_def read_into_mid [of pre k "le_bytes 4 v" 4 post])

lemma PAD32_le: "n \<le> PAD32 n"
  by (simp add: PAD32_def)

lemma dt_property_mid:
  assumes "good_prop p" "length pre = k"
  shows "\<exists>vars'. dt_property (pre @ prop_bytes p @ post) d (vars, k) =
    Some (Inl (prop_listing d p, vars', k + length (prop_bytes p)))"
proof -
  let ?nm = "prop_name p @ replicate (DEV_TREE_PROP_NAME_LEN - length (prop_name p)) (0 :: byte)"
  let ?len = "length (prop_value p)"
  let ?word = "prop_flags p * 2 ^ 28 + ?len"
  let ?val = "prop_value p @ replicate (PAD32 ?len - ?len) (0 :: byte)"
  have len: "?len \<le> 8192" "length (prop_name p) < 32" "0 \<notin> set (prop_name p)" "prop_flags p < 16"
    using assms(1) by (auto simp: good_prop_def DEV_TREE_PROP_VALUE_LEN_def DEV_TREE_PROP_NAME_LEN_def)
  have bytes: "pre @ prop_bytes p @ post = pre @ ?nm @ le_bytes 4 ?word @ ?val @ post"
    by (simp add: prop_bytes_def)
  have r1: "read_into (pre @ prop_bytes p @ post) k DEV_TREE_PROP_NAME_LEN b = (map Some ?nm @ drop 32 b, k + 32)" for b
    using read_into_mid [of pre k ?nm 32] assms(2) len by (simp add: bytes DEV_TREE_PROP_NAME_LEN_def)
  have r2: "read_u32 (pre @ prop_bytes p @ post) (k + 32) v = Some (?word, k + 32 + 4)" for v
    using read_u32_mid [of "pre @ ?nm" "k + 32" ?word "?val @ post" v] assms(2) len
    by (simp add: bytes DEV_TREE_PROP_NAME_LEN_def)
  have r3: "read_into (pre @ prop_bytes p @ post) (36 + k) (PAD32 ?len) b =
      (map Some ?val @ drop (PAD32 ?len) b, 36 + k + PAD32 ?len)" for b
    using read_into_mid [of "pre @ ?nm @ le_bytes 4 ?word" "36 + k" ?val "PAD32 ?len" post b] assms(2) len PAD32_le [of ?len]
    by (simp add: bytes DEV_TREE_PROP_NAME_LEN_def)
  have nm: "known_str (map Some ?nm @ b) = Some (prop_name p)" for b
    using len known_str_Some [of "prop_name p"] by (cases "32 - length (prop_name p)") (auto simp: DEV_TREE_PROP_NAME_LEN_def)
  have v: "known (take ?len (map Some ?val @ b)) = Some (prop_value p)" for b by simp
  have mask: "?word mod 2 ^ 28 = ?len" using len by simp
  have size: "k + length (prop_bytes p) = k + 32 + 4 + PAD32 ?len"
    using len PAD32_le [of ?len] by (simp add: prop_bytes_def DEV_TREE_PROP_NAME_LEN_def)
  show ?thesis
    unfolding dt_property_def Let_def size using len
    by (simp only: prod.case r1 r2 r3 bind.bind_lunit nm v mask)
      (simp add: r3 DEV_TREE_PROP_VALUE_LEN_def prop_listing_def)
qed

lemma dt_properties_mid:
  "list_all good_prop ps \<Longrightarrow> length pre = k \<Longrightarrow> q + length ps < 2 ^ 31 \<Longrightarrow>
   dt_properties (pre @ concat (map prop_bytes ps) @ post) d q (length ps) (vars, k) =
     Some (map (prop_listing d) ps, Some (k + length (concat (map prop_bytes ps))))"
proof (induction ps arbitrary: pre k vars q)
  case (Cons p ps)
  obtain vars' where step: "dt_property (pre @ prop_bytes p @ concat (map prop_bytes ps) @ post) d (vars, k) =
      Some (Inl (prop_listing d p, vars', k + length (prop_bytes p)))"
    using dt_property_mid [of p pre k "concat (map prop_bytes ps) @ post" d vars] Cons.prems by auto
  show ?case
    using Cons.IH [of "pre @ prop_bytes p" "k + length (prop_bytes p)" "q + 1" vars'] Cons.prems step by (simp add: int_incr_def)
qed simp

lemma dt_children_mid:
  assumes "\<And>n pre post. n \<in> set cs \<Longrightarrow>
    node (pre @ node_bytes n @ post) (length pre) = Some (f n, Some (length pre + length (node_bytes n)))"
  shows "length pre = k \<Longrightarrow> c + length cs < 2 ^ 31 \<Longrightarrow>
    dt_children (node (pre @ concat (map node_bytes cs) @ post)) c (length cs) k =
      Some (children_listing f c cs, Some (k + length (concat (map node_bytes cs))))"
  using assms
proof (induction cs arbitrary: pre k c)
  case (Cons n cs)
  have "node (pre @ node_bytes n @ concat (map node_bytes cs) @ post) (length pre) =
      Some (f n, Some (length pre + length (node_bytes n)))"
    using Cons.prems(3) [of n pre "concat (map node_bytes cs) @ post"] by simp
  moreover have "dt_children (node ((pre @ node_bytes n) @ concat (map node_bytes cs) @ post)) (c + 1) (length cs)
      (k + length (node_bytes n)) =
      Some (children_listing f (c + 1) cs, Some (k + length (node_bytes n) + length (concat (map node_bytes cs))))"
    using Cons.prems by (intro Cons.IH) auto
  ultimately show ?case using Cons.prems(1,2) by (simp add: int_incr_def)
qed simp

lemma getDTNode_mid:
  "good_node n \<Longrightarrow> node_height n \<le> fuel \<Longrightarrow>
   getDTNode fuel (pre @ node_bytes n @ post) d (length pre) =
     Some (node_listing d n, Some (length pre + length (node_bytes n)))"
proof (induction n arbitrary: fuel pre post d)
  case (DTNode ps cs)
  obtain f where fuel: "fuel = Suc f" using DTNode.prems(2) by (cases fuel) auto
  let ?ps = "concat (map prop_bytes ps)" and ?cs = "concat (map node_bytes cs)"
  let ?file = "pre @ node_bytes (DTNode ps cs) @ post"
  have bytes: "?file = pre @ le_bytes 4 (length ps) @ le_bytes 4 (length cs) @ ?ps @ ?cs @ post"
    by simp
  have r1: "read_u32 ?file (length pre) 0 = Some (length ps, length pre + 4)"
    unfolding bytes using DTNode.prems(1) by (intro read_u32_mid) auto
  have r2: "read_u32 ?file (length pre + 4) 0 = Some (length cs, length pre + 4 + 4)"
    using read_u32_mid [of "pre @ le_bytes 4 (length ps)" "length pre + 4" "length cs" "?ps @ ?cs @ post" 0] DTNode.prems(1)
    unfolding bytes by simp
  have props: "dt_properties ?file d 0 (length ps) (vars, length pre + 4 + 4) =
      Some (map (prop_listing d) ps, Some (length pre + 4 + 4 + length ?ps))" for vars
    using dt_properties_mid [of ps "pre @ le_bytes 4 (length ps) @ le_bytes 4 (length cs)" "length pre + 4 + 4" 0 "?cs @ post" d vars]
      DTNode.prems(1) unfolding bytes by simp
  have IH: "getDTNode f (pre' @ node_bytes n @ post') (d + 1) (length pre') =
      Some (node_listing (d + 1) n, Some (length pre' + length (node_bytes n)))" if "n \<in> set cs" for n pre' post'
  proof -
    have "node_height n \<le> f" using DTNode.prems(2) that fuel by (auto simp: Max_le_iff)
    moreover have "good_node n" using DTNode.prems(1) that by (auto simp: list_all_iff)
    ultimately show ?thesis using DTNode.IH [OF that] by blast
  qed
  have children: "dt_children (getDTNode f ?file (d + 1)) 0 (length cs) (length pre + 4 + 4 + length ?ps) =
      Some (children_listing (node_listing (d + 1)) 0 cs, Some (length pre + 4 + 4 + length ?ps + length ?cs))"
    using dt_children_mid [of cs "\<lambda>file. getDTNode f file (d + 1)" "node_listing (d + 1)"
        "pre @ le_bytes 4 (length ps) @ le_bytes 4 (length cs) @ ?ps" "length pre + 4 + 4 + length ?ps" 0 post] IH DTNode.prems(1)
    unfolding bytes by simp
  have small: "sint (of_nat k :: 32 word) = int k" if "k < 2 ^ 31" for k
    using that by (simp add: signed_of_nat signed_take_bit_int_eq_self)
  show ?case
    unfolding fuel getDTNode.simps r1 bind.bind_lunit prod.case r2 Let_def props option.case children
    using DTNode.prems(1) by (simp add: small)
qed

lemma node_height_le: "node_height n \<le> length (node_bytes n)"
proof (induction n)
  case (DTNode ps cs)
  have "length (node_bytes c) \<le> length (concat (map node_bytes cs))" if "c \<in> set cs" for c
    using that by (induction cs) auto
  then have "node_height c \<le> length (concat (map node_bytes cs))" if "c \<in> set cs" for c
    using that DTNode.IH [OF that] by (meson order_trans)
  then have "Max (insert 0 (set (map node_height cs))) \<le> length (concat (map node_bytes cs))"
    by (auto simp: Max_le_iff)
  then show ?case by (simp del: Max_insert Max_le_iff)
qed

section \<open>The depth bound\<close>

lemma read_into_pos: "read_into file pos n buf = (b, p) \<Longrightarrow> pos \<le> p"
  by (auto simp: read_into_def Let_def)

lemma read_u32_0:
  assumes "read_u32 file pos 0 = Some (v, p)"
  shows "p = pos + length (take 4 (drop pos file))" "length file \<le> pos \<Longrightarrow> v = 0"
proof -
  let ?buf = "map Some (take 4 (drop pos file)) @ drop (length (take 4 (drop pos file))) (map Some (le_bytes 4 0))"
  obtain bs where bs: "known ?buf = Some bs" "v = le_val bs" "p = pos + length (take 4 (drop pos file))"
    using assms unfolding read_u32_def read_into_def Let_def by (auto split: bind_splits)
  then show "p = pos + length (take 4 (drop pos file))" by simp
  show "v = 0" if "length file \<le> pos"
  proof -
    have "?buf = map Some (le_bytes 4 0)" using that by simp
    then have "bs = le_bytes 4 0" using bs(1) by (metis known_Some option.inject)
    then show ?thesis using bs(2) by (simp add: le_val_le_bytes)
  qed
qed

lemma read_u32_pos:
  assumes "read_u32 file pos 0 = Some (v, p)"
  shows "pos \<le> p" "v \<noteq> 0 \<Longrightarrow> pos < length file \<and> pos < p"
proof -
  show "pos \<le> p" using read_u32_0(1) [OF assms] by simp
  show "pos < length file \<and> pos < p" if "v \<noteq> 0"
  proof -
    have "pos < length file" using read_u32_0(2) [OF assms] that by (cases "length file \<le> pos") auto
    then show ?thesis using read_u32_0(1) [OF assms] by simp
  qed
qed

lemma read_u32_le: "read_u32 file pos w = Some (v, p) \<Longrightarrow> pos \<le> p"
  unfolding read_u32_def by (auto dest: read_into_pos split: bind_splits prod.splits)

lemma dt_property_pos:
  assumes "dt_property file d (vars, pos) = Some (Inl (i, vars', p))"
  shows "pos \<le> p"
proof -
  obtain b1 p1 where r1: "read_into file pos DEV_TREE_PROP_NAME_LEN (name_buf vars) = (b1, p1)" by fastforce
  obtain lf p2 where r2: "read_u32 file p1 (len_flags vars) = Some (lf, p2)"
    using assms r1 unfolding dt_property_def by (auto split: bind_splits)
  obtain b3 p3 where r3: "read_into file p2 (PAD32 (lf mod 2 ^ 28)) (value_buf vars) = (b3, p3)" by fastforce
  have "p = p3" using assms r1 r2 r3 unfolding dt_property_def by (auto simp: Let_def split: bind_splits if_splits)
  then show ?thesis using read_into_pos [OF r1] read_u32_le [OF r2] read_into_pos [OF r3] by simp
qed

lemma dt_properties_pos: "dt_properties file d q n (vars, pos) = Some (is, Some p) \<Longrightarrow> pos \<le> p"
proof (induction n arbitrary: q vars pos "is")
  case (Suc n)
  then show ?case
    by (fastforce split: bind_splits sum.splits dest: dt_property_pos)
qed simp

lemma dt_children_pos:
  assumes "\<And>q xs p. q \<ge> lo \<Longrightarrow> node q = Some (xs, Some p) \<Longrightarrow> q \<le> p"
  shows "dt_children node c n pos = Some (is, Some p) \<Longrightarrow> lo \<le> pos \<Longrightarrow> pos \<le> p"
proof (induction n arbitrary: c pos "is")
  case (Suc n)
  from Suc.prems obtain xs q ys where "node pos = Some (xs, Some q)" "dt_children node (c + 1) n q = Some (ys, Some p)"
    by (auto simp: int_incr_def split: bind_splits option.splits if_splits)
  then show ?case using Suc.IH [of "c + 1" q ys] assms [of pos xs q] Suc.prems(2) by simp
qed simp

lemma dt_children_cong:
  assumes "\<And>q. q \<ge> lo \<Longrightarrow> node q = node' q"
    and "\<And>q xs p. q \<ge> lo \<Longrightarrow> node q = Some (xs, Some p) \<Longrightarrow> q \<le> p"
  shows "lo \<le> pos \<Longrightarrow> dt_children node c n pos = dt_children node' c n pos"
proof (induction n arbitrary: c pos)
  case (Suc n)
  have "dt_children node (c + 1) n p = dt_children node' (c + 1) n p" if "node' pos = Some (xs, Some p)" for xs p
    using that assms Suc.prems by (intro Suc.IH) (metis order_trans)
  then show ?case using assms(1) [OF Suc.prems] by (auto simp: int_incr_def split: bind_splits option.splits)
qed simp

lemma getDTNode_pos: "getDTNode fuel file d pos = Some (is, Some p) \<Longrightarrow> pos \<le> p"
proof (induction fuel arbitrary: d pos "is" p)
  case (Suc fuel)
  from Suc.prems obtain np p1 nc p2 props p3 cs where
    "read_u32 file pos 0 = Some (np, p1)" "read_u32 file p1 0 = Some (nc, p2)"
    "dt_properties file d 0 np (\<lparr>name_buf = replicate DEV_TREE_PROP_NAME_LEN None,
         value_buf = replicate DEV_TREE_PROP_VALUE_LEN None, len_flags = 0\<rparr>, p2) = Some (props, Some p3)"
    "dt_children (getDTNode fuel file (d + 1)) 0 nc p3 = Some (cs, Some p)"
    by (auto simp: Let_def split: bind_splits option.splits)
  then show ?case
    using read_u32_pos(1) dt_properties_pos dt_children_pos [of 0 "getDTNode fuel file (d + 1)"] Suc.IH
    by (metis le0 order_trans)
qed simp

lemma getDTNode_fuel:
  "length file - pos < f \<Longrightarrow> length file - pos < g \<Longrightarrow> getDTNode f file d pos = getDTNode g file d pos"
proof (induction f arbitrary: g d pos)
  case (Suc f)
  obtain k where g: "g = Suc k" using Suc.prems by (cases g) auto
  have "dt_children (getDTNode f file (d + 1)) 0 nc p3 = dt_children (getDTNode k file (d + 1)) 0 nc p3"
    if "read_u32 file pos 0 = Some (np, p1)" "read_u32 file p1 0 = Some (nc, p2)" "p2 \<le> p3" for np p1 nc p2 p3
  proof (cases "nc = 0")
    case False
    have "pos < length file" "pos < p2" using read_u32_pos [OF that(1)] read_u32_pos [OF that(2)] False by auto
    then have "getDTNode f file (d + 1) q = getDTNode k file (d + 1) q" if "q \<ge> p2" for q
      using Suc.prems that g by (intro Suc.IH) auto
    then show ?thesis using \<open>p2 \<le> p3\<close> getDTNode_pos by (intro dt_children_cong [of p2]) auto
  qed simp
  then show ?case
    unfolding g by (auto simp: Let_def split: bind_splits option.splits dest: dt_properties_pos)
qed simp

section \<open>The program\<close>

definition im4p :: "mem \<Rightarrow> mem \<Rightarrow> nat \<Rightarrow> mem \<Rightarrow> mem" where
  "im4p start desc len rest =
     start @ [0x16, of_nat (length desc)] @ desc @ [0x04, 0x83] @ rev (le_bytes 3 len) @ rest"

lemma ntohl_len:
  assumes "len < 2 ^ 24"
  shows "ntohl (le_val (rev (le_bytes 3 len) @ [0]) * 256 mod 2 ^ 32) = len"
proof -
  let ?xs = "rev (le_bytes 3 len)"
  have "le_bytes (Suc 3) (le_val ?xs * 256 mod 256 ^ Suc 3) = 0 # ?xs"
    unfolding le_bytes_mod le_bytes.simps by (simp add: le_bytes_le_val)
  then show ?thesis using assms le_val_le_bytes [of len 3]
    by (simp add: ntohl_def be_val_def le_val_0_end)
qed

lemma dtize_main_im4p:
  assumes "length start = 17" "length desc < 128" "len < 2 ^ 24"
  shows "dtize_main fuel (im4p start desc len rest) = do {
    (is, e) \<leftarrow> loop fuel (dt_main_body (im4p start desc len rest) len) (53, 24 + length desc, []);
    Some (Total len # is, e) }"
proof -
  let ?tag = "[0x16, of_nat (length desc)] :: mem" and ?len = "rev (le_bytes 3 len)"
  let ?file = "im4p start desc len rest"
  have r1: "read_into ?file 0 19 b = (map Some (start @ ?tag) @ drop 19 b, 19)" for b
    using read_into_mid [of "[]" 0 "start @ ?tag" 19] assms(1) by (simp add: im4p_def)
  have r2: "read_into ?file 19 (length desc) b = (map Some desc @ drop (length desc) b, 19 + length desc)" for b
    using read_into_mid [of "start @ ?tag" 19 desc "length desc"] assms(1) by (simp add: im4p_def)
  have r3: "read_into ?file (19 + length desc) 2 b = ([Some 0x04, Some 0x83] @ drop 2 b, 21 + length desc)" for b
    using read_into_mid [of "start @ ?tag @ desc" "19 + length desc" "[0x04, 0x83]" 2] assms(1) by (simp add: im4p_def)
  have r4: "read_into ?file (21 + length desc) 3 b = (map Some ?len @ drop 3 b, 24 + length desc)" for b
    using read_into_mid [of "start @ ?tag @ desc @ [0x04, 0x83]" "21 + length desc" ?len 3] assms(1) by (simp add: im4p_def)
  have tot: "known (map Some ?len @ [Some 0]) = Some (?len @ [0])"
    using known_Some [of "?len @ [0]"] by simp
  have desc: "unat (of_nat (length desc) :: byte) = length desc" using assms(2) by (simp add: unat_of_nat)
  show ?thesis
    unfolding dtize_main_def Let_def r1 prod.case using assms
    by (simp add: nth_append r2 r3 r4 desc tot ntohl_len [simplified])
qed

lemma getDTNode_whole:
  assumes "good_node n" "length pre = k"
  shows "getDTNode (length (pre @ node_bytes n @ post) + 1) (pre @ node_bytes n @ post) 0 k =
    Some (node_listing 0 n, Some (k + length (node_bytes n)))"
  using getDTNode_mid [OF assms(1), of "length (pre @ node_bytes n @ post) + 1" pre post 0] node_height_le [of n] assms(2)
  by simp

lemma im4p_split:
  assumes "length start = 17"
  obtains pre where "im4p start desc len rest = pre @ rest" "length pre = 24 + length desc"
  using assms that [of "start @ [0x16, of_nat (length desc)] @ desc @ [0x04, 0x83] @ rev (le_bytes 3 len)"]
  by (simp add: im4p_def)

text \<open>C39: Of an IM4P file with a device tree, every node, property and child is printed once, in preorder, with its depth,
  whatever the flags of the properties and whatever follows the tree; then the program ends. This takes an announced length
  of more than 53 that does not exceed the tree and its header; for an announced length of at most 53 only the length is
  printed.\<close>

theorem dtize_lists:
  assumes "length start = 17" "length desc < 128" "good_node n" "len < 2 ^ 24"
    and "len \<le> 24 + length desc + length (node_bytes n)" "1 < fuel"
  shows "dtize_main fuel (im4p start desc len (node_bytes n @ rest)) =
    Some (Total len # (if len \<le> 53 then [] else node_listing 0 n), Finished)"
proof -
  let ?file = "im4p start desc len (node_bytes n @ rest)"
  obtain pre where pre: "?file = pre @ node_bytes n @ rest" "length pre = 24 + length desc"
    using im4p_split [OF assms(1)] by blast
  obtain k where "fuel = Suc (Suc k)" using assms(6) by (cases fuel; cases "fuel - 1") auto
  then have "loop fuel (dt_main_body ?file len) (53, 24 + length desc, []) =
      Some (if len \<le> 53 then [] else node_listing 0 n, Finished)"
    using getDTNode_whole [OF assms(3) pre(2), of rest] assms(5) by (simp add: pre(1) dt_main_body_def del: getDTNode.simps)
  then show ?thesis using dtize_main_im4p [OF assms(1,2,4)] by simp
qed

lemma dtize_lists_witness:
  "dtize_main 2 (im4p (replicate 17 0) [] 60 (node_bytes (DTNode [\<lparr>prop_name = str ''name'', prop_flags = 8, prop_value = [100, 116, 0]\<rparr>]
       [DTNode [] []]))) =
     Some ([Total 60, Counts 1 1, Property 0 (str ''name'') 3 (TextVal ''dt''), Child 0, Counts 0 0], Finished)"
proof -
  let ?n = "DTNode [\<lparr>prop_name = str ''name'', prop_flags = 8, prop_value = [100, 116, 0]\<rparr>] [DTNode [] []]"
  have "good_node ?n" "length (node_bytes ?n) = 56"
    by (simp_all add: good_prop_def str_def DEV_TREE_PROP_NAME_LEN_def DEV_TREE_PROP_VALUE_LEN_def prop_bytes_def PAD32_def)
  moreover have "node_listing 0 ?n = [Counts 1 1, Property 0 (str ''name'') 3 (TextVal [char_of (100 :: nat), char_of (116 :: nat)]), Child 0, Counts 0 0]"
    by (simp add: prop_listing_def show_value_def value_char_def upt_rec)
  moreover have "char_of (100 :: nat) = CHR ''d''" "char_of (116 :: nat) = CHR ''t''" by code_simp+
  ultimately show ?thesis using dtize_lists [of "replicate 17 0" "[]" ?n 60 2 "[]"] by simp
qed

lemma getDTNode_end:
  "length file \<le> pos \<Longrightarrow> getDTNode (Suc f) file d pos = Some ([Counts 0 0], Some pos)"
  by (simp add: read_u32_def read_into_def le_val_le_bytes)

lemma past_end_hangs:
  "length file \<le> pos \<Longrightarrow> pos < len \<Longrightarrow> loop fuel (dt_main_body file len) (pos, pos, out) = None"
proof (induction fuel arbitrary: out)
  case (Suc fuel)
  then show ?case using getDTNode_end [of "file" pos "length file" 0] by (simp add: dt_main_body_def del: getDTNode.simps)
qed simp

text \<open>When the header announces more bytes than the file has, the program prints empty nodes
  forever: no amount of fuel is enough.\<close>

theorem dtize_truncated_hangs:
  assumes "length start = 17" "length desc < 128" "good_node n" "len < 2 ^ 24"
    and "53 < len" "24 + length desc + length (node_bytes n) < len"
  shows "dtize_main fuel (im4p start desc len (node_bytes n)) = None"
proof -
  let ?file = "im4p start desc len (node_bytes n)"
  obtain pre where pre: "?file = pre @ node_bytes n" "length pre = 24 + length desc"
    using im4p_split [OF assms(1)] by blast
  have "loop fuel (dt_main_body ?file len) (53, 24 + length desc, []) = None"
  proof (cases fuel)
    case (Suc f)
    then show ?thesis
      using getDTNode_whole [OF assms(3) pre(2), of "[]"] assms(5,6)
        past_end_hangs [of ?file "24 + length desc + length (node_bytes n)" len f "node_listing 0 n"]
      by (simp add: pre dt_main_body_def del: getDTNode.simps)
  qed simp
  then show ?thesis using dtize_main_im4p [OF assms(1,2,4)] by simp
qed

lemma dtize_truncated_hangs_witness:
  "\<forall>fuel. dtize_main fuel (im4p (replicate 17 0) [] 100 (node_bytes (DTNode [] []))) = None"
  using dtize_truncated_hangs [of "replicate 17 0" "[]" "DTNode [] []" 100] by simp


end
