(* ===== verification/Ojtool.thy ===== *)
theory Ojtool
  imports Prelude
begin

text \<open>
  The otool filter \<open>src/src/ojtool.c\<close>: what it takes out of the output of jtool
  (\<open>getJToolLazyBindData\<close>, \<open>getJToolStubData\<close>) and the loop of \<open>main\<close> over otool's lines, which
  resolves references relative to \<open>%rip\<close>. The outputs of the commands are parameters. A line is
  what \<open>fgets\<close> returns, up to a zero byte; the output is a byte string.
\<close>

section \<open>Text\<close>

definition hex0x :: "nat \<Rightarrow> mem" where
  "hex0x n = str (''0x'' @ show_hex n)"

definition hex_val :: "byte \<Rightarrow> nat option" where
  "hex_val b =
     (if 0x30 \<le> b \<and> b \<le> 0x39 then Some (unat b - 0x30)
      else if 0x61 \<le> b \<and> b \<le> 0x66 then Some (unat b - 0x57)
      else if 0x41 \<le> b \<and> b \<le> 0x46 then Some (unat b - 0x37) else None)"

fun hex_digits :: "mem \<Rightarrow> nat list" where
  "hex_digits [] = []"
| "hex_digits (b # bs) = (case hex_val b of None \<Rightarrow> [] | Some d \<Rightarrow> d # hex_digits bs)"

definition is_space :: "byte \<Rightarrow> bool" where
  "is_space b \<longleftrightarrow> b = 0x20 \<or> 0x09 \<le> b \<and> b \<le> 0x0D"

text \<open>The conversion \<open>%llx\<close> of \<open>sscanf\<close>: blanks, a sign, an optional prefix, digits; out of range
  gives the largest number.\<close>

definition scan_hex_rest :: "mem \<Rightarrow> (nat \<times> mem) option" where
  "scan_hex_rest s =
     (let s = dropWhile is_space s;
          neg = (s \<noteq> [] \<and> hd s = 0x2D);
          s = (if s \<noteq> [] \<and> (hd s = 0x2D \<or> hd s = 0x2B) then tl s else s);
          s = (if prefix_of (str ''0x'') s \<or> prefix_of (str ''0X'') s then drop 2 s else s);
          ds = hex_digits s; v = foldl (\<lambda>v d. 16 * v + d) 0 ds; rest = drop (length ds) s
      in if ds = [] then None
         else if v \<ge> 2 ^ 64 then Some (2 ^ 64 - 1, rest)
         else Some (if neg then (2 ^ 64 - v) mod 2 ^ 64 else v, rest))"

definition scan_hex :: "mem \<Rightarrow> nat option" where
  "scan_hex s = map_option fst (scan_hex_rest s)"

definition strrchr :: "byte \<Rightarrow> mem \<Rightarrow> nat option" where
  "strrchr c s = (let t = dropWhile (\<lambda>b. b \<noteq> c) (rev s) in if t = [] then None else Some (length t - 1))"



section \<open>The output of jtool\<close>

text \<open>The output of a command, without zero bytes, in a buffer of \<open>cap\<close> bytes that has to keep a zero.\<close>

definition piped :: "nat \<Rightarrow> mem \<Rightarrow> mem option" where
  "piped cap data = (if length data < cap then Some data else None)"

text \<open>Every line after the first two ends in a symbol behind the last blank; going back past the start of
  the data is undefined, and there are 16384 entries. The newlines are overwritten by zero bytes.\<close>

definition MAX_LAZY_BINDS :: nat where
  "MAX_LAZY_BINDS = 16384"

fun lazy_binds :: "nat \<Rightarrow> mem \<Rightarrow> mem \<Rightarrow> mem list \<Rightarrow> mem list option" where
  "lazy_binds 0 before rest binds = None"
| "lazy_binds (Suc fuel) before rest binds =
     (case memmem rest [0x0A] of
        None \<Rightarrow> Some binds
      | Some n \<Rightarrow>
          (case strrchr 0x20 (before @ take n rest) of
             None \<Rightarrow> None
           | Some k \<Rightarrow>
               if length binds < MAX_LAZY_BINDS
               then lazy_binds fuel (before @ take n rest @ [0]) (drop (n + 1) rest)
                      (binds @ [takeWhile (\<lambda>b. b \<noteq> 0) (drop (k + 1) (before @ take n rest))])
               else None))"

definition getJToolLazyBindData :: "mem \<Rightarrow> mem list option" where
  "getJToolLazyBindData output = do {
     data \<leftarrow> piped (2 ^ 20) output;
     case memmem data [0x0A] of
       None \<Rightarrow> Some []
     | Some n \<Rightarrow>
         (case memmem (drop (n + 1) data) [0x0A] of
            None \<Rightarrow> Some []
          | Some k \<Rightarrow> lazy_binds (length data + 1) (take (n + k + 2) data) (drop (n + k + 2) data) [])
   }"

text \<open>\<open>sscanf\<close> with \<open>0x%llx-0x%llx\<close>: the numbers, and whether both were converted.\<close>

definition scan_range :: "mem \<Rightarrow> (nat \<times> nat) \<times> bool" where
  "scan_range s =
     (if \<not> prefix_of (str ''0x'') s then ((0, 0), False)
      else case scan_hex_rest (drop 2 s) of
             None \<Rightarrow> ((0, 0), False)
           | Some (a, r) \<Rightarrow>
               if \<not> prefix_of (str ''-0x'') r then ((a, 0), False)
               else (case scan_hex (drop 3 r) of
                       None \<Rightarrow> ((a, 0), False)
                     | Some b \<Rightarrow> ((a, b), True)))"

text \<open>Back from the stubs to the last \<open>Mem: \<close>, but for offset 0.\<close>

fun find_mem :: "nat \<Rightarrow> mem \<Rightarrow> nat option" where
  "find_mem 0 data = None"
| "find_mem (Suc i) data =
     (if prefix_of (str ''Mem: '') (drop (Suc i) data) then Some (Suc i) else find_mem i data)"

text \<open>The range of the stubs and the lazy bindings, from \<open>jtool -l\<close> and \<open>jtool -lazy_bind\<close>. Without
  \<open>Mem: \<close> the stream is closed a second time, which is undefined.\<close>

definition getJToolStubData :: "mem \<Rightarrow> mem \<Rightarrow> ((nat \<times> nat) \<times> mem list) option" where
  "getJToolStubData output lazy = do {
     data \<leftarrow> piped (2 ^ 20) output;
     case memmem data (str ''(Symbol Stubs)'') of
       None \<Rightarrow> Some ((0, 0), [])
     | Some k \<Rightarrow> do {
         i \<leftarrow> find_mem k data;
         let (range, ok) = scan_range (drop (i + 5) data);
         if ok then map_option (Pair range) (getJToolLazyBindData lazy) else Some (range, [])
       }
   }"

section \<open>Lines\<close>




abbreviation "NORMAL \<equiv> ''0;0''"












section \<open>The loop\<close>






section \<open>References are resolved, everything else is passed on\<close>





lemma hex0x_ne: "hex0x n \<noteq> []"
  by (simp add: hex0x_def str_def)

lemma memmem_nil: "needle \<noteq> [] \<Longrightarrow> memmem [] needle = None"
  by simp





section \<open>A disassembly\<close>

text \<open>Lines of a disassembly, each without its newline: a line without address (a label, a section); an instruction with its
  address, which may have leading zeros; and an instruction with an operand relative to \<open>%rip\<close>, with what precedes and
  what follows it. The operand is a number, a symbol, or a constant of the instruction with a symbol behind it, as in
  \<open>$0x5, _foo(%rip)\<close>.\<close>

datatype operand = Offset bool nat | Symbol mem | Constant_symbol bool nat mem



















section \<open>Reading the lines of a disassembly\<close>












section \<open>The parts of a reference\<close>























end
