(* ===== verification/Filemon.thy ===== *)
theory Filemon
  imports Prelude
begin

text \<open>
  The file system event monitor \<open>src/src/filemon.c\<close>: the options with their filters, and the walk over the
  events of each buffer read from \<open>/dev/fsevents\<close>. The layout of an event and the numbers of its types
  come from \<open>fsevents.h\<close>, which is not in the repository: they are a parameter. Output is a list of items.
\<close>

section \<open>The event interface\<close>

record fsevents =
  event_size :: nat
  type_at :: nat
  type_width :: nat
  refcount_at :: nat
  refcount_width :: nat
  pid_at :: nat
  arg_size :: nat
  pathlen_at :: nat
  pathlen_width :: nat
  data_at :: nat
  FSE_CREATE_FILE :: nat
  FSE_DELETE :: nat
  FSE_STAT_CHANGED :: nat
  FSE_RENAME :: nat
  FSE_CONTENT_MODIFIED :: nat
  FSE_EXCHANGE :: nat
  FSE_FINDER_INFO_CHANGED :: nat
  FSE_CREATE_DIR :: nat
  FSE_CHOWN :: nat
  FSE_XATTR_MODIFIED :: nat
  FSE_XATTR_REMOVED :: nat
  FSE_DOCID_CREATED :: nat
  FSE_DOCID_CHANGED :: nat
  FSE_EVENTS_DROPPED :: nat
  FSE_ARG_INT64 :: nat
  FSE_ARG_STRING :: nat
  FSE_ARG_DEV :: nat
  FSE_ARG_MODE :: nat
  FSE_ARG_PATH :: nat
  FSE_ARG_INO :: nat
  FSE_ARG_UID :: nat
  FSE_ARG_GID :: nat
  FSE_ARG_DONE :: nat

text \<open>Other calls: the name of a process (\<open>None\<close>: \<open>sysctl\<close> fails), \<open>link\<close>, the program's own pid, and whether
  the device opens and is cloned.\<close>

record fm_system =
  proc_name_of :: "int \<Rightarrow> mem option"
  link_succeeds :: "mem \<Rightarrow> mem \<Rightarrow> bool"
  own_pid :: int
  fsevents_opens :: bool
  fsevents_clones :: bool

datatype fm_item =
    Dropped
  | TypeRef nat nat
  | Event int mem string mem
  | Linked mem mem
  | NotLinked mem
  | Stop int mem
  | ArgString mem
  | ArgNumber string int
  | ArgPath
  | ArgFinfo
  | ArgDone
  | ArgUnknown int int
  | EventsLost

text \<open>What a step returns beside its items: a value, or the status the program exits with.\<close>

type_synonym 'a step = "(fm_item list \<times> ('a + nat)) option"

definition say :: "fm_item list \<Rightarrow> 'a \<Rightarrow> 'a step" where
  "say out x = Some (out, Inl x)"

definition quit :: "fm_item list \<Rightarrow> nat \<Rightarrow> 'a step" where
  "quit out e = Some (out, Inr e)"

definition reading :: "'a option \<Rightarrow> 'a step" where
  "reading v = map_option (\<lambda>x. ([], Inl x)) v"

definition step_bind :: "'a step \<Rightarrow> ('a \<Rightarrow> 'b step) \<Rightarrow> 'b step" where
  "step_bind m f =
     (case m of
        None \<Rightarrow> None
      | Some (out, Inr e) \<Rightarrow> Some (out, Inr e)
      | Some (out, Inl x) \<Rightarrow> map_option (apfst (\<lambda>out'. out @ out')) (f x))"

lemma step_simps [simp]:
  "step_bind (say out x) f = map_option (apfst (\<lambda>out'. out @ out')) (f x)"
  "step_bind (quit out e) f = quit out e" "reading (Some x) = say [] x" "reading None = None" "step_bind None f = None"
  by (simp_all add: step_bind_def say_def quit_def reading_def)

lemma out_step [simp]:
  "map_option (apfst (\<lambda>out'. out @ out')) (say out2 x) = say (out @ out2) x"
  "map_option (apfst (\<lambda>out'. out @ out')) (quit out2 e) = quit (out @ out2) e"
  "map_option (apfst (\<lambda>out'. out')) m = m"
  by (simp_all add: say_def quit_def apfst_def map_prod_def option.map_ident option.map_id)

lemma nothing_first: "map_option (apfst ((@) [])) m = m"
  by (cases m) auto

lemma step_bind_assoc: "step_bind (step_bind m f) g = step_bind m (\<lambda>x. step_bind (f x) g)"
  by (auto simp: step_bind_def apfst_def map_prod_def option.map_comp comp_def case_prod_unfold split: option.split sum.split prod.split)

section \<open>Texts\<close>

definition typeToString :: "fsevents \<Rightarrow> nat \<Rightarrow> string" where
  "typeToString fs ty =
     (if ty = FSE_CREATE_FILE fs then ''Created       ''
      else if ty = FSE_DELETE fs then ''Deleted       ''
      else if ty = FSE_STAT_CHANGED fs then ''Changed stat  ''
      else if ty = FSE_RENAME fs then ''Renamed       ''
      else if ty = FSE_CONTENT_MODIFIED fs then ''Modified      ''
      else if ty = FSE_CREATE_DIR fs then ''Created dir   ''
      else if ty = FSE_CHOWN fs then ''Chowned       ''
      else if ty = FSE_EXCHANGE fs then ''Exchanged     ''
      else if ty = FSE_FINDER_INFO_CHANGED fs then ''Finder Info   ''
      else if ty = FSE_XATTR_MODIFIED fs then ''Changed xattr ''
      else if ty = FSE_XATTR_REMOVED fs then ''Removed xattr ''
      else if ty = FSE_DOCID_CREATED fs then ''DocID created ''
      else if ty = FSE_DOCID_CHANGED fs then ''DocID changed ''
      else ''?! '')"

text \<open>The static buffer of \<open>getProcName\<close> and the pid it was filled for; \<open>None\<close>: the program exits.\<close>

record fm_state =
  lastPID :: int
  procName :: mem
  autolink :: nat

definition getProcName :: "fm_system \<Rightarrow> int \<Rightarrow> fm_state \<Rightarrow> (mem \<times> fm_state) option" where
  "getProcName sys pid st =
     (if pid \<noteq> lastPID st then
        (case proc_name_of sys pid of
           None \<Rightarrow> None
         | Some name \<Rightarrow> Some (name, st\<lparr>procName := name, lastPID := pid\<rparr>))
      else Some (procName st, st))"

section \<open>Arguments of an event\<close>

text \<open>\<open>g_dumpArgs\<close> keeps its initial value: the line that would set it is commented out.\<close>

definition g_dumpArgs :: bool where
  "g_dumpArgs = False"

definition FSE_ARG_FINFO :: nat where
  "FSE_ARG_FINFO = 0x000c"

definition signed16 :: "nat \<Rightarrow> int" where
  "signed16 n = sint (of_nat n :: 16 word)"

definition dump_number :: "mem \<Rightarrow> nat \<Rightarrow> nat \<Rightarrow> string \<Rightarrow> fm_item list option" where
  "dump_number buf w at title =
     (if g_dumpArgs then map_option (\<lambda>v. [ArgNumber title (int v)]) (rd_le w buf at) else Some [])"

text \<open>The cases of the \<open>switch\<close> other than the end: what is printed; an unknown type ends the program.\<close>

definition arg_items :: "fsevents \<Rightarrow> mem \<Rightarrow> nat \<Rightarrow> bool \<Rightarrow> nat \<Rightarrow> nat \<Rightarrow> fm_item list step" where
  "arg_items fs buf arg Print argType argLen =
     (if argType = FSE_ARG_INT64 fs then reading (dump_number buf 8 (arg + 4) ''Arg64'')
      else if argType = FSE_ARG_STRING fs then
        reading (if Print then map_option (\<lambda>s. [ArgString s]) (cstr_at buf (arg + 4)) else Some [])
      else if argType = FSE_ARG_DEV fs then reading (dump_number buf 4 (arg + 4) ''DEV'')
      else if argType = FSE_ARG_MODE fs then reading (dump_number buf 4 (arg + 4) ''MODE'')
      else if argType = FSE_ARG_PATH fs then say [] [ArgPath]
      else if argType = FSE_ARG_INO fs then reading (dump_number buf 4 (arg + 4) ''INODE'')
      else if argType = FSE_ARG_UID fs then reading (dump_number buf 4 (arg + 4) ''UID'')
      else if argType = FSE_ARG_GID fs then reading (dump_number buf 4 (arg + 4) ''GID'')
      else if argType = FSE_ARG_FINFO then say [] [ArgFinfo]
      else quit [ArgUnknown (signed16 argType) (signed16 argLen)] 0)"

text \<open>The length of the argument, 2 at the end of the event.\<close>

definition doArg :: "fsevents \<Rightarrow> mem \<Rightarrow> nat \<Rightarrow> bool \<Rightarrow> nat step" where
  "doArg fs buf arg Print =
     step_bind (reading (rd_le 2 buf arg)) (\<lambda>argType.
       if argType = FSE_ARG_DONE fs then say (if Print then [ArgDone] else []) 2
       else step_bind (reading (rd_le 2 buf (arg + 2))) (\<lambda>argLen.
         step_bind (arg_items fs buf arg Print argType argLen) (\<lambda>out. say out (4 + argLen))))"

text \<open>The loop after the first argument, from \<open>offInBuf\<close> with the length of the last one.\<close>

fun do_args :: "nat \<Rightarrow> fsevents \<Rightarrow> mem \<Rightarrow> nat \<Rightarrow> bool \<Rightarrow> nat \<Rightarrow> nat \<Rightarrow> nat step" where
  "do_args 0 fs buf rc Print arg_len offInBuf = None"
| "do_args (Suc fuel) fs buf rc Print arg_len offInBuf =
     (if arg_len > 2 \<and> offInBuf < rc then
        step_bind (doArg fs buf offInBuf Print) (\<lambda>len. do_args fuel fs buf rc Print len (offInBuf + len))
      else say [] offInBuf)"

section \<open>Filters\<close>

definition MAX_FILTERS :: nat where
  "MAX_FILTERS = 10"

definition interesting_process :: "int \<Rightarrow> nat \<Rightarrow> bool" where
  "interesting_process pid NumFilters = (NumFilters = 0)"

text \<open>The filters are tried from the last one down; the file name is only read when there is one.\<close>

fun interesting_file :: "mem option \<Rightarrow> mem list \<Rightarrow> bool option" where
  "interesting_file FileName Filters =
     (if Filters = [] then Some True
      else do { name \<leftarrow> FileName; Some (list_ex (\<lambda>f. strstr name f) (rev Filters)) })"

record fm_opts =
  fileFilters :: "mem list"
  numProcFilters :: nat
  color :: nat
  autostop :: nat
  autolink_opt :: nat

definition comma :: byte where
  "comma = 44"

lemma dropWhile_shorter: "dropWhile P s = c # r \<Longrightarrow> length r < length s"
  using length_dropWhile_le [of P s] by simp

text \<open>The loop over the commas, then the last part; the array has room for ten.\<close>

function add_filters :: "mem \<Rightarrow> mem list \<Rightarrow> mem list option" where
  "add_filters start filters =
     (if length filters < MAX_FILTERS then
        (case dropWhile (\<lambda>b. b \<noteq> comma) start of
           [] \<Rightarrow> Some (filters @ [start])
         | sep # rest \<Rightarrow> add_filters rest (filters @ [takeWhile (\<lambda>b. b \<noteq> comma) start]))
      else None)"
  by pat_completeness auto
termination
  by (relation "measure (\<lambda>(s, f). length s)") (auto dest: dropWhile_shorter)

declare add_filters.simps [simp del]

section \<open>Options\<close>

definition is_option :: "mem \<Rightarrow> string \<Rightarrow> string \<Rightarrow> bool" where
  "is_option a short long \<longleftrightarrow> a = str short \<or> a = str long"

text \<open>The loop over the arguments: the options, or the status of the exit.\<close>

fun fm_options :: "mem list \<Rightarrow> fm_opts \<Rightarrow> (fm_opts + nat) option" where
  "fm_options [] opts = Some (Inl opts)"
| "fm_options (a # args) opts =
     (if a = str ''-h'' then Some (Inr 1)
      else if is_option a ''-p'' ''--proc'' then
        (case args of
           [] \<Rightarrow> Some (Inr 2)
         | v # args' \<Rightarrow> fm_options args' (opts\<lparr>numProcFilters := numProcFilters opts + 1\<rparr>))
      else if is_option a ''-e'' ''--event'' then
        (case args of [] \<Rightarrow> Some (Inr 2) | v # args' \<Rightarrow> fm_options args' opts)
      else if is_option a ''-f'' ''--file'' then
        (case args of
           [] \<Rightarrow> Some (Inr 2)
         | v # args' \<Rightarrow> do {
             filters \<leftarrow> add_filters v (fileFilters opts);
             fm_options args' (opts\<lparr>fileFilters := filters\<rparr>)
           })
      else if is_option a ''-c'' ''--color'' then fm_options args (opts\<lparr>color := color opts + 1\<rparr>)
      else if is_option a ''-s'' ''--stop'' then fm_options args (opts\<lparr>autostop := autostop opts + 1\<rparr>)
      else if is_option a ''-l'' ''--link'' then fm_options args (opts\<lparr>autolink_opt := autolink_opt opts + 1\<rparr>)
      else Some (Inr 3))"

text \<open>With the check that \<open>-s\<close> needs a filter; \<open>jcolor\<close> is whether \<open>JCOLOR\<close> is set.\<close>

definition fm_start :: "bool \<Rightarrow> mem list \<Rightarrow> (fm_opts + nat) option" where
  "fm_start jcolor args = do {
     r \<leftarrow> fm_options args
       \<lparr>fileFilters = [], numProcFilters = 0, color = of_bool jcolor, autostop = 0, autolink_opt = 0\<rparr>;
     Some (case r of
       Inr e \<Rightarrow> Inr e
     | Inl opts \<Rightarrow>
         if autostop opts \<noteq> 0 \<and> fileFilters opts = [] \<and> numProcFilters opts = 0 then Inr 4 else Inl opts)
   }"

section \<open>Events\<close>

definition rd_pid :: "mem \<Rightarrow> nat \<Rightarrow> int option" where
  "rd_pid buf at = map_option (\<lambda>v. sint (of_nat v :: 32 word)) (rd_le 4 buf at)"

text \<open>What is done for an interesting event: the line, the link and the stop.\<close>

definition show_event :: "fsevents \<Rightarrow> fm_system \<Rightarrow> fm_opts \<Rightarrow> nat \<Rightarrow> int \<Rightarrow> mem \<Rightarrow> mem \<Rightarrow> fm_state \<Rightarrow> fm_state step" where
  "show_event fs sys opts ty pid name path st =
     (let linkName = path @ str (''.filemon.'' @ show_nat (autolink st));
          linking = (ty = FSE_CREATE_FILE fs \<and> autolink st \<noteq> 0 \<and> pid \<noteq> own_pid sys);
          linked = link_succeeds sys path linkName
      in say ([Event pid name (typeToString fs ty) path] @
          (if linking then if linked then [Linked path linkName] else [NotLinked path] else []) @
          (if autostop opts \<noteq> 0 \<and> ty = FSE_CREATE_FILE fs then [Stop pid name] else []))
          (if linking \<and> linked then st\<lparr>autolink := autolink st + 1\<rparr> else st))"

text \<open>An event whose process is known: its line if it is interesting, then its arguments. The result is
  whether the loop is left, the offset behind the event and the state.\<close>

definition known_event ::
  "fsevents \<Rightarrow> fm_system \<Rightarrow> fm_opts \<Rightarrow> mem \<Rightarrow> nat \<Rightarrow> nat \<Rightarrow> nat \<Rightarrow> int \<Rightarrow> mem \<Rightarrow> fm_state \<Rightarrow> (bool \<times> nat \<times> fm_state) step" where
  "known_event fs sys opts buf rc offInBuf ty pid name st =
     (let fse_arg = offInBuf + event_size fs;
          data = cstr_at buf (fse_arg + data_at fs)
      in step_bind (reading (if interesting_process pid (numProcFilters opts) then interesting_file data (fileFilters opts)
                             else Some False)) (\<lambda>Print.
         step_bind (if Print then step_bind (reading data) (\<lambda>path. show_event fs sys opts ty pid name path st)
                    else say [] st) (\<lambda>st.
         step_bind (reading (rd_le (pathlen_width fs) buf (fse_arg + pathlen_at fs))) (\<lambda>pathlen.
         let arg = fse_arg + arg_size fs + pathlen
         in step_bind (doArg fs buf arg Print) (\<lambda>arg_len.
            step_bind (do_args (length buf + 1) fs buf rc Print arg_len (arg + arg_len)) (\<lambda>off.
            say [] (False, off, st)))))))"

text \<open>One round of the loop over a buffer.\<close>

definition fm_event ::
  "fsevents \<Rightarrow> fm_system \<Rightarrow> fm_opts \<Rightarrow> mem \<Rightarrow> nat \<Rightarrow> nat \<Rightarrow> fm_state \<Rightarrow> (bool \<times> nat \<times> fm_state) step" where
  "fm_event fs sys opts buf rc offInBuf st =
     step_bind (reading (rd_le (type_width fs) buf (offInBuf + type_at fs))) (\<lambda>ty.
       if ty = FSE_EVENTS_DROPPED fs then say [Dropped] (True, offInBuf, st)
       else
         step_bind (reading (rd_pid buf (offInBuf + pid_at fs))) (\<lambda>pid.
         step_bind (if pid = 0 then
                      step_bind (reading (rd_le (refcount_width fs) buf (offInBuf + refcount_at fs)))
                        (\<lambda>refs. say [TypeRef ty refs] ())
                    else say [] ()) (\<lambda>_.
         case getProcName sys pid st of
           None \<Rightarrow> quit [] 1
         | Some (name, st) \<Rightarrow> known_event fs sys opts buf rc offInBuf ty pid name st)))"

fun fm_events :: "nat \<Rightarrow> fsevents \<Rightarrow> fm_system \<Rightarrow> fm_opts \<Rightarrow> mem \<Rightarrow> nat \<Rightarrow> nat \<Rightarrow> fm_state \<Rightarrow> fm_state step" where
  "fm_events 0 fs sys opts buf rc offInBuf st = None"
| "fm_events (Suc fuel) fs sys opts buf rc offInBuf st =
     (if offInBuf < rc then
        step_bind (fm_event fs sys opts buf rc offInBuf st) (\<lambda>(left, off, st).
          if left then say (if rc > off then [EventsLost] else []) st
          else fm_events fuel fs sys opts buf rc off st)
      else say [] st)"

section \<open>The program\<close>

definition BUFSIZE :: nat where
  "BUFSIZE = 256 * 1024"

text \<open>The reads until one fails or returns nothing; \<open>buf\<close> is what the buffer holds before the next one.\<close>

fun fm_reads :: "fsevents \<Rightarrow> fm_system \<Rightarrow> fm_opts \<Rightarrow> mem list \<Rightarrow> mem \<Rightarrow> fm_state \<Rightarrow> fm_state step" where
  "fm_reads fs sys opts [] buf st = say [] st"
| "fm_reads fs sys opts (data # reads) buf st =
     (let data = take BUFSIZE data in
      if data = [] then say [] st
      else step_bind (fm_events (length data + 1) fs sys opts (data @ drop (length data) buf) (length data) 0 st)
             (\<lambda>st. fm_reads fs sys opts reads (replicate BUFSIZE 0) st))"

definition filemon_main :: "fsevents \<Rightarrow> fm_system \<Rightarrow> bool \<Rightarrow> mem list \<Rightarrow> mem list \<Rightarrow> mem \<Rightarrow> fm_state step" where
  "filemon_main fs sys jcolor args reads buf =
     step_bind (reading (fm_start jcolor args)) (\<lambda>r.
       case r of
         Inr e \<Rightarrow> quit [] e
       | Inl opts \<Rightarrow>
           if \<not> fsevents_opens sys then quit [] 1
           else if \<not> fsevents_clones sys then quit [] 2
           else fm_reads fs sys opts reads buf \<lparr>lastPID = 0, procName = [], autolink = autolink_opt opts\<rparr>)"

section \<open>Filters are the parts between the commas\<close>

fun joined :: "mem list \<Rightarrow> mem" where
  "joined [] = []"
| "joined [s] = s"
| "joined (s # t # ss) = s @ comma # joined (t # ss)"

lemma no_comma: "comma \<notin> set s \<Longrightarrow> dropWhile (\<lambda>b. b \<noteq> comma) s = []" "comma \<notin> set s \<Longrightarrow> takeWhile (\<lambda>b. b \<noteq> comma) s = s"
  by (auto simp: dropWhile_eq_Nil_conv takeWhile_eq_all_conv)

lemma at_comma:
  "comma \<notin> set s \<Longrightarrow> dropWhile (\<lambda>b. b \<noteq> comma) (s @ comma # t) = comma # t"
  "comma \<notin> set s \<Longrightarrow> takeWhile (\<lambda>b. b \<noteq> comma) (s @ comma # t) = s"
  by (induction s) auto

lemma filters_added:
  assumes "ss \<noteq> []" "\<forall>s \<in> set ss. comma \<notin> set s" "length filters \<le> MAX_FILTERS"
  shows "add_filters (joined ss) filters =
    (if length filters + length ss \<le> MAX_FILTERS then Some (filters @ ss) else None)"
  using assms
proof (induction ss arbitrary: filters rule: joined.induct)
  case (2 s)
  then show ?case by (simp add: add_filters.simps [of s] no_comma)
next
  case (3 s t ss)
  show ?case
  proof (cases "length filters < MAX_FILTERS")
    case True
    then show ?thesis using 3 at_comma [of s "joined (t # ss)"] by (simp add: add_filters.simps [of "s @ comma # joined (t # ss)"])
  qed (use 3 in \<open>simp add: add_filters.simps [of "s @ comma # joined (t # ss)"]\<close>)
qed simp

text \<open>C34: the argument of \<open>-f\<close> adds exactly its parts between the commas, in order, as long as there are at
  most ten filters; an eleventh is written behind the array.\<close>

theorem filters_split:
  assumes "ss \<noteq> []" "\<forall>s \<in> set ss. comma \<notin> set s" "length filters \<le> MAX_FILTERS"
  shows "add_filters (joined ss) filters =
    (if length filters + length ss \<le> MAX_FILTERS then Some (filters @ ss) else None)"
  by (rule filters_added [OF assms])

lemma filters_split_witness: "add_filters (str ''tmp,log'') [] = Some [str ''tmp'', str ''log'']"
proof -
  have "joined [str ''tmp'', str ''log''] = str ''tmp,log''" by code_simp
  moreover have "\<forall>s \<in> set [str ''tmp'', str ''log'']. comma \<notin> set s" by code_simp
  ultimately show ?thesis using filters_split [of "[str ''tmp'', str ''log'']" "[]"] by (simp add: MAX_FILTERS_def)
qed

section \<open>Only filtered processes are stopped\<close>

text \<open>What the items of a run satisfy: no events at all with a process filter; otherwise the path of every
  event has one of the filters, and a stop comes with an event of the process.\<close>

definition filtered :: "fm_opts \<Rightarrow> fm_item list \<Rightarrow> bool" where
  "filtered opts out \<longleftrightarrow>
     (\<forall>pid name ty path. Event pid name ty path \<in> set out \<longrightarrow>
        numProcFilters opts = 0 \<and> (fileFilters opts = [] \<or> (\<exists>f \<in> set (fileFilters opts). strstr path f))) \<and>
     (\<forall>pid name. Stop pid name \<in> set out \<longrightarrow> autostop opts \<noteq> 0 \<and> (\<exists>ty path. Event pid name ty path \<in> set out))"

lemma filtered_append: "filtered opts a \<Longrightarrow> filtered opts b \<Longrightarrow> filtered opts (a @ b)"
  unfolding filtered_def by (simp only: set_append Un_iff) blast

text \<open>A step all of whose outputs are filtered.\<close>

definition outputs :: "fm_opts \<Rightarrow> 'a step \<Rightarrow> bool" where
  "outputs opts m \<longleftrightarrow> (case m of None \<Rightarrow> True | Some (out, r) \<Rightarrow> filtered opts out)"

lemma outputs_intros:
  "outputs opts None" "outputs opts (reading v)" "filtered opts out \<Longrightarrow> outputs opts (say out x)"
  "filtered opts out \<Longrightarrow> outputs opts (quit out e)"
  "outputs opts m \<Longrightarrow> (\<And>x out. m = Some (out, Inl x) \<Longrightarrow> outputs opts (f x)) \<Longrightarrow> outputs opts (step_bind m f)"
proof -
  show "outputs opts None" "outputs opts (reading v)" "filtered opts out \<Longrightarrow> outputs opts (say out x)"
    "filtered opts out \<Longrightarrow> outputs opts (quit out e)"
    by (simp_all add: outputs_def reading_def say_def quit_def filtered_def split: option.splits)
  assume "outputs opts m" "\<And>x out. m = Some (out, Inl x) \<Longrightarrow> outputs opts (f x)"
  then show "outputs opts (step_bind m f)"
    by (auto simp: outputs_def step_bind_def intro: filtered_append split: option.splits sum.splits prod.splits)
qed

lemma filtered_quiet: "filtered opts []" "filtered opts [ArgDone]" "filtered opts [ArgUnknown i j]" "filtered opts [Dropped]"
  "filtered opts [TypeRef ty refs]" "filtered opts [EventsLost]" "filtered opts [ArgPath]" "filtered opts [ArgFinfo]"
  "filtered opts [ArgString s]" "filtered opts [ArgNumber title i]"
  by (simp_all add: filtered_def)

lemma reading_value: "reading v = Some (out, Inl x) \<Longrightarrow> v = Some x"
  by (auto simp: reading_def)

lemma outputs_if: "(b \<Longrightarrow> outputs opts m) \<Longrightarrow> (\<not> b \<Longrightarrow> outputs opts n) \<Longrightarrow> outputs opts (if b then m else n)"
  by simp

lemma arg_items_outputs: "outputs opts (arg_items fs buf arg Print argType argLen)"
  unfolding arg_items_def by (intro outputs_if outputs_intros filtered_quiet)

lemma arg_items_filtered: "arg_items fs buf arg Print argType argLen = Some (out', Inl out) \<Longrightarrow> filtered opts out"
  by (auto simp: arg_items_def dump_number_def g_dumpArgs_def say_def quit_def reading_def filtered_quiet split: if_splits)

lemma doArg_outputs: "outputs opts (doArg fs buf arg Print)"
  unfolding doArg_def
  by (intro outputs_if outputs_intros arg_items_outputs) (auto simp: filtered_quiet dest: arg_items_filtered)

lemma do_args_outputs: "outputs opts (do_args fuel fs buf rc Print len off)"
  by (induction fuel arbitrary: len off) (auto intro!: outputs_intros doArg_outputs filtered_quiet)

lemma show_event_outputs:
  assumes "numProcFilters opts = 0" "fileFilters opts = [] \<or> (\<exists>f \<in> set (fileFilters opts). strstr path f)"
  shows "outputs opts (show_event fs sys opts ty pid name path st)"
  using assms unfolding show_event_def Let_def by (intro outputs_intros) (auto simp: filtered_def split: if_splits)

lemma known_event_outputs: "outputs opts (known_event fs sys opts buf rc off ty pid name st)"
proof -
  let ?data = "cstr_at buf (off + event_size fs + data_at fs)"
  have "outputs opts (step_bind (reading ?data) (\<lambda>path. show_event fs sys opts ty pid name path st))"
    if "reading (if interesting_process pid (numProcFilters opts) then interesting_file ?data (fileFilters opts)
          else Some False) = Some (o', Inl True)" for o'
  proof (intro outputs_intros show_event_outputs)
    fix path o2 assume "reading ?data = Some (o2, Inl path)"
    then have path: "?data = Some path" by (rule reading_value)
    show "numProcFilters opts = 0" "fileFilters opts = [] \<or> (\<exists>f \<in> set (fileFilters opts). strstr path f)"
      using reading_value [OF that] path by (auto simp: interesting_process_def list_ex_iff split: if_splits)
  qed
  then show ?thesis
    unfolding known_event_def Let_def
    by (intro outputs_intros doArg_outputs do_args_outputs filtered_quiet) (auto intro!: outputs_intros filtered_quiet)
qed

lemma fm_event_outputs: "outputs opts (fm_event fs sys opts buf rc off st)"
  unfolding fm_event_def
  by (intro outputs_intros) (auto intro!: outputs_intros filtered_quiet known_event_outputs split: option.split prod.split)

lemma fm_events_outputs: "outputs opts (fm_events fuel fs sys opts buf rc off st)"
  by (induction fuel arbitrary: off st)
    (auto intro!: outputs_intros fm_event_outputs filtered_quiet split: prod.split)

lemma fm_reads_outputs: "outputs opts (fm_reads fs sys opts reads buf st)"
  by (induction reads arbitrary: buf st)
    (auto simp: Let_def intro!: outputs_intros fm_events_outputs filtered_quiet simp del: fm_events.simps)

section \<open>Events are listed\<close>

text \<open>An event as it lies in the buffer: its header, the argument with the path, further arguments, and the end.\<close>

record fs_event =
  ev_type :: nat
  ev_refs :: nat
  ev_pid :: int
  ev_header :: mem
  ev_first :: mem
  ev_path :: mem
  ev_args :: "(nat \<times> mem) list"

definition arg_bytes :: "nat \<times> mem \<Rightarrow> mem" where
  "arg_bytes a = le_bytes 2 (fst a) @ le_bytes 2 (length (snd a)) @ snd a"

definition args_bytes :: "fsevents \<Rightarrow> (nat \<times> mem) list \<Rightarrow> mem" where
  "args_bytes fs args = concat (map arg_bytes args) @ le_bytes 2 (FSE_ARG_DONE fs)"

definition event_bytes :: "fsevents \<Rightarrow> fs_event \<Rightarrow> mem" where
  "event_bytes fs e = ev_header e @ ev_first e @ (ev_path e @ [0]) @ args_bytes fs (ev_args e)"

definition arg_types :: "fsevents \<Rightarrow> nat list" where
  "arg_types fs = [FSE_ARG_INT64 fs, FSE_ARG_STRING fs, FSE_ARG_DEV fs, FSE_ARG_MODE fs, FSE_ARG_PATH fs, FSE_ARG_INO fs,
     FSE_ARG_UID fs, FSE_ARG_GID fs, FSE_ARG_FINFO]"

definition good_layout :: "fsevents \<Rightarrow> bool" where
  "good_layout fs \<longleftrightarrow> type_at fs + type_width fs \<le> event_size fs \<and> pid_at fs + 4 \<le> event_size fs \<and>
     refcount_at fs + refcount_width fs \<le> event_size fs \<and>
     pathlen_at fs + pathlen_width fs \<le> arg_size fs \<and> data_at fs = arg_size fs \<and>
     distinct (FSE_ARG_DONE fs # arg_types fs) \<and> list_all (\<lambda>ty. ty < 2 ^ 16) (FSE_ARG_DONE fs # arg_types fs)"

text \<open>Arguments of every type but the end; a string ends in a zero byte.\<close>

definition good_arg :: "fsevents \<Rightarrow> nat \<times> mem \<Rightarrow> bool" where
  "good_arg fs a \<longleftrightarrow> fst a \<in> set (arg_types fs) \<and> length (snd a) < 2 ^ 16 \<and> (fst a = FSE_ARG_STRING fs \<longrightarrow> 0 \<in> set (snd a))"

definition good_event :: "fsevents \<Rightarrow> fs_event \<Rightarrow> bool" where
  "good_event fs e \<longleftrightarrow> length (ev_header e) = event_size fs \<and>
     rd_le (type_width fs) (ev_header e) (type_at fs) = Some (ev_type e) \<and> ev_type e \<noteq> FSE_EVENTS_DROPPED fs \<and>
     rd_le (refcount_width fs) (ev_header e) (refcount_at fs) = Some (ev_refs e) \<and>
     rd_pid (ev_header e) (pid_at fs) = Some (ev_pid e) \<and>
     length (ev_first e) = arg_size fs \<and> rd_le (pathlen_width fs) (ev_first e) (pathlen_at fs) = Some (length (ev_path e) + 1) \<and>
     0 \<notin> set (ev_path e) \<and> list_all (good_arg fs) (ev_args e)"

text \<open>The options, in their short or long spelling.\<close>

datatype fm_option = ByProcess mem | ByEvent mem | ByFile "mem list" | WithColor | WithStop | WithLink

fun spelled :: "bool \<times> fm_option \<Rightarrow> mem list" where
  "spelled (long, ByProcess v) = [str (if long then ''--proc'' else ''-p''), v]"
| "spelled (long, ByEvent v) = [str (if long then ''--event'' else ''-e''), v]"
| "spelled (long, ByFile ss) = [str (if long then ''--file'' else ''-f''), joined ss]"
| "spelled (long, WithColor) = [str (if long then ''--color'' else ''-c'')]"
| "spelled (long, WithStop) = [str (if long then ''--stop'' else ''-s'')]"
| "spelled (long, WithLink) = [str (if long then ''--link'' else ''-l'')]"

definition parts :: "fm_option \<Rightarrow> mem list" where
  "parts x = (case x of ByFile ss \<Rightarrow> ss | _ \<Rightarrow> [])"

definition by_process :: "fm_option \<Rightarrow> bool" where
  "by_process x = (case x of ByProcess v \<Rightarrow> True | _ \<Rightarrow> False)"

text \<open>Filters have no comma, and there are at most ten; \<open>-s\<close> needs a filter.\<close>

definition good_options :: "fm_option list \<Rightarrow> bool" where
  "good_options xs \<longleftrightarrow> (\<forall>ss. ByFile ss \<in> set xs \<longrightarrow> ss \<noteq> [] \<and> (\<forall>s \<in> set ss. comma \<notin> set s)) \<and>
     length (concat (map parts xs)) \<le> MAX_FILTERS \<and>
     (WithStop \<in> set xs \<longrightarrow> list_ex by_process xs \<or> concat (map parts xs) \<noteq> [])"

text \<open>Which events are listed: none with a process filter, all without filters, otherwise those whose path contains one
  of the parts of the file filters. A filter by event has no effect.\<close>

definition wanted :: "fm_option list \<Rightarrow> mem \<Rightarrow> bool" where
  "wanted xs path \<longleftrightarrow> \<not> list_ex by_process xs \<and>
     (concat (map parts xs) = [] \<or> (\<exists>s \<in> set (concat (map parts xs)). strstr path s))"

text \<open>What an argument prints, if its event is listed or not; paths and packed information do in either case.\<close>

definition arg_listing :: "fsevents \<Rightarrow> bool \<Rightarrow> nat \<times> mem \<Rightarrow> fm_item list" where
  "arg_listing fs shown a =
     (if fst a = FSE_ARG_STRING fs then if shown then [ArgString (takeWhile (\<lambda>b. b \<noteq> 0) (snd a))] else []
      else if fst a = FSE_ARG_PATH fs then [ArgPath]
      else if fst a = FSE_ARG_FINFO then [ArgFinfo]
      else [])"

text \<open>The link for the file of an event, when the next number is \<open>k\<close>; with 0 there are no links.\<close>

definition link_for :: "fsevents \<Rightarrow> fm_system \<Rightarrow> fm_option list \<Rightarrow> nat \<Rightarrow> fs_event \<Rightarrow> mem option" where
  "link_for fs sys xs k e =
     (if wanted xs (ev_path e) \<and> ev_type e = FSE_CREATE_FILE fs \<and> k \<noteq> 0 \<and> ev_pid e \<noteq> own_pid sys
      then Some (ev_path e @ str (''.filemon.'' @ show_nat k)) else None)"

definition event_items ::
  "fsevents \<Rightarrow> fm_system \<Rightarrow> fm_option list \<Rightarrow> (int \<Rightarrow> mem) \<Rightarrow> nat \<Rightarrow> fs_event \<Rightarrow> fm_item list" where
  "event_items fs sys xs nm k e =
     (let shown = wanted xs (ev_path e)
      in (if ev_pid e = 0 then [TypeRef (ev_type e) (ev_refs e)] else []) @
         (if shown then [Event (ev_pid e) (nm (ev_pid e)) (typeToString fs (ev_type e)) (ev_path e)] else []) @
         (case link_for fs sys xs k e of None \<Rightarrow> []
          | Some l \<Rightarrow> if link_succeeds sys (ev_path e) l then [Linked (ev_path e) l] else [NotLinked (ev_path e)]) @
         (if shown \<and> WithStop \<in> set xs \<and> ev_type e = FSE_CREATE_FILE fs then [Stop (ev_pid e) (nm (ev_pid e))] else []) @
         concat (map (arg_listing fs shown) (ev_args e)) @ (if shown then [ArgDone] else []))"

definition next_link :: "fsevents \<Rightarrow> fm_system \<Rightarrow> fm_option list \<Rightarrow> nat \<Rightarrow> fs_event \<Rightarrow> nat" where
  "next_link fs sys xs k e =
     (case link_for fs sys xs k e of None \<Rightarrow> k | Some l \<Rightarrow> if link_succeeds sys (ev_path e) l then k + 1 else k)"

text \<open>The name of a process, where nothing has been looked up yet: process 0 then has no name.\<close>

definition first_names :: "(int \<Rightarrow> mem) \<Rightarrow> bool \<Rightarrow> int \<Rightarrow> mem" where
  "first_names nm looked_up pid = (if pid = 0 \<and> \<not> looked_up then [] else nm pid)"

fun events_listing ::
  "fsevents \<Rightarrow> fm_system \<Rightarrow> fm_option list \<Rightarrow> (int \<Rightarrow> mem) \<Rightarrow> bool \<Rightarrow> nat \<Rightarrow> fs_event list \<Rightarrow> fm_item list" where
  "events_listing fs sys xs nm looked_up k [] = []"
| "events_listing fs sys xs nm looked_up k (e # es) = event_items fs sys xs (first_names nm looked_up) k e @
     events_listing fs sys xs nm (looked_up \<or> ev_pid e \<noteq> 0) (next_link fs sys xs k e) es"

section \<open>Options as they are spelled\<close>

definition opts_of :: "fm_option list \<Rightarrow> fm_opts \<Rightarrow> fm_opts" where
  "opts_of xs opts = opts\<lparr>fileFilters := fileFilters opts @ concat (map parts xs),
     numProcFilters := numProcFilters opts + length (filter by_process xs), color := color opts + count_list xs WithColor,
     autostop := autostop opts + count_list xs WithStop, autolink_opt := autolink_opt opts + count_list xs WithLink\<rparr>"

lemma opts_of_Cons: "opts_of xs (opts_of [x] opts) = opts_of (x # xs) opts" "opts_of [] opts = opts"
  by (simp_all add: opts_of_def)

lemma option_spelled:
  assumes "\<And>ss. x = ByFile ss \<Longrightarrow> add_filters (joined ss) (fileFilters opts) = Some (fileFilters opts @ ss)"
  shows "fm_options (spelled (long, x) @ args) opts = fm_options args (opts_of [x] opts)"
  using assms by (cases x) (simp_all add: is_option_def str_def opts_of_def by_process_def parts_def)

lemma fm_options_spelled:
  "\<forall>ss. ByFile ss \<in> snd ` set ys \<longrightarrow> ss \<noteq> [] \<and> (\<forall>s \<in> set ss. comma \<notin> set s) \<Longrightarrow>
   length (fileFilters opts) + length (concat (map parts (map snd ys))) \<le> MAX_FILTERS \<Longrightarrow>
   fm_options (concat (map spelled ys)) opts = Some (Inl (opts_of (map snd ys) opts))"
proof (induction ys arbitrary: opts)
  case Nil
  show ?case by (simp add: opts_of_Cons)
next
  case (Cons y ys)
  obtain long x where y: "y = (long, x)" by (cases y)
  have "fm_options (concat (map spelled ys)) (opts_of [x] opts) = Some (Inl (opts_of (map snd ys) (opts_of [x] opts)))"
    by (rule Cons.IH) (use Cons.prems in \<open>auto simp: y opts_of_def\<close>)
  moreover have "add_filters (joined ss) (fileFilters opts) = Some (fileFilters opts @ ss)" if "x = ByFile ss" for ss
    using filters_added [of ss "fileFilters opts"] Cons.prems that by (simp add: y parts_def)
  ultimately show ?case using option_spelled [of x opts long "concat (map spelled ys)"] by (simp add: y opts_of_Cons)
qed

lemma fm_start_spelled:
  assumes "good_options (map snd ys)"
  obtains opts where "fm_start jcolor (concat (map spelled ys)) = Some (Inl opts)" "opts = opts_of (map snd ys)
    \<lparr>fileFilters = [], numProcFilters = 0, color = of_bool jcolor, autostop = 0, autolink_opt = 0\<rparr>"
proof -
  let ?o = "\<lparr>fileFilters = [], numProcFilters = 0, color = of_bool jcolor, autostop = 0, autolink_opt = 0\<rparr>"
  let ?opts = "opts_of (map snd ys) ?o"
  have r: "fm_options (concat (map spelled ys)) ?o = Some (Inl ?opts)"
    by (rule fm_options_spelled) (use assms in \<open>auto simp: good_options_def\<close>)
  have "\<not> (autostop ?opts \<noteq> 0 \<and> fileFilters ?opts = [] \<and> numProcFilters ?opts = 0)"
    using assms unfolding good_options_def opts_of_def by (auto simp: filter_empty_conv list_ex_iff count_list_0_iff)
  then have "fm_start jcolor (concat (map spelled ys)) = Some (Inl ?opts)"
    by (simp only: fm_start_def r bind.bind_lunit sum.case if_False)
  then show ?thesis using that by blast
qed

section \<open>Arguments and events\<close>

lemma rd_le_part: "k + w \<le> length m \<Longrightarrow> rd_le w (pre @ m @ post) (length pre + k) = rd_le w m k"
  by (simp add: rd_le_def slice_def)

lemma cstr_at_part: "0 \<notin> set s \<Longrightarrow> cstr_at (pre @ s @ 0 # post) (length pre) = Some s"
  by (induction s) (auto simp: cstr_at_def)

lemma arg_items_listing:
  assumes "good_layout fs" "good_arg fs a"
  shows "arg_items fs (pre @ arg_bytes a @ post) (length pre) Print (fst a) (length (snd a)) = say [] (arg_listing fs Print a)"
proof -
  have "cstr_at (pre @ arg_bytes a @ post) (length pre + 4) = Some (takeWhile (\<lambda>b. b \<noteq> 0) (snd a))" if "0 \<in> set (snd a)"
  proof -
    note zero = that
    obtain s post' where a: "snd a = s @ 0 # post'" "0 \<notin> set s" using split_list_first [OF zero] by blast
    have "takeWhile (\<lambda>b. b \<noteq> 0) (s @ 0 # post') = s" using a(2) by (induction s) auto
    then show ?thesis
      using cstr_at_part [OF a(2), of "pre @ le_bytes 2 (fst a) @ le_bytes 2 (length (snd a))" "post' @ post"]
      by (simp add: arg_bytes_def a(1))
  qed
  note string = this
  have types: "distinct (arg_types fs)" "fst a \<in> set (arg_types fs)" "fst a = FSE_ARG_STRING fs \<Longrightarrow> 0 \<in> set (snd a)"
    using assms by (simp_all add: good_layout_def good_arg_def)
  note defs = arg_items_def arg_listing_def dump_number_def g_dumpArgs_def
  consider "fst a = FSE_ARG_STRING fs" | "fst a = FSE_ARG_PATH fs" | "fst a = FSE_ARG_FINFO"
    | "fst a \<notin> {FSE_ARG_STRING fs, FSE_ARG_PATH fs, FSE_ARG_FINFO}" by blast
  then show ?thesis
  proof cases
    case 1
    then have "fst a \<noteq> FSE_ARG_INT64 fs" using types(1) by (auto simp: arg_types_def)
    then show ?thesis using string [OF types(3) [OF 1]] 1 by (simp add: defs)
  next
    case 2
    then have "fst a \<notin> {FSE_ARG_INT64 fs, FSE_ARG_STRING fs, FSE_ARG_DEV fs, FSE_ARG_MODE fs}"
      using types(1) by (auto simp: arg_types_def)
    then show ?thesis using 2 by (simp add: defs)
  next
    case 3
    then have "fst a \<notin> {FSE_ARG_INT64 fs, FSE_ARG_STRING fs, FSE_ARG_DEV fs, FSE_ARG_MODE fs, FSE_ARG_PATH fs, FSE_ARG_INO fs,
        FSE_ARG_UID fs, FSE_ARG_GID fs}"
      using types(1) by (auto simp: arg_types_def)
    then show ?thesis using 3 by (simp add: defs)
  next
    case 4
    then have "fst a \<in> {FSE_ARG_INT64 fs, FSE_ARG_DEV fs, FSE_ARG_MODE fs, FSE_ARG_INO fs, FSE_ARG_UID fs, FSE_ARG_GID fs}"
      using types(2) by (auto simp: arg_types_def)
    then show ?thesis using 4 by (auto simp: defs)
  qed
qed

lemma arg_type_small: "good_layout fs \<Longrightarrow> good_arg fs a \<Longrightarrow> fst a < 2 ^ 16 \<and> fst a \<noteq> FSE_ARG_DONE fs"
  by (auto simp: good_layout_def good_arg_def list_all_iff)

lemma doArg_arg:
  assumes "good_layout fs" "good_arg fs a"
  shows "doArg fs (pre @ arg_bytes a @ post) (length pre) Print = say (arg_listing fs Print a) (4 + length (snd a))"
proof -
  let ?buf = "pre @ arg_bytes a @ post"
  have "rd_le 2 ?buf (length pre) = Some (fst a)"
    using rd_le_bytes [of "fst a" 2 pre "length pre"] arg_type_small [OF assms] by (simp add: arg_bytes_def)
  moreover have "rd_le 2 ?buf (length pre + 2) = Some (length (snd a))"
    using rd_le_bytes [of "length (snd a)" 2 "pre @ le_bytes 2 (fst a)" "length pre + 2" "snd a @ post"] assms(2)
    by (simp add: arg_bytes_def good_arg_def)
  ultimately show ?thesis using arg_items_listing [OF assms] arg_type_small [OF assms] by (simp add: doArg_def)
qed

lemma doArg_done:
  assumes "good_layout fs"
  shows "doArg fs (pre @ le_bytes 2 (FSE_ARG_DONE fs) @ post) (length pre) Print = say (if Print then [ArgDone] else []) 2"
  using rd_le_bytes [of "FSE_ARG_DONE fs" 2 pre "length pre" post] assms by (simp add: doArg_def good_layout_def)

lemma args_walk:
  assumes "good_layout fs"
  shows "list_all (good_arg fs) args \<Longrightarrow> length pre + length (args_bytes fs args) \<le> rc \<Longrightarrow> length args < fuel \<Longrightarrow>
    step_bind (doArg fs (pre @ args_bytes fs args @ post) (length pre) Print)
        (\<lambda>len. do_args fuel fs (pre @ args_bytes fs args @ post) rc Print len (length pre + len)) =
      say (concat (map (arg_listing fs Print) args) @ (if Print then [ArgDone] else [])) (length pre + length (args_bytes fs args))"
proof (induction args arbitrary: pre fuel)
  case Nil
  then obtain k where "fuel = Suc k" by (cases fuel) auto
  then show ?case using doArg_done [OF assms, of pre post Print] by (simp add: args_bytes_def)
next
  case (Cons a args)
  obtain k where k: "fuel = Suc k" using Cons.prems(3) by (cases fuel) auto
  let ?pre = "pre @ arg_bytes a" and ?items = "concat (map (arg_listing fs Print) args) @ (if Print then [ArgDone] else [])"
  have buf: "pre @ args_bytes fs (a # args) @ post = ?pre @ args_bytes fs args @ post" by (simp add: args_bytes_def)
  have len: "length (arg_bytes a) = 4 + length (snd a)" by (simp add: arg_bytes_def)
  have "doArg fs (?pre @ args_bytes fs args @ post) (length pre) Print = say (arg_listing fs Print a) (4 + length (snd a))"
    using doArg_arg [of fs a pre "args_bytes fs args @ post" Print] Cons.prems(1) assms by simp
  moreover have "do_args fuel fs (?pre @ args_bytes fs args @ post) rc Print (4 + length (snd a)) (length pre + (4 + length (snd a))) =
      step_bind (doArg fs (?pre @ args_bytes fs args @ post) (length ?pre) Print)
        (\<lambda>n. do_args k fs (?pre @ args_bytes fs args @ post) rc Print n (length ?pre + n))"
    using Cons.prems(2) len by (simp add: k args_bytes_def add.assoc)
  moreover have "\<dots> = say ?items (length ?pre + length (args_bytes fs args))"
    by (rule Cons.IH) (use Cons.prems len k in \<open>auto simp: args_bytes_def\<close>)
  ultimately show ?case unfolding buf by (simp only: step_simps out_step append_Nil) (simp add: args_bytes_def add.assoc)
qed

lemma many_args: "length args \<le> length (args_bytes fs args)"
  by (induction args) (auto simp: args_bytes_def arg_bytes_def)

text \<open>The state before an event, with the next number of a link, and whether a name has been looked up.\<close>

definition cached :: "(int \<Rightarrow> mem) \<Rightarrow> bool \<Rightarrow> nat \<Rightarrow> fm_state \<Rightarrow> bool" where
  "cached nm looked_up k st \<longleftrightarrow> autolink st = k \<and> procName st = first_names nm looked_up (lastPID st)"

definition names :: "(int \<Rightarrow> mem) \<Rightarrow> int \<Rightarrow> fm_state \<Rightarrow> fm_state" where
  "names nm pid st = st\<lparr>procName := nm pid, lastPID := pid\<rparr>"

lemma getProcName_cached:
  assumes "cached nm looked_up k st" "proc_name_of sys pid = Some (nm pid)" "\<not> looked_up \<Longrightarrow> lastPID st = 0"
  shows "getProcName sys pid st = Some (first_names nm looked_up pid, names (first_names nm looked_up) pid st)"
  using assms by (cases st) (auto simp: getProcName_def cached_def names_def first_names_def)

text \<open>The options that come from the spelled ones.\<close>

definition set_by :: "fm_option list \<Rightarrow> fm_opts \<Rightarrow> bool" where
  "set_by xs opts \<longleftrightarrow> (numProcFilters opts = 0 \<longleftrightarrow> \<not> list_ex by_process xs) \<and> fileFilters opts = concat (map parts xs) \<and>
     (autostop opts \<noteq> 0 \<longleftrightarrow> WithStop \<in> set xs)"

lemma interesting_name:
  "set_by xs opts \<Longrightarrow>
   (if interesting_process pid (numProcFilters opts) then interesting_file (Some path) (fileFilters opts) else Some False) =
     Some (wanted xs path)"
  by (auto simp: interesting_process_def wanted_def set_by_def list_ex_iff)

lemma known_event_items:
  fixes e fs pre post
  defines "buf \<equiv> pre @ event_bytes fs e @ post"
  assumes fs: "good_layout fs" and e: "good_event fs e" and rc: "length pre + length (event_bytes fs e) \<le> rc"
    and st: "autolink st = k" and xs: "set_by xs opts" and pid: "ev_pid e = 0 \<Longrightarrow> out = [TypeRef (ev_type e) (ev_refs e)]"
    "ev_pid e \<noteq> 0 \<Longrightarrow> out = []"
  shows "map_option (apfst ((@) out)) (known_event fs sys opts buf rc (length pre) (ev_type e) (ev_pid e) (nm (ev_pid e)) st) =
    say (event_items fs sys xs nm k e) (False, length pre + length (event_bytes fs e), st\<lparr>autolink := next_link fs sys xs k e\<rparr>)"
proof -
  let ?arg = "length pre + event_size fs + arg_size fs + (length (ev_path e) + 1)"
  let ?print = "wanted xs (ev_path e)"
  have len: "length (ev_header e) = event_size fs" "length (ev_first e) = arg_size fs"
    using e by (simp_all add: good_event_def)
  have path: "cstr_at buf (length pre + event_size fs + data_at fs) = Some (ev_path e)"
    using cstr_at_part [of "ev_path e" "pre @ ev_header e @ ev_first e"] e fs len
    by (simp add: buf_def event_bytes_def good_event_def good_layout_def add.assoc)
  have pathlen: "rd_le (pathlen_width fs) buf (length pre + event_size fs + pathlen_at fs) = Some (length (ev_path e) + 1)"
    using rd_le_part [of "pathlen_at fs" "pathlen_width fs" "ev_first e" "pre @ ev_header e"] e fs len
    by (simp add: buf_def event_bytes_def good_event_def good_layout_def)
  let ?items = "concat (map (arg_listing fs ?print) (ev_args e)) @ (if ?print then [ArgDone] else [])"
  have "step_bind (doArg fs buf ?arg ?print) (\<lambda>n. do_args (length buf + 1) fs buf rc ?print n (?arg + n)) =
      say ?items (?arg + length (args_bytes fs (ev_args e)))"
    using args_walk [of fs "ev_args e" "pre @ ev_header e @ ev_first e @ ev_path e @ [0]" rc "length buf + 1" post ?print]
      e fs len rc many_args [of "ev_args e" fs]
    by (simp add: buf_def event_bytes_def good_event_def add.assoc)
  then have args: "step_bind (doArg fs buf ?arg ?print) (\<lambda>n. step_bind (do_args (length buf + 1) fs buf rc ?print n (?arg + n))
        (\<lambda>off. say [] (False, off, s))) =
      say ?items (False, length pre + length (event_bytes fs e), s)" for s :: fm_state
    by (simp only: step_bind_assoc [symmetric] \<open>_ = say _ (?arg + _)\<close> step_simps out_step append_Nil2)
      (use len in \<open>simp add: event_bytes_def add.assoc\<close>)
  have shown: "(if ?print then show_event fs sys opts (ev_type e) (ev_pid e) (nm (ev_pid e)) (ev_path e) st else say [] st) =
      say ((if ?print then [Event (ev_pid e) (nm (ev_pid e)) (typeToString fs (ev_type e)) (ev_path e)] else []) @
        (case link_for fs sys xs k e of None \<Rightarrow> []
          | Some l \<Rightarrow> if link_succeeds sys (ev_path e) l then [Linked (ev_path e) l] else [NotLinked (ev_path e)]) @
        (if ?print \<and> WithStop \<in> set xs \<and> ev_type e = FSE_CREATE_FILE fs then [Stop (ev_pid e) (nm (ev_pid e))] else []))
        (st\<lparr>autolink := next_link fs sys xs k e\<rparr>)"
    using st xs by (cases st) (simp add: show_event_def Let_def link_for_def next_link_def set_by_def)
  have "known_event fs sys opts buf rc (length pre) (ev_type e) (ev_pid e) (nm (ev_pid e)) st =
    say ((if ?print then [Event (ev_pid e) (nm (ev_pid e)) (typeToString fs (ev_type e)) (ev_path e)] else []) @
        (case link_for fs sys xs k e of None \<Rightarrow> []
          | Some l \<Rightarrow> if link_succeeds sys (ev_path e) l then [Linked (ev_path e) l] else [NotLinked (ev_path e)]) @
        (if ?print \<and> WithStop \<in> set xs \<and> ev_type e = FSE_CREATE_FILE fs then [Stop (ev_pid e) (nm (ev_pid e))] else []) @ ?items)
      (False, length pre + length (event_bytes fs e), st\<lparr>autolink := next_link fs sys xs k e\<rparr>)"
    unfolding known_event_def Let_def path pathlen interesting_name [OF xs]
    by (simp only: step_simps shown args out_step append_Nil) (simp only: append_assoc)
  then show ?thesis
    using pid unfolding event_items_def Let_def by (cases "ev_pid e = 0") (simp_all only: out_step append_Nil if_True if_False simp_thms)
qed

lemma fm_event_items:
  assumes fs: "good_layout fs" and e: "good_event fs e" and rc: "length pre + length (event_bytes fs e) \<le> rc"
    and st: "cached nm looked_up k st" "\<not> looked_up \<Longrightarrow> lastPID st = 0" and pid: "proc_name_of sys (ev_pid e) = Some (nm (ev_pid e))"
    and xs: "set_by xs opts"
  shows "fm_event fs sys opts (pre @ event_bytes fs e @ post) rc (length pre) st =
    say (event_items fs sys xs (first_names nm looked_up) k e) (False, length pre + length (event_bytes fs e),
      (names (first_names nm looked_up) (ev_pid e) st)\<lparr>autolink := next_link fs sys xs k e\<rparr>)"
proof -
  let ?buf = "pre @ event_bytes fs e @ post" and ?nm = "first_names nm looked_up"
  let ?st = "names ?nm (ev_pid e) st"
  have reads: "rd_le (type_width fs) ?buf (length pre + type_at fs) = Some (ev_type e)"
    "rd_le (refcount_width fs) ?buf (length pre + refcount_at fs) = Some (ev_refs e)"
    "rd_pid ?buf (length pre + pid_at fs) = Some (ev_pid e)"
    using rd_le_part [of _ _ "ev_header e" pre] e fs by (simp_all add: event_bytes_def good_event_def good_layout_def rd_pid_def)
  have name: "getProcName sys (ev_pid e) st = Some (?nm (ev_pid e), ?st)"
    using getProcName_cached [OF st(1) pid st(2)] .
  have known: "map_option (apfst ((@) out)) (known_event fs sys opts ?buf rc (length pre) (ev_type e) (ev_pid e) (?nm (ev_pid e)) ?st) =
      say (event_items fs sys xs ?nm k e) (False, length pre + length (event_bytes fs e), ?st\<lparr>autolink := next_link fs sys xs k e\<rparr>)"
    if "out = (if ev_pid e = 0 then [TypeRef (ev_type e) (ev_refs e)] else [])" for out
    using known_event_items [OF fs e rc _ xs, where st = ?st and k = k and out = out and sys = sys and nm = ?nm and post = post] st(1) that by (simp add: cached_def names_def)
  show ?thesis
  proof (cases "ev_pid e = 0")
    case True
    then show ?thesis using e known [of "[TypeRef (ev_type e) (ev_refs e)]"] unfolding fm_event_def good_event_def
      by (simp only: reads name [unfolded True] True step_simps out_step append_Nil append_Nil2 if_False if_True option.case prod.case refl)
  next
    case False
    then show ?thesis using e known [of "[]", unfolded nothing_first] unfolding fm_event_def good_event_def
      by (simp only: reads name step_simps out_step append_Nil append_Nil2 if_False if_True option.case prod.case refl)
  qed
qed

definition events_bytes :: "fsevents \<Rightarrow> fs_event list \<Rightarrow> mem" where
  "events_bytes fs es = concat (map (event_bytes fs) es)"

lemma many_events: "length es \<le> length (events_bytes fs es)"
  by (induction es) (auto simp: events_bytes_def event_bytes_def)

definition readable_events :: "fsevents \<Rightarrow> fm_system \<Rightarrow> (int \<Rightarrow> mem) \<Rightarrow> fs_event list \<Rightarrow> bool" where
  "readable_events fs sys nm es \<longleftrightarrow> good_layout fs \<and> fsevents_opens sys \<and> fsevents_clones sys \<and>
     (\<forall>e \<in> set es. good_event fs e \<and> proc_name_of sys (ev_pid e) = Some (nm (ev_pid e)))"

text \<open>The state behind some events.\<close>

definition behind :: "fsevents \<Rightarrow> fm_system \<Rightarrow> fm_option list \<Rightarrow> bool \<Rightarrow> nat \<Rightarrow> fs_event list \<Rightarrow> bool \<times> nat" where
  "behind fs sys xs looked_up k es = (looked_up \<or> (\<exists>e \<in> set es. ev_pid e \<noteq> 0), foldl (next_link fs sys xs) k es)"

definition ready :: "(int \<Rightarrow> mem) \<Rightarrow> bool \<times> nat \<Rightarrow> fm_state \<Rightarrow> bool" where
  "ready nm b st \<longleftrightarrow> cached nm (fst b) (snd b) st \<and> (fst b \<or> lastPID st = 0)"

lemma behind_simps [simp]:
  "behind fs sys xs looked_up k [] = (looked_up, k)"
  "behind fs sys xs looked_up k (e # es) = behind fs sys xs (looked_up \<or> ev_pid e \<noteq> 0) (next_link fs sys xs k e) es"
  by (auto simp: behind_def)

lemma ready_behind_event:
  "ready nm (looked_up, k) st \<Longrightarrow>
     ready nm (looked_up \<or> ev_pid e \<noteq> 0, l) ((names (first_names nm looked_up) (ev_pid e) st)\<lparr>autolink := l\<rparr>)"
  by (auto simp: ready_def cached_def names_def first_names_def)

lemma events_listing_append:
  "events_listing fs sys xs nm looked_up k (es @ fs') = events_listing fs sys xs nm looked_up k es @
     (case behind fs sys xs looked_up k es of (l, k) \<Rightarrow> events_listing fs sys xs nm l k fs')"
  by (induction es arbitrary: looked_up k) auto

lemma fm_events_items:
  "readable_events fs sys nm es \<Longrightarrow> set_by xs opts \<Longrightarrow> ready nm (looked_up, k) st \<Longrightarrow> length es < fuel \<Longrightarrow>
   \<exists>st'. ready nm (behind fs sys xs looked_up k es) st' \<and>
     fm_events fuel fs sys opts (pre @ events_bytes fs es @ post) (length pre + length (events_bytes fs es)) (length pre) st =
       say (events_listing fs sys xs nm looked_up k es) st'"
proof (induction es arbitrary: pre st fuel looked_up k)
  case Nil
  then show ?case by (cases fuel) (auto simp: events_bytes_def)
next
  case (Cons e es)
  obtain j where j: "fuel = Suc j" using Cons.prems(4) by (cases fuel) auto
  let ?rc = "length pre + length (events_bytes fs (e # es))"
  let ?st = "(names (first_names nm looked_up) (ev_pid e) st)\<lparr>autolink := next_link fs sys xs k e\<rparr>"
  have buf: "pre @ events_bytes fs (e # es) @ post = pre @ event_bytes fs e @ events_bytes fs es @ post"
    by (simp add: events_bytes_def)
  have e: "fm_event fs sys opts (pre @ events_bytes fs (e # es) @ post) ?rc (length pre) st =
      say (event_items fs sys xs (first_names nm looked_up) k e) (False, length pre + length (event_bytes fs e), ?st)"
    unfolding buf by (rule fm_event_items) (use Cons.prems in \<open>auto simp: readable_events_def events_bytes_def ready_def\<close>)
  obtain st' where st': "ready nm (behind fs sys xs looked_up k (e # es)) st'"
    "fm_events j fs sys opts ((pre @ event_bytes fs e) @ events_bytes fs es @ post)
      (length (pre @ event_bytes fs e) + length (events_bytes fs es)) (length (pre @ event_bytes fs e)) ?st =
       say (events_listing fs sys xs nm (looked_up \<or> ev_pid e \<noteq> 0) (next_link fs sys xs k e) es) st'"
    using Cons.IH [OF _ Cons.prems(2) ready_behind_event [OF Cons.prems(3)], of j e "next_link fs sys xs k e" "pre @ event_bytes fs e"]
      Cons.prems j by (auto simp: readable_events_def)
  then have "fm_events j fs sys opts (pre @ events_bytes fs (e # es) @ post) ?rc (length pre + length (event_bytes fs e)) ?st =
      say (events_listing fs sys xs nm (looked_up \<or> ev_pid e \<noteq> 0) (next_link fs sys xs k e) es) st'"
    unfolding buf by (simp add: events_bytes_def add.assoc)
  moreover have "length pre < ?rc" by (simp add: events_bytes_def event_bytes_def args_bytes_def)
  ultimately show ?case using st'(1) by (auto simp: j e)
qed

lemma fm_reads_items:
  "readable_events fs sys nm (concat ess) \<Longrightarrow> \<forall>es \<in> set ess. es \<noteq> [] \<and> length (events_bytes fs es) \<le> BUFSIZE \<Longrightarrow>
     set_by xs opts \<Longrightarrow> ready nm (looked_up, k) st \<Longrightarrow>
     \<exists>st'. fm_reads fs sys opts (map (events_bytes fs) ess) buf st = say (events_listing fs sys xs nm looked_up k (concat ess)) st'"
proof (induction ess arbitrary: buf st looked_up k)
  case (Cons es ess)
  have "es \<noteq> []" "length (events_bytes fs es) \<le> BUFSIZE" using Cons.prems(2) by auto
  then have es: "take BUFSIZE (events_bytes fs es) = events_bytes fs es" "events_bytes fs es \<noteq> []"
    using many_events [of es fs] by auto
  have rest: "readable_events fs sys nm (concat ess)" and first: "readable_events fs sys nm es"
    using Cons.prems(1) by (simp_all add: readable_events_def)
  let ?buf = "events_bytes fs es @ drop (length (events_bytes fs es)) buf"
  obtain l j where b: "behind fs sys xs looked_up k es = (l, j)" by fastforce
  obtain st' where st': "ready nm (l, j) st'" "fm_events (length (events_bytes fs es) + 1) fs sys opts ?buf (length (events_bytes fs es)) 0 st =
       say (events_listing fs sys xs nm looked_up k es) st'"
    using fm_events_items [OF first Cons.prems(3,4), of "length (events_bytes fs es) + 1" "[]" "drop (length (events_bytes fs es)) buf"]
      many_events [of es fs] b
    by (auto simp del: fm_events.simps)
  moreover obtain st'' where "fm_reads fs sys opts (map (events_bytes fs) ess) (replicate BUFSIZE 0) st' =
      say (events_listing fs sys xs nm l j (concat ess)) st''"
    using Cons.IH [OF rest _ Cons.prems(3) st'(1), of "replicate BUFSIZE 0"] Cons.prems(2) by (meson list.set_intros(2))
  ultimately show ?case by (auto simp: Let_def es b events_listing_append simp del: fm_events.simps)
qed auto

text \<open>C33: With options in any order and spelling, at most ten file filters, and a filter where there is \<open>-s\<close>, the monitor
  prints for every event of every read, in order: for process 0 its type and count; if the event is listed, its process by
  name, its kind and its path, the link (numbered) and the stop for a new file when that is asked for; what its arguments
  print, a second path among them; and the end of its line if it is listed. It is listed exactly when there is no process
  filter at all (with \<open>-p\<close> nothing is) and, if there are file filters, its path contains one of them; \<open>-e\<close> makes no
  difference. Process 0 has no name until another process has been looked up. Whatever lies behind the data in the buffer
  is not touched.\<close>

theorem events_listed:
  assumes "readable_events fs sys nm (concat ess)" "\<forall>es \<in> set ess. es \<noteq> [] \<and> length (events_bytes fs es) \<le> BUFSIZE"
    and "good_options (map snd ys)"
  shows "\<exists>st. filemon_main fs sys jcolor (concat (map spelled ys)) (map (events_bytes fs) ess) buf =
    say (events_listing fs sys (map snd ys) nm False (count_list (map snd ys) WithLink) (concat ess)) st"
proof -
  obtain opts where opts: "fm_start jcolor (concat (map spelled ys)) = Some (Inl opts)" "opts = opts_of (map snd ys)
    \<lparr>fileFilters = [], numProcFilters = 0, color = of_bool jcolor, autostop = 0, autolink_opt = 0\<rparr>"
    using fm_start_spelled [OF assms(3)] .
  have "set_by (map snd ys) opts"
    by (auto simp: opts(2) opts_of_def set_by_def filter_empty_conv list_ex_iff count_list_0_iff)
  moreover have "ready nm (False, count_list (map snd ys) WithLink) \<lparr>lastPID = 0, procName = [], autolink = autolink_opt opts\<rparr>"
    by (simp add: opts(2) opts_of_def ready_def cached_def first_names_def)
  ultimately show ?thesis
    using fm_reads_items [OF assms(1,2), of "map snd ys" opts] assms(1) opts(1)
    by (simp add: filemon_main_def readable_events_def del: fm_reads.simps)
qed

definition wit_layout :: fsevents where
  "wit_layout =
     \<lparr>event_size = 8, type_at = 0, type_width = 2, refcount_at = 2, refcount_width = 2, pid_at = 4,
      arg_size = 4, pathlen_at = 2, pathlen_width = 2, data_at = 4,
      FSE_CREATE_FILE = 0, FSE_DELETE = 1, FSE_STAT_CHANGED = 2, FSE_RENAME = 3, FSE_CONTENT_MODIFIED = 4,
      FSE_EXCHANGE = 5, FSE_FINDER_INFO_CHANGED = 6, FSE_CREATE_DIR = 7, FSE_CHOWN = 8, FSE_XATTR_MODIFIED = 9,
      FSE_XATTR_REMOVED = 10, FSE_DOCID_CREATED = 11, FSE_DOCID_CHANGED = 12, FSE_EVENTS_DROPPED = 999,
      FSE_ARG_INT64 = 5, FSE_ARG_STRING = 2, FSE_ARG_DEV = 9, FSE_ARG_MODE = 10, FSE_ARG_PATH = 3, FSE_ARG_INO = 7,
      FSE_ARG_UID = 8, FSE_ARG_GID = 11, FSE_ARG_DONE = 0xb33f\<rparr>"

definition wit_system :: fm_system where
  "wit_system = \<lparr>proc_name_of = \<lambda>pid. Some (str ''sh''), link_succeeds = \<lambda>a b. True, own_pid = 1,
     fsevents_opens = True, fsevents_clones = True\<rparr>"

definition wit_event :: "nat \<Rightarrow> string \<Rightarrow> fs_event" where
  "wit_event ty path =
     \<lparr>ev_type = ty, ev_refs = 0, ev_pid = 70, ev_header = le_bytes 2 ty @ [0, 0, 70, 0, 0, 0],
      ev_first = [2, 0] @ le_bytes 2 (length path + 1), ev_path = str path, ev_args = [(9, [1, 2, 3, 4]), (2, [120, 0])]\<rparr>"

definition wit_args :: "(bool \<times> fm_option) list" where
  "wit_args = [(False, WithStop), (True, ByFile [str ''tmp'', str ''log'']), (False, WithLink)]"

lemma wit_options: "good_options (map snd wit_args)"
  by (auto simp: good_options_def wit_args_def parts_def MAX_FILTERS_def comma_def) (simp_all add: str_def)

lemma wit_reads:
  "rd_pid [a, b, 0, 0, 70, 0, 0, 0] 4 = Some 70" "rd_le 2 [a, b, 0, 0, 70, 0, 0, 0] 0 = Some (unat a + 256 * unat b)"
  "rd_le 2 [a, b, 0, 0, 70, 0, 0, 0] 2 = Some 0"
  "rd_le 2 [2, 0, a, b] 2 = Some (unat a + 256 * unat b)" "0 \<notin> set (str ''/tmp/a'')" "0 \<notin> set (str ''/etc/b'')"
  by (simp_all add: rd_pid_def rd_le_def slice_def numeral_eq_Suc) code_simp+

lemma wit_bytes: "le_bytes 2 v = [of_nat (v mod 256), of_nat (v div 256 mod 256)]" "length (str s) = length s"
  by (simp_all add: numeral_2_eq_2 str_def)

lemma wit_good:
  "ty = 0 \<or> ty = 3 \<Longrightarrow> path = ''/tmp/a'' \<or> path = ''/etc/b'' \<Longrightarrow> good_event wit_layout (wit_event ty path)"
  by (auto simp: good_event_def good_arg_def arg_types_def wit_layout_def wit_event_def wit_reads wit_bytes)

lemma wit_layout_good: "good_layout wit_layout"
  by (simp add: good_layout_def wit_layout_def arg_types_def FSE_ARG_FINFO_def)

lemma wit_readable: "readable_events wit_layout wit_system (\<lambda>pid. str ''sh'') [wit_event 0 ''/tmp/a'', wit_event 3 ''/etc/b'']"
  using wit_good by (simp add: readable_events_def wit_layout_good wit_system_def)

lemma wit_found:
  "strstr (str ''/tmp/a'') (str ''tmp'')" "\<not> strstr (str ''/etc/b'') (str ''tmp'')" "\<not> strstr (str ''/etc/b'') (str ''log'')"
  by code_simp+

lemma wit_size: "length (events_bytes wit_layout [wit_event 0 ''/tmp/a'', wit_event 3 ''/etc/b'']) \<le> BUFSIZE"
  by (simp add: events_bytes_def event_bytes_def args_bytes_def arg_bytes_def BUFSIZE_def wit_layout_def wit_event_def wit_bytes)

definition wit_items :: "fm_item list" where
  "wit_items = [Event 70 (str ''sh'') ''Created       '' (str ''/tmp/a''), Linked (str ''/tmp/a'') (str ''/tmp/a.filemon.1''),
     Stop 70 (str ''sh''), ArgString [120], ArgDone]"

lemma wit_listing:
  "events_listing wit_layout wit_system (map snd wit_args) (\<lambda>pid. str ''sh'') False 1
     [wit_event 0 ''/tmp/a'', wit_event 3 ''/etc/b''] = wit_items"
proof -
  have "str ''/tmp/a'' @ str (''.filemon.'' @ show_nat 1) = str ''/tmp/a.filemon.1''" by code_simp
  then show ?thesis
    by (simp add: event_items_def link_for_def next_link_def wanted_def parts_def by_process_def wit_args_def arg_listing_def first_names_def
        wit_items_def wit_system_def wit_layout_def wit_event_def typeToString_def wit_found FSE_ARG_FINFO_def)
qed

lemma events_listed_witness:
  "\<exists>st. filemon_main wit_layout wit_system False [str ''-s'', str ''--file'', str ''tmp,log'', str ''-l'']
      [events_bytes wit_layout [wit_event 0 ''/tmp/a'', wit_event 3 ''/etc/b'']] [1, 2, 3] = say wit_items st"
proof -
  have "concat (map spelled wit_args) = [str ''-s'', str ''--file'', str ''tmp,log'', str ''-l'']" by code_simp
  then show ?thesis
    using events_listed [of wit_layout wit_system "\<lambda>pid. str ''sh''" "[[wit_event 0 ''/tmp/a'', wit_event 3 ''/etc/b'']]"
        wit_args False "[1, 2, 3]"] wit_readable wit_size wit_options wit_listing
    by (simp add: wit_args_def)
qed

section \<open>A stopped process\<close>

text \<open>A process is only stopped when it caused an event that was printed and whose path has one of the
  given filters; \<open>-s\<close> without a file filter stops nothing.\<close>

theorem stops_are_filtered:
  assumes "filemon_main fs sys jcolor args reads buf = Some (out, r)" "Stop pid name \<in> set out"
    and "fm_start jcolor args = Some (Inl opts)"
  shows "\<exists>ty path. Event pid name ty path \<in> set out \<and> (\<exists>f \<in> set (fileFilters opts). strstr path f)"
proof -
  have "outputs opts (filemon_main fs sys jcolor args reads buf)"
    using assms(3) by (simp add: filemon_main_def fm_reads_outputs outputs_intros filtered_quiet)
  then have out: "filtered opts out" using assms(1) by (simp add: outputs_def)
  then obtain ty path where "autostop opts \<noteq> 0" "Event pid name ty path \<in> set out"
    using assms(2) unfolding filtered_def by blast
  then have stop: "autostop opts \<noteq> 0" "numProcFilters opts = 0" using out unfolding filtered_def by blast+
  then have "fileFilters opts \<noteq> []"
    using assms(3) by (auto simp: fm_start_def split: bind_splits sum.splits if_splits)
  then show ?thesis using out assms(2) unfolding filtered_def by blast
qed

lemma stops_are_filtered_witness:
  "\<exists>out st. filemon_main wit_layout wit_system False (concat (map spelled wit_args))
        [events_bytes wit_layout [wit_event 0 ''/tmp/a'', wit_event 3 ''/etc/b'']] [] = say out st \<and>
      (\<exists>ty path. Event 70 (str ''sh'') ty path \<in> set out \<and> (\<exists>f \<in> {str ''tmp'', str ''log''}. strstr path f))"
proof -
  obtain opts where opts: "fm_start False (concat (map spelled wit_args)) = Some (Inl opts)" "opts = opts_of (map snd wit_args)
    \<lparr>fileFilters = [], numProcFilters = 0, color = of_bool False, autostop = 0, autolink_opt = 0\<rparr>"
    using fm_start_spelled [OF wit_options] .
  have "set_by (map snd wit_args) opts"
    by (simp add: opts(2) opts_of_def set_by_def wit_args_def by_process_def)
  moreover have "ready (\<lambda>pid. str ''sh'') (False, 1) \<lparr>lastPID = 0, procName = [], autolink = 1\<rparr>"
    by (simp add: ready_def cached_def first_names_def)
  ultimately obtain st where "fm_reads wit_layout wit_system opts [events_bytes wit_layout [wit_event 0 ''/tmp/a'', wit_event 3 ''/etc/b'']] []
      \<lparr>lastPID = 0, procName = [], autolink = 1\<rparr> = say wit_items st"
    using fm_reads_items [of wit_layout wit_system "\<lambda>pid. str ''sh''" "[[wit_event 0 ''/tmp/a'', wit_event 3 ''/etc/b'']]"
      "map snd wit_args" opts False 1 _ "[]"] wit_readable wit_size wit_listing
    by (auto simp del: fm_reads.simps)
  moreover have "autolink_opt opts = 1" by (simp add: opts(2) opts_of_def wit_args_def)
  ultimately have st: "filemon_main wit_layout wit_system False (concat (map spelled wit_args))
        [events_bytes wit_layout [wit_event 0 ''/tmp/a'', wit_event 3 ''/etc/b'']] [] = say wit_items st"
    by (simp add: filemon_main_def opts(1) wit_system_def del: fm_reads.simps)
  moreover have "\<exists>ty path. Event 70 (str ''sh'') ty path \<in> set wit_items \<and> (\<exists>f \<in> set (fileFilters opts). strstr path f)"
    by (rule stops_are_filtered [OF st [unfolded say_def] _ opts(1)]) (simp add: wit_items_def)
  moreover have "set (fileFilters opts) = {str ''tmp'', str ''log''}" by (simp add: opts(2) opts_of_def wit_args_def parts_def)
  ultimately show ?thesis by auto
qed

end
