(* ===== verification/Stackshot.thy ===== *)
theory Stackshot
  imports Prelude
begin

text \<open>
  The stack snapshot tool \<open>src/src/stackshot.c\<close>: the walk over the items of the kernel's buffer, the text of
  every item, and arrays of items. Pointers into the buffer are the bytes from there on. The numbers of
  \<open>kern/kcdata.h\<close>, which is not in the repository, and the layouts of its structures are parameters.
\<close>

section \<open>The data format\<close>

text \<open>The labels of the \<open>switch\<close> over item types; the argument of the padded array is 0 to 15.\<close>

datatype kc_type =
    KCDATA_TYPE_STRING_DESC | KCDATA_TYPE_UINT32_DESC | KCDATA_TYPE_UINT64_DESC | KCDATA_TYPE_INT32_DESC
  | KCDATA_TYPE_INT64_DESC | KCDATA_TYPE_BINDATA_DESC | KCDATA_TYPE_CONTAINER_BEGIN | KCDATA_TYPE_CONTAINER_END
  | KCDATA_TYPE_ARRAY | KCDATA_TYPE_ARRAY_PAD nat | KCDATA_TYPE_TYPEDEFINTION | KCDATA_TYPE_LIBRARY_LOADINFO
  | KCDATA_TYPE_LIBRARY_LOADINFO64 | KCDATA_TYPE_TIMEBASE | KCDATA_TYPE_MACH_ABSOLUTE_TIME | KCDATA_TYPE_TIMEVAL
  | KCDATA_TYPE_USECS_SINCE_EPOCH | KCDATA_TYPE_PID | KCDATA_TYPE_PROCNAME | KCDATA_TYPE_NESTED_KCDATA
  | STACKSHOT_KCTYPE_IOSTATS | STACKSHOT_KCTYPE_GLOBAL_MEM_STATS | STACKSHOT_KCCONTAINER_TASK
  | STACKSHOT_KCCONTAINER_THREAD | STACKSHOT_KCTYPE_TASK_SNAPSHOT | STACKSHOT_KCTYPE_THREAD_SNAPSHOT
  | STACKSHOT_KCTYPE_DONATING_PIDS | STACKSHOT_KCTYPE_SHAREDCACHE_LOADINFO | STACKSHOT_KCTYPE_THREAD_NAME
  | STACKSHOT_KCTYPE_KERN_STACKFRAME | STACKSHOT_KCTYPE_KERN_STACKFRAME64 | STACKSHOT_KCTYPE_USER_STACKFRAME
  | STACKSHOT_KCTYPE_USER_STACKFRAME64 | STACKSHOT_KCTYPE_BOOTARGS | STACKSHOT_KCTYPE_OSVERSION
  | STACKSHOT_KCTYPE_KERN_PAGE_SIZE | STACKSHOT_KCTYPE_JETSAM_LEVEL | STACKSHOT_KCTYPE_DELTA_SINCE_TIMESTAMP
  | STACKSHOT_KCTYPE_TASK_DELTA_SNAPSHOT | STACKSHOT_KCTYPE_THREAD_DELTA_SNAPSHOT | STACKSHOT_KCTYPE_KERN_STACKLR
  | STACKSHOT_KCTYPE_KERN_STACKLR64 | STACKSHOT_KCTYPE_USER_STACKLR | STACKSHOT_KCTYPE_USER_STACKLR64
  | STACKSHOT_KCTYPE_NONRUNNABLE_TIDS | STACKSHOT_KCTYPE_NONRUNNABLE_TASKS | STACKSHOT_KCTYPE_CPU_TIMES
  | STACKSHOT_KCTYPE_STACKSHOT_DURATION | STACKSHOT_KCTYPE_STACKSHOT_FAULT_STATS
  | STACKSHOT_KCTYPE_KERNELCACHE_LOADINFO | KCDATA_TYPE_BUFFER_END

text \<open>The fields that are read.\<close>

datatype kc_field =
    free_pages | active_pages | inactive_pages | purgeable_pages | wired_pages | speculative_pages | throttled_pages
  | filebacked_pages | compressions | decompressions | compressor_size | busy_buffer_count
  | ss_disk_reads_count | ss_disk_reads_size | ss_disk_writes_count | ss_disk_writes_size | user_usec | system_usec
  | lr | sp | imageLoadAddress | imageUUID
  | ths_thread_id | ths_state | ths_sched_priority | ths_base_priority | ths_ss_flags | ths_continuation
  | ts_pid | ts_unique_pid | ts_p_comm | ts_ss_flags | ts_task_size | ts_max_resident_size

datatype ths_flag =
    kHasDispatchSerial | kStacksPCOnly | kThreadDarwinBG | kThreadIOPassive | kThreadSuspended | kThreadTruncatedBT
  | kGlobalForcedIdle | kThreadFaultedBT | kThreadTriedFaultBT | kThreadOnCore | kThreadIdleWorker

datatype th_state =
    SS_TH_WAIT | SS_TH_SUSP | SS_TH_RUN | SS_TH_UNINT | SS_TH_IDLE | SS_TH_TERMINATE | SS_TH_TERMINATE2

datatype task_flag =
    kTaskRsrcFlagged | kTerminatedSnapshot | kPidSuspended | kFrozen | kTaskDarwinBG | kTaskVisVisible
  | kTaskVisNonvisible | kTaskIsForeground | kTaskIsBoosted | kTaskIsSuppressed | kTaskIsTimerThrottled
  | kTaskIsLiveImpDonor | kTaskIsImpDonor | kTaskWqExceededConstrainedThreadLimit
  | kTaskWqExceededTotalThreadLimit | kTaskIsDirty | kTaskSharedRegionInfoUnavailable | kTaskWqFlagsAvailable

text \<open>The parameters: the label of a number, where a field lies in its structure with its width and whether it
  is signed, the sizes of two structures, the masks, and two library functions.\<close>

record kc_env =
  kctype :: "nat \<Rightarrow> kc_type option"
  KCDATA_BUFFER_BEGIN_STACKSHOT :: nat
  field :: "kc_field \<Rightarrow> nat \<times> nat \<times> bool"
  sizeof_frame64 :: nat
  sizeof_uuid_info64 :: nat
  ths_bit :: "ths_flag \<Rightarrow> nat"
  th_state_bit :: "th_state \<Rightarrow> nat"
  task_bit :: "task_flag \<Rightarrow> nat"
  uuid_unparse_upper :: "mem \<Rightarrow> mem"
  ctime :: "nat \<Rightarrow> mem"

text \<open>The header of an item; its data follows after 16 bytes, as the walk assumes.\<close>

definition item_type :: "mem \<Rightarrow> nat option" where
  "item_type m = rd_le 4 m 0"

definition item_size :: "mem \<Rightarrow> nat option" where
  "item_size m = rd_le 4 m 4"

definition item_flags :: "mem \<Rightarrow> nat option" where
  "item_flags m = rd_le 8 m 8"

definition item_data :: "mem \<Rightarrow> mem" where
  "item_data m = drop 16 m"

text \<open>The value of a field as the 64 bits it is converted to.\<close>

definition value_of :: "kc_env \<Rightarrow> mem \<Rightarrow> kc_field \<Rightarrow> nat option" where
  "value_of env m f =
     (case field env f of (offset, width, is_signed) \<Rightarrow>
        map_option (\<lambda>v. if is_signed \<and> 2 ^ (8 * width - 1) \<le> v then v + 2 ^ 64 - 2 ^ (8 * width) else v)
          (rd_le width m offset))"

definition signed32 :: "kc_env \<Rightarrow> mem \<Rightarrow> kc_field \<Rightarrow> mem option" where
  "signed32 env m f = map_option (\<lambda>v. str (int32 v)) (value_of env m f)"

definition signed64 :: "kc_env \<Rightarrow> mem \<Rightarrow> kc_field \<Rightarrow> mem option" where
  "signed64 env m f = map_option (\<lambda>v. str (lld v)) (value_of env m f)"

definition hex_0x :: "nat \<Rightarrow> mem" where
  "hex_0x v = str (''0x'' @ show_hex v)"

definition tab9 :: byte where "tab9 = 9"

definition nl :: byte where "nl = 10"

section \<open>Structures\<close>

definition dump_mem_and_io_stats :: "kc_env \<Rightarrow> mem \<Rightarrow> mem option" where
  "dump_mem_and_io_stats env m = do {
     free \<leftarrow> signed32 env m free_pages;
     active \<leftarrow> signed32 env m active_pages;
     inactive \<leftarrow> signed32 env m inactive_pages;
     purgeable \<leftarrow> signed32 env m purgeable_pages;
     wired \<leftarrow> signed32 env m wired_pages;
     speculative \<leftarrow> signed32 env m speculative_pages;
     throttled \<leftarrow> signed32 env m throttled_pages;
     filebacked \<leftarrow> signed32 env m filebacked_pages;
     comp \<leftarrow> signed32 env m compressions;
     decomp \<leftarrow> signed32 env m decompressions;
     sz \<leftarrow> signed32 env m compressor_size;
     busy \<leftarrow> signed32 env m busy_buffer_count;
     Some (str ''Pages: '' @ free @ str '' free, '' @ active @ str '' active, '' @ inactive @ str '' Inactive, '' @
       purgeable @ str '' Purgeable'' @ nl # str ''       '' @ wired @ str '' Wired, '' @ speculative @
       str '' Speculative, '' @ throttled @ str '' Throttled, '' @ filebacked @ str '' Filebacked'' @ nl #
       str ''Compressor: '' @ comp @ str '' comp, '' @ decomp @ str '' decomp, '' @ sz @ str '' size'' @ nl #
       str ''Busy: '' @ busy @ [nl])
   }"

definition dump_iostats :: "kc_env \<Rightarrow> mem \<Rightarrow> mem option" where
  "dump_iostats env m = do {
     reads \<leftarrow> signed64 env m ss_disk_reads_count;
     read_bytes \<leftarrow> signed64 env m ss_disk_reads_size;
     writes \<leftarrow> signed64 env m ss_disk_writes_count;
     write_bytes \<leftarrow> signed64 env m ss_disk_writes_size;
     Some (str ''Disk Reads: '' @ reads @ str '' reads ('' @ read_bytes @ str '' bytes), '' @
       writes @ str '' writes ('' @ write_bytes @ str '' bytes)'' @ [nl])
   }"

text \<open>\<open>%lld.%06lld\<close> of a number of microseconds.\<close>

definition secs :: "nat \<Rightarrow> string" where
  "secs usec = lld (usec div 1000000) @ ''.'' @
     (let r = lld (usec mod 1000000) in replicate (6 - length r) CHR ''0'' @ r)"

definition dump_cpu_times :: "kc_env \<Rightarrow> mem \<Rightarrow> mem option" where
  "dump_cpu_times env m = do {
     user \<leftarrow> value_of env m user_usec;
     system \<leftarrow> value_of env m system_usec;
     Some (str (''User: '' @ secs user @ '' secs, System: '' @ secs system @ '' secs''))
   }"

text \<open>The load address and the unparsed UUID of \<open>struct dyld_uuid_info_64\<close>.\<close>

definition uuid_line :: "kc_env \<Rightarrow> mem \<Rightarrow> mem option" where
  "uuid_line env m = do {
     uuid \<leftarrow> (case field env imageUUID of (offset, _) \<Rightarrow> slice m offset 16);
     address \<leftarrow> value_of env m imageLoadAddress;
     Some ([tab9, tab9] @ hex_0x address @ str '' - '' @ uuid_unparse_upper env uuid @ [nl])
   }"

section \<open>Flags\<close>

text \<open>The \<open>strcat\<close> of the texts whose bit is set.\<close>

definition texts_set :: "nat \<Rightarrow> (nat \<times> string) list \<Rightarrow> string" where
  "texts_set flags texts = concat (map (\<lambda>(bit, s). if flags AND bit \<noteq> 0 then s else []) texts)"

text \<open>The last two characters are cut when the last is a blank; of an empty text the byte in front of the
  buffer is read, which is undefined.\<close>

definition cut_comma :: "string \<Rightarrow> string option" where
  "cut_comma returned =
     (if returned = [] then None else Some (if last returned = CHR '' '' then take (length returned - 2) returned else returned))"

definition ths_texts :: "kc_env \<Rightarrow> (nat \<times> string) list" where
  "ths_texts env =
     [(ths_bit env kHasDispatchSerial, ''Has dispatch serial, ''),
      (ths_bit env kStacksPCOnly, ''PC only, ''),
      (ths_bit env kThreadDarwinBG, ''DarwinBG, ''),
      (ths_bit env kThreadIOPassive, ''Passive I/O, ''),
      (ths_bit env kThreadSuspended, ''Suspended, ''),
      (ths_bit env kThreadTruncatedBT, ''Truncated BT, ''),
      (ths_bit env kGlobalForcedIdle, ''Global Forced Idle, ''),
      (ths_bit env kThreadFaultedBT, ''Faulted BT, ''),
      (ths_bit env kThreadTriedFaultBT, ''Tried Faulted BT, ''),
      (ths_bit env kThreadOnCore, ''on core, ''),
      (ths_bit env kThreadIdleWorker, ''Idle Worker, '')]"

definition ths_flags_to_text :: "kc_env \<Rightarrow> nat \<Rightarrow> string option" where
  "ths_flags_to_text env Flags =
     map_option (\<lambda>returned. if returned = [] then ''0x'' @ show_hex Flags else returned)
       (cut_comma (texts_set Flags (ths_texts env)))"

definition state_texts :: "kc_env \<Rightarrow> (nat \<times> string) list" where
  "state_texts env =
     [(th_state_bit env SS_TH_WAIT, ''Waiting ''),
      (th_state_bit env SS_TH_SUSP, ''Suspended ''),
      (th_state_bit env SS_TH_RUN, ''Running ''),
      (th_state_bit env SS_TH_UNINT, ''Uninterruptible ''),
      (th_state_bit env SS_TH_IDLE, ''Idle ''),
      (th_state_bit env SS_TH_TERMINATE, ''Terminated ''),
      (th_state_bit env SS_TH_TERMINATE2, ''will terminate '')]"

text \<open>The buffer has 64 bytes.\<close>

definition ths_state_to_text :: "kc_env \<Rightarrow> nat \<Rightarrow> string option" where
  "ths_state_to_text env State =
     (let returned = texts_set State (state_texts env)
      in if length returned < 64 then Some (if returned = [] then ''0x'' @ show_hex State else returned) else None)"

definition task_texts :: "kc_env \<Rightarrow> (nat \<times> string) list" where
  "task_texts env =
     [(task_bit env kTaskRsrcFlagged, ''Resources Flagged, ''),
      (task_bit env kTerminatedSnapshot, ''Terminated, ''),
      (task_bit env kPidSuspended, ''PID Suspended, ''),
      (task_bit env kFrozen, ''Frozen, ''),
      (task_bit env kTaskDarwinBG, ''DarwinBG, ''),
      (task_bit env kTaskVisVisible, ''Visible, ''),
      (task_bit env kTaskVisNonvisible, ''NonVisible, ''),
      (task_bit env kTaskIsForeground, ''Foreground, ''),
      (task_bit env kTaskIsBoosted, ''Boosted, ''),
      (task_bit env kTaskIsSuppressed, ''Suppressed, ''),
      (task_bit env kTaskIsTimerThrottled, ''Timer Throttled, ''),
      (task_bit env kTaskIsLiveImpDonor, ''Live Donor, ''),
      (task_bit env kTaskIsImpDonor, ''Donor, ''),
      (task_bit env kTaskWqExceededConstrainedThreadLimit, ''Wq Exc Const, ''),
      (task_bit env kTaskWqExceededTotalThreadLimit, ''Wq Exc Total, ''),
      (task_bit env kTaskIsDirty, ''Dirty, ''),
      (task_bit env kTaskSharedRegionInfoUnavailable, ''Shared Reg Unavail, ''),
      (task_bit env kTaskWqFlagsAvailable, ''WQ Flags avail, '')]"

definition tsv2_flags_to_text :: "kc_env \<Rightarrow> nat \<Rightarrow> string option" where
  "tsv2_flags_to_text env Flags = cut_comma (texts_set Flags (task_texts env))"

definition dump_thread_snapshot :: "kc_env \<Rightarrow> mem \<Rightarrow> mem option" where
  "dump_thread_snapshot env m = do {
     tid \<leftarrow> signed64 env m ths_thread_id;
     st \<leftarrow> value_of env m ths_state;
     state \<leftarrow> ths_state_to_text env (st mod 2 ^ 32);
     pri \<leftarrow> signed32 env m ths_sched_priority;
     base \<leftarrow> signed32 env m ths_base_priority;
     fl \<leftarrow> value_of env m ths_ss_flags;
     flags \<leftarrow> (if fl \<noteq> 0 then ths_flags_to_text env fl else Some ''(none)'');
     cont \<leftarrow> value_of env m ths_continuation;
     Some (str ''TID: '' @ tid @ str ('' State: '' @ state @ '' PRI: '') @ pri @ str ''/'' @ base @
       str ('' Flags: '' @ flags @ '' '') @
       (if cont \<noteq> 0 then [nl, tab9, tab9] @ str ''Continuation: '' @ hex_0x cont @ str '' (no kernel stack)'' else []))
   }"

definition dump_task_snapshot :: "kc_env \<Rightarrow> mem \<Rightarrow> mem option" where
  "dump_task_snapshot env m = do {
     pid \<leftarrow> signed32 env m ts_pid;
     unique \<leftarrow> signed64 env m ts_unique_pid;
     comm \<leftarrow> (case field env ts_p_comm of (offset, _) \<Rightarrow> cstr_at m offset);
     fl \<leftarrow> value_of env m ts_ss_flags;
     flags \<leftarrow> tsv2_flags_to_text env fl;
     sz \<leftarrow> value_of env m ts_task_size;
     res \<leftarrow> value_of env m ts_max_resident_size;
     let (unit, c) = (if sz < 1024 * 1024 then (1024, ''K'') else (1024 * 1024, ''M''));
     Some (str ''PID : '' @ pid @ str '' ('' @ unique @ str ''), comm: '' @ comm @ str ('' Flags: '' @ flags) @ [nl, tab9] @
       str (''Size: '' @ lld (sz div unit) @ c @ '' Max Res: '' @ lld (res div unit) @ c))
   }"


section \<open>Arrays\<close>

definition OUTPUT_SIZE :: nat where
  "OUTPUT_SIZE = 40960"

text \<open>What is in \<open>Output\<close> behind the tabs: \<open>None\<close> before anything was written. A step returns it with what goes
  to the standard output at once.\<close>

type_synonym outbuf = "mem option"

text \<open>\<open>sprintf\<close> to \<open>Output\<close>, which is \<open>tabs\<close> bytes into the buffer; and appending to it.\<close>

definition put :: "nat \<Rightarrow> mem \<Rightarrow> (outbuf \<times> mem) option" where
  "put tabs s = (if tabs + length s < OUTPUT_SIZE then Some (Some s, []) else None)"

definition put_end :: "nat \<Rightarrow> outbuf \<Rightarrow> mem \<Rightarrow> (outbuf \<times> mem) option" where
  "put_end tabs out s = do { old \<leftarrow> out; put tabs (old @ s) }"

definition dump_frame :: "kc_env \<Rightarrow> mem \<Rightarrow> mem option" where
  "dump_frame env data = do {
     l \<leftarrow> value_of env data lr;
     s \<leftarrow> value_of env data sp;
     Some ([tab9, tab9] @ str (''LR: 0x'' @ show_hex_pad 16 l @ '', SP: 0x'' @ show_hex_pad 16 s) @ [nl])
   }"

text \<open>One element: \<open>Output\<close>, what is printed, and how far to advance.\<close>

definition dump_elem :: "kc_env \<Rightarrow> nat \<Rightarrow> nat \<Rightarrow> bool \<Rightarrow> bool \<Rightarrow> mem \<Rightarrow> outbuf \<Rightarrow> ((outbuf \<times> mem) \<times> nat) option" where
  "dump_elem env tabs elemType at_start at_end data out =
     (case kctype env elemType of
        Some STACKSHOT_KCTYPE_USER_STACKFRAME64 \<Rightarrow> do {
          frame \<leftarrow> dump_frame env data;
          r \<leftarrow> put_end tabs (if at_start then Some ([tab9, tab9] @ str ''User Stack Trace:'' @ [nl]) else out) frame;
          Some (r, sizeof_frame64 env)
        }
      | Some STACKSHOT_KCTYPE_KERN_STACKFRAME64 \<Rightarrow> do {
          frame \<leftarrow> dump_frame env data;
          r \<leftarrow> put_end tabs (if at_start then Some ([tab9, tab9] @ str ''Kernel Stack Trace:'' @ [nl]) else out) frame;
          Some (r, sizeof_frame64 env)
        }
      | Some KCDATA_TYPE_LIBRARY_LOADINFO64 \<Rightarrow> do {
          line \<leftarrow> uuid_line env data;
          r \<leftarrow> put_end tabs (if at_start then Some ([tab9, tab9] @ str ''Loaded Libraries:'' @ [nl]) else out) line;
          Some (r, sizeof_uuid_info64 env)
        }
      | Some STACKSHOT_KCTYPE_DONATING_PIDS \<Rightarrow> do {
          pid \<leftarrow> rd_le 4 data 0;
          (out, std) \<leftarrow> put_end tabs (if at_start then Some ([tab9, tab9] @ str ''Importance Donors: '') else out)
            (str (int32 pid @ '', ''));
          Some ((if at_end then map_option (\<lambda>s. take (length s - 2) s) out else out, std), 4)
        }
      | _ \<Rightarrow> Some ((out, str (''ARRAY OF TYPE '' @ show_hex elemType @ '' - Unhandled (yet)'') @ [nl]), 0))"

text \<open>The elements from one on, of \<open>remaining\<close> many.\<close>

fun dump_elems :: "kc_env \<Rightarrow> nat \<Rightarrow> nat \<Rightarrow> nat \<Rightarrow> bool \<Rightarrow> mem \<Rightarrow> outbuf \<Rightarrow> (outbuf \<times> mem) option" where
  "dump_elems env tabs elemType 0 at_start data out = Some (out, [])"
| "dump_elems env tabs elemType (Suc n) at_start data out = do {
     ((out, std), adv) \<leftarrow> dump_elem env tabs elemType at_start (n = 0) data out;
     (out, std') \<leftarrow> dump_elems env tabs elemType n False (drop adv data) out;
     Some (out, std @ std')
   }"

text \<open>The number of elements is an \<open>int\<close>: a negative one leaves the loop at once.\<close>

definition dump_array :: "kc_env \<Rightarrow> nat \<Rightarrow> mem \<Rightarrow> outbuf \<Rightarrow> (outbuf \<times> mem) option" where
  "dump_array env tabs m out = do {
     flags \<leftarrow> item_flags m;
     let elemType = flags div 2 ^ 32;
     let elemCount = nat (sint (of_nat flags :: 32 word));
     dump_elems env tabs elemType elemCount True (item_data m) out
   }"

section \<open>Items\<close>

text \<open>The cases that write a fixed text to \<open>Output\<close>, and those that print one.\<close>

definition fixed_text :: "kc_type \<Rightarrow> mem option" where
  "fixed_text t =
     (case t of
        KCDATA_TYPE_STRING_DESC \<Rightarrow> Some (str ''String desc'')
      | KCDATA_TYPE_UINT32_DESC \<Rightarrow> Some (str ''Uint32_t desc'')
      | KCDATA_TYPE_UINT64_DESC \<Rightarrow> Some (str ''Uint64_t desc'')
      | KCDATA_TYPE_INT32_DESC \<Rightarrow> Some (str ''Int32_t desc'')
      | KCDATA_TYPE_INT64_DESC \<Rightarrow> Some (str ''Int64_t desc'')
      | KCDATA_TYPE_BINDATA_DESC \<Rightarrow> Some (str ''bindata desc'')
      | KCDATA_TYPE_TYPEDEFINTION \<Rightarrow> Some (str ''Type def'' @ [nl])
      | KCDATA_TYPE_LIBRARY_LOADINFO \<Rightarrow> Some (str ''Load Info'' @ [nl])
      | KCDATA_TYPE_LIBRARY_LOADINFO64 \<Rightarrow> Some (str ''Load Info 64'')
      | KCDATA_TYPE_TIMEVAL \<Rightarrow> Some (str ''Timeval: '')
      | KCDATA_TYPE_PID \<Rightarrow> Some (str ''PID: '' @ [nl])
      | KCDATA_TYPE_PROCNAME \<Rightarrow> Some (str ''procname: '' @ [nl])
      | KCDATA_TYPE_NESTED_KCDATA \<Rightarrow> Some (str ''kcdata: '' @ [nl])
      | STACKSHOT_KCCONTAINER_TASK \<Rightarrow> Some (str ''Container task'')
      | STACKSHOT_KCCONTAINER_THREAD \<Rightarrow> Some (str ''Container thread'')
      | STACKSHOT_KCTYPE_DONATING_PIDS \<Rightarrow> Some (str ''Donating PIDs'')
      | STACKSHOT_KCTYPE_DELTA_SINCE_TIMESTAMP \<Rightarrow> Some (str ''Delta since'')
      | STACKSHOT_KCTYPE_TASK_DELTA_SNAPSHOT \<Rightarrow> Some (str ''Task Delta snapshot'')
      | STACKSHOT_KCTYPE_THREAD_DELTA_SNAPSHOT \<Rightarrow> Some (str ''Thread Delta snapshot'')
      | STACKSHOT_KCTYPE_KERN_STACKLR \<Rightarrow> Some (str ''Kern stack LR'' @ [nl])
      | _ \<Rightarrow> None)"

definition printed_text :: "kc_type \<Rightarrow> mem option" where
  "printed_text t =
     (case t of
        STACKSHOT_KCTYPE_KERN_STACKFRAME \<Rightarrow> Some (str ''Kernel Stack Frame'' @ [nl])
      | STACKSHOT_KCTYPE_KERN_STACKFRAME64 \<Rightarrow> Some (str ''Kernel Stack Frame 64'' @ [nl])
      | STACKSHOT_KCTYPE_USER_STACKFRAME \<Rightarrow> Some (str ''User Stack Frame'' @ [nl])
      | STACKSHOT_KCTYPE_USER_STACKFRAME64 \<Rightarrow> Some (str ''User Stack Frame 64'' @ [nl])
      | STACKSHOT_KCTYPE_KERN_STACKLR64 \<Rightarrow> Some (str ''Kern stack LR 64'' @ [nl])
      | STACKSHOT_KCTYPE_USER_STACKLR \<Rightarrow> Some (str ''Kern stack LR'' @ [nl])
      | STACKSHOT_KCTYPE_USER_STACKLR64 \<Rightarrow> Some (str ''Kern stack LR 64'' @ [nl])
      | STACKSHOT_KCTYPE_NONRUNNABLE_TIDS \<Rightarrow> Some (str ''Nonrunnable TIDs'' @ [nl])
      | STACKSHOT_KCTYPE_NONRUNNABLE_TASKS \<Rightarrow> Some (str ''Nonrunnable Tasks'' @ [nl])
      | STACKSHOT_KCTYPE_STACKSHOT_DURATION \<Rightarrow> Some (str ''Stackshot duration'' @ [nl])
      | STACKSHOT_KCTYPE_STACKSHOT_FAULT_STATS \<Rightarrow> Some (str ''Stackshot fault stats'' @ [nl])
      | STACKSHOT_KCTYPE_KERNELCACHE_LOADINFO \<Rightarrow> Some (str ''kernelcache UUID:'' @ [nl])
      | KCDATA_TYPE_BUFFER_END \<Rightarrow> Some (str ''Buffer end!'' @ [nl])
      | _ \<Rightarrow> None)"

text \<open>The cases that read the data: what they write to \<open>Output\<close>.\<close>

definition data_text :: "kc_env \<Rightarrow> kc_type \<Rightarrow> mem \<Rightarrow> mem option" where
  "data_text env t data =
     (case t of
        KCDATA_TYPE_MACH_ABSOLUTE_TIME \<Rightarrow> map_option (\<lambda>v. str (''Abs Time: '' @ lld v)) (rd_le 8 data 0)
      | KCDATA_TYPE_USECS_SINCE_EPOCH \<Rightarrow>
          map_option (\<lambda>v. str ''Time: '' @ ctime env (v div 1000000) @ str ''..'') (rd_le 8 data 0)
      | STACKSHOT_KCTYPE_GLOBAL_MEM_STATS \<Rightarrow> dump_mem_and_io_stats env data
      | STACKSHOT_KCTYPE_TASK_SNAPSHOT \<Rightarrow> dump_task_snapshot env data
      | STACKSHOT_KCTYPE_THREAD_SNAPSHOT \<Rightarrow> dump_thread_snapshot env data
      | STACKSHOT_KCTYPE_SHAREDCACHE_LOADINFO \<Rightarrow> map_option (\<lambda>l. str ''Shared Cache Load Info'' @ l) (uuid_line env data)
      | STACKSHOT_KCTYPE_THREAD_NAME \<Rightarrow> map_option (\<lambda>s. str ''Thread Name: '' @ s) (cstr_at data 0)
      | STACKSHOT_KCTYPE_BOOTARGS \<Rightarrow> map_option (\<lambda>s. str ''Boot-Args: '' @ s) (cstr_at data 0)
      | STACKSHOT_KCTYPE_OSVERSION \<Rightarrow> map_option (\<lambda>s. str ''OS Version: '' @ s) (cstr_at data 0)
      | STACKSHOT_KCTYPE_KERN_PAGE_SIZE \<Rightarrow> map_option (\<lambda>v. str (''Page size: '' @ int32 v @ '' bytes'')) (rd_le 4 data 0)
      | STACKSHOT_KCTYPE_JETSAM_LEVEL \<Rightarrow> map_option (\<lambda>v. str (''Jetsam Level: '' @ int32 v)) (rd_le 4 data 0)
      | STACKSHOT_KCTYPE_CPU_TIMES \<Rightarrow> map_option (\<lambda>s. str ''CPU Times: '' @ s) (dump_cpu_times env data)
      | _ \<Rightarrow> None)"

definition is_array :: "kc_type \<Rightarrow> bool" where
  "is_array t = (case t of KCDATA_TYPE_ARRAY \<Rightarrow> True | KCDATA_TYPE_ARRAY_PAD n \<Rightarrow> True | _ \<Rightarrow> False)"

definition known_item :: "kc_env \<Rightarrow> nat \<Rightarrow> kc_type \<Rightarrow> mem \<Rightarrow> outbuf \<Rightarrow> (outbuf \<times> mem) option" where
  "known_item env tabs t m out =
     (case fixed_text t of
        Some s \<Rightarrow> put tabs s
      | None \<Rightarrow>
          (case printed_text t of
             Some s \<Rightarrow> Some (out, s)
           | None \<Rightarrow>
               if is_array t then dump_array env tabs m out
               else if t = STACKSHOT_KCTYPE_IOSTATS then
                 do { old \<leftarrow> out; s \<leftarrow> dump_iostats env (item_data m); put tabs (old @ str ''IOStats: '' @ s) }
               else if t \<in> {KCDATA_TYPE_CONTAINER_BEGIN, KCDATA_TYPE_CONTAINER_END, KCDATA_TYPE_TIMEBASE} then Some (out, [])
               else do { s \<leftarrow> data_text env t (item_data m); put tabs s }))"

definition unknown_magic :: "nat \<Rightarrow> mem" where
  "unknown_magic ty = str (''UNKNOWN MAGIC '' @ ''0x'' @ show_hex ty @
     ''! AAPL must've changed the format (or J hasn't gotten to it yet?)!'') @ [nl]"

definition item_text :: "kc_env \<Rightarrow> nat \<Rightarrow> nat \<Rightarrow> mem \<Rightarrow> outbuf \<Rightarrow> (outbuf \<times> mem) option" where
  "item_text env tabs ty m out =
     (case kctype env ty of None \<Rightarrow> Some (out, unknown_magic ty) | Some t \<Rightarrow> known_item env tabs t m out)"

text \<open>The whole of \<open>Output\<close>, what was printed, and the number of open containers.\<close>

definition handle_kcdata_item :: "kc_env \<Rightarrow> mem \<Rightarrow> int \<Rightarrow> outbuf \<Rightarrow> (outbuf \<times> mem \<times> int) option" where
  "handle_kcdata_item env m inContainer out = do {
     ty \<leftarrow> item_type m;
     let t = kctype env ty;
     let x = nat (if t = Some KCDATA_TYPE_CONTAINER_END then inContainer - 1 else inContainer);
     (out, std) \<leftarrow> (if x < OUTPUT_SIZE then item_text env x ty m (if 0 < x then Some [] else out) else None);
     Some (map_option (\<lambda>s. replicate x tab9 @ s) out, std,
       if t = Some KCDATA_TYPE_CONTAINER_BEGIN then inContainer + 1
       else if t = Some KCDATA_TYPE_CONTAINER_END then inContainer - 1 else inContainer)
   }"

section \<open>The program\<close>

definition STACKSHOT_FLAGS :: nat where
  "STACKSHOT_FLAGS = 0x10000 OR 0x04 OR 0x01 OR 0x02 OR 0x08 OR 0x2000"

record kc_state =
  off :: "32 word"
  inContainer :: int
  Output :: outbuf
  printed :: mem

definition padding :: "nat \<Rightarrow> nat" where
  "padding sz = (if sz mod 16 \<noteq> 0 then 16 - sz mod 16 else 0)"

text \<open>The bytes at an offset; a negative one is in front of the buffer.\<close>

definition bytes_at :: "mem \<Rightarrow> int \<Rightarrow> mem option" where
  "bytes_at buf i = (if 0 \<le> i \<and> nat i \<le> length buf then Some (drop (nat i) buf) else None)"

text \<open>One round: \<open>off < size\<close> compares the \<open>int\<close>, converted to 64 bits, with the size; the sum of the next offset is
  computed in 32 bits.\<close>

definition kc_round :: "kc_env \<Rightarrow> mem \<Rightarrow> nat \<Rightarrow> kc_state \<Rightarrow> (kc_state + mem) option" where
  "kc_round env buf bufsize st =
     (if nat (sint (off st) mod 2 ^ 64) < bufsize then do {
        m \<leftarrow> bytes_at buf (sint (off st));
        (out, std, inC) \<leftarrow> handle_kcdata_item env m (inContainer st) (Output st);
        line \<leftarrow> out;
        sz \<leftarrow> item_size m;
        Some (Inl \<lparr>off = off st + of_nat (sz + 16 + padding sz), inContainer = inC, Output = Some [],
          printed = printed st @ std @ line @ [nl]\<rparr>)
      }
      else Some (Inr (printed st)))"

text \<open>The snapshot of a process with the size the kernel gives, \<open>None\<close> when the call fails.\<close>

definition stackshot_main ::
  "nat \<Rightarrow> kc_env \<Rightarrow> (int \<Rightarrow> nat \<Rightarrow> (mem \<times> nat) option) \<Rightarrow> bool \<Rightarrow> string list \<Rightarrow> (mem \<times> int) option" where
  "stackshot_main fuel env get_stackshot root args =
     (if \<not> root then Some ([], 1)
      else case get_stackshot (case args of [a] \<Rightarrow> atoi a | _ \<Rightarrow> -1) STACKSHOT_FLAGS of
        None \<Rightarrow> Some ([], 1)
      | Some (buf, bufsize) \<Rightarrow> do {
          ty \<leftarrow> item_type buf;
          if ty \<noteq> KCDATA_BUFFER_BEGIN_STACKSHOT env then Some ([], 1)
          else map_option (\<lambda>out. (out, 0))
            (loop fuel (kc_round env buf bufsize) \<lparr>off = 16, inContainer = 0, Output = None, printed = []\<rparr>)
        })"


section \<open>Items depend on their own bytes only\<close>

text \<open>A reader that succeeds on some bytes gives the same whatever follows them.\<close>

definition forward :: "(mem \<Rightarrow> 'a option) \<Rightarrow> bool" where
  "forward f \<longleftrightarrow> (\<forall>m post x. f m = Some x \<longrightarrow> f (m @ post) = Some x)"

lemma forwardD: "forward f \<Longrightarrow> f m = Some x \<Longrightarrow> f (m @ post) = Some x"
  by (simp add: forward_def)

lemma forward_reads:
  "forward (\<lambda>m. c)" "forward (\<lambda>m. rd_le n m i)" "forward (\<lambda>m. slice m i n)" "forward (\<lambda>m. cstr_at m i)"
proof -
  show "forward (\<lambda>m. c)" "forward (\<lambda>m. slice m i n)" "forward (\<lambda>m. rd_le n m i)"
    by (auto simp: forward_def rd_le_def slice_def split: if_splits)
  have "cstr_of (m @ post) = Some x" if "cstr_of m = Some x" for m post x
    using that by (induction m arbitrary: x) (auto split: if_splits)
  then show "forward (\<lambda>m. cstr_at m i)" by (auto simp: forward_def cstr_at_def)
qed

lemma forward_combine:
  "forward f \<Longrightarrow> forward (\<lambda>m. map_option h (f m))"
  "forward f \<Longrightarrow> (\<And>x. forward (g x)) \<Longrightarrow> forward (\<lambda>m. Option.bind (f m) (\<lambda>x. g x m))"
  "(b \<Longrightarrow> forward f) \<Longrightarrow> (\<not> b \<Longrightarrow> forward f') \<Longrightarrow> forward (\<lambda>m. if b then f m else f' m)"
  "(\<And>x y. forward (k x y)) \<Longrightarrow> forward (\<lambda>m. case p of (x, y) \<Rightarrow> k x y m)"
  "forward f \<Longrightarrow> forward (\<lambda>m. f (drop i m))"
proof -
  show "forward f \<Longrightarrow> (\<And>x. forward (g x)) \<Longrightarrow> forward (\<lambda>m. Option.bind (f m) (\<lambda>x. g x m))"
    unfolding forward_def by (fastforce split: bind_splits)
qed (auto simp: forward_def split: prod.split)

lemmas forward_intros = forward_combine(2,1,3,4) forward_reads

lemma forward_fields: "forward (\<lambda>m. value_of env m f)" "forward (\<lambda>m. signed32 env m f)" "forward (\<lambda>m. signed64 env m f)"
  unfolding value_of_def signed32_def signed64_def by (intro forward_intros)+

lemma forward_structs:
  "forward (\<lambda>m. dump_mem_and_io_stats env m)" "forward (\<lambda>m. dump_iostats env m)" "forward (\<lambda>m. dump_cpu_times env m)"
  "forward (\<lambda>m. uuid_line env m)" "forward (\<lambda>m. dump_thread_snapshot env m)" "forward (\<lambda>m. dump_task_snapshot env m)"
  "forward (\<lambda>m. dump_frame env m)"
  unfolding dump_mem_and_io_stats_def dump_iostats_def dump_cpu_times_def uuid_line_def dump_thread_snapshot_def
    dump_task_snapshot_def dump_frame_def Let_def
  by (intro forward_intros forward_fields)+

lemma forward_data_text: "forward (\<lambda>m. data_text env t m)"
  by (cases t) (simp_all add: data_text_def forward_structs forward_combine forward_reads)

lemma forward_elem: "forward (\<lambda>m. dump_elem env tabs ty at_start at_end m out)"
proof (cases "kctype env ty")
  case (Some t)
  consider "t \<in> {STACKSHOT_KCTYPE_USER_STACKFRAME64, STACKSHOT_KCTYPE_KERN_STACKFRAME64, KCDATA_TYPE_LIBRARY_LOADINFO64}"
    | "t = STACKSHOT_KCTYPE_DONATING_PIDS"
    | "t \<notin> {STACKSHOT_KCTYPE_USER_STACKFRAME64, STACKSHOT_KCTYPE_KERN_STACKFRAME64, KCDATA_TYPE_LIBRARY_LOADINFO64,
         STACKSHOT_KCTYPE_DONATING_PIDS}" by blast
  then show ?thesis
  proof cases
    case 1
    show ?thesis by (insert 1 Some, elim insertE emptyE; simp add: dump_elem_def split del: if_split; intro forward_intros forward_structs)
  next
    case 2
    then show ?thesis using Some by (simp add: dump_elem_def split del: if_split) (intro forward_intros)
  next
    case 3
    then show ?thesis using Some by (cases t) (simp_all add: dump_elem_def forward_reads)
  qed
qed (simp add: dump_elem_def forward_reads)

lemma forward_elems: "forward (\<lambda>m. dump_elems env tabs ty n at_start m out)"
proof (induction n arbitrary: at_start out)
  case (Suc n)
  have "forward (\<lambda>m. dump_elems env tabs ty n False (drop adv m) out)" for adv out
    by (rule forward_combine(5)) (rule Suc)
  then show ?case
    unfolding dump_elems.simps case_prod_beta by (intro forward_intros forward_elem)
qed (simp add: forward_reads)

lemma forward_item: "forward (\<lambda>m. item_text env tabs ty m out)"
proof -
  have "forward (\<lambda>m. dump_array env tabs m out)"
    unfolding dump_array_def item_flags_def item_data_def Let_def
    by (intro forward_intros forward_combine(5) [OF forward_elems])
  moreover have "forward (\<lambda>m. dump_iostats env (item_data m))" "forward (\<lambda>m. data_text env t (item_data m))" for t
    unfolding item_data_def by (rule forward_combine(5), intro forward_structs forward_data_text)+
  ultimately have "forward (\<lambda>m. known_item env tabs t m out)" for t
    unfolding known_item_def
    by (cases "fixed_text t"; cases "printed_text t") (simp_all add: forward_reads split del: if_split, intro forward_intros)
  then show ?thesis unfolding item_text_def by (cases "kctype env ty") (simp_all add: forward_reads)
qed


section \<open>The walk over nested items\<close>

text \<open>A buffer as containers with their items; the begin and the end of a container are items with flags and data
  of their own.\<close>

datatype kc_tree = Leaf nat nat mem | Box "nat \<times> mem" "nat \<times> mem" "kc_tree list"

text \<open>Zeroes up to the next multiple of 16.\<close>

definition filler :: "nat \<Rightarrow> mem" where
  "filler n = replicate ((16 - n mod 16) mod 16) 0"

definition item_bytes :: "nat \<Rightarrow> nat \<Rightarrow> mem \<Rightarrow> mem" where
  "item_bytes ty flags data =
     le_bytes 4 ty @ le_bytes 4 (length data) @ le_bytes 8 flags @ data @ filler (length data)"

fun tree_bytes :: "nat \<Rightarrow> nat \<Rightarrow> kc_tree \<Rightarrow> mem" where
  "tree_bytes b e (Leaf ty flags data) = item_bytes ty flags data"
| "tree_bytes b e (Box f l ts) = item_bytes b (fst f) (snd f) @ concat (map (tree_bytes b e) ts) @ item_bytes e (fst l) (snd l)"

text \<open>What the tree looks like: every item on a line of its own behind one tab per open container, empty lines for
  the begin and the end of a container.\<close>

definition leaf_lines :: "kc_env \<Rightarrow> nat \<Rightarrow> nat \<Rightarrow> mem \<Rightarrow> mem option" where
  "leaf_lines env depth ty bytes = do {
     (out, std) \<leftarrow> (if depth < OUTPUT_SIZE then item_text env depth ty bytes (Some []) else None);
     line \<leftarrow> out;
     Some (std @ replicate depth tab9 @ line @ [nl])
   }"

fun tree_lines :: "kc_env \<Rightarrow> nat \<Rightarrow> kc_tree \<Rightarrow> mem option" where
  "tree_lines env depth (Leaf ty flags data) = leaf_lines env depth ty (item_bytes ty flags data)"
| "tree_lines env depth (Box f l ts) = do {
     lines \<leftarrow> (if depth < OUTPUT_SIZE then those (map (tree_lines env (depth + 1)) ts) else None);
     Some (replicate depth tab9 @ nl # concat lines @ replicate depth tab9 @ [nl])
   }"

fun tree_items :: "kc_tree \<Rightarrow> nat" where
  "tree_items (Leaf ty flags data) = 1"
| "tree_items (Box f l ts) = 2 + sum_list (map tree_items ts)"

fun good_tree :: "kc_env \<Rightarrow> kc_tree \<Rightarrow> bool" where
  "good_tree env (Leaf ty flags data) \<longleftrightarrow>
     ty < 2 ^ 32 \<and> kctype env ty \<notin> {Some KCDATA_TYPE_CONTAINER_BEGIN, Some KCDATA_TYPE_CONTAINER_END}"
| "good_tree env (Box f l ts) \<longleftrightarrow> list_all (good_tree env) ts"

definition container_types :: "kc_env \<Rightarrow> nat \<Rightarrow> nat \<Rightarrow> bool" where
  "container_types env b e \<longleftrightarrow> b < 2 ^ 32 \<and> e < 2 ^ 32 \<and> kctype env b = Some KCDATA_TYPE_CONTAINER_BEGIN \<and>
     kctype env e = Some KCDATA_TYPE_CONTAINER_END"

lemma length_filler: "length (filler n) = padding n"
  by (auto simp: filler_def padding_def)

lemma item_header:
  assumes "ty < 2 ^ 32" "length data < 2 ^ 32"
  shows "item_type (item_bytes ty flags data @ post) = Some ty" "item_size (item_bytes ty flags data @ post) = Some (length data)"
  using rd_le_bytes [of ty 4 "[]" 0] rd_le_bytes [of "length data" 4 "le_bytes 4 ty" 4] assms
  by (simp_all add: item_type_def item_size_def item_bytes_def)

lemma item_length: "length (item_bytes ty flags data) = length data + 16 + padding (length data)"
  by (simp add: item_bytes_def length_filler)

lemma tree_items_length: "tree_items t \<le> length (tree_bytes b e t)"
proof (induction b e t rule: tree_bytes.induct)
  case (2 b e f l ts)
  have "sum_list (map tree_items ts) \<le> length (concat (map (tree_bytes b e) ts))"
    using 2 by (induction ts) (auto, force)
  then show ?case by (simp add: item_length)
qed (simp add: item_length)

text \<open>The state between two items.\<close>

definition at_item :: "nat \<Rightarrow> nat \<Rightarrow> outbuf \<Rightarrow> mem \<Rightarrow> kc_state" where
  "at_item k depth out pr = \<lparr>off = of_nat k, inContainer = int depth, Output = out, printed = pr\<rparr>"

lemma small_offset: "k < 2 ^ 31 \<Longrightarrow> sint (of_nat k :: 32 word) = int k"
  by (simp add: signed_of_nat signed_take_bit_int_eq_self)

lemma item_round:
  assumes "buf = pre @ item_bytes ty flags data @ post" "ty < 2 ^ 32" "length buf < 2 ^ 31"
    and "handle_kcdata_item env (item_bytes ty flags data @ post) (int depth) out = Some (Some line, std, int depth')"
  shows "kc_round env buf (length buf) (at_item (length pre) depth out pr) =
    Some (Inl (at_item (length pre + length (item_bytes ty flags data)) depth' (Some []) (pr @ std @ line @ [nl])))"
  using assms item_header [of ty data flags post] small_offset [of "length pre"]
  by (simp add: kc_round_def at_item_def bytes_at_def item_length)


lemma leaf_round:
  assumes "buf = pre @ item_bytes ty flags data @ post" "good_tree env (Leaf ty flags data)" "length buf < 2 ^ 31"
    and "leaf_lines env depth ty (item_bytes ty flags data) = Some lines"
    and "depth = 0 \<Longrightarrow> item_text env 0 ty (item_bytes ty flags data) out = item_text env 0 ty (item_bytes ty flags data) (Some [])"
  shows "kc_round env buf (length buf) (at_item (length pre) depth out pr) =
    Some (Inl (at_item (length pre + length (item_bytes ty flags data)) depth (Some []) (pr @ lines)))"
proof -
  let ?m = "item_bytes ty flags data"
  obtain line std where l: "item_text env depth ty ?m (Some []) = Some (Some line, std)"
    "lines = std @ replicate depth tab9 @ line @ [nl]" "depth < OUTPUT_SIZE"
    using assms(4) by (auto simp: leaf_lines_def split: bind_splits if_splits)
  have "item_text env depth ty ?m (if 0 < depth then Some [] else out) = Some (Some line, std)"
    using l(1) assms(5) by (cases "depth = 0") auto
  then have "item_text env depth ty (?m @ post) (if 0 < depth then Some [] else out) = Some (Some line, std)"
    by (rule forwardD [OF forward_item])
  then have "handle_kcdata_item env (?m @ post) (int depth) out = Some (Some (replicate depth tab9 @ line), std, int depth)"
    using item_header [of ty data flags post] assms l(3) by (auto simp: handle_kcdata_item_def item_length)
  then show ?thesis using item_round [OF assms(1) _ assms(3), of env depth out _ std depth pr] assms(2) l(2) by simp
qed

lemma container_round:
  assumes "buf = pre @ item_bytes ty flags data @ post" "length buf < 2 ^ 31" "ty < 2 ^ 32" "depth < OUTPUT_SIZE"
  shows "kctype env ty = Some KCDATA_TYPE_CONTAINER_BEGIN \<Longrightarrow> out = Some [] \<Longrightarrow>
      kc_round env buf (length buf) (at_item (length pre) depth out pr) =
        Some (Inl (at_item (length pre + length (item_bytes ty flags data)) (depth + 1) (Some []) (pr @ replicate depth tab9 @ [nl])))"
    and "kctype env ty = Some KCDATA_TYPE_CONTAINER_END \<Longrightarrow> out = Some [] \<Longrightarrow>
      kc_round env buf (length buf) (at_item (length pre) (depth + 1) out pr) =
        Some (Inl (at_item (length pre + length (item_bytes ty flags data)) depth (Some []) (pr @ replicate depth tab9 @ [nl])))"
proof -
  let ?m = "item_bytes ty flags data"
  have h: "item_type (?m @ post) = Some ty" using item_header assms by (simp add: item_length)
  show "kc_round env buf (length buf) (at_item (length pre) depth out pr) =
        Some (Inl (at_item (length pre + length ?m) (depth + 1) (Some []) (pr @ replicate depth tab9 @ [nl])))"
    if "kctype env ty = Some KCDATA_TYPE_CONTAINER_BEGIN" "out = Some []"
  proof -
    have "handle_kcdata_item env (?m @ post) (int depth) out = Some (Some (replicate depth tab9), [], int (depth + 1))"
      using h that assms(4) by (simp add: handle_kcdata_item_def item_text_def known_item_def fixed_text_def printed_text_def is_array_def)
    then show ?thesis using item_round [OF assms(1,3,2)] by fastforce
  qed
  show "kc_round env buf (length buf) (at_item (length pre) (depth + 1) out pr) =
        Some (Inl (at_item (length pre + length ?m) depth (Some []) (pr @ replicate depth tab9 @ [nl])))"
    if "kctype env ty = Some KCDATA_TYPE_CONTAINER_END" "out = Some []"
  proof -
    have "handle_kcdata_item env (?m @ post) (int (depth + 1)) out = Some (Some (replicate depth tab9), [], int depth)"
      using h that assms(4) by (simp add: handle_kcdata_item_def item_text_def known_item_def fixed_text_def printed_text_def is_array_def)
    then show ?thesis using item_round [OF assms(1,3,2)] by fastforce
  qed
qed

text \<open>Rounds one after the other.\<close>

lemma loop_round: "body s = Some (Inl s') \<Longrightarrow> loop (Suc n) body s = loop n body s'"
  by simp

definition walks :: "kc_env \<Rightarrow> nat \<Rightarrow> nat \<Rightarrow> mem \<Rightarrow> kc_tree \<Rightarrow> bool" where
  "walks env b e buf t \<longleftrightarrow> (\<forall>depth lines pre post pr n. tree_lines env depth t = Some lines \<longrightarrow>
     buf = pre @ tree_bytes b e t @ post \<longrightarrow>
     loop (tree_items t + n) (kc_round env buf (length buf)) (at_item (length pre) depth (Some []) pr) =
     loop n (kc_round env buf (length buf)) (at_item (length pre + length (tree_bytes b e t)) depth (Some []) (pr @ lines)))"

lemma walksD:
  "walks env b e buf t \<Longrightarrow> tree_lines env depth t = Some lines \<Longrightarrow> buf = pre @ tree_bytes b e t @ post \<Longrightarrow>
     loop (tree_items t + n) (kc_round env buf (length buf)) (at_item (length pre) depth (Some []) pr) =
     loop n (kc_round env buf (length buf)) (at_item (length pre + length (tree_bytes b e t)) depth (Some []) (pr @ lines))"
  unfolding walks_def by blast

lemma forest_walk:
  "\<forall>t \<in> set ts. walks env b e buf t \<Longrightarrow> those (map (tree_lines env depth) ts) = Some ls \<Longrightarrow>
    buf = pre @ concat (map (tree_bytes b e) ts) @ post \<Longrightarrow>
    loop (sum_list (map tree_items ts) + n) (kc_round env buf (length buf)) (at_item (length pre) depth (Some []) pr) =
    loop n (kc_round env buf (length buf)) (at_item (length pre + length (concat (map (tree_bytes b e) ts))) depth (Some [])
      (pr @ concat ls))"
proof (induction ts arbitrary: ls pre pr)
  case (Cons t ts)
  let ?body = "kc_round env buf (length buf)"
  from Cons.prems(2) obtain x xs where x: "tree_lines env depth t = Some x"
    "those (map (tree_lines env depth) ts) = Some xs" "ls = x # xs"
    by (auto split: option.splits)
  have "loop (tree_items t + (sum_list (map tree_items ts) + n)) ?body (at_item (length pre) depth (Some []) pr) =
      loop (sum_list (map tree_items ts) + n) ?body (at_item (length pre + length (tree_bytes b e t)) depth (Some []) (pr @ x))"
    by (rule walksD) (use Cons.prems x in auto)
  moreover have "loop (sum_list (map tree_items ts) + n) ?body (at_item (length (pre @ tree_bytes b e t)) depth (Some []) (pr @ x)) =
      loop n ?body (at_item (length (pre @ tree_bytes b e t) + length (concat (map (tree_bytes b e) ts))) depth (Some [])
        ((pr @ x) @ concat xs))"
    by (rule Cons.IH) (use Cons.prems x in auto)
  ultimately show ?case by (simp add: x(3) add.assoc)
qed simp

lemma tree_walk:
  assumes "container_types env b e" "length buf < 2 ^ 31"
  shows "good_tree env t \<Longrightarrow> walks env b e buf t"
proof (induction t)
  case (Leaf ty flags data)
  then show ?case
    using leaf_round [of buf _ ty flags data _ env _ _ "Some []"] assms(2) by (auto simp: walks_def)
next
  case (Box f l ts)
  show ?case
    unfolding walks_def
  proof (intro allI impI)
    fix depth lines pre post pr n
    assume lines: "tree_lines env depth (Box f l ts) = Some lines" and buf: "buf = pre @ tree_bytes b e (Box f l ts) @ post"
    let ?body = "kc_round env buf (length buf)" and ?opening = "item_bytes b (fst f) (snd f)"
    let ?inner = "concat (map (tree_bytes b e) ts)" and ?tabs = "replicate depth tab9 @ [nl]"
    from lines obtain ls where ls: "those (map (tree_lines env (depth + 1)) ts) = Some ls"
      "lines = ?tabs @ concat ls @ ?tabs" "depth < OUTPUT_SIZE" by (auto split: bind_splits if_splits)
    have types: "b < 2 ^ 32" "e < 2 ^ 32" "kctype env b = Some KCDATA_TYPE_CONTAINER_BEGIN"
      "kctype env e = Some KCDATA_TYPE_CONTAINER_END" using assms(1) by (simp_all add: container_types_def)
    have "?body (at_item (length pre) depth (Some []) pr) =
        Some (Inl (at_item (length (pre @ ?opening)) (depth + 1) (Some []) (pr @ ?tabs)))"
      using container_round(1) [of buf pre b "fst f" "snd f" "?inner @ item_bytes e (fst l) (snd l) @ post" depth env "Some []" pr]
        buf types assms(2) ls(3) by simp
    moreover have "loop (sum_list (map tree_items ts) + Suc n) ?body
          (at_item (length (pre @ ?opening)) (depth + 1) (Some []) (pr @ ?tabs)) =
        loop (Suc n) ?body (at_item (length (pre @ ?opening) + length ?inner) (depth + 1) (Some []) ((pr @ ?tabs) @ concat ls))"
      by (rule forest_walk) (use Box buf ls in \<open>auto simp: list_all_iff\<close>)
    moreover have "?body (at_item (length (pre @ ?opening @ ?inner)) (depth + 1) (Some []) (pr @ ?tabs @ concat ls)) =
        Some (Inl (at_item (length pre + length (tree_bytes b e (Box f l ts))) depth (Some []) (pr @ lines)))"
      using container_round(2) [of buf "pre @ ?opening @ ?inner" e "fst l" "snd l" post depth env "Some []" "pr @ ?tabs @ concat ls"]
        buf types assms(2) ls(2,3) by (simp add: add.assoc)
    ultimately show "loop (tree_items (Box f l ts) + n) ?body (at_item (length pre) depth (Some []) pr) =
      loop n ?body (at_item (length pre + length (tree_bytes b e (Box f l ts))) depth (Some []) (pr @ lines))"
      by (simp add: add.assoc)
  qed
qed

text \<open>A snapshot: its first item, which has to write something because \<open>Output\<close> is not initialised, and the rest.\<close>

definition snapshot :: "kc_env \<Rightarrow> nat \<Rightarrow> nat \<Rightarrow> nat \<Rightarrow> nat \<Rightarrow> mem \<Rightarrow> kc_tree list \<Rightarrow> mem" where
  "snapshot env b e ty flags data ts =
     item_bytes (KCDATA_BUFFER_BEGIN_STACKSHOT env) 0 [] @ item_bytes ty flags data @ concat (map (tree_bytes b e) ts)"

definition good_snapshot :: "kc_env \<Rightarrow> nat \<Rightarrow> nat \<Rightarrow> nat \<Rightarrow> nat \<Rightarrow> mem \<Rightarrow> kc_tree list \<Rightarrow> bool" where
  "good_snapshot env b e ty flags data ts \<longleftrightarrow> container_types env b e \<and> KCDATA_BUFFER_BEGIN_STACKSHOT env < 2 ^ 32 \<and>
     length (snapshot env b e ty flags data ts) < 2 ^ 31 \<and> list_all (good_tree env) (Leaf ty flags data # ts) \<and>
     item_text env 0 ty (item_bytes ty flags data) None = item_text env 0 ty (item_bytes ty flags data) (Some [])"

text \<open>C35: the walk over a snapshot prints its items in order, each with one tab per container it is in, and ends at the
  end of the buffer; the counter of open containers is the depth of the nesting.\<close>

theorem stackshot_lists:
  assumes "good_snapshot env b e ty flags data ts"
    and "those (map (tree_lines env 0) (Leaf ty flags data # ts)) = Some lines"
    and "get_stackshot (case args of [a] \<Rightarrow> atoi a | _ \<Rightarrow> -1) STACKSHOT_FLAGS =
      Some (snapshot env b e ty flags data ts, length (snapshot env b e ty flags data ts))"
    and "length (snapshot env b e ty flags data ts) \<le> fuel"
  shows "stackshot_main fuel env get_stackshot True args = Some (concat lines, 0)"
proof -
  let ?buf = "snapshot env b e ty flags data ts" and ?head = "item_bytes (KCDATA_BUFFER_BEGIN_STACKSHOT env) 0 []"
  let ?body = "kc_round env ?buf (length ?buf)" and ?rest = "concat (map (tree_bytes b e) ts)"
  have good: "container_types env b e" "length ?buf < 2 ^ 31" "list_all (good_tree env) ts" "good_tree env (Leaf ty flags data)"
    using assms(1) by (simp_all add: good_snapshot_def)
  obtain x xs where x: "leaf_lines env 0 ty (item_bytes ty flags data) = Some x" "those (map (tree_lines env 0) ts) = Some xs"
    "lines = x # xs" using assms(2) by (auto split: option.splits)
  have head: "item_type ?buf = Some (KCDATA_BUFFER_BEGIN_STACKSHOT env)" "length ?head = 16"
    using assms(1) by (simp_all add: good_snapshot_def snapshot_def item_header item_length padding_def)
  have first: "?body (at_item (length ?head) 0 None []) = Some (Inl (at_item (length (?head @ item_bytes ty flags data)) 0 (Some []) x))"
    using leaf_round [of ?buf ?head ty flags data ?rest env 0 x None "[]"] assms(1) x(1)
    by (simp add: good_snapshot_def snapshot_def)
  have rest: "loop (sum_list (map tree_items ts) + n) ?body (at_item (length (?head @ item_bytes ty flags data)) 0 (Some []) x) =
      loop n ?body (at_item (length (?head @ item_bytes ty flags data) + length ?rest) 0 (Some []) (x @ concat xs))" for n
    by (rule forest_walk [OF _ x(2), where post = "[]"])
      (use good tree_walk in \<open>auto simp: list_all_iff snapshot_def\<close>)
  have "sum_list (map tree_items ts) \<le> length ?rest"
    using tree_items_length [of _ b e] by (simp add: length_concat sum_list_mono comp_def)
  then obtain n where n: "fuel = Suc (sum_list (map tree_items ts) + Suc n)"
    using assms(4) head(2) that [of "fuel - Suc (Suc (sum_list (map tree_items ts)))"] by (simp add: snapshot_def)
  have stop: "?body (at_item (length ?buf) 0 (Some []) pr) = Some (Inr pr)" for pr
    using small_offset [OF good(2)] good(2) by (simp add: kc_round_def at_item_def)
  have "loop fuel ?body (at_item 16 0 None []) = Some (concat lines)"
    using first rest [of "Suc n"] head(2) stop x(3) by (simp add: n snapshot_def add.assoc)
  then show ?thesis using assms(3) head(1) by (simp add: stackshot_main_def at_item_def)
qed


section \<open>Arrays\<close>

text \<open>An array item: the type of the elements is in the upper half of the flags, their number in the lower.\<close>

definition array_flags :: "nat \<Rightarrow> nat \<Rightarrow> nat" where
  "array_flags elemType n = elemType * 2 ^ 32 + n"

lemma array_text:
  assumes "kctype env ty = Some t" "is_array t" "elemType < 2 ^ 32" "n < 2 ^ 31" "length data < 2 ^ 32"
  shows "item_text env tabs ty (item_bytes ty (array_flags elemType n) data) out =
    dump_elems env tabs elemType n True (data @ filler (length data)) out"
proof -
  have "fixed_text t = None" "printed_text t = None" using assms(2) by (auto simp: is_array_def fixed_text_def printed_text_def split: kc_type.splits)
  moreover have "item_flags (item_bytes ty (array_flags elemType n) data) = Some (array_flags elemType n)"
    using rd_le_bytes [of "array_flags elemType n" 8 "le_bytes 4 ty @ le_bytes 4 (length data)" 8] assms(3,4)
    by (simp add: item_flags_def item_bytes_def array_flags_def)
  moreover have "(of_nat (array_flags elemType n) :: 32 word) = of_nat n"
    unfolding word_of_nat_eq_iff by (simp add: array_flags_def take_bit_eq_mod)
  moreover have "array_flags elemType n div 2 ^ 32 = elemType" "nat (sint (of_nat n :: 32 word)) = n"
    using assms(4) small_offset [of n] by (simp_all add: array_flags_def)
  moreover have "item_data (item_bytes ty (array_flags elemType n) data) = data @ filler (length data)"
    by (simp add: item_data_def item_bytes_def)
  ultimately show ?thesis using assms(1,2) by (simp add: item_text_def known_item_def dump_array_def)
qed

text \<open>Stack frames with the link register at 0 and the stack pointer at 8.\<close>

definition plain_frames :: "kc_env \<Rightarrow> bool" where
  "plain_frames env \<longleftrightarrow> field env lr = (0, 8, False) \<and> field env sp = (8, 8, False) \<and> sizeof_frame64 env = 16"

definition frame_bytes :: "nat \<times> nat \<Rightarrow> mem" where
  "frame_bytes f = le_bytes 8 (fst f) @ le_bytes 8 (snd f)"

definition frame_line :: "nat \<times> nat \<Rightarrow> mem" where
  "frame_line f = [tab9, tab9] @ str (''LR: 0x'' @ show_hex_pad 16 (fst f) @ '', SP: 0x'' @ show_hex_pad 16 (snd f)) @ [nl]"

definition trace_title :: "bool \<Rightarrow> mem" where
  "trace_title user = [tab9, tab9] @ str ((if user then ''User'' else ''Kernel'') @ '' Stack Trace:'') @ [nl]"

definition frame_type :: "bool \<Rightarrow> kc_type" where
  "frame_type user = (if user then STACKSHOT_KCTYPE_USER_STACKFRAME64 else STACKSHOT_KCTYPE_KERN_STACKFRAME64)"

lemma frame_text:
  assumes "plain_frames env" "fst f < 2 ^ 64" "snd f < 2 ^ 64"
  shows "dump_frame env (frame_bytes f @ post) = Some (frame_line f)"
  using rd_le_bytes [of "fst f" 8 "[]" 0] rd_le_bytes [of "snd f" 8 "le_bytes 8 (fst f)" 8] assms
  by (simp add: dump_frame_def value_of_def plain_frames_def frame_bytes_def frame_line_def)

lemma frames_text:
  assumes "plain_frames env" "kctype env elemType = Some (frame_type user)"
  shows "\<forall>f \<in> set fs. fst f < 2 ^ 64 \<and> snd f < 2 ^ 64 \<Longrightarrow>
    (if at_start then Some (trace_title user) else out) = Some s \<Longrightarrow> fs \<noteq> [] \<or> out = Some s \<Longrightarrow>
    tabs + length s + length (concat (map frame_line fs)) < OUTPUT_SIZE \<Longrightarrow>
    dump_elems env tabs elemType (length fs) at_start (concat (map frame_bytes fs) @ post) out =
      Some (Some (s @ concat (map frame_line fs)), [])"
proof (induction fs arbitrary: at_start out s)
  case (Cons f fs)
  let ?data = "frame_bytes f @ concat (map frame_bytes fs) @ post"
  have "dump_elem env tabs elemType at_start (fs = []) ?data out = Some ((Some (s @ frame_line f), []), 16)"
    using Cons.prems(1,2,4) assms frame_text [of env f] by (auto simp: dump_elem_def frame_type_def put_end_def put_def
      trace_title_def plain_frames_def str_def split: if_splits)
  moreover have "length (frame_bytes f) = 16" by (simp add: frame_bytes_def)
  moreover have "dump_elems env tabs elemType (length fs) False (concat (map frame_bytes fs) @ post) (Some (s @ frame_line f)) =
      Some (Some ((s @ frame_line f) @ concat (map frame_line fs)), [])"
    by (rule Cons.IH) (use Cons.prems in auto)
  ultimately show ?case by simp
qed auto

text \<open>an array of stack frames prints the title and every frame once, in order, as long as the text fits into
  the output buffer.\<close>

theorem stack_trace_listed:
  assumes "plain_frames env" "kctype env elemType = Some (frame_type user)" "kctype env ty = Some t" "is_array t"
    and "fs \<noteq> []" "length fs < 2 ^ 20" "\<forall>f \<in> set fs. fst f < 2 ^ 64 \<and> snd f < 2 ^ 64" "elemType < 2 ^ 32"
    and "tabs + length (trace_title user) + length (concat (map frame_line fs)) < OUTPUT_SIZE"
  shows "item_text env tabs ty (item_bytes ty (array_flags elemType (length fs)) (concat (map frame_bytes fs))) out =
    Some (Some (trace_title user @ concat (map frame_line fs)), [])"
proof -
  have "length (concat (map frame_bytes fs)) = 16 * length fs" by (induction fs) (auto simp: frame_bytes_def)
  then show ?thesis
    using array_text [OF assms(3,4,8)] assms(6) frames_text [OF assms(1,2,7), of True out "trace_title user"] assms(5,9) by simp
qed


text \<open>Importance donors: the numbers between commas.\<close>

fun comma_list :: "nat list \<Rightarrow> string" where
  "comma_list [] = []"
| "comma_list [p] = int32 p"
| "comma_list (p # q # ps) = int32 p @ '', '' @ comma_list (q # ps)"

lemma str_append: "str (a @ b) = str a @ str b"
  by (simp add: str_def)

lemma str_comma: "length (str '', '') = 2" "length (str a) = length a"
  by (simp_all add: str_def)

lemma donors_text:
  assumes "kctype env elemType = Some STACKSHOT_KCTYPE_DONATING_PIDS"
  shows "\<forall>p \<in> set ps. p < 2 ^ 32 \<Longrightarrow> ps \<noteq> [] \<Longrightarrow>
    (if at_start then Some ([tab9, tab9] @ str ''Importance Donors: '') else out) = Some s \<Longrightarrow>
    tabs + length s + length (comma_list ps) + 2 < OUTPUT_SIZE \<Longrightarrow>
    dump_elems env tabs elemType (length ps) at_start (concat (map (le_bytes 4) ps) @ post) out =
      Some (Some (s @ str (comma_list ps)), [])"
proof (induction ps arbitrary: at_start out s)
  case (Cons p ps)
  let ?data = "le_bytes 4 p @ concat (map (le_bytes 4) ps) @ post" and ?p = "str (int32 p @ '', '')"
  have rd: "rd_le 4 ?data 0 = Some p" using rd_le_bytes [of p 4 "[]" 0] Cons.prems(1) by simp
  have room: "tabs + (length s + length ?p) < OUTPUT_SIZE"
    using Cons.prems(4) by (cases ps) (simp_all add: str_comma)
  have elem: "dump_elem env tabs elemType at_start (ps = []) ?data out =
      Some ((Some (if ps = [] then s @ str (int32 p) else s @ ?p), []), 4)"
    using Cons.prems(3) assms rd room
    by (simp add: dump_elem_def put_end_def put_def) (simp add: str_append str_comma)
  show ?case
  proof (cases "ps = []")
    case True
    then show ?thesis using elem by simp
  next
    case False
    have "dump_elems env tabs elemType (length ps) False (concat (map (le_bytes 4) ps) @ post) (Some (s @ ?p)) =
        Some (Some ((s @ ?p) @ str (comma_list ps)), [])"
      by (rule Cons.IH) (use Cons.prems False in \<open>auto simp: str_comma neq_Nil_conv\<close>)
    moreover have "str (comma_list (p # ps)) = ?p @ str (comma_list ps)" using False by (cases ps) (simp_all add: str_def)
    ultimately show ?thesis using elem False by simp
  qed
qed simp

text \<open>An array of importance donors prints the process numbers in order, separated by commas, without one at
  the end.\<close>

theorem donors_listed:
  assumes "kctype env elemType = Some STACKSHOT_KCTYPE_DONATING_PIDS" "kctype env ty = Some t" "is_array t"
    and "ps \<noteq> []" "length ps < 2 ^ 20" "\<forall>p \<in> set ps. p < 2 ^ 32" "elemType < 2 ^ 32"
    and "tabs + 23 + length (comma_list ps) < OUTPUT_SIZE"
  shows "item_text env tabs ty (item_bytes ty (array_flags elemType (length ps)) (concat (map (le_bytes 4) ps))) out =
    Some (Some ([tab9, tab9] @ str (''Importance Donors: '' @ comma_list ps)), [])"
proof -
  let ?title = "[tab9, tab9] @ str ''Importance Donors: ''"
  have "length (concat (map (le_bytes 4) ps)) = 4 * length ps" by (induction ps) auto
  then show ?thesis
    using array_text [OF assms(2,3,7), of "length ps" "concat (map (le_bytes 4) ps)" tabs out]
      donors_text [OF assms(1,6,4), of True out ?title tabs] assms(5,8)
    by (simp add: str_def)
qed

section \<open>Inputs the program does not survive\<close>

text \<open>A task without any of the known flags makes the program read in front of the buffer of the flags' text.\<close>

theorem task_without_flags_undefined:
  assumes "kctype env ty = Some STACKSHOT_KCTYPE_TASK_SNAPSHOT" "value_of env (item_data m) ts_ss_flags = Some fl"
    and "\<forall>f. fl AND task_bit env f = 0"
  shows "item_text env tabs ty m out = None"
proof -
  have "texts_set fl (task_texts env) = []" using assms(3) by (simp add: texts_set_def task_texts_def)
  then have "tsv2_flags_to_text env fl = None" by (simp add: tsv2_flags_to_text_def cut_comma_def)
  then have "dump_task_snapshot env (item_data m) = None"
    using assms(2) by (auto simp: dump_task_snapshot_def split: bind_splits)
  then show ?thesis using assms(1) by (simp add: item_text_def known_item_def fixed_text_def printed_text_def is_array_def data_text_def)
qed

text \<open>An item whose size takes the 32-bit sum back to where it was.\<close>

definition endless_size :: nat where
  "endless_size = 2 ^ 32 - 16"

text \<open>Behind an item of size \<open>0xFFFFFFF0\<close> the walk stays where it is: it prints the item again and again, whatever
  number of rounds it is given.\<close>

theorem stackshot_endless:
  assumes "item_type buf = Some (KCDATA_BUFFER_BEGIN_STACKSHOT env)" "17 \<le> length buf"
    and "item_type (drop 16 buf) = Some ty" "item_size (drop 16 buf) = Some endless_size"
    and "kctype env ty = Some t" "fixed_text t = Some s" "length s < OUTPUT_SIZE" "t \<noteq> KCDATA_TYPE_CONTAINER_END"
    and "get_stackshot (case args of [a] \<Rightarrow> atoi a | _ \<Rightarrow> -1) STACKSHOT_FLAGS = Some (buf, length buf)"
  shows "(\<forall>fuel. stackshot_main fuel env get_stackshot True args = None) \<and>
    (\<forall>out pr. kc_round env buf (length buf) (at_item 16 0 out pr) = Some (Inl (at_item 16 0 (Some []) (pr @ s @ [nl]))))"
proof -
  have "t \<noteq> KCDATA_TYPE_CONTAINER_BEGIN" using assms(6) by (auto simp: fixed_text_def)
  then have item: "handle_kcdata_item env (drop 16 buf) 0 out = Some (Some s, [], 0)" for out
    using assms by (simp add: OUTPUT_SIZE_def handle_kcdata_item_def item_text_def known_item_def put_def)
  have "(16 :: 32 word) + of_nat (endless_size + 16 + padding endless_size) = 16"
    by (simp add: endless_size_def padding_def)
  then have round: "kc_round env buf (length buf) (at_item 16 0 out pr) = Some (Inl (at_item 16 0 (Some []) (pr @ s @ [nl])))" for out pr
    using assms(2,4) item by (simp add: kc_round_def at_item_def bytes_at_def)
  have "loop fuel (kc_round env buf (length buf)) (at_item 16 0 out pr) = None" for fuel out pr
    by (induction fuel arbitrary: out pr) (simp_all add: round)
  then have "stackshot_main fuel env get_stackshot True args = None" for fuel
    using assms(1,9) by (simp add: stackshot_main_def at_item_def)
  then show ?thesis using round by blast
qed


section \<open>Examples\<close>

text \<open>The numbers the comments of the source give, and some layouts.\<close>

definition wit_types :: "nat \<Rightarrow> kc_type option" where
  "wit_types = map_of [(0x13, KCDATA_TYPE_CONTAINER_BEGIN), (0x14, KCDATA_TYPE_CONTAINER_END), (0x11, KCDATA_TYPE_ARRAY),
     (0x905, STACKSHOT_KCTYPE_TASK_SNAPSHOT), (0x907, STACKSHOT_KCTYPE_DONATING_PIDS), (0x909, STACKSHOT_KCTYPE_THREAD_NAME),
     (0x90d, STACKSHOT_KCTYPE_USER_STACKFRAME64), (0x90f, STACKSHOT_KCTYPE_OSVERSION), (0x912, STACKSHOT_KCTYPE_DELTA_SINCE_TIMESTAMP)]"

definition wit_fields :: "kc_field \<Rightarrow> nat \<times> nat \<times> bool" where
  "wit_fields f = (case f of sp \<Rightarrow> (8, 8, False) | ts_ss_flags \<Rightarrow> (8, 8, False) | _ \<Rightarrow> (0, 8, False))"

definition wit_env :: kc_env where
  "wit_env = \<lparr>kctype = wit_types, KCDATA_BUFFER_BEGIN_STACKSHOT = 0x59a25807, field = wit_fields, sizeof_frame64 = 16,
     sizeof_uuid_info64 = 24, ths_bit = \<lambda>f. 4, th_state_bit = \<lambda>s. 1, task_bit = \<lambda>f. 1, uuid_unparse_upper = \<lambda>m. [],
     ctime = \<lambda>n. []\<rparr>"

lemma wit_env [simp]: "kctype wit_env = wit_types" "field wit_env = wit_fields" "sizeof_frame64 wit_env = 16" "task_bit wit_env f = 1"
  "KCDATA_BUFFER_BEGIN_STACKSHOT wit_env = 0x59a25807"
  by (simp_all add: wit_env_def)

lemma wit_hex: "length (show_hex_pad 16 48) = 16" "length (show_hex_pad 16 32) = 16" "length (show_hex_pad 16 2) = 16"
  by code_simp+

lemma stack_trace_listed_witness:
  "item_text wit_env 2 0x11 (item_bytes 0x11 (array_flags 0x90d 2) (concat (map frame_bytes [(48, 32), (32, 2)]))) None =
    Some (Some (trace_title True @ concat (map frame_line [(48, 32), (32, 2)])), [])"
  using stack_trace_listed [of wit_env "0x90d" True "0x11" KCDATA_TYPE_ARRAY "[(48, 32), (32, 2)]" 2 None] wit_hex
  by (simp add: plain_frames_def wit_fields_def frame_type_def wit_types_def is_array_def trace_title_def frame_line_def
    OUTPUT_SIZE_def str_comma numeral_2_eq_2 [symmetric] del: One_nat_def)

lemma donors_listed_witness:
  "item_text wit_env 2 0x11 (item_bytes 0x11 (array_flags 0x907 2) (concat (map (le_bytes 4) [7, 42]))) None =
    Some (Some ([tab9, tab9] @ str ''Importance Donors: 7, 42''), [])"
proof -
  have "comma_list [7, 42] = ''7, 42''" by code_simp
  then show ?thesis
    using donors_listed [of wit_env "0x907" "0x11" KCDATA_TYPE_ARRAY "[7, 42]" 2 None]
    by (simp add: wit_types_def is_array_def OUTPUT_SIZE_def numeral_2_eq_2 [symmetric] del: One_nat_def)
qed

lemma item_data_bytes: "item_data (item_bytes ty flags data) = data @ filler (length data)"
  by (simp add: item_data_def item_bytes_def)

definition wit_tree :: "kc_tree list" where
  "wit_tree = [Box (0, []) (0, []) [Leaf 0x909 0 (str ''t'' @ [0])]]"

lemma wit_lines:
  "leaf_lines wit_env 0 0x90f (item_bytes 0x90f 0 (str ''OS'' @ [0])) = Some (str ''OS Version: OS'' @ [nl])"
  "leaf_lines wit_env 1 0x909 (item_bytes 0x909 0 (str ''t'' @ [0])) = Some (tab9 # str ''Thread Name: t'' @ [nl])"
  by (simp_all add: leaf_lines_def item_text_def known_item_def fixed_text_def printed_text_def is_array_def data_text_def
    wit_types_def item_data_bytes cstr_at_def str_def put_def OUTPUT_SIZE_def)

lemma stackshot_lists_witness:
  "stackshot_main 1000 wit_env (\<lambda>pid flags. if pid = 7 then
       Some (snapshot wit_env 0x13 0x14 0x90f 0 (str ''OS'' @ [0]) wit_tree,
         length (snapshot wit_env 0x13 0x14 0x90f 0 (str ''OS'' @ [0]) wit_tree)) else None) True [''7''] =
     Some (str ''OS Version: OS'' @ [nl, nl, tab9] @ str ''Thread Name: t'' @ [nl, nl], 0)"
proof -
  let ?snap = "snapshot wit_env 0x13 0x14 0x90f 0 (str ''OS'' @ [0]) wit_tree"
  have len: "length ?snap \<le> 1000" by (simp add: snapshot_def wit_tree_def item_length padding_def str_comma)
  have "atoi ''7'' = 7" by code_simp
  moreover have "good_snapshot wit_env 0x13 0x14 0x90f 0 (str ''OS'' @ [0]) wit_tree"
    using len by (simp add: good_snapshot_def container_types_def wit_types_def wit_tree_def item_text_def known_item_def
      fixed_text_def printed_text_def is_array_def)
  moreover have "those (map (tree_lines wit_env 0) (Leaf 0x90f 0 (str ''OS'' @ [0]) # wit_tree)) =
      Some [str ''OS Version: OS'' @ [nl], [nl, tab9] @ str ''Thread Name: t'' @ [nl, nl]]"
    using wit_lines by (simp add: wit_tree_def OUTPUT_SIZE_def)
  ultimately show ?thesis
    using stackshot_lists [of wit_env "0x13" "0x14" "0x90f" 0 "str ''OS'' @ [0]" wit_tree _ _ "[''7'']" 1000] len by simp
qed

lemma task_without_flags_undefined_witness:
  "item_text wit_env 0 0x905 (replicate 16 0 @ replicate 8 0 @ le_bytes 8 2) None = None"
  using task_without_flags_undefined [of wit_env "0x905" "replicate 16 0 @ replicate 8 0 @ le_bytes 8 2" 2 0 None]
    rd_le_bytes_end [of 2 8 "replicate 8 0" 8]
  by (simp add: wit_types_def item_data_def value_of_def wit_fields_def)

definition wit_endless :: mem where
  "wit_endless = item_bytes 0x59a25807 0 [] @ le_bytes 4 0x912 @ le_bytes 4 endless_size @ replicate 8 0"

lemma stackshot_endless_witness:
  "\<forall>fuel. stackshot_main fuel wit_env (\<lambda>pid flags. Some (wit_endless, length wit_endless)) True [] = None"
proof -
  have "item_type wit_endless = Some 0x59a25807" using item_header(1) [of "0x59a25807" "[]"] by (simp add: wit_endless_def)
  moreover have "length (item_bytes 0x59a25807 0 []) = 16" by (simp add: item_length padding_def)
  then have "drop 16 wit_endless = le_bytes 4 0x912 @ le_bytes 4 endless_size @ replicate 8 0" "17 \<le> length wit_endless"
    by (simp_all add: wit_endless_def)
  moreover from this have "item_type (drop 16 wit_endless) = Some 0x912" "item_size (drop 16 wit_endless) = Some endless_size"
    using rd_le_bytes [of "0x912" 4 "[]" 0] rd_le_bytes [of endless_size 4 "le_bytes 4 0x912" 4]
    by (simp_all add: item_type_def item_size_def endless_size_def)
  ultimately show ?thesis
    using stackshot_endless [of wit_endless wit_env "0x912" STACKSHOT_KCTYPE_DELTA_SINCE_TIMESTAMP "str ''Delta since''"
        "\<lambda>pid flags. Some (wit_endless, length wit_endless)" "[]"]
    by (simp add: wit_types_def fixed_text_def OUTPUT_SIZE_def str_comma)
qed

end
