(* ===== verification/Snapshot.thy ===== *)
theory Snapshot
  imports Stackshot
begin

text \<open>
  The older stack snapshot tool \<open>src/src/5-2-stack-snapshot.c\<close>: the walk over the snapshot that the system call writes
  into the buffer, with the layouts the file gives to memory, task and thread records. The buffer and the number of
  bytes the call returns are parameters. What the tool prints is a text.
\<close>

section \<open>The buffer\<close>

definition STACKSHOT_TASK_SNAPSHOT_MAGIC :: nat where "STACKSHOT_TASK_SNAPSHOT_MAGIC = 0xdecafbad"

definition STACKSHOT_THREAD_SNAPSHOT_MAGIC :: nat where "STACKSHOT_THREAD_SNAPSHOT_MAGIC = 0xfeedface"

definition STACKSHOT_MEM_SNAPSHOT_MAGIC :: nat where "STACKSHOT_MEM_SNAPSHOT_MAGIC = 0xabcddcba"

definition STACKSHOT_MEM_AND_IO_SNAPSHOT_MAGIC :: nat where "STACKSHOT_MEM_AND_IO_SNAPSHOT_MAGIC = 0xbfcabcde"

text \<open>The packed structures: where the fields of a record lie, and its size.\<close>

record mem_and_io_snapshot =
  free_pgs :: nat
  active_pgs :: nat
  purgeable_pgs :: nat
  wired_pgs :: nat
  speculative_pgs :: nat
  throttled_pgs :: nat
  pages_wanted :: nat
  pages_reclaimed :: nat

definition sizeof_mem_and_io :: nat where "sizeof_mem_and_io = 45"

definition read_mem_and_io :: "mem \<Rightarrow> nat \<Rightarrow> mem_and_io_snapshot option" where
  "read_mem_and_io m i = do {
     f \<leftarrow> rd_le 4 m (i + 4);
     a \<leftarrow> rd_le 4 m (i + 8);
     p \<leftarrow> rd_le 4 m (i + 16);
     w \<leftarrow> rd_le 4 m (i + 20);
     s \<leftarrow> rd_le 4 m (i + 24);
     t \<leftarrow> rd_le 4 m (i + 28);
     wanted \<leftarrow> rd_le 4 m (i + 36);
     reclaimed \<leftarrow> rd_le 4 m (i + 40);
     Some \<lparr>free_pgs = f, active_pgs = a, purgeable_pgs = p, wired_pgs = w, speculative_pgs = s, throttled_pgs = t,
       pages_wanted = wanted, pages_reclaimed = reclaimed\<rparr>
   }"

record task_snapshot =
  task_pid :: nat
  task_flags :: nat
  p_comm :: mem

definition sizeof_task :: nat where "sizeof_task = 30"

definition read_task :: "mem \<Rightarrow> nat \<Rightarrow> task_snapshot option" where
  "read_task m i = do {
     pid \<leftarrow> rd_le 4 m (i + 4);
     fl \<leftarrow> rd_le 1 m (i + 12);
     comm \<leftarrow> cstr_at m (i + 13);
     Some \<lparr>task_pid = pid, task_flags = fl, p_comm = comm\<rparr>
   }"

record thread_snapshot =
  nkern_frames :: nat
  nuser_frames :: nat
  wait_event :: nat
  continuation :: nat
  thread_id :: nat
  thread_state :: nat

definition sizeof_thread :: nat where "sizeof_thread = 41"

definition read_thread :: "mem \<Rightarrow> nat \<Rightarrow> thread_snapshot option" where
  "read_thread m i = do {
     nkern \<leftarrow> rd_le 4 m (i + 4);
     nuser \<leftarrow> rd_le 4 m (i + 8);
     wait \<leftarrow> rd_le 8 m (i + 12);
     cont \<leftarrow> rd_le 8 m (i + 20);
     tid \<leftarrow> rd_le 8 m (i + 28);
     state \<leftarrow> rd_le 4 m (i + 36);
     Some \<lparr>nkern_frames = nkern, nuser_frames = nuser, wait_event = wait, continuation = cont, thread_id = tid, thread_state = state\<rparr>
   }"

section \<open>Texts\<close>

definition TH_texts :: "(nat \<times> string) list" where
  "TH_texts = [(0x01, ''waiting ''), (0x02, ''suspended ''), (0x04, ''running ''), (0x08, ''Uninterruptible ''),
     (0x10, ''Halted at termination ''), (0x20, ''Added to termination queue ''), (0x80, ''Idling processor '')]"

text \<open>All the texts fit the buffer of 160 bytes.\<close>

definition thread_stateToText :: "nat \<Rightarrow> string" where
  "thread_stateToText state = int32 state @ '' - '' @ texts_set state TH_texts"

text \<open>\<open>%-8d\<close>.\<close>

definition pad8 :: "nat \<Rightarrow> string" where
  "pad8 v = (let s = int32 v in s @ replicate (8 - length s) CHR '' '')"

definition dump_mem_and_io_snapshot :: "mem_and_io_snapshot \<Rightarrow> mem" where
  "dump_mem_and_io_snapshot mais =
     str (''Pages: Free: '' @ pad8 (free_pgs mais) @ ''        Active:    '' @ pad8 (active_pgs mais) @ ''  Purgeable: '' @
       pad8 (purgeable_pgs mais) @ '' Wired: '' @ pad8 (wired_pgs mais)) @ nl #
     str (''       Speculative: '' @ pad8 (speculative_pgs mais) @ '' Throttled: '' @ pad8 (throttled_pgs mais) @ ''  Wanted:    '' @
       pad8 (pages_wanted mais) @ '' Reclaimed: '' @ pad8 (pages_reclaimed mais)) @ [nl]"

text \<open>The flags are a \<open>char\<close>, extended to 32 bits.\<close>

definition dump_task :: "task_snapshot \<Rightarrow> mem" where
  "dump_task ts =
     str (''PID: '' @ int32 (task_pid ts) @ '' ('') @ p_comm ts @
     str ('') Flags: '' @ show_hex (if task_flags ts < 128 then task_flags ts else task_flags ts + 2 ^ 32 - 256) @ '' '') @ [nl]"

definition dump_thread :: "thread_snapshot \<Rightarrow> mem" where
  "dump_thread ths =
     tab9 # str (''Thread ID: 0x'' @ show_hex (thread_id ths mod 2 ^ 32) @ '' State: '' @ thread_stateToText (thread_state ths)) @ [nl] @
     (if wait_event ths \<noteq> 0 then tab9 # str (''Waiting on: 0x'' @ show_hex (wait_event ths mod 2 ^ 32) @ '' '') else []) @
     (if continuation ths \<noteq> 0 then tab9 # str ''Continuation: '' @ hex_0x (continuation ths) @ [nl] else [])"

text \<open>\<open>n\<close> frames, \<open>adv\<close> bytes apart: two numbers of \<open>w\<close> bytes each.\<close>

definition frame_line :: "nat \<times> nat \<Rightarrow> mem" where
  "frame_line f = [tab9, tab9] @ hex_0x (fst f) @ [tab9] @ hex_0x (snd f) @ [nl]"

fun frame_lines :: "nat \<Rightarrow> nat \<Rightarrow> mem \<Rightarrow> nat \<Rightarrow> nat \<Rightarrow> mem option" where
  "frame_lines w adv m pos 0 = Some []"
| "frame_lines w adv m pos (Suc n) = do {
     retaddr \<leftarrow> rd_le w m pos;
     fp \<leftarrow> rd_le w m (pos + w);
     rest \<leftarrow> frame_lines w adv m (pos + adv) n;
     Some (frame_line (retaddr, fp) @ rest)
   }"

text \<open>User frames are two pointers, whatever the task; kernel frames are two numbers of 32 bits.\<close>

definition user_step :: "bool \<Rightarrow> nat" where
  "user_step is64bit = (if is64bit then 16 else 8)"

definition dump_frames :: "mem \<Rightarrow> bool \<Rightarrow> thread_snapshot \<Rightarrow> nat \<Rightarrow> mem option" where
  "dump_frames m is64bit ths pos =
     (if nkern_frames ths = 0 \<and> nuser_frames ths = 0 then Some []
      else do {
        user \<leftarrow> frame_lines 8 (user_step is64bit) m pos (nuser_frames ths);
        kern \<leftarrow> frame_lines 4 16 m (pos + user_step is64bit * nuser_frames ths) (nkern_frames ths);
        Some (tab9 # str (''Frames:    '' @ int32 (nkern_frames ths) @ '' kernel '' @ int32 (nuser_frames ths) @ '' user'') @ [nl] @ user @ kern)
      })"

definition frames_size :: "bool \<Rightarrow> thread_snapshot \<Rightarrow> nat" where
  "frames_size is64bit ths = user_step is64bit * nuser_frames ths + 16 * nkern_frames ths"

section \<open>The walk\<close>

record snapshot_walk =
  off_now :: nat
  warned :: bool
  is64bit :: bool
  printed :: mem

definition off_line :: "nat \<Rightarrow> mem" where
  "off_line pos = str (''OFF: '' @ show_nat pos) @ [nl]"

text \<open>One round. At the old memory magic the walk does not advance.\<close>

definition snapshot_body :: "mem \<Rightarrow> nat \<Rightarrow> snapshot_walk \<Rightarrow> (snapshot_walk + mem) option" where
  "snapshot_body m rc st =
     (let pos = off_now st in
      if \<not> pos < rc then Some (Inr (printed st))
      else do {
        magic \<leftarrow> rd_le 4 m pos;
        if magic = STACKSHOT_MEM_AND_IO_SNAPSHOT_MAGIC then do {
          mais \<leftarrow> read_mem_and_io m pos;
          Some (Inl (st\<lparr>off_now := pos + sizeof_mem_and_io, printed := printed st @ dump_mem_and_io_snapshot mais\<rparr>))
        }
        else if magic = STACKSHOT_TASK_SNAPSHOT_MAGIC then do {
          ts \<leftarrow> read_task m pos;
          Some (Inl \<lparr>off_now = pos + sizeof_task, warned = False, is64bit = odd (task_flags ts),
            printed = printed st @ off_line pos @ dump_task ts\<rparr>)
        }
        else if magic = STACKSHOT_THREAD_SNAPSHOT_MAGIC then do {
          ths \<leftarrow> read_thread m pos;
          frames \<leftarrow> dump_frames m (is64bit st) ths (pos + sizeof_thread);
          Some (Inl (st\<lparr>off_now := pos + sizeof_thread + frames_size (is64bit st) ths, warned := False,
            printed := printed st @ off_line pos @ dump_thread ths @ frames\<rparr>))
        }
        else if magic = STACKSHOT_MEM_SNAPSHOT_MAGIC then Some (Inl (st\<lparr>printed := printed st @ str ''MEM magic'' @ [nl]\<rparr>))
        else Some (Inl (st\<lparr>off_now := pos + 1, warned := True,
            printed := printed st @ (if warned st then []
              else str ''Magic '' @ hex_0x magic @ str ('' at offset '' @ show_nat pos @ ''? Seeking to next magic'') @ [nl])\<rparr>))
      })"

text \<open>The exit code and the output for what the system call returned; a walk that ends has at most \<open>rc\<close> rounds.\<close>

definition stack_snapshot_main :: "nat \<Rightarrow> mem \<Rightarrow> int \<Rightarrow> (nat \<times> mem) option" where
  "stack_snapshot_main fuel m rc =
     (if rc < 0 then Some (255, [])
      else map_option (Pair 0) (loop fuel (snapshot_body m (nat rc)) \<lparr>off_now = 0, warned = False, is64bit = False, printed = []\<rparr>))"

section \<open>What is listed\<close>

text \<open>The records as the kernel writes them; a frame is two pointers.\<close>

datatype snap =
    MemIo mem_and_io_snapshot nat nat nat
  | Task task_snapshot nat
  | Thread thread_snapshot nat "(nat \<times> nat) list" "(nat \<times> nat) list"

definition frame_bytes :: "(nat \<times> nat) list \<Rightarrow> mem" where
  "frame_bytes fs = concat (map (\<lambda>(retaddr, fp). le_bytes 8 retaddr @ le_bytes 8 fp) fs)"

fun snap_bytes :: "snap \<Rightarrow> mem" where
  "snap_bytes (MemIo mais inactive busy valid) =
     le_bytes 4 0xbfcabcde @ le_bytes 4 (free_pgs mais) @ le_bytes 4 (active_pgs mais) @ le_bytes 4 inactive @
     le_bytes 4 (purgeable_pgs mais) @ le_bytes 4 (wired_pgs mais) @ le_bytes 4 (speculative_pgs mais) @ le_bytes 4 (throttled_pgs mais) @
     le_bytes 4 busy @ le_bytes 4 (pages_wanted mais) @ le_bytes 4 (pages_reclaimed mais) @ le_bytes 1 valid"
| "snap_bytes (Task ts nloadinfos) =
     le_bytes 4 0xdecafbad @ le_bytes 4 (task_pid ts) @ le_bytes 4 nloadinfos @ le_bytes 1 (task_flags ts) @
     p_comm ts @ replicate (17 - length (p_comm ts)) 0"
| "snap_bytes (Thread ths ss_flags user kern) =
     le_bytes 4 0xfeedface @ le_bytes 4 (nkern_frames ths) @ le_bytes 4 (nuser_frames ths) @ le_bytes 8 (wait_event ths) @
     le_bytes 8 (continuation ths) @ le_bytes 8 (thread_id ths) @ le_bytes 4 (thread_state ths) @ le_bytes 1 ss_flags @
     frame_bytes user @ frame_bytes kern"

definition good_frames :: "(nat \<times> nat) list \<Rightarrow> bool" where
  "good_frames fs \<longleftrightarrow> (\<forall>(retaddr, fp) \<in> set fs. retaddr < 2 ^ 64 \<and> fp < 2 ^ 64)"

text \<open>Only threads of 64-bit tasks have user frames; \<open>is64\<close> says whether the last task was one.\<close>

fun good_snaps :: "bool \<Rightarrow> snap list \<Rightarrow> bool" where
  "good_snaps is64 [] \<longleftrightarrow> True"
| "good_snaps is64 (MemIo mais inactive busy valid # ss) \<longleftrightarrow>
     list_all (\<lambda>v. v < 2 ^ 32) [free_pgs mais, active_pgs mais, purgeable_pgs mais, wired_pgs mais, speculative_pgs mais, throttled_pgs mais,
       pages_wanted mais, pages_reclaimed mais] \<and> good_snaps is64 ss"
| "good_snaps is64 (Task ts nloadinfos # ss) \<longleftrightarrow>
     task_pid ts < 2 ^ 32 \<and> task_flags ts < 256 \<and> length (p_comm ts) < 17 \<and> 0 \<notin> set (p_comm ts) \<and> good_snaps (odd (task_flags ts)) ss"
| "good_snaps is64 (Thread ths ss_flags user kern # ss) \<longleftrightarrow>
     nkern_frames ths = length kern \<and> nuser_frames ths = length user \<and> length kern < 2 ^ 32 \<and> length user < 2 ^ 32 \<and>
     wait_event ths < 2 ^ 64 \<and> continuation ths < 2 ^ 64 \<and> thread_id ths < 2 ^ 64 \<and> thread_state ths < 2 ^ 32 \<and>
     good_frames user \<and> good_frames kern \<and> (user \<noteq> [] \<longrightarrow> is64) \<and> good_snaps is64 ss"

text \<open>A kernel frame shows as the two halves of its return address.\<close>

definition halves :: "nat \<times> nat \<Rightarrow> nat \<times> nat" where
  "halves f = (fst f mod 2 ^ 32, fst f div 2 ^ 32)"

fun snap_text :: "nat \<Rightarrow> snap \<Rightarrow> mem" where
  "snap_text at (MemIo mais inactive busy valid) = dump_mem_and_io_snapshot mais"
| "snap_text at (Task ts nloadinfos) = off_line at @ dump_task ts"
| "snap_text at (Thread ths ss_flags user kern) =
     off_line at @ dump_thread ths @
     (if user = [] \<and> kern = [] then []
      else tab9 # str (''Frames:    '' @ int32 (length kern) @ '' kernel '' @ int32 (length user) @ '' user'') @ [nl] @
        concat (map frame_line user) @ concat (map (\<lambda>f. frame_line (halves f)) kern))"

fun snap_texts :: "nat \<Rightarrow> snap list \<Rightarrow> mem" where
  "snap_texts at [] = []"
| "snap_texts at (s # ss) = snap_text at s @ snap_texts (at + length (snap_bytes s)) ss"

lemma rd_skip: "length a \<le> k \<Longrightarrow> rd_le n (a @ x) k = rd_le n x (k - length a)"
  by (auto simp: rd_le_def slice_def)

lemma rd_here: "v < 256 ^ n \<Longrightarrow> rd_le n (le_bytes n v @ x) 0 = Some v"
  using rd_le_bytes [of v n "[]" 0 x] by simp

lemma rd_here_end: "v < 256 ^ n \<Longrightarrow> rd_le n (le_bytes n v) 0 = Some v"
  using rd_here [of v n "[]"] by simp

lemmas rd_fields = rd_skip rd_here rd_here_end

lemma length_frame_bytes: "length (frame_bytes fs) = 16 * length fs"
  by (induction fs) (auto simp: frame_bytes_def)

lemma user_lines:
  "good_frames fs \<Longrightarrow> length pre = at \<Longrightarrow> frame_lines 8 16 (pre @ frame_bytes fs @ rest) at (length fs) = Some (concat (map frame_line fs))"
proof (induction fs arbitrary: pre at)
  case (Cons f fs)
  obtain r p where f: "f = (r, p)" by (cases f)
  have "frame_lines 8 16 ((pre @ le_bytes 8 r @ le_bytes 8 p) @ frame_bytes fs @ rest) (at + 16) (length fs) = Some (concat (map frame_line fs))"
    by (rule Cons.IH) (use Cons.prems in \<open>simp_all add: good_frames_def\<close>)
  then show ?case using Cons.prems f by (simp add: frame_bytes_def good_frames_def rd_fields)
qed simp

lemma le_bytes_add: "le_bytes (a + b) v = le_bytes a v @ le_bytes b (v div 256 ^ a)"
  by (induction a arbitrary: v) (simp_all add: div_mult2_eq)

lemma le_bytes_halves: "le_bytes 8 r = le_bytes 4 (r mod 2 ^ 32) @ le_bytes 4 (r div 2 ^ 32)"
  using le_bytes_add [of 4 4 r] le_bytes_mod [of 4 r] by simp

lemma kern_lines:
  "good_frames fs \<Longrightarrow> length pre = at \<Longrightarrow>
    frame_lines 4 16 (pre @ frame_bytes fs @ rest) at (length fs) = Some (concat (map (\<lambda>f. frame_line (halves f)) fs))"
proof (induction fs arbitrary: pre at)
  case (Cons f fs)
  obtain r p where f: "f = (r, p)" by (cases f)
  have "frame_lines 4 16 ((pre @ le_bytes 8 r @ le_bytes 8 p) @ frame_bytes fs @ rest) (at + 16) (length fs) =
      Some (concat (map (\<lambda>f. frame_line (halves f)) fs))"
    by (rule Cons.IH) (use Cons.prems in \<open>simp_all add: good_frames_def\<close>)
  moreover have "r < 2 ^ 64" using Cons.prems(1) f by (simp add: good_frames_def)
  then have "r mod 2 ^ 32 < 2 ^ 32" "r div 2 ^ 32 < 2 ^ 32" by simp_all
  ultimately show ?case using Cons.prems f
    by (simp add: frame_bytes_def halves_def rd_fields le_bytes_halves [of r])
qed simp

lemma cstr_here: "0 \<notin> set x \<Longrightarrow> cstr_of (x @ 0 # post) = Some x"
  by (induction x) auto

lemma cstr_skip_to: "length a \<le> k \<Longrightarrow> cstr_at (a @ x) k = cstr_at x (k - length a)"
  by (simp add: cstr_at_def)

lemma comm_padded: "length x < 17 \<Longrightarrow> 0 \<notin> set x \<Longrightarrow> cstr_at (x @ replicate (17 - length x) 0 @ rest) 0 = Some x"
proof -
  assume "length x < 17" "0 \<notin> set x"
  moreover from this have "17 - length x = Suc (16 - length x)" by simp
  ultimately show ?thesis using cstr_here [of x "replicate (16 - length x) 0 @ rest"] by (simp add: cstr_at_def)
qed

lemma flags_and_comm:
  "v < 256 \<Longrightarrow> rd_le (Suc 0) (of_nat v # x) 0 = Some v" "cstr_at (b # x) (Suc 0) = cstr_at x 0"
  using rd_here [of v 1 x] by (simp_all add: cstr_at_def)

definition next_is64 :: "bool \<Rightarrow> snap \<Rightarrow> bool" where
  "next_is64 is64 s = (case s of Task ts _ \<Rightarrow> odd (task_flags ts) | _ \<Rightarrow> is64)"

lemma good_snaps_Cons: "good_snaps is64 (s # ss) \<longleftrightarrow> good_snaps is64 [s] \<and> good_snaps (next_is64 is64 s) ss"
  by (cases s) (auto simp: next_is64_def)

lemmas magic_defs = STACKSHOT_TASK_SNAPSHOT_MAGIC_def STACKSHOT_THREAD_SNAPSHOT_MAGIC_def STACKSHOT_MEM_SNAPSHOT_MAGIC_def
  STACKSHOT_MEM_AND_IO_SNAPSHOT_MAGIC_def

lemma snapshot_step:
  assumes "good_snaps (is64bit st) [s]" "off_now st = length pre" "length pre < rc" "m = pre @ snap_bytes s @ rest"
  shows "\<exists>w. snapshot_body m rc st = Some (Inl \<lparr>off_now = length (pre @ snap_bytes s), warned = w, is64bit = next_is64 (is64bit st) s,
    printed = printed st @ snap_text (length pre) s\<rparr>)"
proof (cases s)
  case (MemIo mais inactive busy valid)
  then have "read_mem_and_io m (length pre) = Some mais" "rd_le 4 m (length pre) = Some 0xbfcabcde"
    using assms(1) by (simp_all add: assms(4) read_mem_and_io_def rd_fields)
  then show ?thesis using MemIo assms(2,3)
    by (cases st) (simp add: snapshot_body_def Let_def magic_defs sizeof_mem_and_io_def next_is64_def)
next
  case (Task ts nloadinfos)
  then have "read_task m (length pre) = Some ts" "rd_le 4 m (length pre) = Some 0xdecafbad"
    using assms(1) comm_padded [of "p_comm ts" rest] by (simp_all add: assms(4) read_task_def rd_fields cstr_skip_to flags_and_comm)
  then show ?thesis using Task assms(1,2,3)
    by (intro exI [of _ False]) (simp add: snapshot_body_def Let_def magic_defs sizeof_task_def next_is64_def)
next
  case (Thread ths ss_flags user kern)
  let ?head = "le_bytes 4 0xfeedface @ le_bytes 4 (nkern_frames ths) @ le_bytes 4 (nuser_frames ths) @ le_bytes 8 (wait_event ths) @
     le_bytes 8 (continuation ths) @ le_bytes 8 (thread_id ths) @ le_bytes 4 (thread_state ths) @ le_bytes 1 ss_flags"
  have n: "nkern_frames ths = length kern" "nuser_frames ths = length user" "good_frames user" "good_frames kern" "user \<noteq> [] \<longrightarrow> is64bit st"
    using assms(1) Thread by simp_all
  have "read_thread m (length pre) = Some ths" "rd_le 4 m (length pre) = Some 0xfeedface"
    using assms(1) Thread by (simp_all add: assms(4) read_thread_def rd_fields)
  moreover have "frame_lines 8 (user_step (is64bit st)) m (length pre + 41) (length user) = Some (concat (map frame_line user))"
    using user_lines [OF n(3), of "pre @ ?head" "length pre + 41" "frame_bytes kern @ rest"] n(5) Thread
    by (cases "user = []") (simp_all add: assms(4) user_step_def)
  moreover have "frame_lines 4 16 m (length pre + 41 + user_step (is64bit st) * length user) (length kern) =
      Some (concat (map (\<lambda>f. frame_line (halves f)) kern))"
    using kern_lines [OF n(4), of "pre @ ?head @ frame_bytes user" "length pre + 41 + user_step (is64bit st) * length user" rest] n(5) Thread
    by (cases "user = []") (simp_all add: assms(4) user_step_def length_frame_bytes)
  moreover have "frames_size (is64bit st) ths = length (frame_bytes user @ frame_bytes kern)"
    using n(1,2,5) by (cases "user = []") (simp_all add: frames_size_def user_step_def length_frame_bytes)
  ultimately show ?thesis using Thread assms(2,3) n(1,2)
    by (intro exI [of _ False], cases st) (simp add: snapshot_body_def Let_def magic_defs sizeof_thread_def dump_frames_def next_is64_def)
qed

lemma snap_bytes_pos: "0 < length (snap_bytes s)"
  by (cases s) simp_all

lemma snapshot_loop:
  "good_snaps (is64bit st) ss \<Longrightarrow> off_now st = length pre \<Longrightarrow> m = pre @ concat (map snap_bytes ss) @ rest \<Longrightarrow>
   rc = length pre + length (concat (map snap_bytes ss)) \<Longrightarrow> length ss < fuel \<Longrightarrow>
   loop fuel (snapshot_body m rc) st = Some (printed st @ snap_texts (length pre) ss)"
proof (induction ss arbitrary: st pre fuel)
  case Nil
  then obtain f where "fuel = Suc f" by (cases fuel) auto
  then show ?case using Nil by (simp add: snapshot_body_def)
next
  case (Cons s ss)
  then obtain f where f: "fuel = Suc f" "length ss < f" by (cases fuel) auto
  have good: "good_snaps (is64bit st) [s]" "good_snaps (next_is64 (is64bit st) s) ss" using Cons.prems(1) good_snaps_Cons by blast+
  obtain w where step: "snapshot_body m rc st = Some (Inl \<lparr>off_now = length (pre @ snap_bytes s), warned = w,
      is64bit = next_is64 (is64bit st) s, printed = printed st @ snap_text (length pre) s\<rparr>)"
    using snapshot_step [OF good(1) Cons.prems(2), of rc m "concat (map snap_bytes ss) @ rest"] snap_bytes_pos [of s] Cons.prems(3,4) by auto
  have "loop f (snapshot_body m rc) \<lparr>off_now = length (pre @ snap_bytes s), warned = w,
      is64bit = next_is64 (is64bit st) s, printed = printed st @ snap_text (length pre) s\<rparr> =
      Some ((printed st @ snap_text (length pre) s) @ snap_texts (length (pre @ snap_bytes s)) ss)"
    using Cons.IH [of "\<lparr>off_now = length (pre @ snap_bytes s), warned = w, is64bit = next_is64 (is64bit st) s,
        printed = printed st @ snap_text (length pre) s\<rparr>" "pre @ snap_bytes s" f] good(2) Cons.prems(3,4) f(2) by simp
  then show ?case using step by (simp add: f(1))
qed

text \<open>C36: For a snapshot of records as the kernel writes them, whose user frames belong to 64-bit tasks, the tool ends and
  shows every record in order: memory, tasks with their offset, threads with their offset, state and frames. User
  frames show as they are, a kernel frame as the two halves of its return address, without its frame pointer.\<close>

theorem snapshot_listed:
  assumes "good_snaps False ss" "rc = int (length (concat (map snap_bytes ss)))" "length ss < fuel"
  shows "stack_snapshot_main fuel (concat (map snap_bytes ss) @ rest) rc = Some (0, snap_texts 0 ss)"
  using snapshot_loop [of "\<lparr>off_now = 0, warned = False, is64bit = False, printed = []\<rparr>" ss "[]" _ rest "nat rc" fuel] assms
  by (simp add: stack_snapshot_main_def)

definition small_snaps :: "snap list" where
  "small_snaps = [Task \<lparr>task_pid = 7, task_flags = 1, p_comm = str ''a''\<rparr> 0,
     Thread \<lparr>nkern_frames = 1, nuser_frames = 1, wait_event = 0, continuation = 0, thread_id = 16, thread_state = 4\<rparr> 0 [(17, 18)] [(2 ^ 32 * 3 + 2, 5)]]"

lemma snapshot_listed_witness:
  "stack_snapshot_main 3 (concat (map snap_bytes small_snaps) @ [0]) 103 =
    Some (0, str ''OFF: 0'' @ [10] @ str ''PID: 7 (a) Flags: 1 '' @ [10] @ str ''OFF: 30'' @ [10] @
      9 # str ''Thread ID: 0x10 State: 4 - running '' @ [10] @ 9 # str ''Frames:    1 kernel 1 user'' @ [10] @
      [9, 9] @ str ''0x11'' @ [9] @ str ''0x12'' @ [10] @ [9, 9] @ str ''0x2'' @ [9] @ str ''0x3'' @ [10])"
proof -
  have numbers: "show_int 7 = ''7''" "show_int 4 = ''4''" "show_int 1 = ''1''" "show_nat 0 = ''0''" "show_nat 30 = ''30''"
    "show_hex 1 = ''1''" "show_hex 2 = ''2''" "show_hex 3 = ''3''" "show_hex 16 = ''10''" "show_hex 17 = ''11''" "show_hex 18 = ''12''"
    by code_simp+
  have "snap_texts 0 small_snaps = str ''OFF: 0'' @ [10] @ str ''PID: 7 (a) Flags: 1 '' @ [10] @ str ''OFF: 30'' @ [10] @
      9 # str ''Thread ID: 0x10 State: 4 - running '' @ [10] @ 9 # str ''Frames:    1 kernel 1 user'' @ [10] @
      [9, 9] @ str ''0x11'' @ [9] @ str ''0x12'' @ [10] @ [9, 9] @ str ''0x2'' @ [9] @ str ''0x3'' @ [10]"
    using numbers by (simp add: small_snaps_def off_line_def dump_task_def dump_thread_def thread_stateToText_def texts_set_def TH_texts_def
        frame_line_def halves_def int32_def lld_def hex_0x_def str_def nl_def tab9_def)
  then show ?thesis
    using snapshot_listed [of small_snaps 103 3 "[0]"]
    by (simp add: small_snaps_def good_frames_def frame_bytes_def str_def)
qed

text \<open>The old memory magic is never passed.\<close>

theorem snapshot_endless:
  assumes "rd_le 4 m 0 = Some STACKSHOT_MEM_SNAPSHOT_MAGIC" "0 < rc"
  shows "stack_snapshot_main fuel m rc = None"
proof -
  have "loop fuel (snapshot_body m (nat rc)) st = None" if "off_now st = 0" for st
    using that by (induction fuel arbitrary: st) (use assms in \<open>simp_all add: snapshot_body_def magic_defs\<close>)
  then show ?thesis using assms(2) by (simp add: stack_snapshot_main_def)
qed

lemma snapshot_endless_witness: "stack_snapshot_main 1000 [0xba, 0xdc, 0xcd, 0xab] 4 = None"
  by (rule snapshot_endless) (simp_all add: rd_le_def slice_def STACKSHOT_MEM_SNAPSHOT_MAGIC_def)

end
