(* ===== verification/Netbottom.thy ===== *)
theory Netbottom
  imports Prelude
begin

text \<open>
  The network monitor \<open>src/src/netbottom.c\<close>: the slots of the processes, the line for the description of a source, and
  the choice of providers. The descriptions that NetworkStatistics hands to the block, the names that \<open>getnameinfo\<close>
  finds and the times are parameters; their strings contain no zero. \<open>AF_INET\<close> is 2 and \<open>AF_INET6\<close> is 30, and an
  address starts with its length and family, as on Darwin.
\<close>

section \<open>Colours\<close>

definition ESC :: string where "ESC = [CHR 0x1B]"

definition NORMAL_colour :: string where "NORMAL_colour = ESC @ ''[0;0m''"

definition tcpStateColors :: "(string \<times> string) list" where
  "tcpStateColors =
     [(''Listen'', ESC @ ''[1;1m''), (''Established'', ESC @ ''[0;36m''), (''CloseWait'', ESC @ ''[0;37m''), (''Closed'', ESC @ ''[2;31m'')]"

definition getColor :: "string \<Rightarrow> string" where
  "getColor State = (case map_of tcpStateColors State of Some c \<Rightarrow> c | None \<Rightarrow> NORMAL_colour)"

section \<open>Slots\<close>

definition PID_MAX :: nat where "PID_MAX = 1000000"

text \<open>The provider is its buffer of 128 characters, all zero at first.\<close>

definition NUL :: char where "NUL = CHR 0x00"

record slot =
  slot_pid :: int
  slot_af :: nat
  procName :: string
  slot_provider :: string
  tcpState :: string

definition empty_slot :: "int \<Rightarrow> slot" where
  "empty_slot p = \<lparr>slot_pid = p, slot_af = 0, procName = [], slot_provider = replicate 128 NUL, tcpState = []\<rparr>"

text \<open>The slots in use, and the position of the process; the array has \<open>PID_MAX\<close> slots.\<close>

fun slot_index :: "slot list \<Rightarrow> int \<Rightarrow> nat option" where
  "slot_index [] p = None"
| "slot_index (s # ss) p = (if slot_pid s = p then Some 0 else map_option Suc (slot_index ss p))"

definition findSlotForPid :: "slot list \<Rightarrow> int \<Rightarrow> (slot list \<times> nat) option" where
  "findSlotForPid slots p =
     (case slot_index slots p of
        Some i \<Rightarrow> Some (slots, i)
      | None \<Rightarrow> if length slots < PID_MAX then Some (slots @ [empty_slot p], length slots) else None)"

section \<open>Descriptions\<close>

record description =
  d_pid :: int
  d_provider :: string
  d_state :: "string option"
  d_name :: string
  d_remote :: mem
  d_local :: mem
  d_host :: "bool \<Rightarrow> string"
  d_time :: string

text \<open>\<open>CFStringGetCString\<close>; what a buffer holds that is too small is not specified.\<close>

definition get_cstring :: "nat \<Rightarrow> string \<Rightarrow> string option" where
  "get_cstring n s = (if length s < n then Some s else None)"

text \<open>The same into a buffer with contents, and the text in a buffer.\<close>

definition fill :: "string \<Rightarrow> string \<Rightarrow> string option" where
  "fill buf s = (if length s < length buf then Some (s @ NUL # drop (length s + 1) buf) else None)"

definition buffer_text :: "string \<Rightarrow> string option" where
  "buffer_text buf = (if NUL \<in> set buf then Some (takeWhile (\<lambda>c. c \<noteq> NUL) buf) else None)"

definition tolower :: "char \<Rightarrow> char" where
  "tolower c = (if 65 \<le> (of_char c :: nat) \<and> (of_char c :: nat) \<le> 90 then char_of ((of_char c :: nat) + 32) else c)"

text \<open>The provider in lower case, with the digit of the remote address behind it in place of the terminator.\<close>

definition tag_provider :: "string \<Rightarrow> bool \<Rightarrow> string option" where
  "tag_provider buf v6 = do {
     p \<leftarrow> buffer_text buf;
     Some (map tolower p @ (if v6 then CHR ''6'' else CHR ''4'') # drop (length p + 1) buf)
   }"

definition inet_ntoa :: "mem \<Rightarrow> string" where
  "inet_ntoa addr = (case map (\<lambda>b. show_nat (unat b)) addr of
     [a, b, c, d] \<Rightarrow> a @ ''.'' @ b @ ''.'' @ c @ ''.'' @ d
   | _ \<Rightarrow> [])"

definition AF_INET :: nat where "AF_INET = 2"

definition AF_INET6 :: nat where "AF_INET6 = 30"

text \<open>The fields of \<open>sockaddr_in\<close>, at which addresses of both families are read.\<close>

definition sa_family :: "mem \<Rightarrow> nat option" where
  "sa_family sa = rd_le 1 sa 1"

definition sin_port :: "mem \<Rightarrow> nat option" where
  "sin_port sa = rd_be 2 sa 2"

definition sin_addr :: "mem \<Rightarrow> mem option" where
  "sin_addr sa = slice sa 4 4"

definition tab_char :: string where "tab_char = [CHR 0x09]"

definition source_row :: "string \<Rightarrow> string \<Rightarrow> string \<Rightarrow> nat \<Rightarrow> nat \<Rightarrow> string \<Rightarrow> nat \<Rightarrow> string \<Rightarrow> int \<Rightarrow> string \<Rightarrow> string" where
  "source_row ts prov l lport width host rport state p name =
     ts @ '' '' @ prov @ tab_char @ pad_left 20 l @ '':'' @ show_nat lport @ tab_char @ pad_left width host @ '':'' @
       pad_right 5 (show_nat rport) @ ''  '' @ pad_right 11 state @ tab_char @ show_int p @ ''/'' @ name"

text \<open>The slot of a description and its line. Without a host name there is no colour, and nothing for other families.\<close>

definition update_slot :: "slot \<Rightarrow> description \<Rightarrow> nat \<Rightarrow> slot option" where
  "update_slot s d af = do {
     buf \<leftarrow> fill (slot_provider s) (d_provider d);
     state \<leftarrow> (if hd buf = CHR ''T'' then do { st \<leftarrow> d_state d; get_cstring 16 st } else Some (tcpState s));
     name \<leftarrow> get_cstring 1024 (d_name d);
     buf \<leftarrow> tag_provider buf (af = AF_INET6);
     Some (s\<lparr>slot_af := af, procName := name, slot_provider := buf, tcpState := state\<rparr>)
   }"

definition source_line :: "bool \<Rightarrow> bool \<Rightarrow> slot \<Rightarrow> description \<Rightarrow> string option" where
  "source_line g_Color g_resolveNames s d = do {
     prov \<leftarrow> buffer_text (slot_provider s);
     local_addr \<leftarrow> sin_addr (d_local d);
     lport \<leftarrow> sin_port (d_local d);
     rport \<leftarrow> sin_port (d_remote d);
     let host = d_host d g_resolveNames;
     let state = (if hd (slot_provider s) = CHR ''t'' then tcpState s else []);
     let row = (\<lambda>width name. source_row (d_time d) prov (inet_ntoa local_addr) lport width name rport state (slot_pid s) (procName s));
     if host \<noteq> [] then
       Some ((if g_Color then getColor (tcpState s) else []) @ row 30 host @ (if g_Color then NORMAL_colour else []) @ [CHR 0x0A])
     else do {
       remote_addr \<leftarrow> sin_addr (d_remote d);
       Some (if slot_af s = AF_INET then row 20 (inet_ntoa remote_addr) @ [CHR 0x0A]
             else if slot_af s = AF_INET6 then row 30 (inet_ntoa remote_addr) @ [CHR 0x0A]
             else [])
     }
   }"

definition description_callback :: "bool \<Rightarrow> bool \<Rightarrow> slot list \<Rightarrow> description \<Rightarrow> (slot list \<times> string) option" where
  "description_callback g_Color g_resolveNames slots d = do {
     (slots, i) \<leftarrow> findSlotForPid slots (d_pid d);
     af \<leftarrow> sa_family (d_remote d);
     s \<leftarrow> update_slot (slots ! i) d af;
     line \<leftarrow> source_line g_Color g_resolveNames s d;
     Some (slots[i := s], line)
   }"

fun descriptions :: "bool \<Rightarrow> bool \<Rightarrow> slot list \<Rightarrow> description list \<Rightarrow> (slot list \<times> string) option" where
  "descriptions g_Color g_resolveNames slots [] = Some (slots, [])"
| "descriptions g_Color g_resolveNames slots (d # ds) = do {
     (slots, line) \<leftarrow> description_callback g_Color g_resolveNames slots d;
     (slots, rest) \<leftarrow> descriptions g_Color g_resolveNames slots ds;
     Some (slots, line @ rest)
   }"

section \<open>Main\<close>

datatype nstat_provider = UDP_sources | TCP_sources

text \<open>The environment variables, the arguments and the descriptions that arrive for the providers asked for.\<close>

definition netbottom_main ::
  "string option \<Rightarrow> string option \<Rightarrow> string list \<Rightarrow> (nstat_provider list \<Rightarrow> description list) \<Rightarrow> (nat + string) option" where
  "netbottom_main JCOLOR RESOLVE argv arriving =
     (let g_Color = (case JCOLOR of Some c \<Rightarrow> take 1 c \<noteq> ''0'' | None \<Rightarrow> True); g_resolveNames = (RESOLVE \<noteq> None) in
      if length argv < 2 then Some (Inl 1)
      else
        let wantTCP = (argv ! 1 = ''tcp'' \<or> argv ! 1 = ''all''); wantUDP = (argv ! 1 = ''udp'' \<or> argv ! 1 = ''all'') in
        if \<not> wantTCP \<and> \<not> wantUDP then Some (Inl 2)
        else map_option (\<lambda>r. Inr (snd r)) (descriptions g_Color g_resolveNames []
          (arriving ((if wantUDP then [UDP_sources] else []) @ (if wantTCP then [TCP_sources] else [])))))"

section \<open>What is printed\<close>

text \<open>Descriptions of TCP and UDP sources whose texts fit.\<close>

definition good_description :: "description \<Rightarrow> bool" where
  "good_description d \<longleftrightarrow> d_provider d \<in> {''TCP'', ''UDP''} \<and>
     (d_provider d = ''TCP'' \<longrightarrow> (case d_state d of Some st \<Rightarrow> length st < 16 | None \<Rightarrow> False)) \<and>
     length (d_name d) < 1024 \<and> 8 \<le> length (d_local d) \<and> 8 \<le> length (d_remote d)"

text \<open>The line of a description, where \<open>st\<close> is the last TCP state of its process: the column of the state is for TCP only,
  the colour for both.\<close>

definition shown_line :: "bool \<Rightarrow> bool \<Rightarrow> string \<Rightarrow> description \<Rightarrow> string" where
  "shown_line g_Color g_resolveNames st d =
     (let af = unat (d_remote d ! 1); tcp = (d_provider d = ''TCP''); host = d_host d g_resolveNames;
          row = (\<lambda>width name. source_row (d_time d) ((if tcp then ''tcp'' else ''udp'') @ (if af = AF_INET6 then ''6'' else ''4''))
            (inet_ntoa (take 4 (drop 4 (d_local d)))) (be_val (take 2 (drop 2 (d_local d)))) width name
            (be_val (take 2 (drop 2 (d_remote d)))) (if tcp then st else []) (d_pid d) (d_name d))
      in if host \<noteq> [] then (if g_Color then getColor st else []) @ row 30 host @ (if g_Color then NORMAL_colour else []) @ [CHR 0x0A]
         else if af = AF_INET then row 20 (inet_ntoa (take 4 (drop 4 (d_remote d)))) @ [CHR 0x0A]
         else if af = AF_INET6 then row 30 (inet_ntoa (take 4 (drop 4 (d_remote d)))) @ [CHR 0x0A]
         else [])"

definition note_state :: "(int \<Rightarrow> string) \<Rightarrow> description \<Rightarrow> int \<Rightarrow> string" where
  "note_state states d = (if d_provider d = ''TCP'' then states(d_pid d := the (d_state d)) else states)"

fun shown_lines :: "bool \<Rightarrow> bool \<Rightarrow> (int \<Rightarrow> string) \<Rightarrow> description list \<Rightarrow> string" where
  "shown_lines g_Color g_resolveNames states [] = []"
| "shown_lines g_Color g_resolveNames states (d # ds) =
     shown_line g_Color g_resolveNames (note_state states d (d_pid d)) d @ shown_lines g_Color g_resolveNames (note_state states d) ds"

text \<open>The slots: one for each process, with its last TCP state and a provider of at most four characters.\<close>

definition slots_ok :: "slot list \<Rightarrow> (int \<Rightarrow> string) \<Rightarrow> bool" where
  "slots_ok slots states \<longleftrightarrow> distinct (map slot_pid slots) \<and>
     (\<forall>s \<in> set slots. length (slot_provider s) = 128 \<and> drop 4 (slot_provider s) = replicate 124 NUL \<and> tcpState s = states (slot_pid s)) \<and>
     (\<forall>p. p \<notin> slot_pid ` set slots \<longrightarrow> states p = [])"

lemma slot_index_found: "slot_index slots p = Some i \<Longrightarrow> i < length slots \<and> slot_pid (slots ! i) = p"
  by (induction slots arbitrary: i) (auto split: if_splits)

lemma slot_index_none: "slot_index slots p = None \<longleftrightarrow> p \<notin> slot_pid ` set slots"
  by (induction slots) (auto split: if_splits)

lemma find_ok:
  assumes "slots_ok slots states" "length slots < PID_MAX"
  shows "\<exists>slots' i. findSlotForPid slots p = Some (slots', i) \<and> i < length slots' \<and> slot_pid (slots' ! i) = p \<and>
    slots_ok slots' states \<and> length slots' \<le> length slots + 1 \<and> slot_pid ` set slots' = insert p (slot_pid ` set slots)"
proof (cases "slot_index slots p")
  case None
  then have "slots_ok (slots @ [empty_slot p]) states"
    using assms(1) by (auto simp: slots_ok_def empty_slot_def slot_index_none)
  then show ?thesis using None assms(2) by (auto simp: findSlotForPid_def empty_slot_def)
next
  case (Some i)
  then show ?thesis using assms(1) slot_index_found [OF Some] by (auto simp: findSlotForPid_def insert_absorb)
qed

lemma lower_names: "map tolower ''TCP'' = ''tcp''" "map tolower ''UDP'' = ''udp''"
  by code_simp+

lemma provider_tagged:
  assumes "length buf = 128" "drop 4 buf = replicate 124 NUL" "p \<in> {''TCP'', ''UDP''}"
  shows "\<exists>b. fill buf p = Some b \<and> (hd b = CHR ''T'' \<longleftrightarrow> p = ''TCP'') \<and>
    tag_provider b v6 = Some ((if p = ''TCP'' then ''tcp'' else ''udp'') @ (if v6 then ''6'' else ''4'') @ replicate 124 NUL)"
proof -
  have "length p = 3" using assms(3) by auto
  then have "fill buf p = Some (p @ NUL # replicate 124 NUL)" using assms(1,2) by (simp add: fill_def)
  moreover have "buffer_text (p @ NUL # replicate 124 NUL) = Some p" using assms(3) by (auto simp: buffer_text_def NUL_def)
  ultimately show ?thesis using assms(3) by (auto simp: tag_provider_def lower_names simp del: list.map)
qed

lemma buffer_tagged: "NUL \<notin> set p \<Longrightarrow> buffer_text (p @ replicate (Suc n) NUL) = Some p"
  by (auto simp: buffer_text_def takeWhile_tail takeWhile_eq_all_conv)

lemma updated_member: "t \<in> set (xs[i := x]) \<Longrightarrow> t \<noteq> x \<Longrightarrow> \<exists>j < length xs. j \<noteq> i \<and> t = xs ! j"
  by (metis in_set_conv_nth length_list_update nth_list_update_eq nth_list_update_neq)

lemma described:
  assumes "slots_ok slots states" "i < length slots" "slot_pid (slots ! i) = d_pid d" "good_description d"
  shows "\<exists>s. update_slot (slots ! i) d (unat (d_remote d ! 1)) = Some s \<and>
    source_line g_Color g_resolveNames s d = Some (shown_line g_Color g_resolveNames (note_state states d (d_pid d)) d) \<and>
    slots_ok (slots[i := s]) (note_state states d) \<and> slot_pid s = d_pid d"
proof -
  let ?s = "slots ! i" and ?v6 = "unat (d_remote d ! 1) = AF_INET6" and ?tcp = "d_provider d = ''TCP''"
  let ?prov = "(if ?tcp then ''tcp'' else ''udp'') @ (if ?v6 then ''6'' else ''4'') @ replicate 124 NUL"
  let ?st = "note_state states d (d_pid d)"
  have s: "length (slot_provider ?s) = 128" "drop 4 (slot_provider ?s) = replicate 124 NUL" "tcpState ?s = states (d_pid d)"
    using assms(1-3) nth_mem [OF assms(2)] by (auto simp: slots_ok_def)
  have d: "d_provider d \<in> {''TCP'', ''UDP''}" "length (d_name d) < 1024" "8 \<le> length (d_local d)" "8 \<le> length (d_remote d)"
    "?tcp \<Longrightarrow> \<exists>st. d_state d = Some st \<and> length st < 16"
    using assms(4) by (auto simp: good_description_def split: option.splits)
  obtain b where b: "fill (slot_provider ?s) (d_provider d) = Some b" "hd b = CHR ''T'' \<longleftrightarrow> ?tcp" "tag_provider b ?v6 = Some ?prov"
    using provider_tagged [OF s(1,2) d(1)] by blast
  let ?new = "?s\<lparr>slot_af := unat (d_remote d ! 1), procName := d_name d, slot_provider := ?prov, tcpState := ?st\<rparr>"
  have "(if hd b = CHR ''T'' then do { st \<leftarrow> d_state d; get_cstring 16 st } else Some (tcpState ?s)) = Some ?st"
    using b(2) d(5) s(3) by (auto simp: note_state_def get_cstring_def)
  then have "update_slot ?s d (unat (d_remote d ! 1)) = Some ?new"
    using b d(2) by (simp add: update_slot_def get_cstring_def)
  moreover have "buffer_text ?prov = Some ((if ?tcp then ''tcp'' else ''udp'') @ (if ?v6 then ''6'' else ''4''))"
    using buffer_tagged [of "(if ?tcp then ''tcp'' else ''udp'') @ (if ?v6 then ''6'' else ''4'')" 123] by (simp add: NUL_def)
  then have "source_line g_Color g_resolveNames ?new d = Some (shown_line g_Color g_resolveNames ?st d)"
    using d(3,4) assms(3) by (simp add: source_line_def shown_line_def Let_def sin_addr_def sin_port_def slice_def rd_be_def)
  moreover have "slots_ok (slots[i := ?new]) (note_state states d)"
  proof -
    have "map slot_pid (slots[i := ?new]) = map slot_pid slots" using assms(2) by (simp add: map_update list_update_same_conv)
    moreover from this have "slot_pid ` set (slots[i := ?new]) = slot_pid ` set slots" by (metis list.set_map)
    moreover have "length (slot_provider t) = 128 \<and> drop 4 (slot_provider t) = replicate 124 NUL \<and> tcpState t = note_state states d (slot_pid t)"
      if t: "t \<in> set (slots[i := ?new])" for t
    proof (cases "t = ?new")
      case True
      then show ?thesis using assms(3) by simp
    next
      case False
      then obtain j where j: "j < length slots" "j \<noteq> i" "t = slots ! j" using updated_member [OF t] by blast
      then have "slot_pid t \<noteq> d_pid d" using assms(1-3) nth_eq_iff_index_eq [of "map slot_pid slots" j i] by (auto simp: slots_ok_def)
      then show ?thesis using assms(1) j by (auto simp: slots_ok_def note_state_def)
    qed
    moreover have "d_pid d \<in> slot_pid ` set slots" using assms(2,3) by (metis image_eqI nth_mem)
    ultimately show ?thesis using assms(1) by (auto simp: slots_ok_def note_state_def)
  qed
  ultimately show ?thesis using assms(3) by (intro exI [of _ ?new]) simp
qed

lemma netbottom_from:
  "slots_ok slots states \<Longrightarrow> length slots + length ds \<le> PID_MAX \<Longrightarrow> \<forall>d \<in> set ds. good_description d \<Longrightarrow>
   \<exists>slots'. descriptions g_Color g_resolveNames slots ds = Some (slots', shown_lines g_Color g_resolveNames states ds) \<and>
     distinct (map slot_pid slots') \<and> slot_pid ` set slots' = slot_pid ` set slots \<union> d_pid ` set ds"
proof (induction ds arbitrary: slots states)
  case Nil
  then show ?case by (auto simp: slots_ok_def)
next
  case (Cons d ds)
  obtain slots1 i where found: "findSlotForPid slots (d_pid d) = Some (slots1, i)" "i < length slots1" "slot_pid (slots1 ! i) = d_pid d"
      "slots_ok slots1 states" "length slots1 \<le> length slots + 1" "slot_pid ` set slots1 = insert (d_pid d) (slot_pid ` set slots)"
    using find_ok [OF Cons.prems(1), of "d_pid d"] Cons.prems(2) by auto
  have good: "good_description d" using Cons.prems(3) by simp
  obtain s where s: "update_slot (slots1 ! i) d (unat (d_remote d ! 1)) = Some s"
      "source_line g_Color g_resolveNames s d = Some (shown_line g_Color g_resolveNames (note_state states d (d_pid d)) d)"
      "slots_ok (slots1[i := s]) (note_state states d)" "slot_pid s = d_pid d"
    using described [OF found(4,2,3) good] by blast
  have "sa_family (d_remote d) = Some (unat (d_remote d ! 1))"
    using good by (simp add: good_description_def sa_family_def rd_le_in take_Suc hd_drop_conv_nth)
  then have step: "description_callback g_Color g_resolveNames slots d =
      Some (slots1[i := s], shown_line g_Color g_resolveNames (note_state states d (d_pid d)) d)"
    using found(1) s(1,2) by (simp add: description_callback_def)
  obtain slots' where "descriptions g_Color g_resolveNames (slots1[i := s]) ds =
      Some (slots', shown_lines g_Color g_resolveNames (note_state states d) ds)" "distinct (map slot_pid slots')"
      "slot_pid ` set slots' = slot_pid ` set (slots1[i := s]) \<union> d_pid ` set ds"
    using Cons.IH [OF s(3)] found(5) Cons.prems(2,3) by auto
  moreover have "map slot_pid (slots1[i := s]) = map slot_pid slots1" using found(2,3) s(4) by (simp add: map_update list_update_same_conv)
  then have "slot_pid ` set (slots1[i := s]) = slot_pid ` set slots1" by (metis list.set_map)
  ultimately show ?case using step found(6) by auto
qed

text \<open>C37: Whatever TCP and UDP sources are described, every description prints one line with its time, addresses, process
  and, for TCP, its state; the colour is that of the last TCP state of the process, also for UDP; and every process
  that was seen has exactly one slot.\<close>

theorem netbottom_lines:
  assumes "\<forall>d \<in> set ds. good_description d" "length ds \<le> PID_MAX"
  shows "\<exists>slots. descriptions g_Color g_resolveNames [] ds = Some (slots, shown_lines g_Color g_resolveNames (\<lambda>_. []) ds) \<and>
    distinct (map slot_pid slots) \<and> slot_pid ` set slots = d_pid ` set ds"
  using netbottom_from [of "[]" "\<lambda>_. []" ds] assms by (simp add: slots_ok_def)

definition small_source :: "string \<Rightarrow> string option \<Rightarrow> description" where
  "small_source p st = \<lparr>d_pid = 7, d_provider = p, d_state = st, d_name = ''a'', d_remote = [16, 2, 0, 80, 1, 2, 3, 4],
     d_local = [16, 2, 1, 0, 127, 0, 0, 1], d_host = (\<lambda>_. ''h''), d_time = ''t''\<rparr>"

lemma netbottom_lines_witness:
  "\<exists>slots. descriptions True False [] [small_source ''TCP'' (Some ''Listen''), small_source ''UDP'' None] =
      Some (slots, ESC @ ''[1;1mt tcp4'' @ tab_char @ ''           127.0.0.1:256'' @ tab_char @
        ''                             h:80     Listen     '' @ tab_char @ ''7/a'' @ ESC @ ''[0;0m'' @ [CHR 0x0A] @
        ESC @ ''[1;1mt udp4'' @ tab_char @ ''           127.0.0.1:256'' @ tab_char @
        ''                             h:80                '' @ tab_char @ ''7/a'' @ ESC @ ''[0;0m'' @ [CHR 0x0A]) \<and>
    length slots = 1"
proof -
  let ?ds = "[small_source ''TCP'' (Some ''Listen''), small_source ''UDP'' None]"
  have "shown_lines True False (\<lambda>_. []) ?ds = ESC @ ''[1;1mt tcp4'' @ tab_char @ ''           127.0.0.1:256'' @ tab_char @
        ''                             h:80     Listen     '' @ tab_char @ ''7/a'' @ ESC @ ''[0;0m'' @ [CHR 0x0A] @
        ESC @ ''[1;1mt udp4'' @ tab_char @ ''           127.0.0.1:256'' @ tab_char @
        ''                             h:80                '' @ tab_char @ ''7/a'' @ ESC @ ''[0;0m'' @ [CHR 0x0A]"
    by code_simp
  moreover have "\<forall>d \<in> set ?ds. good_description d" "length ?ds \<le> PID_MAX" by (simp_all add: good_description_def small_source_def PID_MAX_def)
  ultimately obtain slots where "descriptions True False [] ?ds = Some (slots, shown_lines True False (\<lambda>_. []) ?ds)"
      "distinct (map slot_pid slots)" "slot_pid ` set slots = d_pid ` set ?ds"
    using netbottom_lines [of ?ds True False] by blast
  moreover from this have "length slots = 1"
    using distinct_card [of "map slot_pid slots"] by (simp add: small_source_def)
  ultimately show ?thesis using \<open>shown_lines True False (\<lambda>_. []) ?ds = _\<close> by auto
qed

end
