(* ===== verification/Amfid.thy ===== *)
theory Amfid
  imports Prelude
begin

text \<open>
  \<open>src/src/amfidebilitate.c\<close>: the hash of the code directory of a file (\<open>cdHashOfFile\<close>), the search for a process, and
  the answer to an exception message. SHA-1, SHA-256, the files, \<open>proc_name\<close> and the virtual memory calls are
  parameters. The Mach-O layouts and numbers are those of \<open>mach-o/loader.h\<close> and \<open>mach-o/fat.h\<close>, on a machine that stores
  the least significant byte first. What the functions print is left out. A file is read as a whole. The program is modelled as it is built
  without \<open>_11\<close>: a request resumes at 0xef4 in the page of the link register.
\<close>

section \<open>Finding a process\<close>

text \<open>\<open>proc_name\<close> gives a name, or none when it returns 0.\<close>

function find_pid :: "(nat \<Rightarrow> string option) \<Rightarrow> string \<Rightarrow> nat \<Rightarrow> nat" where
  "find_pid proc_name ProcName pid =
     (if pid < 65536 then if proc_name pid = Some ProcName then pid else find_pid proc_name ProcName (pid + 1) else 0)"
  by pat_completeness auto
termination by (relation "measure (\<lambda>(_, _, pid). 65536 - pid)") auto

declare find_pid.simps [simp del]

definition findPidOfProcess :: "(nat \<Rightarrow> string option) \<Rightarrow> string \<Rightarrow> nat" where
  "findPidOfProcess proc_name ProcName = find_pid proc_name ProcName 1"

section \<open>The code directory of a file\<close>

definition MH_MAGIC_64 :: nat where "MH_MAGIC_64 = 0xfeedfacf"

definition FAT_CIGAM :: nat where "FAT_CIGAM = 0xbebafeca"

definition LC_CODE_SIGNATURE :: nat where "LC_CODE_SIGNATURE = 0x1d"

definition sizeof_mach_header_64 :: nat where "sizeof_mach_header_64 = 32"

definition kSecCodeMagicCodeDirectory :: nat where "kSecCodeMagicCodeDirectory = 0xfade0c02"

datatype algorithm = ALGORITHM_SHA256 | ALGORITHM_SHA1

text \<open>The loop over the architectures: the last one for ARM64 decides. The type is compared as it is stored.\<close>

fun fat_archs :: "mem \<Rightarrow> nat \<Rightarrow> nat \<Rightarrow> nat \<Rightarrow> nat option" where
  "fat_archs file_contents 0 fa mh = Some mh"
| "fat_archs file_contents (Suc n) fa mh = do {
     cputype \<leftarrow> rd_le 4 file_contents fa;
     mh \<leftarrow> (if cputype = 0xc000001 then rd_be 4 file_contents (fa + 8) else Some mh);
     fat_archs file_contents n (fa + 20) mh
   }"

text \<open>The position of the header, or none for a file with another magic. The counter is a signed integer of 32 bits.\<close>

definition mach_header_at :: "mem \<Rightarrow> nat option option" where
  "mach_header_at file_contents = do {
     magic \<leftarrow> rd_le 4 file_contents 0;
     if magic = MH_MAGIC_64 then Some (Some 0)
     else if magic = FAT_CIGAM then do {
       nfat_arch \<leftarrow> rd_be 4 file_contents 4;
       if 2 ^ 31 \<le> nfat_arch then None
       else do {
         mh \<leftarrow> fat_archs file_contents nfat_arch 8 0;
         _ \<leftarrow> rd_le 4 file_contents mh;
         Some (Some mh)
       }
     }
     else Some None
   }"

text \<open>The walk to the last load command, in the given number of steps.\<close>

fun walk_commands :: "mem \<Rightarrow> nat \<Rightarrow> nat \<Rightarrow> nat option" where
  "walk_commands file_contents 0 lc = Some lc"
| "walk_commands file_contents (Suc n) lc = do {
     cmdsize \<leftarrow> rd_le 4 file_contents (lc + 4);
     walk_commands file_contents n (lc + cmdsize)
   }"

definition last_command :: "mem \<Rightarrow> nat \<Rightarrow> nat option" where
  "last_command file_contents mh = do {
     ncmds \<leftarrow> rd_le 4 file_contents (mh + 16);
     let steps = (ncmds + (2 ^ 32 - 1)) mod 2 ^ 32;
     if 2 ^ 31 \<le> steps then None else walk_commands file_contents steps (mh + sizeof_mach_header_64)
   }"

text \<open>Signatures of the App Store that are not a developer's; ten characters are compared.\<close>

definition app_store :: "mem \<Rightarrow> bool" where
  "app_store blob \<longleftrightarrow> \<not> strstr blob (str ''Apple Worldwide Developer Relations'') \<and> strstr blob (take 10 (str ''Apple Certi''))"

definition hash_size :: "algorithm \<Rightarrow> nat" where
  "hash_size Algorithm = (case Algorithm of ALGORITHM_SHA256 \<Rightarrow> 32 | ALGORITHM_SHA1 \<Rightarrow> 20)"

text \<open>The search for a code directory of the algorithm: the blobs that are left, the number and the position of this one.
  After a mismatch the position of the next is read, also behind the last.\<close>

fun match_blob :: "mem \<Rightarrow> algorithm \<Rightarrow> nat \<Rightarrow> nat \<Rightarrow> nat \<Rightarrow> nat \<Rightarrow> nat option option" where
  "match_blob file_contents Algorithm b 0 numBlob cdb = Some None"
| "match_blob file_contents Algorithm b (Suc n) numBlob cdb = do {
     magic \<leftarrow> rd_be 4 file_contents cdb;
     match \<leftarrow> (if magic \<noteq> kSecCodeMagicCodeDirectory then Some False
               else map_option (\<lambda>hashSize. hashSize = hash_size Algorithm) (rd_le 1 file_contents (cdb + 36)));
     if match then Some (Some cdb)
     else do {
       blobOffset \<leftarrow> rd_be 4 file_contents (b + 12 + 8 * (numBlob + 1) + 4);
       match_blob file_contents Algorithm b n (numBlob + 1) (b + blobOffset)
     }
   }"

text \<open>The position of the code directory in the superblob at \<open>b\<close>, or none.\<close>

definition code_directory_at :: "mem \<Rightarrow> algorithm \<Rightarrow> nat \<Rightarrow> nat option option" where
  "code_directory_at file_contents Algorithm b = do {
     sz \<leftarrow> rd_be 4 file_contents (b + 4);
     blob \<leftarrow> slice file_contents b sz;
     if app_store blob then Some None
     else do {
       blobType \<leftarrow> rd_be 4 file_contents (b + 12);
       blobOffset \<leftarrow> rd_be 4 file_contents (b + 16);
       _ \<leftarrow> rd_be 4 file_contents (b + blobOffset);
       numBlobs \<leftarrow> rd_be 4 file_contents (b + 8);
       match_blob file_contents Algorithm b numBlobs 0 (b + blobOffset)
     }
   }"

text \<open>The hash, in a static buffer of 32 bytes of which SHA-1 writes 20. \<open>Some None\<close> is \<open>NULL\<close>.\<close>

definition digest_into :: "(mem \<Rightarrow> mem) \<Rightarrow> (mem \<Rightarrow> mem) \<Rightarrow> algorithm \<Rightarrow> mem \<Rightarrow> mem \<Rightarrow> mem" where
  "digest_into sha256 sha1 Algorithm cdHash cd =
     (case Algorithm of ALGORITHM_SHA256 \<Rightarrow> sha256 cd | ALGORITHM_SHA1 \<Rightarrow> sha1 cd @ drop 20 cdHash)"

definition cdHashOfFile :: "(mem \<Rightarrow> mem) \<Rightarrow> (mem \<Rightarrow> mem) \<Rightarrow> mem \<Rightarrow> mem option \<Rightarrow> algorithm \<Rightarrow> mem option option" where
  "cdHashOfFile sha256 sha1 cdHash contents Algorithm =
     (case contents of
        None \<Rightarrow> Some None
      | Some file_contents \<Rightarrow> do {
          header \<leftarrow> mach_header_at file_contents;
          case header of
            None \<Rightarrow> Some None
          | Some mh \<Rightarrow> do {
              lc \<leftarrow> last_command file_contents mh;
              cmd \<leftarrow> rd_le 4 file_contents lc;
              if cmd \<noteq> LC_CODE_SIGNATURE then Some None
              else do {
                dataoff \<leftarrow> rd_le 4 file_contents (lc + 8);
                datasize \<leftarrow> rd_le 4 file_contents (lc + 12);
                found \<leftarrow> code_directory_at file_contents Algorithm (mh + dataoff);
                case found of
                  None \<Rightarrow> Some None
                | Some cdb \<Rightarrow> do {
                    cdSize \<leftarrow> rd_be 4 file_contents (cdb + 4);
                    cd \<leftarrow> (if cdSize < 2 ^ 31 then slice file_contents cdb cdSize else None);
                    Some (Some (digest_into sha256 sha1 Algorithm cdHash cd))
                  }
              }
            }
        })"

section \<open>Answering exceptions\<close>

record arm_thread_state =
  arm_x :: "nat \<Rightarrow> 64 word"
  arm_lr :: "64 word"
  arm_pc :: "64 word"

record exception_message =
  msgh_bits :: "32 word"
  msgh_remote_port :: "32 word"
  msgh_id :: "32 word"

record exception_reply =
  reply_bits :: "32 word"
  reply_size :: nat
  reply_remote_port :: "32 word"
  reply_local_port :: "32 word"
  reply_id :: "32 word"
  RetCode :: nat

text \<open>What the handler relies on; \<open>original_code\<close> are the eight bytes at \<open>MVSACI_addr\<close> in its own memory.\<close>

record 't amfi_env =
  vm_read :: "'t \<Rightarrow> 64 word \<Rightarrow> nat \<Rightarrow> mem option"
  vm_write :: "'t \<Rightarrow> 64 word \<Rightarrow> mem \<Rightarrow> 't"
  files :: "mem \<Rightarrow> mem option"
  env_sha256 :: "mem \<Rightarrow> mem"
  env_sha1 :: "mem \<Rightarrow> mem"
  MVSACI_addr :: "64 word"
  original_code :: mem
  env_algorithm :: algorithm

definition exception_reply_to :: "exception_message \<Rightarrow> exception_reply" where
  "exception_reply_to msg =
     \<lparr>reply_bits = and (msgh_bits msg) 0x1f, reply_size = 36, reply_remote_port = msgh_remote_port msg, reply_local_port = 0,
      reply_id = msgh_id msg + 100, RetCode = 0\<rparr>"

text \<open>One message: the static buffer, the memory of the task, the state of the thread and the reply.\<close>

definition answer_exception ::
  "'t amfi_env \<Rightarrow> mem \<Rightarrow> 't \<Rightarrow> exception_message \<Rightarrow> arm_thread_state \<Rightarrow> (mem \<times> 't \<times> arm_thread_state \<times> exception_reply) option" where
  "answer_exception env cdHash victim msg old_state = do {
     name_bytes \<leftarrow> vm_read env victim (arm_x old_state 25) 0x200;
     fileName \<leftarrow> cstr_of name_bytes;
     cdh \<leftarrow> cdHashOfFile (env_sha256 env) (env_sha1 env) cdHash (files env fileName) (env_algorithm env);
     Some (case cdh of
       None \<Rightarrow>
         (cdHash, vm_write env victim (arm_pc old_state) (original_code env), old_state\<lparr>arm_pc := MVSACI_addr env\<rparr>, exception_reply_to msg)
     | Some h \<Rightarrow>
         (h, vm_write env (vm_write env victim (arm_x old_state 24) (take 20 h)) (arm_x old_state 20) (le_bytes 4 1),
          old_state\<lparr>arm_pc := and (arm_lr old_state) 0xfffffffffffff000 + 0x0ef4\<rparr>, exception_reply_to msg))
   }"

text \<open>The loop, over the messages that arrive and the states of their threads.\<close>

fun exceptionHandler ::
  "'t amfi_env \<Rightarrow> mem \<Rightarrow> 't \<Rightarrow> (exception_message \<times> arm_thread_state) list \<Rightarrow> (mem \<times> 't \<times> (arm_thread_state \<times> exception_reply) list) option" where
  "exceptionHandler env cdHash victim [] = Some (cdHash, victim, [])"
| "exceptionHandler env cdHash victim ((msg, old_state) # arriving) = do {
     (cdHash, victim, new_state, reply) \<leftarrow> answer_exception env cdHash victim msg old_state;
     (cdHash, victim, rest) \<leftarrow> exceptionHandler env cdHash victim arriving;
     Some (cdHash, victim, (new_state, reply) # rest)
   }"

section \<open>Choosing the algorithm\<close>

definition chosen_algorithm :: "string list \<Rightarrow> algorithm" where
  "chosen_algorithm argv = (if 1 < length argv \<and> argv ! 1 = ''sha1'' then ALGORITHM_SHA1 else ALGORITHM_SHA256)"

section \<open>The process that is found\<close>

lemma find_pid_from:
  "find_pid proc_name ProcName pid =
     (case List.find (\<lambda>p. proc_name p = Some ProcName) [pid..<65536] of Some p \<Rightarrow> p | None \<Rightarrow> 0)"
  by (induction proc_name ProcName pid rule: find_pid.induct) (subst find_pid.simps, simp add: upt_conv_Cons)

theorem findPidOfProcess_first:
  "findPidOfProcess proc_name ProcName = (case List.find (\<lambda>p. proc_name p = Some ProcName) [1..<65536] of Some p \<Rightarrow> p | None \<Rightarrow> 0)"
  unfolding findPidOfProcess_def find_pid_from ..

section \<open>Signed files\<close>

definition be_bytes :: "nat \<Rightarrow> nat \<Rightarrow> mem" where
  "be_bytes n v = rev (le_bytes n v)"

lemma length_be_bytes [simp]: "length (be_bytes n v) = n"
  by (simp add: be_bytes_def)

lemma le_bytes_4: "le_bytes 4 v =
    [of_nat (v mod 256), of_nat (v div 256 mod 256), of_nat (v div 256 div 256 mod 256), of_nat (v div 256 div 256 div 256 mod 256)]"
proof -
  have four: "4 = Suc (Suc (Suc (Suc 0)))" by simp
  show ?thesis unfolding four by (simp only: le_bytes.simps)
qed

text \<open>Reading what lies at a position.\<close>

lemma drop_next: "drop k m = xs @ r \<Longrightarrow> n = length xs \<Longrightarrow> drop (k + n) m = r"
  by (metis add.commute append_eq_conv_conj drop_drop)

lemma drop_length: "drop k m = xs @ r \<Longrightarrow> xs \<noteq> [] \<Longrightarrow> k + length xs + length r = length m"
  by (metis add.commute add.left_commute append_is_Nil_conv drop_eq_Nil2 le_add_diff_inverse2 length_append length_drop nat_le_linear)

lemma slice_at: "drop k m = xs @ r \<Longrightarrow> xs \<noteq> [] \<Longrightarrow> slice m k (length xs) = Some xs"
  using drop_length [of k m xs r] by (simp add: slice_def)

lemma rd_le_at: "drop k m = le_bytes n v @ r \<Longrightarrow> v < 256 ^ n \<Longrightarrow> 0 < n \<Longrightarrow> rd_le n m k = Some v"
  using slice_at [of k m "le_bytes n v" r] length_le_bytes [of n v] by (auto simp: rd_le_def le_val_le_bytes simp flip: length_greater_0_conv)

lemma rd_be_at: "drop k m = be_bytes n v @ r \<Longrightarrow> v < 256 ^ n \<Longrightarrow> 0 < n \<Longrightarrow> rd_be n m k = Some v"
  using slice_at [of k m "be_bytes n v" r] length_be_bytes [of n v]
  by (auto simp: rd_be_def be_val_def be_bytes_def le_val_le_bytes simp flip: length_greater_0_conv)

lemma slice_at_prefix: "drop k m = xs @ r \<Longrightarrow> xs \<noteq> [] \<Longrightarrow> j + n \<le> length xs \<Longrightarrow> slice m (k + j) n = slice xs j n"
  using drop_length [of k m xs r] by (auto simp: slice_def add.commute simp flip: drop_drop)

lemma be_val_be_bytes: "v < 256 ^ n \<Longrightarrow> be_val (be_bytes n v) = v"
  by (simp add: be_val_def be_bytes_def le_val_le_bytes)

text \<open>A superblob: the types and the bytes of its blobs, each with its magic and its length in front.\<close>

fun index_bytes :: "nat \<Rightarrow> (nat \<times> mem) list \<Rightarrow> mem" where
  "index_bytes pos [] = []"
| "index_bytes pos ((t, x) # bs) = be_bytes 4 t @ be_bytes 4 pos @ index_bytes (pos + length x) bs"

definition superblob_size :: "(nat \<times> mem) list \<Rightarrow> nat" where
  "superblob_size bs = 12 + 8 * length bs + length (concat (map snd bs))"

definition superblob :: "(nat \<times> mem) list \<Rightarrow> mem" where
  "superblob bs = be_bytes 4 0xfade0cc0 @ be_bytes 4 (superblob_size bs) @ be_bytes 4 (length bs) @
     index_bytes (12 + 8 * length bs) bs @ concat (map snd bs)"

definition is_code_directory :: "mem \<Rightarrow> bool" where
  "is_code_directory x \<longleftrightarrow> be_val (take 4 x) = kSecCodeMagicCodeDirectory"

definition good_blob :: "nat \<times> mem \<Rightarrow> bool" where
  "good_blob b \<longleftrightarrow> fst b < 2 ^ 32 \<and> 8 \<le> length (snd b) \<and> be_val (take 4 (drop 4 (snd b))) = length (snd b) \<and>
     (is_code_directory (snd b) \<longrightarrow> 44 \<le> length (snd b))"

text \<open>The code directory of the algorithm: the first one with hashes of its size, but none of an App Store program.\<close>

definition serves :: "algorithm \<Rightarrow> mem \<Rightarrow> bool" where
  "serves Algorithm x \<longleftrightarrow> is_code_directory x \<and> unat (x ! 36) = hash_size Algorithm"

definition signing_directory :: "algorithm \<Rightarrow> (nat \<times> mem) list \<Rightarrow> mem option" where
  "signing_directory Algorithm bs = (if app_store (superblob bs) then None else map_option snd (List.find (\<lambda>b. serves Algorithm (snd b)) bs))"

lemma length_index_bytes [simp]: "length (index_bytes pos bs) = 8 * length bs"
  by (induction pos bs rule: index_bytes.induct) auto

lemma length_superblob: "length (superblob bs) = superblob_size bs"
  by (simp add: superblob_def superblob_size_def)

lemma match_blob_found:
  assumes "drop (b + 12 + 8 * i) m = index_bytes pos bs @ r1" "drop (b + pos) m = concat (map snd bs) @ r2" "8 \<le> length r1"
    "bs \<noteq> [] \<Longrightarrow> cdb = b + pos" "\<forall>x \<in> set bs. good_blob x" "pos + length (concat (map snd bs)) < 2 ^ 32"
  shows "\<exists>res. match_blob m Algorithm b (length bs) i cdb = Some res \<and>
    (case List.find (\<lambda>b. serves Algorithm (snd b)) bs of
       None \<Rightarrow> res = None
     | Some x \<Rightarrow> x \<in> set bs \<and> (\<exists>p r. res = Some p \<and> drop p m = snd x @ r))"
  using assms
proof (induction bs arbitrary: i pos cdb)
  case Nil
  then show ?case by simp
next
  case (Cons tx bs)
  obtain t x where tx: "tx = (t, x)" by (cases tx)
  have x: "drop cdb m = x @ concat (map snd bs) @ r2" "8 \<le> length x" "is_code_directory x \<Longrightarrow> 44 \<le> length x" "cdb = b + pos"
    using Cons.prems(2,4,5) by (auto simp: tx good_blob_def)
  have magic: "rd_be 4 m cdb = Some (be_val (take 4 x))"
    using slice_at_prefix [OF x(1), of 0 4] x(2) by (simp add: rd_be_def slice_in [of 0 4 x] flip: length_greater_0_conv)
  have size_read: "rd_le 1 m (cdb + 36) = Some (unat (x ! 36))" if "is_code_directory x"
  proof -
    have "slice m (cdb + 36) 1 = slice x 36 1" using slice_at_prefix [OF x(1), of 36 1] x(2) x(3) [OF that] by fastforce
    also have "\<dots> = Some [x ! 36]" using x(3) [OF that] by (simp add: slice_def take_Suc hd_drop_conv_nth)
    finally show ?thesis by (simp add: rd_le_def)
  qed
  show ?case
  proof (cases "serves Algorithm x")
    case True
    then show ?thesis using magic size_read x(1) by (auto simp: tx serves_def is_code_directory_def)
  next
    case False
    have i1: "drop (b + 12 + 8 * (i + 1)) m = index_bytes (pos + length x) bs @ r1"
      using drop_next [OF Cons.prems(1) [unfolded tx index_bytes.simps, simplified append_assoc], of 4]
        drop_next [of "b + 12 + 8 * i + 4" m "be_bytes 4 pos" _ 4] by (simp add: add.commute add.left_commute)
    have p1: "drop (b + (pos + length x)) m = concat (map snd bs) @ r2"
      using drop_next [OF x(1) refl] by (simp add: x(4) add.assoc)
    have "length (drop (b + 12 + 8 * (i + 1)) m) \<ge> 8" using Cons.prems(3) unfolding i1 by simp
    then have "\<exists>v. rd_be 4 m (b + 12 + 8 * (i + 1) + 4) = Some v \<and> (bs \<noteq> [] \<longrightarrow> v = pos + length x)"
    proof (cases bs)
      case Nil
      then show ?thesis using \<open>8 \<le> length (drop _ _)\<close> by (auto simp: rd_be_in)
    next
      case (Cons a as)
      obtain t' x' where a: "a = (t', x')" by (cases a)
      have "drop (b + 12 + 8 * (i + 1)) m = be_bytes 4 t' @ be_bytes 4 (pos + length x) @ index_bytes (pos + length x + length x') as @ r1"
        using i1 by (simp add: Cons a)
      from rd_be_at [OF drop_next [OF this, of 4]] show ?thesis using Cons.prems(6) by (simp add: tx)
    qed
    then obtain v where v: "rd_be 4 m (b + 12 + 8 * (i + 1) + 4) = Some v" "bs \<noteq> [] \<Longrightarrow> v = pos + length x" by auto
    have next_blob: "match_blob m Algorithm b (length (tx # bs)) i cdb = match_blob m Algorithm b (length bs) (i + 1) (b + v)"
      using magic size_read False v(1) by (auto simp: serves_def is_code_directory_def)
    have "\<exists>res. match_blob m Algorithm b (length bs) (i + 1) (b + v) = Some res \<and>
        (case List.find (\<lambda>b. serves Algorithm (snd b)) bs of
           None \<Rightarrow> res = None
         | Some x \<Rightarrow> x \<in> set bs \<and> (\<exists>p r. res = Some p \<and> drop p m = snd x @ r))"
      by (rule Cons.IH [OF i1 p1 Cons.prems(3)]) (use v(2) Cons.prems(5,6) in \<open>auto simp: tx\<close>)
    then show ?thesis unfolding next_blob using False by (auto simp: tx split: option.splits)
  qed
qed

text \<open>A signed image: fields of the header that are not looked at, the load commands before the last, what lies before the
  superblob, the superblob and the rest; in a file on its own or, for the architectures given, in a fat file.\<close>

record signed_image =
  im_cpu :: mem
  im_flags :: mem
  im_commands :: "mem list"
  im_gap :: mem
  im_blobs :: "(nat \<times> mem) list"
  im_rest :: mem

definition signature_offset :: "signed_image \<Rightarrow> nat" where
  "signature_offset im = 32 + length (concat (im_commands im)) + 16 + length (im_gap im)"

definition image_bytes :: "signed_image \<Rightarrow> mem" where
  "image_bytes im = le_bytes 4 MH_MAGIC_64 @ im_cpu im @ le_bytes 4 (length (im_commands im) + 1) @ im_flags im @
     concat (im_commands im) @
     le_bytes 4 LC_CODE_SIGNATURE @ le_bytes 4 16 @ le_bytes 4 (signature_offset im) @ le_bytes 4 (superblob_size (im_blobs im)) @
     im_gap im @ superblob (im_blobs im) @ im_rest im"

definition good_command :: "mem \<Rightarrow> bool" where
  "good_command c \<longleftrightarrow> 8 \<le> length c \<and> le_val (take 4 (drop 4 c)) = length c"

definition good_image :: "signed_image \<Rightarrow> bool" where
  "good_image im \<longleftrightarrow> length (im_cpu im) = 12 \<and> length (im_flags im) = 12 \<and> (\<forall>c \<in> set (im_commands im). good_command c) \<and>
     length (im_commands im) + 1 < 2 ^ 31 \<and> im_blobs im \<noteq> [] \<and> (\<forall>b \<in> set (im_blobs im). good_blob b) \<and>
     signature_offset im < 2 ^ 32 \<and> superblob_size (im_blobs im) < 2 ^ 31"

type_synonym fat_entry = "nat \<times> mem \<times> nat \<times> mem"

definition entry_bytes :: "fat_entry \<Rightarrow> mem" where
  "entry_bytes = (\<lambda>(cputype, cpusubtype, pos, size_align). be_bytes 4 cputype @ cpusubtype @ be_bytes 4 pos @ size_align)"

definition good_entry :: "fat_entry \<Rightarrow> bool" where
  "good_entry = (\<lambda>(cputype, cpusubtype, pos, size_align).
     cputype < 2 ^ 32 \<and> length cpusubtype = 4 \<and> pos < 2 ^ 32 \<and> length size_align = 8)"

definition CPU_TYPE_ARM64 :: nat where "CPU_TYPE_ARM64 = 0x100000c"

definition fat_bytes :: "fat_entry list \<Rightarrow> mem \<Rightarrow> mem" where
  "fat_bytes es body = be_bytes 4 0xcafebabe @ be_bytes 4 (length es) @ concat (map entry_bytes es) @ body"

text \<open>Where the image is in its file: at the start, or where the last entry for ARM64 points.\<close>

definition file_holds :: "mem \<Rightarrow> nat \<Rightarrow> mem \<Rightarrow> bool" where
  "file_holds file_contents mh img \<longleftrightarrow>
     (\<exists>rest. drop mh file_contents = img @ rest) \<and>
     (mh = 0 \<or>
      (\<exists>es body. file_contents = fat_bytes es body \<and> length es < 2 ^ 31 \<and> (\<forall>e \<in> set es. good_entry e) \<and>
         (\<exists>es1 sub sa es2. es = es1 @ (CPU_TYPE_ARM64, sub, mh, sa) # es2 \<and> CPU_TYPE_ARM64 \<notin> fst ` set es2)))"

lemma cputype_stored: "v < 2 ^ 32 \<Longrightarrow> le_val (be_bytes 4 v) = 0xc000001 \<longleftrightarrow> v = CPU_TYPE_ARM64"
proof
  assume v: "v < 2 ^ 32" "le_val (be_bytes 4 v) = 0xc000001"
  then have "be_bytes 4 v = le_bytes 4 0xc000001" using le_bytes_le_val [of "be_bytes 4 v" 4] by simp
  also have "\<dots> = be_bytes 4 CPU_TYPE_ARM64" by (simp add: be_bytes_def CPU_TYPE_ARM64_def le_bytes_4)
  finally have "le_bytes 4 v = le_bytes 4 CPU_TYPE_ARM64" by (simp add: be_bytes_def)
  then show "v = CPU_TYPE_ARM64" using v(1) le_val_le_bytes [of v 4] le_val_le_bytes [of CPU_TYPE_ARM64 4] by (simp add: CPU_TYPE_ARM64_def)
next
  assume "v = CPU_TYPE_ARM64"
  then show "le_val (be_bytes 4 v) = 0xc000001" by (simp add: be_bytes_def CPU_TYPE_ARM64_def le_bytes_4)
qed

lemma fat_archs_last:
  "drop fa m = concat (map entry_bytes es) @ r \<Longrightarrow> \<forall>e \<in> set es. good_entry e \<Longrightarrow>
   fat_archs m (length es) fa mh = Some (fold (\<lambda>(cputype, _, pos, _) mh. if cputype = CPU_TYPE_ARM64 then pos else mh) es mh)"
proof (induction es arbitrary: fa mh)
  case (Cons e es)
  obtain c sub pos sa where e: "e = (c, sub, pos, sa)" by (cases e) auto
  have ok: "c < 2 ^ 32" "length sub = 4" "pos < 2 ^ 32" "length sa = 8" using Cons.prems(2) by (auto simp: e good_entry_def)
  have d: "drop fa m = be_bytes 4 c @ sub @ be_bytes 4 pos @ sa @ concat (map entry_bytes es) @ r"
    using Cons.prems(1) by (simp add: e entry_bytes_def)
  have "slice m fa 4 = Some (be_bytes 4 c)" using slice_at [OF d] by (metis length_be_bytes length_0_conv zero_neq_numeral)
  then have c: "rd_le 4 m fa = Some (le_val (be_bytes 4 c))" by (simp add: rd_le_def)
  have d8: "drop (fa + 8) m = be_bytes 4 pos @ sa @ concat (map entry_bytes es) @ r"
  proof -
    have "drop (fa + 4) m = sub @ be_bytes 4 pos @ sa @ concat (map entry_bytes es) @ r" by (rule drop_next [OF d]) simp
    from drop_next [OF this ok(2) [symmetric]] show ?thesis by (simp add: add.commute)
  qed
  have d20: "drop (fa + 20) m = concat (map entry_bytes es) @ r"
  proof -
    have "drop (fa + 8 + 4) m = sa @ concat (map entry_bytes es) @ r" by (rule drop_next [OF d8]) simp
    from drop_next [OF this ok(4) [symmetric]] show ?thesis by (simp add: add.commute)
  qed
  show ?case
    using c rd_be_at [OF d8] ok(1,3) Cons.IH [OF d20] Cons.prems(2) by (simp add: cputype_stored e)
qed simp

lemma header_found:
  assumes "file_holds m mh img" "img = le_bytes 4 MH_MAGIC_64 @ r"
  shows "mach_header_at m = Some (Some mh)"
proof -
  obtain rest where "drop mh m = img @ rest" using assms(1) by (auto simp: file_holds_def)
  then have magic: "rd_le 4 m mh = Some MH_MAGIC_64" using rd_le_at [of mh m 4 MH_MAGIC_64] assms(2) by (simp add: MH_MAGIC_64_def)
  show ?thesis
  proof (cases "mh = 0")
    case True
    then show ?thesis using magic by (simp add: mach_header_at_def)
  next
    case False
    then obtain es body es1 sub sa es2 where es: "m = fat_bytes es body" "length es < 2 ^ 31" "\<forall>e \<in> set es. good_entry e"
        "es = es1 @ (CPU_TYPE_ARM64, sub, mh, sa) # es2" "CPU_TYPE_ARM64 \<notin> fst ` set es2"
      using assms(1) unfolding file_holds_def by blast
    have none: "fold (\<lambda>(cputype, _, pos, _) mh. if cputype = CPU_TYPE_ARM64 then pos else mh) es2 k = k" for k
      using es(5) by (induction es2) (auto simp: split_beta)
    have "drop 0 m = le_bytes 4 FAT_CIGAM @ be_bytes 4 (length es) @ concat (map entry_bytes es) @ body"
      by (simp add: es(1) fat_bytes_def FAT_CIGAM_def be_bytes_def le_bytes_4)
    note d = this
    have d4: "drop 4 m = be_bytes 4 (length es) @ concat (map entry_bytes es) @ body" using drop_next [OF d, of 4] by simp
    have d8: "drop 8 m = concat (map entry_bytes es) @ body" using drop_next [OF d4, of 4] by simp
    have "rd_le 4 m 0 = Some FAT_CIGAM" using rd_le_at [OF d] by (simp add: FAT_CIGAM_def)
    moreover have "rd_be 4 m 4 = Some (length es)" using rd_be_at [OF d4] es(2) by simp
    moreover have "fat_archs m (length es) 8 0 = Some mh"
      using fat_archs_last [OF d8 es(3), of 0] none by (simp add: es(4))
    ultimately show ?thesis using magic es(2) by (simp add: mach_header_at_def FAT_CIGAM_def MH_MAGIC_64_def)
  qed
qed

lemma walk_commands_end:
  "drop lc m = concat cs @ r \<Longrightarrow> \<forall>c \<in> set cs. good_command c \<Longrightarrow>
   walk_commands m (length cs) lc = Some (lc + length (concat cs))"
proof (induction cs arbitrary: lc)
  case (Cons c cs)
  have c: "8 \<le> length c" "le_val (take 4 (drop 4 c)) = length c" using Cons.prems(2) by (auto simp: good_command_def)
  have d: "drop lc m = c @ concat cs @ r" using Cons.prems(1) by simp
  have "slice m (lc + 4) 4 = slice c 4 4" using slice_at_prefix [OF d, of 4 4] c(1) by fastforce
  then have "rd_le 4 m (lc + 4) = Some (length c)" using c by (simp add: rd_le_def slice_in)
  then show ?case using Cons.IH [OF drop_next [OF d refl]] Cons.prems(2) by simp
qed simp

lemma directory_found:
  assumes at_b: "drop b m = superblob bs @ r" and bs: "bs \<noteq> []" "\<forall>x \<in> set bs. good_blob x" "superblob_size bs < 2 ^ 31"
  shows "\<exists>res. code_directory_at m Algorithm b = Some res \<and>
    (case signing_directory Algorithm bs of
       None \<Rightarrow> res = None
     | Some x \<Rightarrow> 8 \<le> length x \<and> be_val (take 4 (drop 4 x)) = length x \<and> length x < 2 ^ 31 \<and> (\<exists>p r. res = Some p \<and> drop p m = x @ r))"
proof -
  let ?pos = "12 + 8 * length bs" and ?blobs = "concat (map snd bs)"
  obtain t x bs' where first: "bs = (t, x) # bs'" using bs(1) by (cases bs) auto
  have d0: "drop b m = be_bytes 4 0xfade0cc0 @ be_bytes 4 (superblob_size bs) @ be_bytes 4 (length bs) @ index_bytes ?pos bs @ ?blobs @ r"
    using at_b by (simp add: superblob_def)
  have d4: "drop (b + 4) m = be_bytes 4 (superblob_size bs) @ be_bytes 4 (length bs) @ index_bytes ?pos bs @ ?blobs @ r"
    by (rule drop_next [OF d0]) simp
  have d8: "drop (b + 4 + 4) m = be_bytes 4 (length bs) @ index_bytes ?pos bs @ ?blobs @ r" by (rule drop_next [OF d4]) simp
  have d12: "drop (b + 4 + 4 + 4) m = index_bytes ?pos bs @ ?blobs @ r" by (rule drop_next [OF d8]) simp
  have dblobs: "drop (b + 4 + 4 + 4 + 8 * length bs) m = ?blobs @ r" by (rule drop_next [OF d12]) simp
  have d12': "drop (b + 4 + 4 + 4) m = be_bytes 4 t @ be_bytes 4 ?pos @ index_bytes (?pos + length x) bs' @ ?blobs @ r"
    using d12 by (simp add: first)
  have d16: "drop (b + 4 + 4 + 4 + 4) m = be_bytes 4 ?pos @ index_bytes (?pos + length x) bs' @ ?blobs @ r"
    by (rule drop_next [OF d12']) simp
  have small: "length bs < 2 ^ 32" "t < 2 ^ 32" "?pos < 2 ^ 32" "superblob_size bs < 2 ^ 32" "?pos + length ?blobs < 2 ^ 32"
    using bs(2,3) by (auto simp: superblob_size_def first good_blob_def)
  have long: "8 \<le> length x" using bs(2) by (simp add: first good_blob_def)
  have reads: "rd_be 4 m (b + 4) = Some (superblob_size bs)" "rd_be 4 m (b + 8) = Some (length bs)"
      "rd_be 4 m (b + 12) = Some t" "rd_be 4 m (b + 16) = Some ?pos"
    using rd_be_at [OF d4] rd_be_at [OF d8] rd_be_at [OF d12'] rd_be_at [OF d16] small by (simp_all add: add.commute)
  have "superblob bs \<noteq> []" by (simp add: superblob_def be_bytes_def le_bytes_4)
  then have whole: "slice m b (superblob_size bs) = Some (superblob bs)" using slice_at [OF at_b] by (simp add: length_superblob)
  have "drop (b + ?pos) m = x @ concat (map snd bs') @ r" using dblobs by (simp add: first add.commute add.left_commute)
  then have "slice m (b + ?pos + 0) 4 = slice x 0 4" using long slice_at_prefix [of "b + ?pos" m x _ 0 4] by fastforce
  then have magic: "rd_be 4 m (b + ?pos) = Some (be_val (take 4 x))" using long by (simp add: rd_be_def slice_in)
  have "\<exists>res. match_blob m Algorithm b (length bs) 0 (b + ?pos) = Some res \<and>
      (case List.find (\<lambda>b. serves Algorithm (snd b)) bs of
         None \<Rightarrow> res = None
       | Some x \<Rightarrow> x \<in> set bs \<and> (\<exists>p r. res = Some p \<and> drop p m = snd x @ r))"
    by (rule match_blob_found [where pos = ?pos and ?r1.0 = "?blobs @ r" and ?r2.0 = r])
      (use d12 dblobs bs(2) long small(5) in \<open>auto simp: add.commute add.left_commute first\<close>)
  moreover have "length y \<le> superblob_size bs" if "(t', y) \<in> set bs" for t' y
    using that member_le_sum_list [of "length y" "map (length \<circ> snd) bs"] by (force simp: superblob_size_def length_concat comp_def image_iff)
  ultimately show ?thesis
    using reads whole magic bs(2,3)
    by (fastforce simp: code_directory_at_def signing_directory_def good_blob_def split: option.splits)
qed

lemma cdHash_signed:
  assumes "file_holds m mh (image_bytes im)" and good: "good_image im"
  shows "cdHashOfFile sha256 sha1 cdHash (Some m) Algorithm =
    Some (map_option (digest_into sha256 sha1 Algorithm cdHash) (signing_directory Algorithm (im_blobs im)))"
proof -
  let ?cs = "concat (im_commands im)" and ?sb = "superblob (im_blobs im)"
  let ?sig = "le_bytes 4 LC_CODE_SIGNATURE @ le_bytes 4 16 @ le_bytes 4 (signature_offset im) @ le_bytes 4 (superblob_size (im_blobs im))"
  obtain rest where "drop mh m = image_bytes im @ rest" using assms(1) by (auto simp: file_holds_def)
  then have d0: "drop mh m = (le_bytes 4 MH_MAGIC_64 @ im_cpu im) @ le_bytes 4 (length (im_commands im) + 1) @ im_flags im @ ?cs @ ?sig @
      im_gap im @ ?sb @ im_rest im @ rest"
    by (simp add: image_bytes_def)
  note im = good [unfolded good_image_def]
  have d16: "drop (mh + 16) m = le_bytes 4 (length (im_commands im) + 1) @ im_flags im @ ?cs @ ?sig @ im_gap im @ ?sb @ im_rest im @ rest"
    by (rule drop_next [OF d0]) (use im in simp)
  have d20: "drop (mh + 16 + 4) m = im_flags im @ ?cs @ ?sig @ im_gap im @ ?sb @ im_rest im @ rest" by (rule drop_next [OF d16]) simp
  have d32: "drop (mh + 16 + 4 + 12) m = ?cs @ ?sig @ im_gap im @ ?sb @ im_rest im @ rest" by (rule drop_next [OF d20]) (use im in simp)
  then have d32': "drop (mh + 32) m = ?cs @ ?sig @ im_gap im @ ?sb @ im_rest im @ rest" by (simp add: add.commute)
  define lc where "lc = mh + 32 + length ?cs"
  have s0: "drop lc m = ?sig @ im_gap im @ ?sb @ im_rest im @ rest"
    unfolding lc_def by (rule drop_next [OF d32' refl])
  have s4: "drop (lc + 4) m = le_bytes 4 16 @ le_bytes 4 (signature_offset im) @ le_bytes 4 (superblob_size (im_blobs im)) @
      im_gap im @ ?sb @ im_rest im @ rest" by (rule drop_next [OF s0 [simplified append_assoc]]) simp
  have s8: "drop (lc + 4 + 4) m = le_bytes 4 (signature_offset im) @ le_bytes 4 (superblob_size (im_blobs im)) @
      im_gap im @ ?sb @ im_rest im @ rest" by (rule drop_next [OF s4]) simp
  have s12: "drop (lc + 4 + 4 + 4) m = le_bytes 4 (superblob_size (im_blobs im)) @ im_gap im @ ?sb @ im_rest im @ rest"
    by (rule drop_next [OF s8]) simp
  have s16: "drop (lc + 4 + 4 + 4 + 4) m = im_gap im @ ?sb @ im_rest im @ rest" by (rule drop_next [OF s12]) simp
  have blob: "drop (mh + signature_offset im) m = ?sb @ im_rest im @ rest"
    using drop_next [OF s16 refl] by (simp add: lc_def signature_offset_def add.assoc add.left_commute add.commute)
  have header: "mach_header_at m = Some (Some mh)"
    by (rule header_found [OF assms(1)]) (auto simp: image_bytes_def)
  have "rd_le 4 m (mh + 16) = Some (length (im_commands im) + 1)" using rd_le_at [OF d16] im by simp
  moreover have "walk_commands m (length (im_commands im)) (mh + 32) = Some lc"
    using walk_commands_end [of "mh + 32" m "im_commands im"] d32' im by (simp add: lc_def)
  ultimately have last: "last_command m mh = Some lc" using im by (simp add: last_command_def sizeof_mach_header_64_def)
  have reads: "rd_le 4 m lc = Some LC_CODE_SIGNATURE" "rd_le 4 m (lc + 8) = Some (signature_offset im)"
      "rd_le 4 m (lc + 12) = Some (superblob_size (im_blobs im))"
    using rd_le_at [OF s0 [simplified append_assoc]] rd_le_at [OF s8] rd_le_at [OF s12] im by (simp_all add: LC_CODE_SIGNATURE_def add.commute)
  obtain res where res: "code_directory_at m Algorithm (mh + signature_offset im) = Some res"
      "case signing_directory Algorithm (im_blobs im) of
         None \<Rightarrow> res = None
       | Some x \<Rightarrow> 8 \<le> length x \<and> be_val (take 4 (drop 4 x)) = length x \<and> length x < 2 ^ 31 \<and> (\<exists>p r. res = Some p \<and> drop p m = x @ r)"
    using directory_found [OF blob, of Algorithm] im by blast
  show ?thesis
  proof (cases "signing_directory Algorithm (im_blobs im)")
    case None
    then show ?thesis using header last reads res by (simp add: cdHashOfFile_def)
  next
    case (Some x)
    then obtain p r where x: "res = Some p" "drop p m = x @ r" "8 \<le> length x" "be_val (take 4 (drop 4 x)) = length x" "length x < 2 ^ 31"
      using res(2) by auto
    have "slice m (p + 4) 4 = slice x 4 4" using slice_at_prefix [OF x(2), of 4 4] x(3) by fastforce
    then have "rd_be 4 m (p + 4) = Some (length x)" using x(3,4) by (simp add: rd_be_def slice_in)
    moreover have "slice m p (length x) = Some x" using slice_at [OF x(2)] x(3) by fastforce
    ultimately show ?thesis using header last reads res(1) x(1,5) Some by (simp add: cdHashOfFile_def)
  qed
qed

section \<open>What is answered\<close>

definition resumed_at :: "arm_thread_state \<Rightarrow> 64 word" where
  "resumed_at st = and (arm_lr st) 0xfffffffffffff000 + 0x0ef4"

definition digest_of :: "'t amfi_env \<Rightarrow> mem \<Rightarrow> mem" where
  "digest_of env cd = (case env_algorithm env of ALGORITHM_SHA256 \<Rightarrow> take 20 (env_sha256 env cd) | ALGORITHM_SHA1 \<Rightarrow> env_sha1 env cd)"

text \<open>C38: For a request about a signed file, alone or in a fat file, the handler writes the first 20 bytes of the digest of
  the file's code directory for the algorithm, and then the number 1, into the task that asks, and resumes it behind the
  call; when the file has no such directory, or is signed by the App Store, it goes on at the original function. What is
  written never depends on earlier requests.\<close>

theorem request_answered:
  assumes "vm_read env victim (arm_x st 25) 0x200 = Some name_bytes" "cstr_of name_bytes = Some fileName"
    "files env fileName = Some m" "file_holds m mh (image_bytes im)" "good_image im" "\<forall>cd. length (env_sha1 env cd) = 20"
  shows "\<exists>cdHash'. answer_exception env cdHash victim msg st = Some
    (case signing_directory (env_algorithm env) (im_blobs im) of
       None \<Rightarrow> (cdHash, vm_write env victim (arm_pc st) (original_code env), st\<lparr>arm_pc := MVSACI_addr env\<rparr>, exception_reply_to msg)
     | Some cd \<Rightarrow> (cdHash', vm_write env (vm_write env victim (arm_x st 24) (digest_of env cd)) (arm_x st 20) [1, 0, 0, 0],
         st\<lparr>arm_pc := resumed_at st\<rparr>, exception_reply_to msg))"
  using assms
  by (auto simp: answer_exception_def cdHash_signed [OF assms(4,5)] digest_into_def digest_of_def resumed_at_def le_bytes_4
      split: option.splits algorithm.splits)

text \<open>A fat file with an image whose second directory has hashes of 32 bytes.\<close>

definition small_directory :: "byte \<Rightarrow> mem" where
  "small_directory hashSize = be_bytes 4 kSecCodeMagicCodeDirectory @ be_bytes 4 44 @ replicate 28 0 @ [hashSize] @ replicate 7 0"

definition small_image :: signed_image where
  "small_image = \<lparr>im_cpu = replicate 12 0, im_flags = replicate 12 0, im_commands = [[1, 0, 0, 0, 8, 0, 0, 0]], im_gap = [7],
     im_blobs = [(0, small_directory 20), (0x1000, small_directory 32)], im_rest = []\<rparr>"

definition small_fat_file :: mem where
  "small_fat_file = fat_bytes [(7, [0, 0, 0, 0], 0, replicate 8 0), (CPU_TYPE_ARM64, [0, 0, 0, 0], 50, replicate 8 0)] ([9, 9] @ image_bytes small_image)"

text \<open>The victim is the list of what was written into it.\<close>

definition small_env :: "(64 word \<times> mem) list amfi_env" where
  "small_env = \<lparr>vm_read = (\<lambda>_ _ _. Some [97, 0]), vm_write = (\<lambda>t a bs. t @ [(a, bs)]), files = (\<lambda>_. Some small_fat_file),
     env_sha256 = (\<lambda>cd. take 32 (drop 12 cd)), env_sha1 = (\<lambda>_. replicate 20 1), MVSACI_addr = 4096, original_code = replicate 8 0,
     env_algorithm = ALGORITHM_SHA256\<rparr>"

lemma small_serves: "serves ALGORITHM_SHA256 (small_directory h) \<longleftrightarrow> h = 32"
proof -
  have "unat h = 32 \<longleftrightarrow> h = 32" for h :: byte by (simp add: word_unat_eq_iff)
  then show ?thesis
    by (simp add: serves_def is_code_directory_def small_directory_def be_val_be_bytes kSecCodeMagicCodeDirectory_def hash_size_def nth_append)
qed

lemma small_unrefused: "\<not> app_store (superblob (im_blobs small_image))"
proof -
  have "65 \<in> set (take 10 (str ''Apple Certi''))" by (simp add: str_def)
  moreover have "65 \<notin> set (superblob (im_blobs small_image))"
    by (simp add: superblob_def superblob_size_def small_image_def small_directory_def be_bytes_def le_bytes_4 kSecCodeMagicCodeDirectory_def)
  ultimately show ?thesis by (auto simp: app_store_def strstr_iff)
qed

lemma request_answered_witness:
  "\<exists>cdHash'. answer_exception small_env (replicate 32 0) [] \<lparr>msgh_bits = 0x1112, msgh_remote_port = 5, msgh_id = 2405\<rparr>
      \<lparr>arm_x = of_nat, arm_lr = 0x12345, arm_pc = 0x454d41524542494c\<rparr> =
    Some (cdHash', [(24, replicate 20 0), (20, [1, 0, 0, 0])], \<lparr>arm_x = of_nat, arm_lr = 0x12345, arm_pc = 0x12ef4\<rparr>,
      \<lparr>reply_bits = 0x12, reply_size = 36, reply_remote_port = 5, reply_local_port = 0, reply_id = 2505, RetCode = 0\<rparr>)"
proof -
  let ?st = "\<lparr>arm_x = of_nat, arm_lr = 0x12345, arm_pc = 0x454d41524542494c\<rparr>"
  have "file_holds small_fat_file 50 (image_bytes small_image)"
    unfolding file_holds_def
  proof (intro conjI disjI2)
    show "\<exists>rest. drop 50 small_fat_file = image_bytes small_image @ rest"
      by (simp add: small_fat_file_def fat_bytes_def entry_bytes_def)
    let ?es = "[(7, [0, 0, 0, 0], 0, replicate 8 0), (CPU_TYPE_ARM64, [0, 0, 0, 0], 50, replicate 8 0)]"
    have "?es = [(7, [0, 0, 0, 0], 0, replicate 8 0)] @ (CPU_TYPE_ARM64, [0, 0, 0, 0], 50, replicate 8 0) # []" by simp
    moreover have "length ?es < 2 ^ 31" "\<forall>e \<in> set ?es. good_entry e" by (simp_all add: good_entry_def CPU_TYPE_ARM64_def)
    ultimately show "\<exists>es body. small_fat_file = fat_bytes es body \<and> length es < 2 ^ 31 \<and> (\<forall>e \<in> set es. good_entry e) \<and>
        (\<exists>es1 sub sa es2. es = es1 @ (CPU_TYPE_ARM64, sub, 50, sa) # es2 \<and> CPU_TYPE_ARM64 \<notin> fst ` set es2)"
      unfolding small_fat_file_def by fastforce
  qed
  moreover have "good_image small_image"
    by (simp add: good_image_def small_image_def good_command_def good_blob_def small_directory_def be_val_be_bytes
        signature_offset_def superblob_size_def)
  moreover have "signing_directory ALGORITHM_SHA256 (im_blobs small_image) = Some (small_directory 32)"
    using small_unrefused small_serves by (simp add: signing_directory_def small_image_def)
  ultimately show ?thesis
    using request_answered [of small_env "[]" ?st "[97, 0]" "[97]" small_fat_file 50 small_image "replicate 32 0"
        "\<lparr>msgh_bits = 0x1112, msgh_remote_port = 5, msgh_id = 2405\<rparr>"]
    by (simp add: small_env_def digest_of_def small_directory_def resumed_at_def exception_reply_to_def)
qed

end
