(* ===== verification/Spec2Isabelle.thy ===== *)
theory Spec2Isabelle
  imports Lzss_Adler Lzss_Roundtrip Ota_Listing Ota_Format Ota_Main Smbios Lsock_Main Vmmap Joker_Main
    Ioreg_Main
    Dtize Ojtool Filemon Stackshot Snapshot Netbottom Amfid
begin

text \<open>
  A verification library for the command line tools of the repository. The tools are separate
  programs, one C file each under \<open>src/src\<close>; the library models those that have algorithms of their
  own. Every operation is an executable function over an explicit state. \<open>None\<close> stands for undefined
  behaviour of the C code (an access outside an array, a null pointer, an uninitialised or freed
  object), for a read that blocks, and for fuel that ran out; that a result exists is always a
  theorem of its own. Machine integers are words, or numbers with the wrap-around written out.

  \<^bold>\<open>Theories and code.\<close>

  \<^item> \<open>Prelude\<close>: bounds-checked arrays, memory images and their reads (\<open>rd_le\<close>, \<open>rd_be\<close>, \<open>slice\<close>), C strings,
    \<open>memmem\<close> and \<open>strstr\<close>, decimal text, the fuelled \<open>loop\<close>, the relation \<open>ends\<close> (a loop comes to its end in finitely many
    rounds, without any fuel), and the locale \<open>progress_loop\<close>: when every round decreases a measure, the loop ends, more
    fuel than the measure does not change the result, and the fuelled loop returns what the loop ends with. It is
    interpreted on the entry loop, its recovery and its search (\<open>Ota_Archive\<close>), the table walk (\<open>Smbios\<close>), the
    registration loop (\<open>Lsock_Main\<close>) and the kernel extension walk (\<open>Joker_Cache\<close>).
  \<^item> \<open>lzss.c\<close>: \<open>Lzss_Adler\<close> (\<open>lzadler32\<close>), \<open>Lzss_Decode\<close> (\<open>decompress_lzss\<close>), \<open>Lzss_Links\<close> and \<open>Lzss_Tree\<close>
    (\<open>insert_node\<close>, \<open>delete_node\<close> over the parent and child arrays; \<open>Lzss_Links\<close> has the abstract tree
    invariant), \<open>Lzss_Window\<close> (the locale \<open>match_finder\<close>, the contract between the trees and the compressor,
    interpreted on the trees), \<open>Lzss_Encode\<close> (\<open>compress_lzss\<close>), \<open>Lzss_Roundtrip\<close>.
  \<^item> \<open>ota.c\<close>: \<open>Ota_Entry\<close> (\<open>processFile\<close>, \<open>processFileInner\<close>, \<open>extractFile\<close>, \<open>hashFile\<close>), \<open>Ota_Archive\<close>
    (archives, the end of the loops), \<open>Ota_Search\<close> (the search, \<open>doDiff\<close>), \<open>Ota_Listing\<close> (what the loop does on archives), \<open>Ota_Pbzx\<close> and \<open>Ota_Format\<close>
    (\<open>doPBZX\<close>, \<open>getULEB128\<close>, \<open>YAAright\<close>), \<open>Ota_Main\<close> (options). SHA-1, the XZ decoder and \<open>access\<close> are parameters.
  \<^item> \<open>smut.c\<close>: \<open>Smbios\<close> (\<open>getSMBString\<close>, \<open>parseSMBIOSStruct\<close>, \<open>parseBIOSData\<close>, \<open>hexDump\<close>).
  \<^item> \<open>lsock.c\<close>: \<open>Lsock_Text\<close> (the lines and their buffers), \<open>Lsock_Table\<close> (the table of sources and
    \<open>process_nstat_msg\<close>), \<open>Lsock_Main\<close> (\<open>addAll\<close>, \<open>querySources\<close>, options, keys and the main loop). The answers
    of the kernel and the name service are parameters.
  \<^item> \<open>12-1-vmmap.c\<close>: \<open>Vmmap\<close> (\<open>macosx_debug_regions\<close> over a parameter for \<open>mach_vm_region\<close>).
  \<^item> \<open>joker.c\<close>: \<open>Joker_Tables\<close> (name and signature tables), \<open>Joker_Kernel\<close> (\<open>identifyKext\<close>, \<open>dumpOps\<close>, \<open>doMIG\<close>,
    \<open>doMachTraps\<close>), \<open>Joker_Sysctl\<close> (\<open>doSysctls\<close>), \<open>Joker_Cache\<close> (\<open>tryLZSS\<close> over the decoder
    of \<open>lzss.c\<close>, \<open>doSandboxOperationNames\<close>, \<open>doSandboxProfiles\<close>, \<open>doPolicyOps\<close>, the second method of \<open>doKexts\<close>),
    \<open>Joker_Syscalls\<close> (releases, the search for the system call table, its listing), \<open>Joker_Extract\<close> (\<open>doKextract\<close>,
    \<open>symbolicateKextStubs\<close>), \<open>Joker_Plist\<close> (the first method of \<open>doKexts\<close>), \<open>Joker_Kexts\<close> (\<open>doKexts\<close>), \<open>Joker_Main\<close>
    (\<open>function_identifier\<close>, options, formats and \<open>main\<close>, with the files that are written on the way). What machlib says about an image is a parameter.
  \<^item> \<open>dtize.c\<close>: \<open>Dtize\<close> (\<open>getDTNode\<close> and the IM4P header).
  \<^item> \<open>ioreg.c\<close>: \<open>Ioreg_Print\<close> (the clipping printer; functions return the calls they make and how they end),
    \<open>Ioreg_Values\<close> (CoreFoundation objects, \<open>cfshow\<close>), \<open>Ioreg_Registry\<close> (options, the registry as a tree of entries
    that hold IOKit's answers, \<open>indent\<close>), \<open>Ioreg_Format\<close> (\<open>printProp\<close>, its decoders and \<open>printData\<close>), \<open>Ioreg_Dump\<close> and
    \<open>Ioreg_Cells\<close> (what the formats show), \<open>Ioreg_Tree\<close> (\<open>compare\<close>, \<open>show\<close>, \<open>scan\<close>, \<open>search\<close>), \<open>Ioreg_Scan\<close> and
    \<open>Ioreg_Search\<close> (what the traversals print), \<open>Ioreg_Archive\<close> (\<open>archive\<close>, \<open>archive_scan\<close>, \<open>archive_search\<close>, the
    types of their property lists), \<open>Ioreg_Main\<close> (options and \<open>main\<close>). The locale \<open>line_printer\<close> is the contract
    between the traversals and the printer, interpreted on \<open>run_calls\<close>.
  \<^item> \<open>filemon.c\<close>: \<open>Filemon\<close> (options, filters, the events of each buffer; the event interface is a parameter).
  \<^item> \<open>stackshot.c\<close>: \<open>Stackshot\<close> (the walk over the items of the kernel's buffer, their texts; the numbers and
    layouts of \<open>kern/kcdata.h\<close> are parameters). \<open>5-2-stack-snapshot.c\<close>: \<open>Snapshot\<close> (the older format, with the
    layouts of the file).
  \<^item> \<open>netbottom.c\<close>: \<open>Netbottom\<close> (the slots of the processes, the line of a description, options; the descriptions of
    NetworkStatistics, \<open>getnameinfo\<close> and the time are parameters).
  \<^item> \<open>amfidebilitate.c\<close>: \<open>Amfid\<close> (\<open>cdHashOfFile\<close> on Mach-O and fat files, \<open>findPidOfProcess\<close>, \<open>exceptionHandler\<close>; the
    digests, the files and the virtual memory calls are parameters).
  \<^item> \<open>ojtool.c\<close>: \<open>Ojtool\<close> (the filter over otool's lines, the parsers of jtool's output).

  The programs do not call each other; \<open>ota.c\<close> hands its chunks to a decoder outside the repository,
  and \<open>joker.c\<close> feeds compressed kernel caches to \<open>lzss.c\<close>: \<open>cache_like_kernel\<close> composes the decoder with the
  whole of joker.

  \<^bold>\<open>What the lemmas show.\<close> LZSS: the trees stay well formed and report genuine matches, the window
  invariant carries that through the compressor, hence the round trip; the checksum equals its reference.
  OTA, pbzx, ULEB, device tree: encode a well-formed input, run the code, get the content back, in
  order. SMBIOS: walk, strings and texts against a description of the table. lsock: the message handler
  refines the set of known sources, the lines show the counts of their sources in all reachable states, and \<open>addAll\<close> gets
  every source described when the provider answers. vmmap: the listing equals the maximal runs of regions
  that the comparison joins, but for the last. joker: the scanners list exactly the entries of the tables, sysctl names are the dotted paths, split
  extensions are written as consistent files, and a compressed cache is handled like its kernel, but for the files it leaves. ojtool: against a grammar of
  disassembly lines, numeric references become sums and other lines pass, with the exceptions the theorem names. ioreg: \<open>scan\<close> with its bit mask equals a rendering with a
  list of branches, \<open>search\<close> finds the topmost matches, the archive is a well-typed property list of the tree,
  printed lines are the clipped lines, dumps are complete. filemon: from the spelling of the options to the
  output, events are listed under the filters, and only those stop a process. stackshot: nested items are printed in order at their depth, and the records of the older format in order. netbottom:
  every description prints its line, and every process has one slot. amfidebilitate:
  the digest of the right code directory answers a request. Each theory has its own statements about errors: undefined inputs, loops that never end, buffers that are too small.

  \<^bold>\<open>Fuel.\<close> Loops over an input get its length plus one, which the progress lemmas show to be enough
  (\<open>processEntries_terminates\<close> and \<open>parseBIOSData_terminates\<close> say so without fuel, by \<open>ends\<close>; \<open>addAll_rounds\<close>); tree walks get the number of ring
  positions plus two (\<open>insert_loop_spec\<close>, \<open>rightmost_spec\<close>); \<open>getDTNode\<close> gets the length of the file as
  depth (\<open>getDTNode_fuel\<close>); the region loop gets more than the number of regions; the ancestors of a class get
  514 rounds, more than its string has room for (\<open>ancestry_ends\<close>); data dumps get one round per byte; the property list
  of a kernel cache gets one round per byte (\<open>plist_kexts_listed\<close>). \<open>examine\<close>, which decompresses a cache inside a cache, is
  a partial function. Where the
  program has no bound of its own (\<open>processYaa\<close>, \<open>dtize_main\<close>, \<open>stackshot_main\<close>, \<open>stack_snapshot_main\<close>) the fuel is an argument of the
  theorem, which says how much is enough or that none is.

  \<^bold>\<open>Not modelled.\<close> Calls into the system and what only prints their results: opening and mapping files,
  sockets, curses, IOKit, Mach task and thread calls, machlib, CoreFoundation. The demonstration programs are one system call each; \<open>17-1-lsock.c\<close> is
  an earlier version of \<open>lsock.c\<close>.
\<close>

end
